(* ===== verification/BP_Prelude.thy ===== *)
theory BP_Prelude
  imports Main "HOL-Library.Word"
begin

text \<open>
  Shared vocabulary of the development: the machine types the code uses, the lemma
  collections the component theories fill, and generic facts on lists and words that more
  than one component needs.
\<close>

unbundle bit_operations_syntax

section \<open>Machine types\<close>

type_synonym uint8 = "8 word"
type_synonym uint16 = "16 word"
type_synonym uint32 = "32 word"
type_synonym uint64 = "64 word"

text \<open>\<open>MemAddr\<close> of source_line_resolver_interface.h.\<close>

type_synonym mem_addr = "64 word"

type_synonym bytes = "8 word list"

section \<open>Lemma collections\<close>

named_theorems wf_intros \<open>an operation keeps the well-formedness predicate of its component\<close>
named_theorems lookup_simps \<open>what a lookup returns after an operation\<close>

section \<open>Lists\<close>

lemma length_takeWhile_less_nth:
  "length (takeWhile P xs) < length xs \<Longrightarrow> \<not> P (xs ! length (takeWhile P xs))"
  by (rule nth_length_takeWhile)

lemma nth_less_length_takeWhile: "i < length (takeWhile P xs) \<Longrightarrow> P (xs ! i)"
  by (metis nth_mem set_takeWhileD takeWhile_nth)

lemma length_takeWhile_mono:
  "(\<And>x. x \<in> set xs \<Longrightarrow> P x \<Longrightarrow> Q x) \<Longrightarrow> length (takeWhile P xs) \<le> length (takeWhile Q xs)"
  by (induction xs) auto

lemma take_length_takeWhile: "take (length (takeWhile P xs)) xs = takeWhile P xs"
  by (metis append_eq_conv_conj takeWhile_dropWhile_id)

lemma drop_length_takeWhile: "drop (length (takeWhile P xs)) xs = dropWhile P xs"
  by (metis append_eq_conv_conj takeWhile_dropWhile_id)

lemma sorted_wrt_dropWhile_all:
  assumes "sorted_wrt R xs"
    and step: "\<And>x y. R x y \<Longrightarrow> \<not> P x \<Longrightarrow> \<not> P y"
    and "y \<in> set (dropWhile P xs)"
  shows "\<not> P y"
  using assms(1,3)
proof (induction xs)
  case Nil
  then show ?case by simp
next
  case (Cons x xs)
  then show ?case
    by (cases "P x") (auto dest: step)
qed

lemma sorted_wrt_unique_length:
  assumes "\<And>k. k < i \<Longrightarrow> k < n \<Longrightarrow> P k" and "\<And>k. i \<le> k \<Longrightarrow> k < n \<Longrightarrow> \<not> P k"
    and "\<And>k. k < j \<Longrightarrow> k < n \<Longrightarrow> P k" and "\<And>k. j \<le> k \<Longrightarrow> k < n \<Longrightarrow> \<not> P k"
    and "i \<le> n" and "j \<le> n"
  shows "i = (j::nat)"
  by (metis assms linorder_not_le nat_less_le order_less_le_trans)

section \<open>Words\<close>

lemma word_le_plus_diff: "b \<le> (k::'a::len word) \<Longrightarrow> b + (k - b) = k"
  by simp

lemma word_less_add_one: "(k::'a::len word) < h \<Longrightarrow> k < k + 1"
  by unat_arith
lemma word_less_imp_add_one_le: "(k::'a::len word) < h \<Longrightarrow> k + 1 \<le> h"
  by (rule inc_le)

lemma word_add_one_le_iff: "(k::'a::len word) < h \<Longrightarrow> (k + 1 \<le> x) = (k < x)"
  by (meson inc_le order_less_le_trans word_less_add_one)

lemma unat_diff_Suc:
  assumes "b \<le> (k::'a::len word)" and "k < h"
  shows "unat (k - b + 1) = unat k - unat b + 1"
proof -
  have kb: "unat (k - b) = unat k - unat b"
    using assms(1) by (simp add: unat_sub)
  have "unat k < unat h" using assms(2) by (simp add: word_less_nat_alt)
  then have "unat (k - b) + 1 < 2 ^ LENGTH('a)"
    using kb unsigned_less [of h, where 'a=nat] by linarith
  then show ?thesis
    using kb by (simp add: unat_word_ariths)
qed

end
