(* ===== verification/Std_Map.thy ===== *)
theory Std_Map
  imports BP_Prelude
begin

text \<open>
  The part of \<open>std::map\<close> the sources use, as an association list in key order. An iterator
  is a position in that list: \<open>begin()\<close> is 0 and \<open>end()\<close> is the length. The locale
  \<open>key_search\<close> is the contract that \<open>lower_bound\<close> and \<open>upper_bound\<close> promise to the
  range maps; the tree-backed map here and the binary search over a serialized map
  (theory \<open>Static_Map\<close>) are its two providers. \<open>interval_search\<close> extends it to maps whose
  keys are the high ends of disjoint intervals.
\<close>

section \<open>The map and its operations\<close>

type_synonym ('k, 'v) std_map = "('k \<times> 'v) list"

definition lower_bound :: "('k::linorder, 'v) std_map \<Rightarrow> 'k \<Rightarrow> nat" where
  "lower_bound m k = length (takeWhile (\<lambda>e. fst e < k) m)"

definition upper_bound :: "('k::linorder, 'v) std_map \<Rightarrow> 'k \<Rightarrow> nat" where
  "upper_bound m k = length (takeWhile (\<lambda>e. fst e \<le> k) m)"

text \<open>\<open>insert\<close> leaves the map alone where the key is present; \<open>m[k] = v\<close> overwrites.\<close>

fun map_insert :: "'k::linorder \<Rightarrow> 'v \<Rightarrow> ('k, 'v) std_map \<Rightarrow> ('k, 'v) std_map" where
  "map_insert k v [] = [(k, v)]"
| "map_insert k v ((a, b) # m) =
     (if a < k then (a, b) # map_insert k v m
      else if a = k then (a, b) # m
      else (k, v) # (a, b) # m)"

fun map_assign :: "'k::linorder \<Rightarrow> 'v \<Rightarrow> ('k, 'v) std_map \<Rightarrow> ('k, 'v) std_map" where
  "map_assign k v [] = [(k, v)]"
| "map_assign k v ((a, b) # m) =
     (if a < k then (a, b) # map_assign k v m
      else if a = k then (a, v) # m
      else (k, v) # (a, b) # m)"

definition map_erase :: "nat \<Rightarrow> ('k, 'v) std_map \<Rightarrow> ('k, 'v) std_map" where
  "map_erase i m = take i m @ drop (Suc i) m"

definition map_erase_range :: "nat \<Rightarrow> nat \<Rightarrow> ('k, 'v) std_map \<Rightarrow> ('k, 'v) std_map" where
  "map_erase_range i j m = take i m @ drop j m"

definition map_find :: "('k::linorder, 'v) std_map \<Rightarrow> 'k \<Rightarrow> nat" where
  "map_find m k = (let i = lower_bound m k in
     if i < length m \<and> fst (m ! i) = k then i else length m)"

definition keys_sorted :: "('k::linorder, 'v) std_map \<Rightarrow> bool" where
  "keys_sorted m \<longleftrightarrow> sorted_wrt (<) (map fst m)"

section \<open>Insertion, lookup and order\<close>

lemma set_map_insert_subset: "set (map_insert k v m) \<subseteq> insert (k, v) (set m)"
  by (induction k v m rule: map_insert.induct) auto

lemma set_map_assign_subset: "set (map_assign k v m) \<subseteq> insert (k, v) (set m)"
  by (induction k v m rule: map_assign.induct) auto

lemma keys_sorted_Cons:
  "keys_sorted ((a, b) # m) \<longleftrightarrow> (\<forall>e \<in> set m. a < fst e) \<and> keys_sorted m"
  by (auto simp: keys_sorted_def)

lemma keys_sorted_Nil [simp]: "keys_sorted []"
  by (simp add: keys_sorted_def)

lemma keys_sorted_map_insert [wf_intros]: "keys_sorted m \<Longrightarrow> keys_sorted (map_insert k v m)"
  by (induction k v m rule: map_insert.induct)
    (use set_map_insert_subset in \<open>fastforce simp: keys_sorted_Cons\<close>)+

lemma keys_sorted_map_assign [wf_intros]: "keys_sorted m \<Longrightarrow> keys_sorted (map_assign k v m)"
  by (induction k v m rule: map_assign.induct)
    (use set_map_assign_subset in \<open>fastforce simp: keys_sorted_Cons\<close>)+

lemma keys_sorted_nth_mono:
  "keys_sorted m \<Longrightarrow> i \<le> j \<Longrightarrow> j < length m \<Longrightarrow> fst (m ! i) \<le> fst (m ! j)"
  unfolding keys_sorted_def sorted_wrt_map sorted_wrt_iff_nth_less
  by (cases "i = j") (auto simp: less_imp_le)

lemma keys_sorted_map_of_None: "keys_sorted ((a, b) # m) \<Longrightarrow> k \<le> a \<Longrightarrow> map_of m k = None"
  by (fastforce simp: keys_sorted_Cons map_of_eq_None_iff)

lemma map_of_map_insert [lookup_simps]:
  "keys_sorted m \<Longrightarrow> map_of (map_insert k v m) =
     (case map_of m k of None \<Rightarrow> (map_of m)(k \<mapsto> v) | Some _ \<Rightarrow> map_of m)"
proof (induction k v m rule: map_insert.induct)
  case (2 k v a b m)
  then show ?case
    using keys_sorted_map_of_None [of a b m k]
    by (auto simp: keys_sorted_Cons fun_eq_iff split: option.splits)
qed (simp add: fun_eq_iff)

lemma map_of_map_assign [lookup_simps]:
  "keys_sorted m \<Longrightarrow> map_of (map_assign k v m) = (map_of m)(k \<mapsto> v)"
proof (induction k v m rule: map_assign.induct)
  case (2 k v a b m)
  then show ?case by (auto simp: keys_sorted_Cons fun_eq_iff)
qed (simp add: fun_eq_iff)

text \<open>Where the key is absent, insertion puts the pair at the lower bound.\<close>

lemma map_insert_at_lower_bound:
  "map_insert k v m =
     (if lower_bound m k < length m \<and> fst (m ! lower_bound m k) = k then m
      else take (lower_bound m k) m @ (k, v) # drop (lower_bound m k) m)"
  by (induction k v m rule: map_insert.induct) (auto simp: lower_bound_def)

lemma map_insert_between:
  "(\<forall>e \<in> set A. fst e < k) \<Longrightarrow> (\<forall>e \<in> set C. k < fst e) \<Longrightarrow>
     map_insert k v (A @ C) = A @ (k, v) # C"
proof (induction A)
  case Nil
  then show ?case by (cases C) (auto simp: order.asym)
next
  case (Cons e A)
  then show ?case by (cases e) simp
qed

lemma lower_bound_le_length: "lower_bound m k \<le> length m"
  by (simp add: lower_bound_def length_takeWhile_le)

lemma upper_bound_le_length: "upper_bound m k \<le> length m"
  by (simp add: upper_bound_def length_takeWhile_le)

section \<open>The contract of the bounds\<close>

locale key_search =
  fixes keys :: "'m \<Rightarrow> 'k::linorder list"
    and lb :: "'m \<Rightarrow> 'k \<Rightarrow> nat"
    and ub :: "'m \<Rightarrow> 'k \<Rightarrow> nat"
    and valid :: "'m \<Rightarrow> bool"
  assumes keys_increasing: "valid m \<Longrightarrow> sorted_wrt (<) (keys m)"
    and lb_le_length: "valid m \<Longrightarrow> lb m k \<le> length (keys m)"
    and below_lb: "valid m \<Longrightarrow> i < lb m k \<Longrightarrow> keys m ! i < k"
    and from_lb: "valid m \<Longrightarrow> lb m k \<le> i \<Longrightarrow> i < length (keys m) \<Longrightarrow> k \<le> keys m ! i"
    and ub_le_length: "valid m \<Longrightarrow> ub m k \<le> length (keys m)"
    and below_ub: "valid m \<Longrightarrow> i < ub m k \<Longrightarrow> keys m ! i \<le> k"
    and from_ub: "valid m \<Longrightarrow> ub m k \<le> i \<Longrightarrow> i < length (keys m) \<Longrightarrow> k < keys m ! i"
begin

lemma lb_iff: "valid m \<Longrightarrow> i < length (keys m) \<Longrightarrow> (i < lb m k) = (keys m ! i < k)"
  using below_lb from_lb by (meson linorder_not_less)

lemma ub_iff: "valid m \<Longrightarrow> i < length (keys m) \<Longrightarrow> (i < ub m k) = (keys m ! i \<le> k)"
  using below_ub from_ub by (meson linorder_not_less)

lemma lb_unique:
  assumes "valid m" and "n \<le> length (keys m)"
    and "\<And>i. i < length (keys m) \<Longrightarrow> (i < n) = (keys m ! i < k)"
  shows "n = lb m k"
  by (rule sorted_wrt_unique_length
      [where n = "length (keys m)" and P = "\<lambda>i. keys m ! i < k"])
    (use assms lb_le_length lb_iff linorder_not_less in blast)+

lemma ub_unique:
  assumes "valid m" and "n \<le> length (keys m)"
    and "\<And>i. i < length (keys m) \<Longrightarrow> (i < n) = (keys m ! i \<le> k)"
  shows "n = ub m k"
  by (rule sorted_wrt_unique_length
      [where n = "length (keys m)" and P = "\<lambda>i. keys m ! i \<le> k"])
    (use assms ub_le_length ub_iff linorder_not_less in blast)+

lemma lb_length_takeWhile:
  assumes "valid m"
  shows "lb m k = length (takeWhile (\<lambda>x. x < k) (keys m))"
proof (rule lb_unique [OF assms, symmetric])
  fix i assume i: "i < length (keys m)"
  show "(i < length (takeWhile (\<lambda>x. x < k) (keys m))) = (keys m ! i < k)"
    using keys_increasing [OF assms] i
    by (smt (verit) length_takeWhile_le linorder_not_less nat_less_le nth_length_takeWhile
        nth_less_length_takeWhile order.strict_trans order_less_le_trans sorted_wrt_nth_less)
qed (simp add: length_takeWhile_le)

lemma ub_length_takeWhile:
  assumes "valid m"
  shows "ub m k = length (takeWhile (\<lambda>x. x \<le> k) (keys m))"
proof (rule ub_unique [OF assms, symmetric])
  fix i assume i: "i < length (keys m)"
  show "(i < length (takeWhile (\<lambda>x. x \<le> k) (keys m))) = (keys m ! i \<le> k)"
    using keys_increasing [OF assms] i
    by (smt (verit) length_takeWhile_le linorder_not_less nat_less_le nth_length_takeWhile
        nth_less_length_takeWhile order.strict_trans order_less_le_trans sorted_wrt_nth_less)
qed (simp add: length_takeWhile_le)

end

locale interval_search = key_search keys lb ub valid
  for keys :: "'m \<Rightarrow> 'k::linorder list" and lb ub valid +
  fixes low :: "'m \<Rightarrow> nat \<Rightarrow> 'k"
  assumes low_le_key: "valid m \<Longrightarrow> i < length (keys m) \<Longrightarrow> low m i \<le> keys m ! i"
    and disjoint: "valid m \<Longrightarrow> i < j \<Longrightarrow> j < length (keys m) \<Longrightarrow> keys m ! i < low m j"
begin

lemma cover_is_lb:
  assumes "valid m" and "i < length (keys m)" and "low m i \<le> a" and "a \<le> keys m ! i"
  shows "lb m a = i"
proof (rule lb_unique [symmetric])
  fix j assume j: "j < length (keys m)"
  show "(j < i) = (keys m ! j < a)"
    using assms j disjoint [of m j i] keys_increasing [of m]
    by (smt (verit, best) leD linorder_less_linear order.strict_trans1 order.strict_trans2
        order_less_imp_le sorted_wrt_nth_less)
qed (use assms in simp_all)

lemma lb_hits_iff:
  assumes "valid m"
  shows "(lb m a < length (keys m) \<and> low m (lb m a) \<le> a) =
     (\<exists>i < length (keys m). low m i \<le> a \<and> a \<le> keys m ! i)"
  using assms cover_is_lb from_lb by blast

lemma cover_unique:
  assumes "valid m" and "i < length (keys m)" and "low m i \<le> a" and "a \<le> keys m ! i"
    and "j < length (keys m)" and "low m j \<le> a" and "a \<le> keys m ! j"
  shows "i = j"
  using cover_is_lb assms by metis

lemma nearest_below:
  assumes "valid m" and "\<not> (\<exists>i < length (keys m). low m i \<le> a \<and> a \<le> keys m ! i)"
    and "ub m a \<noteq> 0"
  shows "keys m ! (ub m a - 1) < a"
    and "j < length (keys m) \<Longrightarrow> low m j \<le> a \<Longrightarrow> j \<le> ub m a - 1"
proof -
  have n: "ub m a - 1 < length (keys m)" and "ub m a - 1 < ub m a"
    using assms ub_le_length [of m a] by linarith+
  then have "keys m ! (ub m a - 1) \<le> a" using below_ub assms(1) by blast
  then show "keys m ! (ub m a - 1) < a"
    using assms(1,2) n low_le_key by (metis order_le_imp_less_or_eq)
  assume "j < length (keys m)" and "low m j \<le> a"
  then have "keys m ! j \<le> a" using assms(2) by (meson linorder_le_cases)
  then show "j \<le> ub m a - 1"
    using ub_iff [OF assms(1) \<open>j < length (keys m)\<close>, of a] by simp
qed

end

section \<open>The tree-backed map provides the contract\<close>

interpretation std: key_search "map fst" lower_bound upper_bound keys_sorted
proof unfold_locales
  fix m :: "('k::linorder, 'v) std_map" and k i
  assume m: "keys_sorted m"
  then have s: "sorted_wrt (\<lambda>x y. fst x < fst y) m"
    by (simp add: keys_sorted_def sorted_wrt_map)
  show "sorted_wrt (<) (map fst m)" using m by (simp add: keys_sorted_def)
  show "lower_bound m k \<le> length (map fst m)"
    by (simp add: lower_bound_def length_takeWhile_le)
  show "upper_bound m k \<le> length (map fst m)"
    by (simp add: upper_bound_def length_takeWhile_le)
  show "i < lower_bound m k \<Longrightarrow> map fst m ! i < k"
    unfolding lower_bound_def
    by (metis (no_types, lifting) length_takeWhile_le nth_less_length_takeWhile nth_map
        order_less_le_trans)
  show "i < upper_bound m k \<Longrightarrow> map fst m ! i \<le> k"
    unfolding upper_bound_def
    by (metis (no_types, lifting) length_takeWhile_le nth_less_length_takeWhile nth_map
        order_less_le_trans)
  assume i: "i < length (map fst m)"
  show "k \<le> map fst m ! i" if "lower_bound m k \<le> i"
    using that i nth_length_takeWhile [of "\<lambda>e. fst e < k" m]
      sorted_wrt_nth_less [OF s, of "lower_bound m k" i]
    by (cases "i = lower_bound m k") (auto simp: lower_bound_def)
  show "k < map fst m ! i" if "upper_bound m k \<le> i"
    using that i nth_length_takeWhile [of "\<lambda>e. fst e \<le> k" m]
      sorted_wrt_nth_less [OF s, of "upper_bound m k" i]
    by (cases "i = upper_bound m k") (auto simp: upper_bound_def)
qed

text \<open>\<open>find\<close>, built on the lower bound, answers exactly what the abstract map holds.\<close>

lemma map_find_Some_iff:
  assumes "keys_sorted m"
  shows "map_find m k < length m \<longleftrightarrow> k \<in> dom (map_of m)"
proof
  assume "map_find m k < length m"
  then have i: "lower_bound m k < length m" "fst (m ! lower_bound m k) = k"
    by (auto simp: map_find_def Let_def split: if_splits)
  from nth_mem [OF i(1)] i(2) show "k \<in> dom (map_of m)"
    by (metis dom_map_of_conv_image_fst imageI)
next
  assume "k \<in> dom (map_of m)"
  then obtain i where i: "i < length m" "fst (m ! i) = k"
    by (auto simp: dom_map_of_conv_image_fst in_set_conv_nth)
  have "i = lower_bound m k"
  proof (rule std.lb_unique [OF assms])
    fix j assume "j < length (map fst m)"
    then show "(j < i) = (map fst m ! j < k)"
      using i sorted_wrt_nth_less [OF std.keys_increasing [OF assms]]
      by (smt (verit) length_map linorder_neqE_nat nth_map order_less_asym order_less_irrefl)
  qed (use i in simp)
  with i show "map_find m k < length m" by (simp add: map_find_def)
qed

lemma map_find_map_of:
  assumes "keys_sorted m"
  shows "map_of m k = (if map_find m k \<noteq> length m then Some (snd (m ! map_find m k)) else None)"
proof (cases "k \<in> dom (map_of m)")
  case True
  then have i: "map_find m k < length m" using map_find_Some_iff [OF assms] by simp
  then have "fst (m ! map_find m k) = k" by (auto simp: map_find_def Let_def split: if_splits)
  moreover have "distinct (map fst m)" using assms by (simp add: keys_sorted_def strict_sorted_iff)
  moreover have "m ! map_find m k \<in> set m" using i by simp
  ultimately have "map_of m k = Some (snd (m ! map_find m k))"
    by (metis map_of_eq_Some_iff prod.collapse)
  then show ?thesis using i by simp
next
  case False
  then have "\<not> map_find m k < length m" using map_find_Some_iff [OF assms] by simp
  moreover have "map_find m k \<le> length m" by (simp add: map_find_def Let_def)
  ultimately show ?thesis using False by (auto simp: domIff)
qed

end
