(* ===== verification/Range_Map.thy ===== *)
theory Range_Map
  imports Std_Map
begin

text \<open>
  \<open>RangeMap<AddressType, EntryType>\<close> of processor/range_map.h and range_map-inl.h, for an
  unsigned address type of any width: disjoint address ranges, each kept in a \<open>std::map\<close>
  under its high address. The recursion of \<open>StoreRangeInternal\<close> is kept as it is, with its
  termination proof; its closed form, the invariant, and the exact effect of a store on every
  lookup follow.
\<close>

section \<open>Data and operations\<close>

text \<open>The class \<open>Range\<close>: the high address is the key of the map and is not stored.\<close>

record ('addr, 'e) rm_range =
  rng_base :: 'addr
  rng_delta :: 'addr
  rng_entry :: 'e

record ('addr, 'e) range_map =
  enable_shrink_down :: bool
  rm_map :: "('addr, ('addr, 'e) rm_range) std_map"

definition RangeMap_init :: "('a::len word, 'e) range_map" where
  "RangeMap_init = \<lparr>enable_shrink_down = False, rm_map = []\<rparr>"

definition SetEnableShrinkDown :: "('a::len word, 'e) range_map \<Rightarrow> bool \<Rightarrow> ('a word, 'e) range_map" where
  "SetEnableShrinkDown rm b = rm\<lparr>enable_shrink_down := b\<rparr>"

definition IsShrinkDownEnabled :: "('a::len word, 'e) range_map \<Rightarrow> bool" where
  "IsShrinkDownEnabled rm = enable_shrink_down rm"

text \<open>
  What the retrieving operations hand back through their four out-parameters: entry, base,
  delta and size of the range at one position of the map.
\<close>

definition range_result ::
  "'a word \<times> ('a::len word, 'e) rm_range \<Rightarrow> 'e \<times> 'a word \<times> 'a word \<times> 'a word" where
  "range_result e = (case e of (high, r) \<Rightarrow>
     (rng_entry r, rng_base r, rng_delta r, high - rng_base r + 1))"

definition RetrieveRange ::
  "('a::len word, 'e) range_map \<Rightarrow> 'a word \<Rightarrow> ('e \<times> 'a word \<times> 'a word \<times> 'a word) option" where
  "RetrieveRange rm address =
     (let m = rm_map rm; it = lower_bound m address in
      if it = length m then None
      else if address < rng_base (snd (m ! it)) then None
      else Some (range_result (m ! it)))"

definition RetrieveNearestRange ::
  "('a::len word, 'e) range_map \<Rightarrow> 'a word \<Rightarrow> ('e \<times> 'a word \<times> 'a word \<times> 'a word) option" where
  "RetrieveNearestRange rm address =
     (case RetrieveRange rm address of
        Some r \<Rightarrow> Some r
      | None \<Rightarrow>
          (let m = rm_map rm; it = upper_bound m address in
           if it = 0 then None else Some (range_result (m ! (it - 1)))))"

definition GetCount :: "('a::len word, 'e) range_map \<Rightarrow> nat" where
  "GetCount rm = length (rm_map rm)"

text \<open>
  The index is an \<open>int\<close>; a negative one is not rejected, the walk from \<open>begin()\<close> then
  takes no step. On an empty map that walk would read through \<open>end()\<close>, which is undefined;
  no caller passes a negative index, and the model answers None there.
\<close>

definition RetrieveRangeAtIndex ::
  "('a::len word, 'e) range_map \<Rightarrow> int \<Rightarrow> ('e \<times> 'a word \<times> 'a word \<times> 'a word) option" where
  "RetrieveRangeAtIndex rm index =
     (if index \<ge> int (GetCount rm) then None
      else if rm_map rm = [] then None
      else Some (range_result (rm_map rm ! nat index)))"

definition Clear :: "('a::len word, 'e) range_map \<Rightarrow> ('a word, 'e) range_map" where
  "Clear rm = rm\<lparr>rm_map := []\<rparr>"

text \<open>
  Facts that make the recursion below well-founded. Where some range ends inside the new one,
  the retry is with a smaller size; where the range above overlaps, the retry sees one less
  range that begins at or below \<open>high\<close> and ends above it.
\<close>

definition straddling :: "('a::len word, 'e) range_map \<Rightarrow> 'a word \<Rightarrow> nat" where
  "straddling rm high =
     length (filter (\<lambda>e. rng_base (snd e) \<le> high \<and> high < fst e) (rm_map rm))"

lemma lower_bound_between:
  assumes "lower_bound m base \<noteq> lower_bound m high" and "base \<le> high"
  shows "lower_bound m base < length m"
    and "base \<le> fst (m ! lower_bound m base)" and "fst (m ! lower_bound m base) < high"
proof -
  have le: "lower_bound m base \<le> lower_bound m high"
    unfolding lower_bound_def
    using assms(2) by (intro length_takeWhile_mono) auto
  then have lt: "lower_bound m base < lower_bound m high" using assms(1) by simp
  also have "\<dots> \<le> length m" by (simp add: lower_bound_def length_takeWhile_le)
  finally show "lower_bound m base < length m" .
  then show "base \<le> fst (m ! lower_bound m base)"
    using nth_length_takeWhile [of "\<lambda>e. fst e < base" m] by (simp add: lower_bound_def)
  show "fst (m ! lower_bound m base) < high"
    using lt nth_less_length_takeWhile [of _ "\<lambda>e. fst e < high" m]
    by (simp add: lower_bound_def)
qed

lemma shrunk_size_less:
  assumes "\<not> (sz \<le> 0 \<or> base + (sz - 1) < base)"
    and "base \<le> k" and "k < base + (sz - (1::'a::len word))"
  shows "unat (sz - (k - base + 1)) < unat sz"
proof -
  have ad: "unat (k - base + 1) = unat k - unat base + 1"
    using assms(2,3) by (rule unat_diff_Suc)
  have h: "unat (base + (sz - 1)) = unat base + (unat sz - 1)"
    using assms(1) by unat_arith
  then have "unat k < unat base + (unat sz - 1)"
    using assms(3) by (simp add: word_less_nat_alt)
  then have "k - base + 1 \<le> sz"
    using ad assms(2) by (simp add: word_le_nat_alt)
  moreover have "0 < unat sz" using assms(1) by (simp add: unat_gt_0)
  ultimately show ?thesis
    using ad by (simp add: unat_sub)
qed


lemma RetrieveRange_at_lower_bound:
  assumes "lower_bound m high < length m" and "high < fst (m ! lower_bound m high)"
    and "rng_base (snd (m ! lower_bound m high)) \<le> high" and "rm_map rm = m"
  shows "RetrieveRange rm (fst (m ! lower_bound m high)) =
    Some (range_result (m ! lower_bound m high))"
proof -
  let ?i = "lower_bound m high"
  let ?h = "fst (m ! ?i)"
  have "?i \<le> lower_bound m ?h"
    unfolding lower_bound_def using assms(2) by (intro length_takeWhile_mono) (auto simp: lower_bound_def)
  moreover have "\<not> ?i < lower_bound m ?h"
    unfolding lower_bound_def
    using nth_less_length_takeWhile [of _ "\<lambda>e. fst e < ?h" m] by (auto simp: lower_bound_def)
  ultimately have eq: "lower_bound m ?h = ?i" by simp
  have "\<not> ?h < rng_base (snd (m ! ?i))" using assms(2,3) by simp
  with eq assms(1,4) show ?thesis by (simp add: RetrieveRange_def Let_def)
qed

lemma straddling_less:
  assumes "i < length m" and "rng_base (snd (m ! i)) \<le> high" and "high < fst (m ! i)"
    and "\<not> rng_base r \<le> high" and "rm_map rm = m"
  shows "straddling (rm\<lparr>rm_map := map_insert k r (map_erase i m)\<rparr>) high < straddling rm high"
proof -
  let ?P = "\<lambda>e. rng_base (snd e) \<le> high \<and> high < fst e"
  have ins: "length (filter ?P (map_insert k r xs)) \<le> length (filter ?P xs)" for xs
    using assms(4) by (induction k r xs rule: map_insert.induct) auto
  have "m = take i m @ m ! i # drop (Suc i) m" using assms(1) by (rule id_take_nth_drop)
  then have "length (filter ?P m) = length (filter ?P (take i m @ m ! i # drop (Suc i) m))" by simp
  also have "\<dots> = Suc (length (filter ?P (map_erase i m)))"
    using assms(2,3) by (simp add: map_erase_def)
  finally show ?thesis
    using ins [of "map_erase i m"] assms(5) by (simp add: straddling_def)
qed

text \<open>
  \<open>StoreRangeInternal\<close>. Both iterators are lower bounds in the same map. In the branch that
  shrinks the range above, \<open>RetrieveRange\<close> always finds that range
  (\<open>RetrieveRange_at_lower_bound\<close>), so the \<open>None\<close> case is never taken.
\<close>

function StoreRangeInternal ::
  "('a::len word, 'e) range_map \<Rightarrow> 'a word \<Rightarrow> 'a word \<Rightarrow> 'a word \<Rightarrow> 'e \<Rightarrow> bool \<times> ('a word, 'e) range_map"
where
  "StoreRangeInternal rm base delta sz entry =
     (let high = base + (sz - 1) in
      if sz \<le> 0 \<or> high < base then (False, rm)
      else
        let m = rm_map rm;
            iterator_base = lower_bound m base;
            iterator_high = lower_bound m high in
        if iterator_base \<noteq> iterator_high then
          if enable_shrink_down rm then
            let additional_delta = fst (m ! iterator_base) - base + 1 in
            StoreRangeInternal rm (base + additional_delta) (delta + additional_delta)
              (sz - additional_delta) entry
          else (False, rm)
        else if iterator_high \<noteq> length m \<and> rng_base (snd (m ! iterator_high)) \<le> high then
          if enable_shrink_down rm \<and> high < fst (m ! iterator_high) then
            let other_high = fst (m ! iterator_high);
                additional_delta = high - rng_base (snd (m ! iterator_high)) + 1 in
            case RetrieveRange rm other_high of
              None \<Rightarrow> (False, rm)
            | Some (other_entry, other_base, other_delta, other_size) \<Rightarrow>
                StoreRangeInternal
                  (rm\<lparr>rm_map := map_insert other_high
                     \<lparr>rng_base = other_base + additional_delta,
                      rng_delta = other_delta + additional_delta,
                      rng_entry = other_entry\<rparr>
                     (map_erase iterator_high m)\<rparr>) base delta sz entry
          else (False, rm)
        else
          (True, rm\<lparr>rm_map := map_insert high
             \<lparr>rng_base = base, rng_delta = delta, rng_entry = entry\<rparr> m\<rparr>))"
  by pat_completeness auto
termination
proof (relation "measures [\<lambda>(rm, base, delta, sz, entry). unat sz,
    \<lambda>(rm, base, delta, sz, entry). straddling rm (base + (sz - 1))]", goal_cases)
  case 1
  show ?case by simp
next
  case (2 rm base delta sz entry high m iterator_base iterator_high additional_delta)
  then have "base \<le> fst (m ! iterator_base)" "fst (m ! iterator_base) < base + (sz - 1)"
    using lower_bound_between(2,3) [of m base high] by (simp_all add: not_less)
  with 2 show ?case
    using shrunk_size_less [of sz base "fst (m ! iterator_base)"] by simp
next
  case (3 rm base delta sz entry high m iterator_base iterator_high other_high
      additional_delta x e x' ob x'' od os)
  let ?i = "lower_bound m high"
  have i: "?i < length m" "high < fst (m ! ?i)" "rng_base (snd (m ! ?i)) \<le> high"
    using 3 lower_bound_le_length [of m high] by auto
  then have ob: "ob = rng_base (snd (m ! ?i))"
    using 3 RetrieveRange_at_lower_bound [OF i, of rm]
    by (simp add: range_result_def split: prod.splits)
  have "ob + additional_delta = high + 1"
    using 3 ob by simp
  then have "\<not> ob + additional_delta \<le> high"
    using word_less_add_one [OF i(2)] by simp
  then have "straddling (rm\<lparr>rm_map := map_insert other_high
      \<lparr>rng_base = ob + additional_delta, rng_delta = od + additional_delta, rng_entry = e\<rparr>
      (map_erase ?i m)\<rparr>) high < straddling rm high"
    using 3 by (intro straddling_less [OF i(1,3,2)]) simp_all
  with 3 show ?case by simp
qed

declare StoreRangeInternal.simps [simp del]

definition StoreRange ::
  "('a::len word, 'e) range_map \<Rightarrow> 'a word \<Rightarrow> 'a word \<Rightarrow> 'e \<Rightarrow> bool \<times> ('a word, 'e) range_map" where
  "StoreRange rm base sz entry = StoreRangeInternal rm base 0 sz entry"

section \<open>Well-formed maps and what a lookup means\<close>

definition covers :: "'a::len word \<times> ('a word, 'e) rm_range \<Rightarrow> 'a word \<Rightarrow> bool" where
  "covers e a \<longleftrightarrow> rng_base (snd e) \<le> a \<and> a \<le> fst e"

definition ranges_wf :: "('a::len word, ('a word, 'e) rm_range) std_map \<Rightarrow> bool" where
  "ranges_wf m \<longleftrightarrow> sorted_wrt (\<lambda>e f. fst e < rng_base (snd f)) m \<and>
     (\<forall>e \<in> set m. rng_base (snd e) \<le> fst e)"

definition rm_wf :: "('a::len word, 'e) range_map \<Rightarrow> bool" where
  "rm_wf rm \<longleftrightarrow> ranges_wf (rm_map rm)"

text \<open>The abstract lookup: the range of the map that contains the address, if there is one.\<close>

definition rm_lookup ::
  "('a::len word, 'e) range_map \<Rightarrow> 'a word \<Rightarrow> ('a word \<times> ('a word, 'e) rm_range) option" where
  "rm_lookup rm a = List.find (\<lambda>e. covers e a) (rm_map rm)"

lemma ranges_wf_Nil [simp]: "ranges_wf []"
  by (simp add: ranges_wf_def)

lemma ranges_wf_Cons:
  "ranges_wf (e # m) \<longleftrightarrow>
     rng_base (snd e) \<le> fst e \<and> (\<forall>f \<in> set m. fst e < rng_base (snd f)) \<and> ranges_wf m"
  by (auto simp: ranges_wf_def)

lemma ranges_wf_append:
  "ranges_wf (xs @ ys) \<longleftrightarrow> ranges_wf xs \<and> ranges_wf ys \<and>
     (\<forall>e \<in> set xs. \<forall>f \<in> set ys. fst e < rng_base (snd f))"
  by (auto simp: ranges_wf_def sorted_wrt_append)

lemma ranges_wf_nth:
  "ranges_wf m \<Longrightarrow> i < j \<Longrightarrow> j < length m \<Longrightarrow> fst (m ! i) < rng_base (snd (m ! j))"
  by (auto simp: ranges_wf_def sorted_wrt_iff_nth_less)

lemma ranges_wf_base_le: "ranges_wf m \<Longrightarrow> e \<in> set m \<Longrightarrow> rng_base (snd e) \<le> fst e"
  by (simp add: ranges_wf_def)

lemma ranges_wf_keys_sorted: "ranges_wf m \<Longrightarrow> keys_sorted m"
proof (induction m)
  case (Cons e m)
  obtain a b where e: "e = (a, b)" by fastforce
  have "a < fst f" if "f \<in> set m" for f
    using Cons.prems that ranges_wf_base_le [of m f]
      order_less_le_trans [of a "rng_base (snd f)" "fst f"]
    by (simp add: ranges_wf_Cons e)
  with Cons e show ?case by (simp add: keys_sorted_Cons ranges_wf_Cons)
qed simp

interpretation rmap: interval_search "map fst" lower_bound upper_bound ranges_wf
  "\<lambda>m i. rng_base (snd (m ! i))"
proof unfold_locales
  fix m :: "('a::len word, ('a word, 'e) rm_range) std_map" and k i j
  assume m: "ranges_wf m"
  then have ks: "keys_sorted m" by (rule ranges_wf_keys_sorted)
  show "sorted_wrt (<) (map fst m)" using ks by (rule std.keys_increasing)
  show "lower_bound m k \<le> length (map fst m)" using ks by (rule std.lb_le_length)
  show "upper_bound m k \<le> length (map fst m)" using ks by (rule std.ub_le_length)
  show "i < lower_bound m k \<Longrightarrow> map fst m ! i < k" using ks by (rule std.below_lb)
  show "i < upper_bound m k \<Longrightarrow> map fst m ! i \<le> k" using ks by (rule std.below_ub)
  show "lower_bound m k \<le> i \<Longrightarrow> i < length (map fst m) \<Longrightarrow> k \<le> map fst m ! i"
    using ks by (rule std.from_lb)
  show "upper_bound m k \<le> i \<Longrightarrow> i < length (map fst m) \<Longrightarrow> k < map fst m ! i"
    using ks by (rule std.from_ub)
  show "i < length (map fst m) \<Longrightarrow> rng_base (snd (m ! i)) \<le> map fst m ! i"
    using m by (simp add: ranges_wf_base_le)
  show "i < j \<Longrightarrow> j < length (map fst m) \<Longrightarrow> map fst m ! i < rng_base (snd (m ! j))"
    using m by (simp add: ranges_wf_nth)
qed

lemma rm_lookup_iff:
  assumes "rm_wf rm"
  shows "rm_lookup rm a = Some e \<longleftrightarrow> e \<in> set (rm_map rm) \<and> covers e a"
proof
  show "e \<in> set (rm_map rm) \<and> covers e a" if "rm_lookup rm a = Some e"
    using that by (auto simp: rm_lookup_def find_Some_iff)
next
  assume e: "e \<in> set (rm_map rm) \<and> covers e a"
  then obtain i where i: "i < length (rm_map rm)" "rm_map rm ! i = e" "covers e a"
    by (auto simp: in_set_conv_nth)
  have "\<not> covers (rm_map rm ! j) a" if "j < i" for j
    using rmap.cover_unique [of "rm_map rm" i a j] assms that i by (auto simp: rm_wf_def covers_def)
  with i show "rm_lookup rm a = Some e"
    by (auto simp: rm_lookup_def find_Some_iff)
qed

lemma rm_lookup_None_iff: "rm_lookup rm a = None \<longleftrightarrow> (\<forall>e \<in> set (rm_map rm). \<not> covers e a)"
  unfolding rm_lookup_def find_None_iff by blast

lemma RetrieveRange_eq_lookup:
  assumes "rm_wf rm"
  shows "RetrieveRange rm a = map_option range_result (rm_lookup rm a)"
proof -
  let ?m = "rm_map rm" and ?i = "lower_bound (rm_map rm) a"
  have wf: "ranges_wf ?m" using assms by (simp add: rm_wf_def)
  show ?thesis
  proof (cases "\<exists>i < length ?m. covers (?m ! i) a")
    case True
    then obtain i where i: "i < length ?m" "covers (?m ! i) a" by blast
    then have "?i = i"
      using rmap.cover_is_lb [OF wf, of i a] by (simp add: covers_def)
    moreover have "rm_lookup rm a = Some (?m ! i)"
      using i assms by (simp add: rm_lookup_iff)
    ultimately show ?thesis
      using i by (auto simp: RetrieveRange_def covers_def Let_def)
  next
    case False
    then have "rm_lookup rm a = None"
      by (metis rm_lookup_None_iff in_set_conv_nth)
    moreover have "\<not> (?i < length ?m \<and> rng_base (snd (?m ! ?i)) \<le> a)"
      using rmap.lb_hits_iff [OF wf, of a] False by (auto simp: covers_def)
    moreover have "?i \<le> length ?m" using rmap.lb_le_length [OF wf] by simp
    ultimately show ?thesis by (auto simp: RetrieveRange_def Let_def)
  qed
qed

section \<open>The closed form of a store\<close>

text \<open>
  With \<open>L\<close> the ranges that end below \<open>high\<close> and \<open>R\<close> the others, a store looks at the last
  of \<open>L\<close> and the first of \<open>R\<close> only.
\<close>

definition shrunk_base ::
  "('a::len word, ('a word, 'e) rm_range) std_map \<Rightarrow> 'a word \<Rightarrow> 'a word \<Rightarrow> 'a word" where
  "shrunk_base m base high =
     (let L = takeWhile (\<lambda>e. fst e < high) m in
      if L = [] \<or> fst (last L) < base then base else fst (last L) + 1)"

definition store_shrink ::
  "('a::len word, ('a word, 'e) rm_range) std_map \<Rightarrow> 'a word \<Rightarrow> 'a word \<Rightarrow> 'a word \<Rightarrow> 'e
    \<Rightarrow> ('a word, ('a word, 'e) rm_range) std_map option" where
  "store_shrink m base delta high entry =
     (let b = shrunk_base m base high;
          L = takeWhile (\<lambda>e. fst e < high) m;
          new = (high, \<lparr>rng_base = b, rng_delta = delta + (b - base), rng_entry = entry\<rparr>) in
      case dropWhile (\<lambda>e. fst e < high) m of
        [] \<Rightarrow> Some (L @ [new])
      | (k, r) # R \<Rightarrow>
          if high < rng_base r then Some (L @ new # (k, r) # R)
          else if k = high then None
          else Some (L @ new #
            (k, \<lparr>rng_base = high + 1, rng_delta = rng_delta r + (high - rng_base r + 1),
               rng_entry = rng_entry r\<rparr>) # R))"

definition store_strict ::
  "('a::len word, ('a word, 'e) rm_range) std_map \<Rightarrow> 'a word \<Rightarrow> 'a word \<Rightarrow> 'a word \<Rightarrow> 'e
    \<Rightarrow> ('a word, ('a word, 'e) rm_range) std_map option" where
  "store_strict m base delta high entry =
     (let L = takeWhile (\<lambda>e. fst e < high) m; R = dropWhile (\<lambda>e. fst e < high) m in
      if shrunk_base m base high = base \<and> (R \<noteq> [] \<longrightarrow> high < rng_base (snd (hd R)))
      then Some (L @ (high, \<lparr>rng_base = base, rng_delta = delta, rng_entry = entry\<rparr>) # R)
      else None)"

lemma lower_bound_split:
  "take (lower_bound m k) m = takeWhile (\<lambda>e. fst e < k) m"
  "drop (lower_bound m k) m = dropWhile (\<lambda>e. fst e < k) m"
  by (simp_all add: lower_bound_def take_length_takeWhile drop_length_takeWhile)

text \<open>No range ends in \<open>[base, high)\<close> exactly when the two lower bounds agree.\<close>

lemma lower_bounds_eq_iff:
  assumes "keys_sorted m" and "base \<le> high"
  shows "lower_bound m base = lower_bound m high \<longleftrightarrow>
     (takeWhile (\<lambda>e. fst e < high) m = [] \<or> fst (last (takeWhile (\<lambda>e. fst e < high) m)) < base)"
    (is "?l \<longleftrightarrow> ?L = [] \<or> fst (last ?L) < base")
proof -
  let ?n = "lower_bound m high"
  have n: "length ?L = ?n" "?n \<le> length m"
    by (simp_all add: lower_bound_def length_takeWhile_le)
  have le: "lower_bound m base \<le> ?n"
    unfolding lower_bound_def using assms(2) by (intro length_takeWhile_mono) auto
  show ?thesis
  proof (cases "?L = []")
    case True
    then show ?thesis using n le by simp
  next
    case False
    then have pos: "0 < ?n" using n by (metis length_greater_0_conv)
    have "last ?L = m ! (?n - 1)"
      using False n pos lower_bound_split(1) [of m high]
      by (metis diff_less last_conv_nth less_numeral_extra(1) nth_take)
    moreover have "(?n - 1 < lower_bound m base) = (fst (m ! (?n - 1)) < base)"
      using std.lb_iff [OF assms(1), of "?n - 1" base] n pos by simp
    ultimately show ?thesis using False le pos by auto
  qed
qed

lemma shrunk_base_unchanged:
  assumes "keys_sorted m" and "base \<le> high"
  shows "lower_bound m base = lower_bound m high \<Longrightarrow> shrunk_base m base high = base"
  using lower_bounds_eq_iff [OF assms] by (auto simp: shrunk_base_def Let_def)

lemma last_takeWhile_less:
  "takeWhile (\<lambda>e. fst e < high) m \<noteq> [] \<Longrightarrow> fst (last (takeWhile (\<lambda>e. fst e < high) m)) < high"
  by (metis last_in_set set_takeWhileD)

lemma shrunk_base_changed:
  assumes "keys_sorted m" and "base \<le> high" and "lower_bound m base \<noteq> lower_bound m high"
  shows "base < shrunk_base m base high"
proof -
  let ?L = "takeWhile (\<lambda>e. fst e < high) m"
  have L: "?L \<noteq> []" "base \<le> fst (last ?L)"
    using lower_bounds_eq_iff [OF assms(1,2)] assms(3) by auto
  then have "fst (last ?L) < fst (last ?L) + 1"
    using last_takeWhile_less word_less_add_one by blast
  then show ?thesis using L by (auto simp: shrunk_base_def Let_def)
qed

lemma shrunk_base_bounds:
  assumes "base \<le> high"
  shows "base \<le> shrunk_base m base high" and "shrunk_base m base high \<le> high"
proof -
  let ?L = "takeWhile (\<lambda>e. fst e < high) m"
  have "fst (last ?L) < fst (last ?L) + 1" "fst (last ?L) + 1 \<le> high" if "?L \<noteq> []"
    using last_takeWhile_less [OF that] word_less_add_one inc_le by blast+
  then show "base \<le> shrunk_base m base high" and "shrunk_base m base high \<le> high"
    using assms by (auto simp: shrunk_base_def Let_def not_less intro: order.trans order_less_imp_le)
qed

text \<open>One step of the recursion over a range that ends inside the new one.\<close>

lemma shrunk_base_step:
  assumes "keys_sorted m" and "base \<le> high" and "lower_bound m base \<noteq> lower_bound m high"
  defines "k \<equiv> fst (m ! lower_bound m base)"
  shows "shrunk_base m (k + 1) high = shrunk_base m base high"
proof -
  let ?L = "takeWhile (\<lambda>e. fst e < high) m"
  have k: "base \<le> k" "k < high" "lower_bound m base < length m"
    using lower_bound_between [OF assms(3,2)] by (simp_all add: k_def)
  have L: "?L \<noteq> []" "base \<le> fst (last ?L)"
    using lower_bounds_eq_iff [OF assms(1,2)] assms(3) by auto
  have "k \<le> fst (last ?L)"
  proof -
    have "last ?L \<in> set m" using L(1) by (metis last_in_set set_takeWhileD)
    then obtain j where j: "j < length m" "m ! j = last ?L" by (auto simp: in_set_conv_nth)
    then have "lower_bound m base \<le> j"
      using std.lb_iff [OF assms(1), of j base] L(2) by (simp add: not_less [symmetric])
    from keys_sorted_nth_mono [OF assms(1) this j(1)] j(2) show ?thesis by (simp add: k_def)
  qed
  then have "(fst (last ?L) < k + 1) = (fst (last ?L) = k)"
    using word_add_one_le_iff [OF k(2), of "fst (last ?L)"] by (auto simp: not_le [symmetric])
  then show ?thesis
    using L by (auto simp: shrunk_base_def Let_def)
qed

text \<open>A store with an acceptable size and both lower bounds equal, in terms of the split.\<close>

lemma keys_of_split:
  assumes "keys_sorted m"
  shows "e \<in> set (takeWhile (\<lambda>e. fst e < high) m) \<Longrightarrow> fst e < high"
    and "e \<in> set (dropWhile (\<lambda>e. fst e < high) m) \<Longrightarrow> high \<le> fst e"
proof -
  show "e \<in> set (takeWhile (\<lambda>e. fst e < high) m) \<Longrightarrow> fst e < high"
    by (drule set_takeWhileD) simp
  have "sorted_wrt (\<lambda>e f. fst e < fst f) m"
    using assms by (simp add: keys_sorted_def sorted_wrt_map)
  then show "e \<in> set (dropWhile (\<lambda>e. fst e < high) m) \<Longrightarrow> high \<le> fst e"
    using sorted_wrt_dropWhile_all [of "\<lambda>e f. fst e < fst f" m "\<lambda>e. fst e < high" e] by force
qed

lemma nth_lower_bound:
  "lower_bound m k < length m \<Longrightarrow>
     dropWhile (\<lambda>e. fst e < k) m = m ! lower_bound m k # drop (Suc (lower_bound m k)) m"
  by (metis Cons_nth_drop_Suc lower_bound_split(2))

lemma lower_bound_eq_length:
  "lower_bound m k = length m \<longleftrightarrow> dropWhile (\<lambda>e. fst e < k) m = []"
  by (metis drop_eq_Nil2 le_antisym length_takeWhile_le lower_bound_def lower_bound_split(2)
      order_refl)

lemma map_insert_split:
  assumes "lower_bound m k < length m \<longrightarrow> fst (m ! lower_bound m k) \<noteq> k"
  shows "map_insert k v m =
     takeWhile (\<lambda>e. fst e < k) m @ (k, v) # dropWhile (\<lambda>e. fst e < k) m"
  using assms by (auto simp: map_insert_at_lower_bound lower_bound_split)

text \<open>Erasing a range and inserting one under the same key replaces it in place.\<close>

lemma map_insert_erase:
  "keys_sorted m \<Longrightarrow> i < length m \<Longrightarrow>
     map_insert (fst (m ! i)) v (map_erase i m) =
       take i m @ (fst (m ! i), v) # drop (Suc i) m"
proof (induction m arbitrary: i)
  case Nil
  then show ?case by simp
next
  case (Cons e m)
  obtain a b where e: "e = (a, b)" by fastforce
  show ?case
  proof (cases i)
    case 0
    then show ?thesis
      using Cons.prems e by (cases m) (auto simp: map_erase_def keys_sorted_Cons)
  next
    case (Suc j)
    with Cons.prems e have j: "j < length m" "keys_sorted m" "a < fst (m ! j)"
      by (auto simp: keys_sorted_Cons)
    with Cons.IH [of j] Suc e show ?thesis by (auto simp: map_erase_def)
  qed
qed

lemma StoreRangeInternal_strict:
  assumes "rm_wf rm" and "\<not> enable_shrink_down rm"
    and sz: "sz \<noteq> 0" "base \<le> base + (sz - 1)"
  shows "StoreRangeInternal rm base delta sz entry =
    (case store_strict (rm_map rm) base delta (base + (sz - 1)) entry of
       None \<Rightarrow> (False, rm) | Some m \<Rightarrow> (True, rm\<lparr>rm_map := m\<rparr>))"
proof -
  let ?m = "rm_map rm" and ?h = "base + (sz - 1)"
  have wf: "ranges_wf ?m" and ks: "keys_sorted ?m"
    using assms(1) by (auto simp: rm_wf_def intro: ranges_wf_keys_sorted)
  have ne: "\<not> (sz \<le> 0 \<or> ?h < base)" using sz by simp
  show ?thesis
  proof (cases "lower_bound ?m base = lower_bound ?m ?h")
    case False
    then have "shrunk_base ?m base ?h \<noteq> base"
      using shrunk_base_changed [OF ks sz(2)] by force
    with False ne assms(2) show ?thesis
      by (subst StoreRangeInternal.simps) (simp add: store_strict_def Let_def)
  next
    case True
    then have b: "shrunk_base ?m base ?h = base"
      using shrunk_base_unchanged [OF ks sz(2)] by blast
    show ?thesis
    proof (cases "lower_bound ?m ?h = length ?m")
      case end_: True
      then have "dropWhile (\<lambda>e. fst e < ?h) ?m = []" by (simp add: lower_bound_eq_length)
      with True end_ ne assms(2) b show ?thesis
        by (subst StoreRangeInternal.simps)
          (simp add: store_strict_def Let_def map_insert_split del: dropWhile_eq_Nil_conv)
    next
      case False
      then have lt: "lower_bound ?m ?h < length ?m"
        using std.lb_le_length [OF ks, of ?h] by simp
      have key: "fst (?m ! lower_bound ?m ?h) \<noteq> ?h" if "?h < rng_base (snd (?m ! lower_bound ?m ?h))"
        using ranges_wf_base_le [OF wf nth_mem [OF lt]] that by auto
      show ?thesis
        using True False ne assms(2) b lt nth_lower_bound [OF lt] key
        by (subst StoreRangeInternal.simps)
          (auto simp: store_strict_def Let_def map_insert_split not_less)
    qed
  qed
qed

lemma StoreRangeInternal_shrink:
  assumes "rm_wf rm" and "enable_shrink_down rm"
    and "sz \<noteq> 0" "base \<le> base + (sz - 1)"
  shows "StoreRangeInternal rm base delta sz entry =
    (case store_shrink (rm_map rm) base delta (base + (sz - 1)) entry of
       None \<Rightarrow> (False, rm) | Some m \<Rightarrow> (True, rm\<lparr>rm_map := m\<rparr>))"
  using assms
proof (induction rm base delta sz entry rule: StoreRangeInternal.induct)
  case (1 rm base delta sz entry)
  let ?m = "rm_map rm" and ?h = "base + (sz - 1)"
  let ?i = "lower_bound ?m ?h"
  have wf: "ranges_wf ?m" and ks: "keys_sorted ?m"
    using "1.prems"(1) by (auto simp: rm_wf_def intro: ranges_wf_keys_sorted)
  have ne: "\<not> (sz \<le> 0 \<or> ?h < base)" and sz: "base \<le> ?h" using "1.prems" by simp_all
  show ?case
  proof (cases "lower_bound ?m base = ?i")
    case False
    let ?k = "fst (?m ! lower_bound ?m base)"
    let ?ad = "?k - base + 1"
    have k: "base \<le> ?k" "?k < ?h" using lower_bound_between [OF False sz] by simp_all
    have h: "base + ?ad + (sz - ?ad - 1) = ?h" by simp
    have kb: "base + ?ad = ?k + 1" by simp
    have le: "base + ?ad \<le> base + ?ad + (sz - ?ad - 1)"
      using inc_le [OF k(2)] h kb by (simp only:)
    have s0: "sz - ?ad \<noteq> 0"
    proof
      assume "sz - ?ad = 0"
      then have "?h = ?k" by (simp add: algebra_simps)
      with k(2) show False by simp
    qed
    have IH: "StoreRangeInternal rm (base + ?ad) (delta + ?ad) (sz - ?ad) entry =
      (case store_shrink ?m (base + ?ad) (delta + ?ad) ?h entry of
         None \<Rightarrow> (False, rm) | Some m \<Rightarrow> (True, rm\<lparr>rm_map := m\<rparr>))"
      using "1.IH"(1) [OF refl ne refl refl refl False "1.prems"(2) refl "1.prems"(1,2) s0 le]
      unfolding h .
    have "store_shrink ?m (base + ?ad) (delta + ?ad) ?h entry = store_shrink ?m base delta ?h entry"
    proof -
      have "delta + ?ad + (x - (?k + 1)) = delta + (x - base)" for x by simp
      then show ?thesis
        unfolding store_shrink_def kb shrunk_base_step [OF ks sz False] by (simp only:)
    qed
    with IH show ?thesis
      using False ne "1.prems"(2)
      by (subst StoreRangeInternal.simps) (simp add: Let_def)
  next
    case True
    then have b: "shrunk_base ?m base ?h = base"
      using shrunk_base_unchanged [OF ks sz] by blast
    show ?thesis
    proof (cases "?i = length ?m")
      case end_: True
      then have "dropWhile (\<lambda>e. fst e < ?h) ?m = []" by (simp add: lower_bound_eq_length)
      with True end_ ne b show ?thesis
        by (subst StoreRangeInternal.simps)
          (simp add: store_shrink_def Let_def map_insert_split del: dropWhile_eq_Nil_conv)
    next
      case False
      then have lt: "?i < length ?m"
        using std.lb_le_length [OF ks, of ?h] by simp
      obtain k r where kr: "?m ! ?i = (k, r)" by fastforce
      have R: "dropWhile (\<lambda>e. fst e < ?h) ?m = (k, r) # drop (Suc ?i) ?m"
        using nth_lower_bound [OF lt] kr by simp
      have rk: "rng_base r \<le> k" using ranges_wf_base_le [OF wf nth_mem [OF lt]] kr by simp
      have hk: "?h \<le> k" using keys_of_split(2) [OF ks, of "(k, r)" ?h] R by simp
      consider "?h < rng_base r" | "rng_base r \<le> ?h" "k = ?h" | "rng_base r \<le> ?h" "?h < k"
        using hk by fastforce
      then show ?thesis
      proof cases
        case 1
        then show ?thesis using True False ne b lt kr R rk
          by (subst StoreRangeInternal.simps)
            (auto simp: store_shrink_def Let_def map_insert_split)
      next
        case 2
        then show ?thesis using True False ne b lt kr R
          by (subst StoreRangeInternal.simps)
            (auto simp: store_shrink_def Let_def)
      next
        case 3
        let ?r = "\<lparr>rng_base = ?h + 1, rng_delta = rng_delta r + (?h - rng_base r + 1),
          rng_entry = rng_entry r\<rparr>"
        let ?m' = "take ?i ?m @ (k, ?r) # drop (Suc ?i) ?m"
        let ?ad = "?h - rng_base (snd (?m ! ?i)) + 1"
        have ret: "RetrieveRange rm (fst (?m ! ?i)) =
          Some (rng_entry r, rng_base r, rng_delta r, k - rng_base r + 1)"
          using RetrieveRange_at_lower_bound [of ?m ?h rm] 3 lt kr by (simp add: range_result_def)
        have m': "map_insert (fst (?m ! ?i)) \<lparr>rng_base = rng_base r + ?ad,
            rng_delta = rng_delta r + ?ad, rng_entry = rng_entry r\<rparr> (map_erase ?i ?m) = ?m'"
          using map_insert_erase [OF ks lt, of ?r] kr by simp
        have h1: "?h < ?h + 1" "?h + 1 \<le> k"
          using 3(2) by (rule word_less_add_one, rule inc_le)
        have L: "takeWhile (\<lambda>e. fst e < ?h) ?m' = takeWhile (\<lambda>e. fst e < ?h) ?m"
          "dropWhile (\<lambda>e. fst e < ?h) ?m' = (k, ?r) # drop (Suc ?i) ?m"
          using keys_of_split(1) [OF ks] hk
          by (auto simp: lower_bound_split takeWhile_tail dropWhile_append3)
        have wf': "ranges_wf ?m'"
          using wf h1 lower_bound_split(1) [of ?m ?h] keys_of_split(1) [OF ks]
          by (subst (asm) id_take_nth_drop [OF lt])
            (fastforce simp: ranges_wf_append ranges_wf_Cons kr intro: order.strict_trans)
        have IH: "StoreRangeInternal (rm\<lparr>rm_map := ?m'\<rparr>) base delta sz entry =
          (case store_shrink ?m' base delta ?h entry of
             None \<Rightarrow> (False, rm\<lparr>rm_map := ?m'\<rparr>) | Some m \<Rightarrow> (True, rm\<lparr>rm_map := m\<rparr>))"
        proof -
          have "\<not> lower_bound ?m base \<noteq> ?i"
            and "?i \<noteq> length ?m \<and> rng_base (snd (?m ! ?i)) \<le> ?h"
            and "enable_shrink_down rm \<and> ?h < fst (?m ! ?i)"
            using True False 3 kr "1.prems"(2) by simp_all
          note IH = "1.IH"(2) [OF refl ne refl refl refl this refl refl ret refl refl refl,
            unfolded m']
          have "rm_wf (rm\<lparr>rm_map := ?m'\<rparr>)" and "enable_shrink_down (rm\<lparr>rm_map := ?m'\<rparr>)"
            using wf' "1.prems"(2) by (simp_all add: rm_wf_def)
          from IH [OF this "1.prems"(3,4)] show ?thesis by (simp cong: option.case_cong)
        qed
        have "store_shrink ?m' base delta ?h entry = store_shrink ?m base delta ?h entry"
          using L R 3 h1 by (auto simp: store_shrink_def shrunk_base_def Let_def)
        moreover have "store_shrink ?m base delta ?h entry \<noteq> None"
          using R 3 by (auto simp: store_shrink_def Let_def)
        ultimately show ?thesis
          using True False ne "1.prems"(2) 3(1) kr ret IH m'
          by (subst StoreRangeInternal.simps) (auto simp: Let_def 3(2))
      qed
    qed
  qed
qed

section \<open>What a store does to the map\<close>

text \<open>A range that begins at or below \<open>high\<close> and ends above it, moved above it.\<close>

definition shrink_above ::
  "'a::len word \<Rightarrow> 'a word \<times> ('a word, 'e) rm_range \<Rightarrow> 'a word \<times> ('a word, 'e) rm_range" where
  "shrink_above high e =
     (if rng_base (snd e) \<le> high \<and> high < fst e
      then (fst e, \<lparr>rng_base = high + 1,
        rng_delta = rng_delta (snd e) + (high - rng_base (snd e) + 1),
        rng_entry = rng_entry (snd e)\<rparr>)
      else e)"

definition new_range ::
  "('a::len word, ('a word, 'e) rm_range) std_map \<Rightarrow> 'a word \<Rightarrow> 'a word \<Rightarrow> 'a word \<Rightarrow> 'e
    \<Rightarrow> 'a word \<times> ('a word, 'e) rm_range" where
  "new_range m base delta high entry =
     (high, \<lparr>rng_base = shrunk_base m base high,
       rng_delta = delta + (shrunk_base m base high - base), rng_entry = entry\<rparr>)"

lemma last_takeWhile_greatest:
  assumes "keys_sorted m" and "e \<in> set m" and "fst e < high"
  shows "takeWhile (\<lambda>e. fst e < high) m \<noteq> []"
    and "fst e \<le> fst (last (takeWhile (\<lambda>e. fst e < high) m))"
proof -
  let ?L = "takeWhile (\<lambda>e. fst e < high) m"
  have e: "e \<in> set ?L"
    using assms keys_of_split(2) [OF assms(1), of e high]
    by (metis Un_iff linorder_not_le set_append takeWhile_dropWhile_id)
  then show ne: "?L \<noteq> []" by auto
  have "keys_sorted ?L"
    using assms(1) unfolding keys_sorted_def
    by (metis sorted_wrt_append map_append takeWhile_dropWhile_id)
  moreover obtain j where "j < length ?L" "?L ! j = e" using e by (auto simp: in_set_conv_nth)
  ultimately show "fst e \<le> fst (last ?L)"
    using keys_sorted_nth_mono [of ?L j "length ?L - 1"] ne by (simp add: last_conv_nth)
qed

lemma shrunk_base_le_iff:
  assumes "keys_sorted m" and "base \<le> a" and "a \<le> high"
  shows "shrunk_base m base high \<le> a \<longleftrightarrow>
    (\<forall>e \<in> set m. base \<le> fst e \<and> fst e < high \<longrightarrow> fst e < a)"
proof -
  let ?L = "takeWhile (\<lambda>e. fst e < high) m"
  show ?thesis
  proof (cases "?L = [] \<or> fst (last ?L) < base")
    case True
    then have "\<not> (base \<le> fst e \<and> fst e < high)" if "e \<in> set m" for e
      using last_takeWhile_greatest [OF assms(1) that] by fastforce
    with True assms(2) show ?thesis by (auto simp: shrunk_base_def Let_def)
  next
    case False
    then have last: "last ?L \<in> set m" "fst (last ?L) < high" "base \<le> fst (last ?L)"
      using last_takeWhile_less [of high m] by (auto dest: set_takeWhileD [OF last_in_set])
    have "shrunk_base m base high \<le> a \<longleftrightarrow> fst (last ?L) < a"
      using False word_add_one_le_iff [OF last(2)] by (simp add: shrunk_base_def Let_def)
    moreover have "fst e \<le> fst (last ?L)" if "e \<in> set m" "fst e < high" for e
      using last_takeWhile_greatest(2) [OF assms(1) that] .
    ultimately show ?thesis using last by (meson order_le_less_trans)
  qed
qed

lemma store_shrink_None_iff:
  assumes "ranges_wf m"
  shows "store_shrink m base delta high entry = None \<longleftrightarrow> (\<exists>e \<in> set m. fst e = high)"
proof -
  let ?R = "dropWhile (\<lambda>e. fst e < high) m"
  have ks: "keys_sorted m" using assms by (rule ranges_wf_keys_sorted)
  have R: "ranges_wf ?R"
    using assms by (metis ranges_wf_append takeWhile_dropWhile_id)
  have in_R: "e \<in> set ?R" if "e \<in> set m" "fst e = high" for e
    using that keys_of_split(1) [OF ks, of e high]
    by (metis Un_iff less_irrefl set_append takeWhile_dropWhile_id)
  have R_m: "e \<in> set m" if "e \<in> set ?R" for e using that by (rule set_dropWhileD)
  show ?thesis
  proof (cases ?R)
    case Nil
    then show ?thesis using in_R by (auto simp: store_shrink_def Let_def simp del: dropWhile_eq_Nil_conv)
  next
    case (Cons f R')
    obtain k r where f: "f = (k, r)" by fastforce
    have above: "high \<le> k" "rng_base r \<le> k" "\<And>e. e \<in> set R' \<Longrightarrow> k < rng_base (snd e)"
      using keys_of_split(2) [OF ks, of f high] R Cons f by (auto simp: ranges_wf_Cons)
    have "fst e \<noteq> high" if "e \<in> set R'" for e
      using above(3) [OF that] above(1) R that Cons
      by (fastforce simp: ranges_wf_Cons dest: ranges_wf_base_le)
    then have "(\<exists>e \<in> set m. fst e = high) \<longleftrightarrow> k = high"
      using in_R R_m Cons f by (metis fst_conv list.set_intros(1) set_ConsD)
    then show ?thesis using Cons f above(2) by (auto simp: store_shrink_def Let_def)
  qed
qed

lemma store_shrink_Some:
  assumes "ranges_wf m" and "base \<le> high" and st: "store_shrink m base delta high entry = Some m'"
  shows "ranges_wf m'" (is ?wf)
    and "set m' = insert (new_range m base delta high entry) (shrink_above high ` set m)" (is ?set)
proof -
  let ?L = "takeWhile (\<lambda>e. fst e < high) m" and ?R = "dropWhile (\<lambda>e. fst e < high) m"
  let ?b = "shrunk_base m base high"
  have ks: "keys_sorted m" using assms(1) by (rule ranges_wf_keys_sorted)
  have "ranges_wf (?L @ ?R)" using assms(1) by simp
  then have wf: "ranges_wf ?L" "ranges_wf ?R"
    and LR: "e \<in> set ?L \<Longrightarrow> f \<in> set ?R \<Longrightarrow> fst e < rng_base (snd f)" for e f
    unfolding ranges_wf_append by blast+
  have set_m: "set m = set ?L \<union> set ?R" by (metis set_append takeWhile_dropWhile_id)
  have b: "base \<le> ?b" "?b \<le> high" using shrunk_base_bounds [OF assms(2)] by auto
  have Lb: "fst e < ?b" if "e \<in> set ?L" for e
  proof (cases "base \<le> fst e")
    case True
    then show ?thesis
      using shrunk_base_le_iff [OF ks b] keys_of_split(1) [OF ks that] that set_m by blast
  next
    case False
    then show ?thesis using b(1) by simp
  qed
  have Lid: "shrink_above high ` set ?L = set ?L"
    using keys_of_split(1) [OF ks, of _ high]
    by (force simp: shrink_above_def image_iff dest: order.asym)
  have "?wf \<and> ?set"
  proof (cases ?R)
    case Nil
    then have m': "m' = ?L @ [new_range m base delta high entry]"
      using st by (simp add: store_shrink_def new_range_def Let_def del: dropWhile_eq_Nil_conv)
    have ?wf using wf Lb b m' by (simp add: ranges_wf_append ranges_wf_Cons new_range_def)
    moreover have ?set using m' Lid set_m Nil by simp
    ultimately show ?thesis by blast
  next
    case (Cons f R')
    obtain k r where f: "f = (k, r)" by fastforce
    have above: "high \<le> k" "rng_base r \<le> k" "\<And>e. e \<in> set R' \<Longrightarrow> k < rng_base (snd e)"
      "ranges_wf R'"
      using keys_of_split(2) [OF ks, of f high] wf(2) Cons f by (auto simp: ranges_wf_Cons)
    then have R': "high < rng_base (snd e)" if "e \<in> set R'" for e
      using that by (meson order_le_less_trans)
    then have R'id: "shrink_above high ` set R' = set R'"
      by (force simp: shrink_above_def image_iff dest: order.asym)
    have m': "m' = ?L @ new_range m base delta high entry # shrink_above high f # R'"
      and hk: "high < rng_base r \<or> high < k"
      using st Cons f above(1)
      by (auto simp: store_shrink_def new_range_def shrink_above_def Let_def split: if_splits)
    have f': "high < rng_base (snd (shrink_above high f))"
      "rng_base (snd (shrink_above high f)) \<le> k" "fst (shrink_above high f) = k"
      using hk above(2) f word_less_add_one [of high k] inc_le [of high k]
      by (auto simp: shrink_above_def not_le)
    have ?wf using m' wf(1) Lb b f' above(3,4) R' LR
      by (fastforce simp: ranges_wf_append ranges_wf_Cons new_range_def
          intro: order_less_trans order_less_le_trans)
    moreover have ?set using m' Lid R'id set_m Cons by auto
    ultimately show ?thesis by blast
  qed
  then show ?wf ?set by blast+
qed

lemma store_strict_Some_iff:
  assumes "ranges_wf m" and "base \<le> high"
  shows "store_strict m base delta high entry \<noteq> None \<longleftrightarrow>
    (\<forall>e \<in> set m. fst e < base \<or> high < rng_base (snd e))"
proof -
  let ?L = "takeWhile (\<lambda>e. fst e < high) m" and ?R = "dropWhile (\<lambda>e. fst e < high) m"
  have ks: "keys_sorted m" using assms(1) by (rule ranges_wf_keys_sorted)
  have set_m: "set m = set ?L \<union> set ?R" by (metis set_append takeWhile_dropWhile_id)
  have wfR: "ranges_wf ?R" using assms(1) by (metis ranges_wf_append takeWhile_dropWhile_id)
  have L: "shrunk_base m base high = base \<longleftrightarrow> (\<forall>e \<in> set ?L. fst e < base)"
    using shrunk_base_le_iff [OF ks order.refl assms(2)] shrunk_base_bounds(1) [OF assms(2)]
      keys_of_split [OF ks, of _ high] set_m by (smt (verit) Un_iff antisym not_le order.refl)
  have R: "(?R \<noteq> [] \<longrightarrow> high < rng_base (snd (hd ?R))) \<longleftrightarrow> (\<forall>e \<in> set ?R. high < rng_base (snd e))"
  proof (cases ?R)
    case (Cons f R')
    then have "high \<le> fst f" "\<And>e. e \<in> set R' \<Longrightarrow> fst f < rng_base (snd e)"
      using keys_of_split(2) [OF ks, of f high] wfR by (auto simp: ranges_wf_Cons)
    then show ?thesis using Cons by (auto intro: order_le_less_trans)
  qed (simp del: dropWhile_eq_Nil_conv)
  have "\<not> high < rng_base (snd e)" if "e \<in> set ?L" for e
    using keys_of_split(1) [OF ks that] ranges_wf_base_le [OF assms(1), of e] that set_m by auto
  moreover have "\<not> fst e < base" if "e \<in> set ?R" for e
    using keys_of_split(2) [OF ks that] assms(2) by auto
  ultimately have "(\<forall>e \<in> set m. fst e < base \<or> high < rng_base (snd e)) \<longleftrightarrow>
      (\<forall>e \<in> set ?L. fst e < base) \<and> (\<forall>e \<in> set ?R. high < rng_base (snd e))"
    unfolding set_m by blast
  also have "\<dots> \<longleftrightarrow> store_strict m base delta high entry \<noteq> None"
    unfolding L [symmetric] R [symmetric] by (simp add: store_strict_def Let_def)
  finally show ?thesis ..
qed

lemma store_strict_Some:
  assumes "ranges_wf m" and "base \<le> high" and st: "store_strict m base delta high entry = Some m'"
  shows "ranges_wf m'"
    and "set m' = insert (high, \<lparr>rng_base = base, rng_delta = delta, rng_entry = entry\<rparr>) (set m)"
proof -
  let ?L = "takeWhile (\<lambda>e. fst e < high) m" and ?R = "dropWhile (\<lambda>e. fst e < high) m"
  let ?new = "(high, \<lparr>rng_base = base, rng_delta = delta, rng_entry = entry\<rparr>)"
  have m': "m' = ?L @ ?new # ?R" using st by (simp add: store_strict_def Let_def split: if_splits)
  have apart: "\<forall>e \<in> set m. fst e < base \<or> high < rng_base (snd e)"
    using store_strict_Some_iff [OF assms(1,2)] st by auto
  have set_m: "set m = set ?L \<union> set ?R" by (metis set_append takeWhile_dropWhile_id)
  then show "set m' = insert ?new (set m)" using m' by auto
  have ks: "keys_sorted m" using assms(1) by (rule ranges_wf_keys_sorted)
  have "ranges_wf (?L @ ?R)" using assms(1) by simp
  then have "ranges_wf ?L \<and> ranges_wf ?R \<and>
      (\<forall>e \<in> set ?L. \<forall>f \<in> set ?R. fst e < rng_base (snd f))"
    unfolding ranges_wf_append by blast
  moreover have "fst e < base" if "e \<in> set ?L" for e
    using that apart set_m keys_of_split(1) [OF ks that] ranges_wf_base_le [OF assms(1), of e]
    by fastforce
  moreover have "high < rng_base (snd e)" if "e \<in> set ?R" for e
  proof -
    have "\<not> fst e < base" using keys_of_split(2) [OF ks that] assms(2) by simp
    moreover have "e \<in> set m" using that set_m by blast
    ultimately show ?thesis using apart by blast
  qed
  ultimately show "ranges_wf m'"
    using m' assms(2) by (simp add: ranges_wf_append ranges_wf_Cons)
qed

section \<open>Properties of the range map\<close>

text \<open>The size of a request: not zero, and not past the end of the address space.\<close>

definition good_span :: "'a::len word \<Rightarrow> 'a word \<Rightarrow> bool" where
  "good_span base sz \<longleftrightarrow> sz \<noteq> 0 \<and> base \<le> base + (sz - 1)"

lemma StoreRange_bad_span: "\<not> good_span base sz \<Longrightarrow> StoreRange rm base sz entry = (False, rm)"
  by (subst StoreRange_def, subst StoreRangeInternal.simps) (auto simp: good_span_def Let_def)

lemma StoreRange_strict:
  assumes "rm_wf rm" and "\<not> enable_shrink_down rm" and "good_span base sz"
  shows "StoreRange rm base sz entry =
    (case store_strict (rm_map rm) base 0 (base + (sz - 1)) entry of
       None \<Rightarrow> (False, rm) | Some m \<Rightarrow> (True, rm\<lparr>rm_map := m\<rparr>))"
  using assms by (simp add: StoreRange_def good_span_def StoreRangeInternal_strict)

lemma StoreRange_shrink:
  assumes "rm_wf rm" and "enable_shrink_down rm" and "good_span base sz"
  shows "StoreRange rm base sz entry =
    (case store_shrink (rm_map rm) base 0 (base + (sz - 1)) entry of
       None \<Rightarrow> (False, rm) | Some m \<Rightarrow> (True, rm\<lparr>rm_map := m\<rparr>))"
  using assms by (simp add: StoreRange_def good_span_def StoreRangeInternal_shrink)

lemma StoreRange_frame [wf_intros]:
  assumes "rm_wf rm" and "StoreRange rm base sz entry = (ok, rm')"
  shows "rm_wf rm'" and "enable_shrink_down rm' = enable_shrink_down rm" and "\<not> ok \<Longrightarrow> rm' = rm"
proof -
  have "rm_wf rm' \<and> enable_shrink_down rm' = enable_shrink_down rm \<and> (\<not> ok \<longrightarrow> rm' = rm)"
  proof (cases "good_span base sz")
    case False
    then show ?thesis using assms by (simp add: StoreRange_bad_span)
  next
    case True
    then have le: "base \<le> base + (sz - 1)" by (simp add: good_span_def)
    have wf: "ranges_wf (rm_map rm)" using assms(1) by (simp add: rm_wf_def)
    show ?thesis
      using assms True StoreRange_strict [OF assms(1) _ True, of entry]
        StoreRange_shrink [OF assms(1) _ True, of entry]
        store_strict_Some(1) [OF wf le] store_shrink_Some(1) [OF wf le]
      by (cases "enable_shrink_down rm") (auto simp: rm_wf_def split: option.splits)
  qed
  then show "rm_wf rm'" "enable_shrink_down rm' = enable_shrink_down rm" "\<not> ok \<Longrightarrow> rm' = rm"
    by blast+
qed

text \<open>
  The lookup after a store. With shrinking off, the new range appears and nothing else
  changes. With shrinking on, the new range loses the addresses up to the last range that
  ends inside it, and the range that contains \<open>high\<close> and ends above it loses every address
  up to \<open>high\<close>, including those below \<open>base\<close>.
\<close>

lemma rm_lookup_after:
  assumes "rm_wf rm'" and "set (rm_map rm') = insert new S"
    and "covers new a \<Longrightarrow> x = Some new"
    and "\<And>e. \<not> covers new a \<Longrightarrow> e \<in> S \<Longrightarrow> covers e a \<Longrightarrow> x = Some e"
    and "\<not> covers new a \<Longrightarrow> (\<And>e. e \<in> S \<Longrightarrow> \<not> covers e a) \<Longrightarrow> x = None"
  shows "rm_lookup rm' a = x"
proof (cases "\<exists>e \<in> insert new S. covers e a")
  case True
  then show ?thesis
    using assms rm_lookup_iff [OF assms(1), of a] by (metis insert_iff)
next
  case False
  then show ?thesis
    using assms rm_lookup_None_iff [of rm' a] by auto
qed

lemma StoreRange_strict_lookup:
  assumes wf: "rm_wf rm" and off: "\<not> enable_shrink_down rm"
    and st: "StoreRange rm base sz entry = (True, rm')"
  shows "rm_lookup rm' a =
    (if base \<le> a \<and> a \<le> base + (sz - 1)
     then Some (base + (sz - 1), \<lparr>rng_base = base, rng_delta = 0, rng_entry = entry\<rparr>)
     else rm_lookup rm a)"
proof -
  let ?h = "base + (sz - 1)"
  have span: "good_span base sz" using st StoreRange_bad_span [of base sz rm entry] by auto
  then have le: "base \<le> ?h" by (simp add: good_span_def)
  obtain m where m: "store_strict (rm_map rm) base 0 ?h entry = Some m" "rm' = rm\<lparr>rm_map := m\<rparr>"
    using st StoreRange_strict [OF wf off span, of entry] by (auto split: option.splits)
  have mwf: "ranges_wf (rm_map rm)" using wf by (simp add: rm_wf_def)
  note set_m = store_strict_Some(2) [OF mwf le m(1)]
  have apart: "\<forall>e \<in> set (rm_map rm). fst e < base \<or> ?h < rng_base (snd e)"
    using store_strict_Some_iff [OF mwf le] m(1) by (metis option.discI)
  show ?thesis
    using StoreRange_frame(1) [OF wf st] set_m m(2)
    by (intro rm_lookup_after)
      (auto simp: covers_def rm_lookup_iff [OF wf] rm_lookup_None_iff)
qed

text \<open>A store without shrinking leaves the map alone or adds exactly the new range.\<close>

lemma StoreRange_strict_cases:
  assumes wf: "rm_wf rm" and off: "\<not> enable_shrink_down rm"
    and st: "StoreRange rm base sz entry = (ok, rm')"
  shows "rm_wf rm' \<and> \<not> enable_shrink_down rm' \<and>
    (\<not> ok \<and> rm' = rm \<or>
     ok \<and> good_span base sz \<and> set (rm_map rm') =
       insert (base + (sz - 1), \<lparr>rng_base = base, rng_delta = 0, rng_entry = entry\<rparr>) (set (rm_map rm)))"
proof (cases ok)
  case True
  let ?h = "base + (sz - 1)"
  have span: "good_span base sz" using st True StoreRange_bad_span [of base sz rm entry] by auto
  then have le: "base \<le> ?h" by (simp add: good_span_def)
  obtain m where m: "store_strict (rm_map rm) base 0 ?h entry = Some m" "rm' = rm\<lparr>rm_map := m\<rparr>"
    using st True StoreRange_strict [OF wf off span, of entry] by (auto split: option.splits)
  have mwf: "ranges_wf (rm_map rm)" using wf by (simp add: rm_wf_def)
  show ?thesis
    using store_strict_Some(2) [OF mwf le m(1)] StoreRange_frame [OF wf st] m(2) off True span by simp
qed (use StoreRange_frame [OF wf st] off in simp)

lemma StoreRange_shrink_lookup:
  assumes wf: "rm_wf rm" and on: "enable_shrink_down rm"
    and st: "StoreRange rm base sz entry = (True, rm')"
  defines "high \<equiv> base + (sz - 1)"
  shows "rm_lookup rm' a =
    (if base \<le> a \<and> a \<le> high \<and>
        (\<forall>e \<in> set (rm_map rm). base \<le> fst e \<and> fst e < high \<longrightarrow> fst e < a)
     then Some (new_range (rm_map rm) base 0 high entry)
     else case rm_lookup rm a of
         None \<Rightarrow> None
       | Some e \<Rightarrow> if covers (shrink_above high e) a then Some (shrink_above high e) else None)"
proof -
  have span: "good_span base sz" using st StoreRange_bad_span [of base sz rm entry] by auto
  then have le: "base \<le> high" by (simp add: good_span_def high_def)
  obtain m where m: "store_shrink (rm_map rm) base 0 high entry = Some m" "rm' = rm\<lparr>rm_map := m\<rparr>"
    using st StoreRange_shrink [OF wf on span, of entry] by (auto simp: high_def split: option.splits)
  have mwf: "ranges_wf (rm_map rm)" and ks: "keys_sorted (rm_map rm)"
    using wf by (auto simp: rm_wf_def intro: ranges_wf_keys_sorted)
  let ?new = "new_range (rm_map rm) base 0 high entry"
  have cov: "covers ?new a \<longleftrightarrow> base \<le> a \<and> a \<le> high \<and>
      (\<forall>e \<in> set (rm_map rm). base \<le> fst e \<and> fst e < high \<longrightarrow> fst e < a)"
    using shrunk_base_le_iff [OF ks, of base a high] shrunk_base_bounds(1) [OF le]
    by (auto simp: covers_def new_range_def dest: order.trans)
  have sub: "covers e a" if "covers (shrink_above high e) a" for e
    using that word_add_one_le_iff [of high "fst e" a]
    by (auto simp: covers_def shrink_above_def split: if_splits)
  let ?old = "case rm_lookup rm a of None \<Rightarrow> None
    | Some e \<Rightarrow> if covers (shrink_above high e) a then Some (shrink_above high e) else None"
  have hit: "?old = Some (shrink_above high e)"
    if "e \<in> set (rm_map rm)" "covers (shrink_above high e) a" for e
  proof -
    have "rm_lookup rm a = Some e" using that sub rm_lookup_iff [OF wf] by blast
    with that show ?thesis by simp
  qed
  have miss: "?old = None" if "\<And>e. e \<in> set (rm_map rm) \<Longrightarrow> \<not> covers (shrink_above high e) a"
    using that rm_lookup_iff [OF wf, of a] by (simp split: option.splits)
  have set_m: "set (rm_map rm') = insert ?new (shrink_above high ` set (rm_map rm))"
    using store_shrink_Some(2) [OF mwf le m(1)] m(2) by simp
  show ?thesis
    unfolding cov [symmetric]
  proof (rule rm_lookup_after [OF StoreRange_frame(1) [OF wf st] set_m])
    fix e assume "\<not> covers ?new a" "e \<in> shrink_above high ` set (rm_map rm)" "covers e a"
    then show "(if covers ?new a then Some ?new else ?old) = Some e"
      using hit by auto
  next
    assume "\<not> covers ?new a" "\<And>e. e \<in> shrink_above high ` set (rm_map rm) \<Longrightarrow> \<not> covers e a"
    then show "(if covers ?new a then Some ?new else ?old) = None"
      using miss by simp
  qed simp
qed

text \<open>\<open>RetrieveNearestRange\<close> where no range contains the address.\<close>

lemma RetrieveNearestRange_miss:
  assumes "rm_wf rm" and "rm_lookup rm a = None"
  shows "RetrieveNearestRange rm a =
    (if \<exists>e \<in> set (rm_map rm). fst e < a
     then Some (range_result (last (filter (\<lambda>e. fst e < a) (rm_map rm)))) else None)"
proof -
  let ?m = "rm_map rm" and ?u = "upper_bound (rm_map rm) a"
  have wf: "ranges_wf ?m" and ks: "keys_sorted ?m"
    using assms(1) by (auto simp: rm_wf_def intro: ranges_wf_keys_sorted)
  have ne: "fst e \<noteq> a" if "e \<in> set ?m" for e
    using assms(2) that ranges_wf_base_le [OF wf that]
    by (auto simp: rm_lookup_None_iff covers_def)
  have "takeWhile (\<lambda>e. fst e \<le> a) ?m = filter (\<lambda>e. fst e < a) ?m"
  proof -
    have "filter (\<lambda>e. fst e < a) ?m = filter (\<lambda>e. fst e \<le> a) ?m"
      using ne by (intro filter_cong) (auto simp: le_less)
    also have "\<dots> = takeWhile (\<lambda>e. fst e \<le> a) ?m"
    proof (rule takeWhile_eq_filter [symmetric])
      fix e assume "e \<in> set (dropWhile (\<lambda>e. fst e \<le> a) ?m)"
      moreover have "sorted_wrt (\<lambda>e f. fst e < fst f) ?m"
        using ks by (simp add: keys_sorted_def sorted_wrt_map)
      ultimately show "\<not> fst e \<le> a"
        using sorted_wrt_dropWhile_all [of "\<lambda>e f. fst e < fst f" ?m "\<lambda>e. fst e \<le> a" e] by force
    qed
    finally show ?thesis ..
  qed
  note eq = this
  have f: "take ?u ?m = filter (\<lambda>e. fst e < a) ?m" "?u = length (filter (\<lambda>e. fst e < a) ?m)"
    using take_length_takeWhile [of "\<lambda>e. fst e \<le> a" ?m] by (simp_all only: upper_bound_def eq)
  have miss: "RetrieveRange rm a = None" using RetrieveRange_eq_lookup [OF assms(1)] assms(2) by simp
  show ?thesis
  proof (cases "?u = 0")
    case True
    then show ?thesis using f miss by (auto simp: RetrieveNearestRange_def Let_def filter_empty_conv)
  next
    case False
    then have "?m ! (?u - 1) = last (filter (\<lambda>e. fst e < a) ?m)"
      using f upper_bound_le_length [of ?m a]
      by (metis One_nat_def diff_less last_conv_nth length_0_conv lessI neq0_conv nth_take)
    with False f miss show ?thesis
      by (auto simp: RetrieveNearestRange_def Let_def filter_empty_conv)
  qed
qed

text \<open>
  \<open>RangeMap::RetrieveRange\<close> answers with the entry, base, delta and size of the stored
  range that contains the address, and fails when no stored range contains it. The invariant
  says that the ranges are disjoint, so there is at most one.
\<close>

theorem RetrieveRange_correct:
  assumes "rm_wf rm"
  shows "RetrieveRange rm address = Some (entry, base, delta, sz) \<longleftrightarrow>
    (\<exists>high. (high, \<lparr>rng_base = base, rng_delta = delta, rng_entry = entry\<rparr>) \<in> set (rm_map rm)
       \<and> base \<le> address \<and> address \<le> high \<and> sz = high - base + 1)"
proof -
  have "RetrieveRange rm address = Some (entry, base, delta, sz) \<longleftrightarrow>
    (\<exists>e. rm_lookup rm address = Some e \<and> range_result e = (entry, base, delta, sz))"
    by (auto simp: RetrieveRange_eq_lookup [OF assms])
  also have "\<dots> \<longleftrightarrow> (\<exists>high. rm_lookup rm address =
      Some (high, \<lparr>rng_base = base, rng_delta = delta, rng_entry = entry\<rparr>) \<and> sz = high - base + 1)"
    by (auto simp: range_result_def)
  finally show ?thesis
    by (simp add: rm_lookup_iff [OF assms] covers_def)
qed

theorem RetrieveRange_correct_witness:
  "RetrieveRange (snd (StoreRange (snd (StoreRange RangeMap_init 16 (8 :: 8 word) ''a'')) 64 4 ''b'')) 18
     = Some (''a'', 16, 0, 8)"
proof -
  let ?rm = "\<lparr>enable_shrink_down = False,
    rm_map = [(23 :: 8 word, \<lparr>rng_base = 16, rng_delta = 0, rng_entry = ''a''\<rparr>),
      (67, \<lparr>rng_base = 64, rng_delta = 0, rng_entry = ''b''\<rparr>)]\<rparr>"
  have "snd (StoreRange (snd (StoreRange RangeMap_init 16 (8 :: 8 word) ''a'')) 64 4 ''b'') = ?rm"
    by (simp add: StoreRange_def RangeMap_init_def StoreRangeInternal.simps Let_def lower_bound_def)
  moreover have "rm_wf ?rm" by (simp add: rm_wf_def ranges_wf_def)
  then have "RetrieveRange ?rm 18 = Some (''a'', 16, 0, 8)"
    by (subst RetrieveRange_correct) auto
  ultimately show ?thesis by simp
qed

text \<open>
  C8: without shrinking, \<open>RangeMap::StoreRange\<close> succeeds exactly when the range is not empty,
  does not wrap around, and meets no stored range; then every address of the range is looked
  up to the new entry and every other address as before. A store that fails changes nothing.
\<close>

theorem StoreRange_strict_correct:
  assumes "rm_wf rm" and "\<not> enable_shrink_down rm"
  shows "case StoreRange rm base sz entry of (ok, rm') \<Rightarrow>
    (ok \<longleftrightarrow> sz \<noteq> 0 \<and> base \<le> base + (sz - 1) \<and>
       (\<forall>a. base \<le> a \<and> a \<le> base + (sz - 1) \<longrightarrow> rm_lookup rm a = None)) \<and>
    (\<not> ok \<longrightarrow> rm' = rm) \<and>
    (ok \<longrightarrow> (\<forall>a. rm_lookup rm' a =
       (if base \<le> a \<and> a \<le> base + (sz - 1)
        then Some (base + (sz - 1), \<lparr>rng_base = base, rng_delta = 0, rng_entry = entry\<rparr>)
        else rm_lookup rm a)))"
proof (cases "StoreRange rm base sz entry")
  case (Pair ok rm')
  let ?h = "base + (sz - 1)"
  have mwf: "ranges_wf (rm_map rm)" using assms(1) by (simp add: rm_wf_def)
  have meets: "(\<forall>e \<in> set (rm_map rm). fst e < base \<or> ?h < rng_base (snd e)) \<longleftrightarrow>
      (\<forall>a. base \<le> a \<and> a \<le> ?h \<longrightarrow> rm_lookup rm a = None)" if le: "base \<le> ?h"
  proof
    assume apart: "\<forall>a. base \<le> a \<and> a \<le> ?h \<longrightarrow> rm_lookup rm a = None"
    show "\<forall>e \<in> set (rm_map rm). fst e < base \<or> ?h < rng_base (snd e)"
    proof (intro ballI)
      fix e assume e: "e \<in> set (rm_map rm)"
      show "fst e < base \<or> ?h < rng_base (snd e)"
      proof (cases "base \<le> rng_base (snd e)")
        case True
        then have "\<not> covers e (rng_base (snd e))" if "rng_base (snd e) \<le> ?h"
          using apart that e by (auto simp: rm_lookup_None_iff)
        then show ?thesis
          using ranges_wf_base_le [OF mwf e] by (metis covers_def not_le order.refl)
      next
        case False
        have "\<not> covers e base" using apart le e by (auto simp: rm_lookup_None_iff)
        with False show ?thesis by (auto simp: covers_def)
      qed
    qed
  qed (auto simp: rm_lookup_None_iff covers_def)
  have "ok \<longleftrightarrow> sz \<noteq> 0 \<and> base \<le> ?h \<and> (\<forall>a. base \<le> a \<and> a \<le> ?h \<longrightarrow> rm_lookup rm a = None)"
  proof (cases "good_span base sz")
    case False
    then show ?thesis using Pair StoreRange_bad_span [OF False, of rm entry] by (auto simp: good_span_def)
  next
    case True
    then have le: "base \<le> ?h" and "sz \<noteq> 0" by (simp_all add: good_span_def)
    then show ?thesis
      using Pair StoreRange_strict [OF assms True, of entry] meets [OF le]
        store_strict_Some_iff [OF mwf le, of 0 entry] by (auto split: option.splits)
  qed
  then show ?thesis
    using Pair StoreRange_frame(3) [OF assms(1) Pair] StoreRange_strict_lookup [OF assms] by auto
qed

theorem StoreRange_strict_correct_witness:
  "StoreRange RangeMap_init 250 (6 :: 8 word) ''a'' =
     (True, \<lparr>enable_shrink_down = False,
       rm_map = [(255, \<lparr>rng_base = 250, rng_delta = 0, rng_entry = ''a''\<rparr>)]\<rparr>) \<and>
   (case StoreRange RangeMap_init 250 (6 :: 8 word) ''a'' of (ok, rm') \<Rightarrow> ok)"
proof -
  have h: "rm_wf (RangeMap_init :: (8 word, string) range_map)"
    "\<not> enable_shrink_down (RangeMap_init :: (8 word, string) range_map)"
    by (simp_all add: RangeMap_init_def rm_wf_def)
  show ?thesis
    using StoreRange_strict_correct [OF h, of 250 6 "''a''"]
    by (simp add: StoreRange_def RangeMap_init_def StoreRangeInternal.simps Let_def lower_bound_def)
qed

text \<open>
  C25: with shrinking on, \<open>RangeMap::StoreRange\<close> fails only for a bad size or when a stored
  range ends exactly where the new one ends. Otherwise every address of the request above the
  stored ranges that end inside it is looked up to the new entry; a stored range that begins
  at or below the end of the request and reaches above it keeps only what is above, and all
  other addresses are looked up as before. No address is ever claimed by two entries.
\<close>

theorem StoreRange_shrink_correct:
  assumes "rm_wf rm" and "enable_shrink_down rm"
  shows "case StoreRange rm base sz entry of (ok, rm') \<Rightarrow>
    (ok \<longleftrightarrow> sz \<noteq> 0 \<and> base \<le> base + (sz - 1) \<and> base + (sz - 1) \<notin> fst ` set (rm_map rm)) \<and>
    (\<not> ok \<longrightarrow> rm' = rm) \<and>
    (ok \<longrightarrow> rm_wf rm' \<and> (\<forall>a. rm_lookup rm' a =
       (if base \<le> a \<and> a \<le> base + (sz - 1) \<and>
           (\<forall>e \<in> set (rm_map rm). base \<le> fst e \<and> fst e < base + (sz - 1) \<longrightarrow> fst e < a)
        then Some (new_range (rm_map rm) base 0 (base + (sz - 1)) entry)
        else case rm_lookup rm a of
            None \<Rightarrow> None
          | Some e \<Rightarrow>
              if covers (shrink_above (base + (sz - 1)) e) a
              then Some (shrink_above (base + (sz - 1)) e) else None)))"
proof (cases "StoreRange rm base sz entry")
  case (Pair ok rm')
  let ?h = "base + (sz - 1)"
  have mwf: "ranges_wf (rm_map rm)" using assms(1) by (simp add: rm_wf_def)
  have "ok \<longleftrightarrow> sz \<noteq> 0 \<and> base \<le> ?h \<and> ?h \<notin> fst ` set (rm_map rm)"
  proof (cases "good_span base sz")
    case False
    then show ?thesis using Pair StoreRange_bad_span [OF False, of rm entry] by (auto simp: good_span_def)
  next
    case True
    then have le: "base \<le> ?h" and "sz \<noteq> 0" by (simp_all add: good_span_def)
    then show ?thesis
      using Pair StoreRange_shrink [OF assms True, of entry]
        store_shrink_None_iff [OF mwf, of base 0 ?h entry]
      by (force split: option.splits)
  qed
  then show ?thesis
    using Pair StoreRange_frame(1,3) [OF assms(1) Pair] StoreRange_shrink_lookup [OF assms] by auto
qed

theorem StoreRange_shrink_correct_witness:
  "let rm = \<lparr>enable_shrink_down = True,
       rm_map = [(20 :: 8 word, \<lparr>rng_base = 10, rng_delta = 0, rng_entry = ''a''\<rparr>),
         (40, \<lparr>rng_base = 30, rng_delta = 0, rng_entry = ''b''\<rparr>)]\<rparr> in
   rm_wf rm \<and> enable_shrink_down rm \<and>
   StoreRange rm 15 21 ''c'' = (True, \<lparr>enable_shrink_down = True,
       rm_map = [(20 :: 8 word, \<lparr>rng_base = 10, rng_delta = 0, rng_entry = ''a''\<rparr>),
         (35, \<lparr>rng_base = 21, rng_delta = 6, rng_entry = ''c''\<rparr>),
         (40, \<lparr>rng_base = 36, rng_delta = 6, rng_entry = ''b''\<rparr>)]\<rparr>) \<and>
   (case StoreRange rm 15 21 ''c'' of (ok, rm') \<Rightarrow> ok)"
proof -
  let ?rm = "\<lparr>enable_shrink_down = True,
       rm_map = [(20 :: 8 word, \<lparr>rng_base = 10, rng_delta = 0, rng_entry = ''a''\<rparr>),
         (40, \<lparr>rng_base = 30, rng_delta = 0, rng_entry = ''b''\<rparr>)]\<rparr>"
  have h: "rm_wf ?rm" "enable_shrink_down ?rm" by (simp_all add: rm_wf_def ranges_wf_def)
  have "StoreRange ?rm 15 21 ''c'' = (True, \<lparr>enable_shrink_down = True,
       rm_map = [(20 :: 8 word, \<lparr>rng_base = 10, rng_delta = 0, rng_entry = ''a''\<rparr>),
         (35, \<lparr>rng_base = 21, rng_delta = 6, rng_entry = ''c''\<rparr>),
         (40, \<lparr>rng_base = 36, rng_delta = 6, rng_entry = ''b''\<rparr>)]\<rparr>)"
    by (simp add: StoreRange_def StoreRangeInternal.simps Let_def lower_bound_def
        RetrieveRange_def range_result_def map_erase_def)
  then show ?thesis
    using h StoreRange_shrink_correct [OF h, of 15 21 "''c''"] by simp
qed

text \<open>
  Every map a client can build: any sequence of stores, of switches of the shrinking mode and
  of \<open>Clear\<close>, whatever each answers, from the empty map.
\<close>

datatype ('addr, 'e) rm_op = Store 'addr 'addr 'e | SetShrink bool | ClearAll

fun rm_step :: "('a::len word, 'e) rm_op \<Rightarrow> ('a word, 'e) range_map \<Rightarrow> ('a word, 'e) range_map" where
  "rm_step (Store base sz entry) rm = snd (StoreRange rm base sz entry)"
| "rm_step (SetShrink b) rm = SetEnableShrinkDown rm b"
| "rm_step ClearAll rm = Clear rm"

lemma rm_wf_init: "rm_wf RangeMap_init"
  by (simp add: rm_wf_def RangeMap_init_def)

lemma rm_step_wf: "rm_wf rm \<Longrightarrow> rm_wf (rm_step opn rm)"
proof (cases opn)
  case (Store base sz entry)
  assume "rm_wf rm"
  then show ?thesis
    using Store StoreRange_frame(1) [of rm base sz entry] by (metis prod.collapse rm_step.simps(1))
qed (simp_all add: SetEnableShrinkDown_def Clear_def rm_wf_def)

text \<open>
  C26: in every range map reachable from the empty one, the stored ranges are disjoint and in
  address order, none is empty, and no address is contained in two of them.
\<close>

theorem range_map_reachable_disjoint:
  "let rm = fold rm_step ops RangeMap_init in
   sorted_wrt (\<lambda>e f. fst e < rng_base (snd f)) (rm_map rm) \<and>
   (\<forall>e \<in> set (rm_map rm). rng_base (snd e) \<le> fst e) \<and>
   GetCount rm = card (set (rm_map rm))"
proof -
  have "rm_wf (fold rm_step ops rm)" if "rm_wf rm" for rm :: "('a word, 'b) range_map"
    using that by (induction ops arbitrary: rm) (simp_all add: rm_step_wf)
  then have wf: "ranges_wf (rm_map (fold rm_step ops RangeMap_init))"
    using rm_wf_init by (simp add: rm_wf_def)
  then have "distinct (rm_map (fold rm_step ops RangeMap_init))"
    using ranges_wf_keys_sorted
    by (metis distinct_map keys_sorted_def strict_sorted_iff)
  with wf show ?thesis
    by (simp add: ranges_wf_def Let_def GetCount_def distinct_card)
qed

theorem range_map_reachable_disjoint_witness:
  "let rm = fold rm_step [Store 0 8 ''a'', SetShrink True, Store 4 (8 :: 8 word) ''b''] RangeMap_init in
   GetCount rm = 2 \<and> sorted_wrt (\<lambda>e f. fst e < rng_base (snd f)) (rm_map rm)"
  using range_map_reachable_disjoint [of "[Store 0 8 ''a'', SetShrink True, Store 4 (8 :: 8 word) ''b'']"]
  by (simp add: Let_def GetCount_def StoreRange_def SetEnableShrinkDown_def RangeMap_init_def
      StoreRangeInternal.simps lower_bound_def RetrieveRange_def range_result_def map_erase_def)

end
