(* ===== verification/Contained_Range_Map.thy ===== *)
theory Contained_Range_Map
  imports Std_Map
begin

text \<open>
  \<open>ContainedRangeMap<AddressType, EntryType>\<close> of processor/contained_range_map.h and
  contained_range_map-inl.h: a tree of nested address ranges. The abstract state is the set
  of all stored ranges; a store is accepted exactly when the set stays a family of ranges
  that are pairwise disjoint or strictly nested, and a lookup finds the smallest range that
  contains the address.
\<close>

section \<open>Data and operations\<close>

text \<open>
  A node holds \<open>base_\<close>, \<open>entry_\<close> and \<open>map_\<close>, a pointer that is NULL (None) until a child
  is stored. The high address of a node is its key in its parent's map. The base and the
  entry of the root are meaningless; the constructor gives them default values.
\<close>

datatype ('addr, 'e) crm =
  CRM (crm_base: 'addr) (crm_entry: 'e) (crm_map: "('addr \<times> ('addr, 'e) crm) list option")

definition crm_init :: "'addr \<Rightarrow> 'e \<Rightarrow> ('addr, 'e) crm" where
  "crm_init default_base default_entry = CRM default_base default_entry None"

definition kids :: "('addr, 'e) crm \<Rightarrow> ('addr \<times> ('addr, 'e) crm) list" where
  "kids n = (case crm_map n of None \<Rightarrow> [] | Some m \<Rightarrow> m)"

lemma size_kid: "i < length (kids n) \<Longrightarrow> size (snd (kids n ! i)) < size n"
proof (cases n)
  case (CRM b e mo)
  assume i: "i < length (kids n)"
  then obtain m where m: "mo = Some m" "i < length m" "kids n = m"
    using CRM by (auto simp: kids_def split: option.splits)
  have "size (snd x) < size_list (size_prod (\<lambda>_. 0) size) m" if "x \<in> set m" for x
    using that by (induction m) auto
  then have "size (snd (m ! i)) < size_list (size_prod (\<lambda>_. 0) size) m"
    using m(2) by simp
  then show ?thesis using CRM m by simp
qed

function crm_StoreRange ::
  "('a::len word, 'e) crm \<Rightarrow> 'a word \<Rightarrow> 'a word \<Rightarrow> 'e \<Rightarrow> bool \<times> ('a word, 'e) crm" where
  "crm_StoreRange n base sz entry =
     (let high = base + sz - 1 in
      if sz \<le> 0 \<or> high < base then (False, n)
      else
        let m = kids n;
            n' = CRM (crm_base n) (crm_entry n) (Some m);
            iterator_base = lower_bound m base;
            iterator_high = lower_bound m high;
            iterator_end = length m in
        if iterator_base = iterator_high \<and> iterator_base \<noteq> iterator_end \<and>
            crm_base (snd (m ! iterator_base)) \<le> base then
          if crm_base (snd (m ! iterator_base)) = base \<and> fst (m ! iterator_base) = high
          then (False, n')
          else
            case crm_StoreRange (snd (m ! iterator_base)) base sz entry of (ok, c) \<Rightarrow>
              (ok, CRM (crm_base n) (crm_entry n)
                 (Some (m[iterator_base := (fst (m ! iterator_base), c)])))
        else
          let contains_high = (iterator_high \<noteq> iterator_end \<and>
                crm_base (snd (m ! iterator_high)) \<le> high) in
          if (iterator_base \<noteq> iterator_end \<and> crm_base (snd (m ! iterator_base)) < base) \<or>
              (contains_high \<and> high < fst (m ! iterator_high))
          then (False, n')
          else
            let iterator_high = (if contains_high then Suc iterator_high else iterator_high) in
            if iterator_base \<noteq> iterator_high then
              let child_map = take (iterator_high - iterator_base) (drop iterator_base m) in
              (True, CRM (crm_base n) (crm_entry n)
                 (Some (map_insert high (CRM base entry (Some child_map))
                    (map_erase_range iterator_base iterator_high m))))
            else
              (True, CRM (crm_base n) (crm_entry n)
                 (Some (map_insert high (CRM base entry None) m))))"
  by pat_completeness auto
termination
proof (relation "measure (\<lambda>(n, base, sz, entry). size n)", goal_cases)
  case 1
  show ?case by simp
next
  case (2 n base sz entry high m n' iterator_base iterator_high iterator_end)
  then show ?case
    using lower_bound_le_length [of m base] size_kid [of iterator_base n] by simp
qed

declare crm_StoreRange.simps [simp del]

function crm_RetrieveRange :: "('a::len word, 'e) crm \<Rightarrow> 'a word \<Rightarrow> 'e option" where
  "crm_RetrieveRange n address =
     (case crm_map n of
        None \<Rightarrow> None
      | Some m \<Rightarrow>
          let iterator = lower_bound m address in
          if iterator = length m \<or> address < crm_base (snd (m ! iterator)) then None
          else
            case crm_RetrieveRange (snd (m ! iterator)) address of
              None \<Rightarrow> Some (crm_entry (snd (m ! iterator)))
            | Some e \<Rightarrow> Some e)"
  by pat_completeness auto
termination
proof (relation "measure (\<lambda>(n, address). size n)", goal_cases)
  case 1
  show ?case by simp
next
  case (2 n address m iterator)
  then show ?case
    using lower_bound_le_length [of m address] size_kid [of iterator n] by (simp add: kids_def)
qed

declare crm_RetrieveRange.simps [simp del]

definition crm_Clear :: "('addr, 'e) crm \<Rightarrow> ('addr, 'e) crm" where
  "crm_Clear n = CRM (crm_base n) (crm_entry n) None"

section \<open>The stored ranges and the invariant\<close>

text \<open>All ranges below a node, as (base, high, entry).\<close>

fun crm_ranges :: "('addr, 'e) crm \<Rightarrow> ('addr \<times> 'addr \<times> 'e) list" where
  "crm_ranges (CRM b e None) = []"
| "crm_ranges (CRM b e (Some m)) =
     concat (map (\<lambda>(k, c). (crm_base c, k, crm_entry c) # crm_ranges c) m)"

lemma crm_ranges_kids:
  "crm_ranges n = concat (map (\<lambda>(k, c). (crm_base c, k, crm_entry c) # crm_ranges c) (kids n))"
  by (cases n rule: crm_ranges.cases) (simp_all add: kids_def)

text \<open>Two ranges may coexist: disjoint, or one strictly inside the other.\<close>

definition may_coexist :: "'a::linorder \<times> 'a \<Rightarrow> 'a \<times> 'a \<Rightarrow> bool" where
  "may_coexist r s \<longleftrightarrow> snd r < fst s \<or> snd s < fst r \<or>
     (r \<noteq> s \<and> (fst s \<le> fst r \<and> snd r \<le> snd s \<or> fst r \<le> fst s \<and> snd s \<le> snd r))"

definition strictly_in :: "'a::linorder \<times> 'a \<Rightarrow> 'a \<times> 'a \<Rightarrow> bool" where
  "strictly_in r s \<longleftrightarrow> fst s \<le> fst r \<and> snd r \<le> snd s \<and> r \<noteq> s"

definition kids_disjoint :: "('a::linorder \<times> ('a, 'e) crm) list \<Rightarrow> bool" where
  "kids_disjoint m \<longleftrightarrow> sorted_wrt (\<lambda>x y. fst x < crm_base (snd y)) m \<and>
     (\<forall>x \<in> set m. crm_base (snd x) \<le> fst x)"

fun crm_wf :: "('a::linorder, 'e) crm \<Rightarrow> bool" where
  "crm_wf (CRM b e None) \<longleftrightarrow> True"
| "crm_wf (CRM b e (Some m)) \<longleftrightarrow> kids_disjoint m \<and>
     (\<forall>x \<in> set m. crm_wf (snd x) \<and>
        (\<forall>y \<in> set (kids (snd x)). strictly_in (crm_base (snd y), fst y) (crm_base (snd x), fst x)))"

lemma crm_wf_kids:
  "crm_wf n \<longleftrightarrow> kids_disjoint (kids n) \<and>
     (\<forall>x \<in> set (kids n). crm_wf (snd x) \<and>
        (\<forall>y \<in> set (kids (snd x)). strictly_in (crm_base (snd y), fst y) (crm_base (snd x), fst x)))"
  by (cases n rule: crm_wf.cases) (simp_all add: kids_def kids_disjoint_def)

declare crm_ranges.simps(2) [simp del] crm_wf.simps(2) [simp del]

lemma kids_disjoint_append:
  "kids_disjoint (A @ B) \<longleftrightarrow> kids_disjoint A \<and> kids_disjoint B \<and>
     (\<forall>x \<in> set A. \<forall>y \<in> set B. fst x < crm_base (snd y))"
  by (auto simp: kids_disjoint_def sorted_wrt_append)

lemma kids_disjoint_Cons:
  "kids_disjoint (x # B) \<longleftrightarrow> crm_base (snd x) \<le> fst x \<and> kids_disjoint B \<and>
     (\<forall>y \<in> set B. fst x < crm_base (snd y))"
  by (auto simp: kids_disjoint_def)

lemma kids_disjoint_keys_sorted: "kids_disjoint m \<Longrightarrow> keys_sorted m"
proof (induction m)
  case (Cons x m)
  have "fst x < fst y" if "y \<in> set m" for y
  proof -
    have "fst x < crm_base (snd y)" "crm_base (snd y) \<le> fst y"
      using Cons.prems that by (auto simp: kids_disjoint_def)
    then show ?thesis by simp
  qed
  with Cons show ?case
    by (cases x) (auto simp: keys_sorted_Cons kids_disjoint_Cons)
qed simp

interpretation crm_kids: interval_search "map fst" lower_bound upper_bound kids_disjoint
  "\<lambda>m i. crm_base (snd (m ! i))"
proof (intro interval_search.intro interval_search_axioms.intro key_search.intro)
  fix m :: "('a \<times> ('a, 'e) crm) list" and k i j
  assume m: "kids_disjoint m"
  then have ks: "keys_sorted m" by (rule kids_disjoint_keys_sorted)
  show "sorted_wrt (<) (map fst m)" using ks by (rule std.keys_increasing)
  show "lower_bound m k \<le> length (map fst m)" using ks by (rule std.lb_le_length)
  show "upper_bound m k \<le> length (map fst m)" using ks by (rule std.ub_le_length)
  show "i < lower_bound m k \<Longrightarrow> map fst m ! i < k" using ks by (rule std.below_lb)
  show "i < upper_bound m k \<Longrightarrow> map fst m ! i \<le> k" using ks by (rule std.below_ub)
  show "lower_bound m k \<le> i \<Longrightarrow> i < length (map fst m) \<Longrightarrow> k \<le> map fst m ! i"
    using ks by (rule std.from_lb)
  show "upper_bound m k \<le> i \<Longrightarrow> i < length (map fst m) \<Longrightarrow> k < map fst m ! i"
    using ks by (rule std.from_ub)
  show "i < length (map fst m) \<Longrightarrow> crm_base (snd (m ! i)) \<le> map fst m ! i"
    using m by (simp add: kids_disjoint_def)
  show "i < j \<Longrightarrow> j < length (map fst m) \<Longrightarrow> map fst m ! i < crm_base (snd (m ! j))"
    using m by (simp add: kids_disjoint_def sorted_wrt_iff_nth_less)
qed

text \<open>A child's own range together with all ranges below it.\<close>

definition own :: "'a \<times> ('a, 'e) crm \<Rightarrow> ('a \<times> 'a \<times> 'e) set" where
  "own x = insert (crm_base (snd x), fst x, crm_entry (snd x)) (set (crm_ranges (snd x)))"

lemma set_crm_ranges: "set (crm_ranges n) = (\<Union>x \<in> set (kids n). own x)"
  by (subst crm_ranges_kids) (auto simp: own_def)

lemma strictly_in_trans: "strictly_in r s \<Longrightarrow> strictly_in s t \<Longrightarrow> strictly_in r t"
  unfolding strictly_in_def by (cases r; cases s; cases t) auto

lemma kids_size: "x \<in> set (kids n) \<Longrightarrow> size (snd x) < size n"
  using size_kid by (metis in_set_conv_nth)

text \<open>Every range below a node is not empty and lies inside what encloses the children.\<close>

lemma crm_ranges_inside:
  "crm_wf n \<Longrightarrow> (\<forall>y \<in> set (kids n). strictly_in (crm_base (snd y), fst y) outer) \<Longrightarrow>
     (b, h, e) \<in> set (crm_ranges n) \<Longrightarrow> strictly_in (b, h) outer \<and> b \<le> h"
proof (induction "size n" arbitrary: n outer rule: less_induct)
  case less
  then obtain x where x: "x \<in> set (kids n)" "(b, h, e) \<in> own x"
    by (auto simp: set_crm_ranges)
  have wf: "crm_wf (snd x)" "crm_base (snd x) \<le> fst x"
    "\<forall>y \<in> set (kids (snd x)). strictly_in (crm_base (snd y), fst y) (crm_base (snd x), fst x)"
    using less.prems(1) x(1) unfolding crm_wf_kids [of n] by (auto simp: kids_disjoint_def)
  have out: "strictly_in (crm_base (snd x), fst x) outer" using less.prems(2) x(1) by blast
  show ?case
  proof (cases "(b, h, e) \<in> set (crm_ranges (snd x))")
    case True
    then show ?thesis
      using less.hyps [OF kids_size [OF x(1)] wf(1,3)] strictly_in_trans [OF _ out] by blast
  next
    case False
    then show ?thesis using x(2) out wf(2) by (auto simp: own_def)
  qed
qed

lemma own_inside:
  assumes "crm_wf n" and "x \<in> set (kids n)" and "(b, h, e) \<in> own x"
  shows "crm_base (snd x) \<le> b" and "b \<le> h" and "h \<le> fst x"
    and "(b, h, e) \<in> set (crm_ranges (snd x)) \<Longrightarrow> (b, h) \<noteq> (crm_base (snd x), fst x)"
proof -
  have wf: "crm_wf (snd x)" "crm_base (snd x) \<le> fst x"
    "\<forall>y \<in> set (kids (snd x)). strictly_in (crm_base (snd y), fst y) (crm_base (snd x), fst x)"
    using assms(1,2) unfolding crm_wf_kids [of n] by (auto simp: kids_disjoint_def)
  have "strictly_in (b, h) (crm_base (snd x), fst x) \<and> b \<le> h"
    if "(b, h, e) \<in> set (crm_ranges (snd x))"
    using crm_ranges_inside [OF wf(1,3) that] .
  then show "crm_base (snd x) \<le> b" and "b \<le> h" and "h \<le> fst x"
    and "(b, h, e) \<in> set (crm_ranges (snd x)) \<Longrightarrow> (b, h) \<noteq> (crm_base (snd x), fst x)"
    using assms(3) wf(2) by (auto simp: own_def strictly_in_def)
qed

section \<open>The effect of a store\<close>

lemma own_apart:
  assumes "crm_wf n" and "x \<in> set (kids n)" and "base \<le> high"
    and "fst x < base \<or> high < crm_base (snd x)"
  shows "\<forall>(b, h, e) \<in> own x. may_coexist (base, high) (b, h)"
proof -
  have "may_coexist (base, high) (b, h)" if "(b, h, e) \<in> own x" for b h e
    using own_inside(1,3) [OF assms(1,2) that] assms(4) by (auto simp: may_coexist_def)
  then show ?thesis by blast
qed

text \<open>The new range lies strictly inside the child \<open>x\<close>: only the ranges below \<open>x\<close> matter.\<close>

lemma coexist_inside:
  assumes wf: "crm_wf n" and kids: "kids n = A @ x # C"
    and x: "crm_base (snd x) \<le> base" "base \<le> high" "high \<le> fst x"
      "(crm_base (snd x), fst x) \<noteq> (base, high)"
  shows "(\<forall>(b, h, e) \<in> set (crm_ranges n). may_coexist (base, high) (b, h)) \<longleftrightarrow>
    (\<forall>(b, h, e) \<in> set (crm_ranges (snd x)). may_coexist (base, high) (b, h))"
proof -
  have "kids_disjoint (A @ x # C)" using wf kids crm_wf_kids [of n] by simp
  then have apart: "fst y < base \<or> high < crm_base (snd y)" if "y \<in> set A \<union> set C" for y
    using that x(1,3) by (auto simp: kids_disjoint_append kids_disjoint_Cons
        intro: order_less_le_trans order_le_less_trans)
  have "\<forall>(b, h, e) \<in> own y. may_coexist (base, high) (b, h)" if y: "y \<in> set A \<union> set C" for y
    using own_apart [OF wf _ x(2) apart [OF y]] y kids by auto
  then have others: "\<forall>y \<in> set A \<union> set C. \<forall>(b, h, e) \<in> own y. may_coexist (base, high) (b, h)"
    by blast
  have "may_coexist (base, high) (crm_base (snd x), fst x)"
    using x by (auto simp: may_coexist_def)
  then show ?thesis
    unfolding set_crm_ranges [of n] kids using others
    by (simp add: own_def [of x] ball_Un)
qed

lemma replace_kid:
  assumes wf: "crm_wf n" and kids: "kids n = A @ x # C"
    and c: "crm_wf c" "crm_base c = crm_base (snd x)" "crm_entry c = crm_entry (snd x)"
    and inside: "\<forall>(b, h, e) \<in> set (crm_ranges c). strictly_in (b, h) (crm_base (snd x), fst x)"
  shows "crm_wf (CRM b e (Some (A @ (fst x, c) # C)))"
    and "set (crm_ranges (CRM b e (Some (A @ (fst x, c) # C)))) =
      (\<Union>y \<in> set A \<union> set C. own y) \<union>
      insert (crm_base (snd x), fst x, crm_entry (snd x)) (set (crm_ranges c))"
proof -
  let ?n' = "CRM b e (Some (A @ (fst x, c) # C))"
  have k: "kids ?n' = A @ (fst x, c) # C" by (simp add: kids_def)
  have "strictly_in (crm_base (snd y), fst y) (crm_base (snd x), fst x)" if "y \<in> set (kids c)" for y
    using inside that unfolding set_crm_ranges [of c] by (auto simp: own_def)
  then show "crm_wf ?n'"
    using wf c unfolding crm_wf_kids [of n] crm_wf_kids [of ?n'] kids k
    by (auto simp: kids_disjoint_append kids_disjoint_Cons)
  show "set (crm_ranges ?n') = (\<Union>y \<in> set A \<union> set C. own y) \<union>
      insert (crm_base (snd x), fst x, crm_entry (snd x)) (set (crm_ranges c))"
    unfolding set_crm_ranges [of ?n'] k using c by (auto simp: own_def)
qed

text \<open>The new range encloses the children \<open>B\<close> and is apart from the others.\<close>

lemma store_around:
  assumes wf: "crm_wf n" and kids: "kids n = A @ B @ C" and le: "base \<le> high"
    and A: "\<forall>x \<in> set A. fst x < base" and C: "\<forall>x \<in> set C. high < crm_base (snd x)"
    and B: "\<forall>x \<in> set B. base \<le> crm_base (snd x) \<and> fst x \<le> high \<and>
      (crm_base (snd x), fst x) \<noteq> (base, high)"
    and c: "kids c = B" "crm_base c = base" "crm_entry c = entry"
  shows "crm_wf (CRM b e (Some (A @ (high, c) # C)))"
    and "set (crm_ranges (CRM b e (Some (A @ (high, c) # C)))) = insert (base, high, entry) (set (crm_ranges n))"
    and "\<forall>(b, h, e) \<in> set (crm_ranges n). may_coexist (base, high) (b, h)"
proof -
  let ?n' = "CRM b e (Some (A @ (high, c) # C))"
  have k: "kids ?n' = A @ (high, c) # C" by (simp add: kids_def)
  have "crm_wf c"
    using wf B unfolding crm_wf_kids [of n] crm_wf_kids [of c] kids c
    by (auto simp: kids_disjoint_append)
  then show "crm_wf ?n'"
    using wf le A B C unfolding crm_wf_kids [of n] crm_wf_kids [of ?n'] kids k
    by (auto simp: kids_disjoint_append kids_disjoint_Cons c strictly_in_def)
  show "set (crm_ranges ?n') = insert (base, high, entry) (set (crm_ranges n))"
    unfolding set_crm_ranges [of ?n'] set_crm_ranges [of n] k kids
    using c by (auto simp: own_def [of "(high, c)"] set_crm_ranges [of c])
  have "may_coexist (base, high) (b, h)" if x: "x \<in> set (A @ B @ C)" "(b, h, e) \<in> own x" for x b h e
  proof (cases "x \<in> set B")
    case True
    note own = own_inside [OF wf _ x(2), unfolded kids, OF x(1)]
    have "base \<le> b" "h \<le> high" using own(1,3) B True by (auto dest: order.trans)
    moreover have "(b, h) \<noteq> (base, high)"
    proof
      assume "(b, h) = (base, high)"
      then have "crm_base (snd x) = base" "fst x = high" using own(1,3) B True by auto
      then show False using B True by blast
    qed
    ultimately show ?thesis by (auto simp: may_coexist_def)
  next
    case False
    then have "fst x < base \<or> high < crm_base (snd x)" using x(1) A C by auto
    then show ?thesis using own_apart [OF wf _ le] x kids by (metis case_prodD)
  qed
  then show "\<forall>(b, h, e) \<in> set (crm_ranges n). may_coexist (base, high) (b, h)"
    unfolding set_crm_ranges [of n] kids by blast
qed

text \<open>How the two lower bounds cut the children of a node around a request.\<close>

lemma kids_cut:
  assumes "kids_disjoint m"
  shows "x \<in> set (take (lower_bound m k) m) \<Longrightarrow> fst x < k"
    and "x \<in> set (drop (lower_bound m k) m) \<Longrightarrow> k \<le> fst x"
proof -
  have ks: "keys_sorted m" using assms by (rule kids_disjoint_keys_sorted)
  show "x \<in> set (take (lower_bound m k) m) \<Longrightarrow> fst x < k"
    by (auto simp: lower_bound_def take_length_takeWhile dest: set_takeWhileD)
  show "x \<in> set (drop (lower_bound m k) m) \<Longrightarrow> k \<le> fst x"
    using std.from_lb [OF ks, of k] by (auto simp: in_set_conv_nth)
qed

definition store_ok ::
  "('a::len word, 'e) crm \<Rightarrow> 'a word \<Rightarrow> 'a word \<Rightarrow> 'e \<Rightarrow> bool \<Rightarrow> ('a word, 'e) crm \<Rightarrow> bool" where
  "store_ok n base high entry ok n' \<longleftrightarrow>
     (ok \<longleftrightarrow> (\<forall>(b, h, e) \<in> set (crm_ranges n). may_coexist (base, high) (b, h))) \<and>
     crm_wf n' \<and> crm_base n' = crm_base n \<and> crm_entry n' = crm_entry n \<and>
     set (crm_ranges n') =
       (if ok then insert (base, high, entry) (set (crm_ranges n)) else set (crm_ranges n))"

lemma kids_Some [simp]: "kids (CRM b e (Some m)) = m"
  by (simp add: kids_def)

lemma crm_ranges_Some_kids: "crm_ranges (CRM b e (Some (kids n))) = crm_ranges n"
  unfolding crm_ranges_kids [of "CRM b e (Some (kids n))"] crm_ranges_kids [of n] by simp

lemma crm_wf_Some_kids: "crm_wf n \<Longrightarrow> crm_wf (CRM b e (Some (kids n)))"
  unfolding crm_wf_kids [of "CRM b e (Some (kids n))"] crm_wf_kids [of n] by simp

lemma store_ok_rejected:
  assumes "crm_wf n" and "x \<in> set (kids n)" and "\<not> may_coexist (base, high) (crm_base (snd x), fst x)"
  shows "store_ok n base high entry False (CRM (crm_base n) (crm_entry n) (Some (kids n)))"
proof -
  have "(crm_base (snd x), fst x, crm_entry (snd x)) \<in> set (crm_ranges n)"
    using assms(2) unfolding set_crm_ranges [of n] by (auto simp: own_def)
  then have "\<not> (\<forall>(b, h, e) \<in> set (crm_ranges n). may_coexist (base, high) (b, h))"
    using assms(3) by blast
  then show ?thesis
    using assms(1) by (simp add: store_ok_def crm_wf_Some_kids crm_ranges_Some_kids)
qed

lemma store_ok_child:
  assumes wf: "crm_wf n" and kids: "kids n = A @ x # C"
    and x: "crm_base (snd x) \<le> base" "base \<le> high" "high \<le> fst x"
      "(crm_base (snd x), fst x) \<noteq> (base, high)"
    and st: "store_ok (snd x) base high entry ok c"
  shows "store_ok n base high entry ok (CRM (crm_base n) (crm_entry n) (Some (A @ (fst x, c) # C)))"
proof -
  have wfx: "crm_wf (snd x)"
    "\<forall>y \<in> set (kids (snd x)). strictly_in (crm_base (snd y), fst y) (crm_base (snd x), fst x)"
    using wf kids unfolding crm_wf_kids [of n] by auto
  have "strictly_in (b, h) (crm_base (snd x), fst x)" if "(b, h, e) \<in> set (crm_ranges c)" for b h e
  proof (cases "(b, h, e) \<in> set (crm_ranges (snd x))")
    case True
    then show ?thesis using crm_ranges_inside [OF wfx] by blast
  next
    case False
    then have "(b, h) = (base, high)" using st that by (auto simp: store_ok_def split: if_splits)
    then show ?thesis using x by (auto simp: strictly_in_def)
  qed
  then have "\<forall>(b, h, e) \<in> set (crm_ranges c). strictly_in (b, h) (crm_base (snd x), fst x)" by blast
  note new = replace_kid [OF wf kids _ _ _ this, of "crm_base n" "crm_entry n"]
  have "set (crm_ranges n) = (\<Union>y \<in> set A \<union> set C. own y) \<union> own x"
    unfolding set_crm_ranges [of n] kids by auto
  then show ?thesis
    using new st coexist_inside [OF wf kids x] by (auto simp: store_ok_def own_def [of x])
qed

lemma store_ok_around:
  assumes "crm_wf n" and "kids n = A @ B @ C" and "base \<le> high"
    and "\<forall>x \<in> set A. fst x < base" and "\<forall>x \<in> set C. high < crm_base (snd x)"
    and "\<forall>x \<in> set B. base \<le> crm_base (snd x) \<and> fst x \<le> high \<and>
      (crm_base (snd x), fst x) \<noteq> (base, high)"
    and "kids c = B" "crm_base c = base" "crm_entry c = entry"
  shows "store_ok n base high entry True (CRM (crm_base n) (crm_entry n) (Some (A @ (high, c) # C)))"
  using store_around(1,2) [OF assms, of "crm_base n" "crm_entry n"] store_around(3) [OF assms]
  by (simp add: store_ok_def)

text \<open>
  The part of the children between the two iterators, with the range at \<open>iterator_high\<close> added
  where it begins inside the request.
\<close>

lemma cut_around:
  assumes dis: "kids_disjoint m" and le: "base \<le> high"
    and out: "\<not> (lower_bound m base = lower_bound m high \<and> lower_bound m base \<noteq> length m \<and>
      crm_base (snd (m ! lower_bound m base)) \<le> base)"
    and low: "\<not> (lower_bound m base \<noteq> length m \<and> crm_base (snd (m ! lower_bound m base)) < base)"
    and ch: "contains_high \<longleftrightarrow> lower_bound m high \<noteq> length m \<and>
      crm_base (snd (m ! lower_bound m high)) \<le> high"
    and hi: "\<not> (contains_high \<and> high < fst (m ! lower_bound m high))"
    and j: "j = (if contains_high then Suc (lower_bound m high) else lower_bound m high)"
  shows "lower_bound m base \<le> j" and "j \<le> length m"
    and "x \<in> set (take (lower_bound m base) m) \<Longrightarrow> fst x < base"
    and "x \<in> set (drop j m) \<Longrightarrow> high < crm_base (snd x)"
    and "x \<in> set (take (j - lower_bound m base) (drop (lower_bound m base) m)) \<Longrightarrow>
      base \<le> crm_base (snd x) \<and> fst x \<le> high \<and> (crm_base (snd x), fst x) \<noteq> (base, high)"
proof -
  let ?ib = "lower_bound m base" and ?ih = "lower_bound m high"
  have ks: "keys_sorted m" using dis by (rule kids_disjoint_keys_sorted)
  have "?ib \<le> ?ih"
    unfolding lower_bound_def using le by (intro length_takeWhile_mono) auto
  then show ibj: "?ib \<le> j" by (simp add: j)
  show jl: "j \<le> length m" using ch lower_bound_le_length [of m high] by (auto simp: j)
  show "x \<in> set (take ?ib m) \<Longrightarrow> fst x < base" by (rule kids_cut(1) [OF dis])
  have key: "(i < ?ih) = (fst (m ! i) < high)" if "i < length m" for i
    using std.lb_iff [OF ks, of i high] that by simp
  have gap: "fst (m ! i) < crm_base (snd (m ! i'))" if "i < i'" "i' < length m" for i i'
    using crm_kids.disjoint [OF dis, of i i'] that by simp
  have nonempty: "crm_base (snd (m ! i)) \<le> fst (m ! i)" if "i < length m" for i
    using crm_kids.low_le_key [OF dis, of i] that by simp
  show "high < crm_base (snd x)" if x: "x \<in> set (drop j m)"
  proof -
    obtain i where i: "j \<le> i" "i < length m" "m ! i = x"
      using x by (auto simp: in_set_conv_nth) (metis le_add1 less_diff_conv add.commute)
    show ?thesis
    proof (cases "i = ?ih")
      case True
      then show ?thesis using i ch by (auto simp: j split: if_splits)
    next
      case False
      then have "?ih < i" using i(1) by (simp add: j split: if_splits)
      then have "\<not> fst (m ! ?ih) < high" using key [of ?ih] i by simp
      then show ?thesis using gap [OF \<open>?ih < i\<close> i(2)] i(3) by simp
    qed
  qed
  show "base \<le> crm_base (snd x) \<and> fst x \<le> high \<and> (crm_base (snd x), fst x) \<noteq> (base, high)"
    if x: "x \<in> set (take (j - ?ib) (drop ?ib m))"
  proof -
    obtain i where i: "?ib \<le> i" "i < j" "i < length m" "m ! i = x"
      using x jl by (auto simp: in_set_conv_nth) (metis le_add1 less_diff_conv add.commute)
    have "base \<le> crm_base (snd x)"
    proof (cases "i = ?ib")
      case False
      then have "?ib < i" using i(1) by simp
      moreover have "base \<le> fst (m ! ?ib)"
        using std.from_lb [OF ks, of base ?ib] \<open>?ib < i\<close> i(3) by simp
      ultimately show ?thesis using gap [of ?ib i] i(3,4) by simp
    qed (use low i in auto)
    moreover have "fst x \<le> high"
    proof (cases "i < ?ih")
      case True
      then show ?thesis using key [OF i(3)] i(4) by simp
    next
      case False
      then have "i = ?ih" "contains_high" using i(2) by (auto simp: j split: if_splits)
      then show ?thesis using hi i(4) by auto
    qed
    moreover have "\<not> (crm_base (snd x) = base \<and> fst x = high)"
    proof
      assume g: "crm_base (snd x) = base \<and> fst x = high"
      then have "\<not> i < ?ih" using key [OF i(3)] i(4) by simp
      then have ih: "i = ?ih" using i(2) by (simp add: j split: if_splits)
      have "?ib = i"
      proof (rule ccontr)
        assume "?ib \<noteq> i"
        then have "fst (m ! ?ib) < base" using gap [of ?ib i] i g by simp
        then show False using std.from_lb [OF ks, of base ?ib] i by simp
      qed
      then show False using out ih g i by auto
    qed
    ultimately show ?thesis by auto
  qed
qed

text \<open>The new range goes into the child that contains it.\<close>

lemma store_inside:
  assumes IH: "\<And>c. size c < size n \<Longrightarrow> crm_wf c \<Longrightarrow>
      case crm_StoreRange c base sz entry of (ok, c') \<Rightarrow> store_ok c base high entry ok c'"
    and wf: "crm_wf n" and ok: "0 < sz" "base \<le> high" and high: "high = base + sz - 1"
    and i: "lower_bound (kids n) base = i" "lower_bound (kids n) high = i" "i \<noteq> length (kids n)"
      "crm_base (snd (kids n ! i)) \<le> base"
  shows "case crm_StoreRange n base sz entry of (r, n') \<Rightarrow> store_ok n base high entry r n'"
proof -
  have dis: "kids_disjoint (kids n)" using wf crm_wf_kids [of n] by simp
  have guard: "sz \<noteq> 0" "\<not> high < base" using ok by auto
  have il: "i < length (kids n)" using i(1,3) lower_bound_le_length [of "kids n" base] by simp
  define x where "x = kids n ! i"
  have x: "x \<in> set (kids n)" "snd (kids n ! i) = snd x" "fst (kids n ! i) = fst x"
    using il by (simp_all add: x_def)
  have hx: "high \<le> fst x"
    using std.from_lb [OF kids_disjoint_keys_sorted [OF dis], of high i] i(2) il x(3) by simp
  show ?thesis
  proof (cases "crm_base (snd x) = base \<and> fst x = high")
    case True
    then have "\<not> may_coexist (base, high) (crm_base (snd x), fst x)"
      using ok(2) by (simp add: may_coexist_def)
    from store_ok_rejected [OF wf x(1) this, of entry] show ?thesis
      using guard high i il x True by (simp add: crm_StoreRange.simps [of n] Let_def)
  next
    case False
    obtain r c where rc: "crm_StoreRange (snd x) base sz entry = (r, c)" by (cases "crm_StoreRange (snd x) base sz entry")
    have "crm_wf (snd x)" using wf x(1) unfolding crm_wf_kids [of n] by blast
    from IH [OF kids_size [OF x(1)] this] have st: "store_ok (snd x) base high entry r c"
      by (simp add: rc)
    have cut: "kids n = take i (kids n) @ x # drop (Suc i) (kids n)"
      using il by (simp add: x_def id_take_nth_drop)
    have "store_ok n base high entry r (CRM (crm_base n) (crm_entry n)
        (Some (take i (kids n) @ (fst x, c) # drop (Suc i) (kids n))))"
      by (rule store_ok_child [OF wf cut _ ok(2) hx _ st]) (use i(4) x False in auto)
    then show ?thesis
      using guard high i il x False rc
      by (auto simp add: crm_StoreRange.simps [of n] Let_def upd_conv_take_nth_drop split: if_split)
  qed
qed

text \<open>No child contains the new range: it is rejected or becomes a child itself.\<close>

lemma store_outside:
  assumes wf: "crm_wf n" and ok: "0 < sz" "base \<le> high" and high: "high = base + sz - 1"
    and out: "\<not> (lower_bound (kids n) base = lower_bound (kids n) high \<and>
      lower_bound (kids n) base \<noteq> length (kids n) \<and>
      crm_base (snd (kids n ! lower_bound (kids n) base)) \<le> base)"
  shows "case crm_StoreRange n base sz entry of (r, n') \<Rightarrow> store_ok n base high entry r n'"
proof -
  let ?m = "kids n"
  let ?ib = "lower_bound ?m base" and ?ih = "lower_bound ?m high"
  have dis: "kids_disjoint ?m" using wf crm_wf_kids [of n] by simp
  note ks = kids_disjoint_keys_sorted [OF dis]
  have ibl: "?ib \<le> length ?m" and ihl: "?ih \<le> length ?m" by (simp_all add: lower_bound_le_length)
  have guard: "(sz \<le> 0 \<or> high < base) = False" using ok by auto
  note out' = eq_False [THEN iffD2, OF out]
  define ch where "ch \<longleftrightarrow> ?ih \<noteq> length ?m \<and> crm_base (snd (?m ! ?ih)) \<le> high"
  let ?low = "?ib \<noteq> length ?m \<and> crm_base (snd (?m ! ?ib)) < base"
  let ?hi = "ch \<and> high < fst (?m ! ?ih)"
  show ?thesis
  proof (cases "?low \<or> ?hi")
    case True
    have "\<exists>x \<in> set ?m. \<not> may_coexist (base, high) (crm_base (snd x), fst x)"
    proof (cases ?low)
      case True
      then have l: "?ib < length ?m" using ibl by simp
      then have "base \<le> fst (?m ! ?ib)" using std.from_lb [OF ks, of base ?ib] by simp
      moreover have "fst (?m ! ?ib) < high"
      proof (rule ccontr)
        assume "\<not> fst (?m ! ?ib) < high"
        then have "?ih \<le> ?ib" using std.lb_iff [OF ks, of ?ib high] l by simp
        moreover have "?ib \<le> ?ih"
          unfolding lower_bound_def using ok(2) by (intro length_takeWhile_mono) auto
        ultimately show False using out True by auto
      qed
      ultimately have "\<not> may_coexist (base, high) (crm_base (snd (?m ! ?ib)), fst (?m ! ?ib))"
        using True by (auto simp: may_coexist_def)
      then show ?thesis using l by (intro bexI [of _ "?m ! ?ib"]) auto
    next
      case False
      then have h: "?hi" using \<open>?low \<or> ?hi\<close> by blast
      then have l: "?ih < length ?m" using ihl by (simp add: ch_def)
      have "base < crm_base (snd (?m ! ?ih))"
      proof (rule ccontr)
        assume a: "\<not> base < crm_base (snd (?m ! ?ih))"
        have "base \<le> fst (?m ! ?ih)" using conjunct2 [OF h] ok(2) by (rule order_le_less_trans [THEN less_imp_le, rotated])
        then have "lower_bound ?m base = ?ih"
          using a l by (intro crm_kids.cover_is_lb [OF dis]) simp_all
        then show False using out a l by auto
      qed
      then have "\<not> may_coexist (base, high) (crm_base (snd (?m ! ?ih)), fst (?m ! ?ih))"
        using h by (auto simp: may_coexist_def ch_def)
      then show ?thesis using l by (intro bexI [of _ "?m ! ?ih"]) auto
    qed
    then obtain x where x: "x \<in> set ?m" "\<not> may_coexist (base, high) (crm_base (snd x), fst x)" by blast
    have "crm_StoreRange n base sz entry = (False, CRM (crm_base n) (crm_entry n) (Some ?m))"
      by (subst crm_StoreRange.simps)
        (simp only: Let_def high [symmetric] guard out' ch_def [symmetric] True if_False if_True)
    then show ?thesis using store_ok_rejected [OF wf x] by simp
  next
    case False
    define j where "j = (if ch then Suc ?ih else ?ih)"
    note cut = cut_around [OF dis ok(2) out _ ch_def _ j_def]
    have nl: "\<not> ?low" and nh: "\<not> ?hi" using False by blast+
    let ?A = "take ?ib ?m" and ?B = "take (j - ?ib) (drop ?ib ?m)" and ?C = "drop j ?m"
    have split: "kids n = ?A @ ?B @ ?C"
      using cut(1,2) [OF nl nh] by (metis append.assoc append_take_drop_id le_add_diff_inverse take_add)
    define c where "c = CRM base entry (if ?ib \<noteq> j then Some ?B else None)"
    have "kids c = ?B" by (auto simp: c_def kids_def)
    with cut(3-5) [OF nl nh] have st: "store_ok n base high entry True
        (CRM (crm_base n) (crm_entry n) (Some (?A @ (high, c) # ?C)))"
      by (intro store_ok_around [OF wf split ok(2)]) (auto simp: c_def)
    have lt1: "\<forall>e \<in> set ?A. fst e < high"
      using cut(3) [OF nl nh] ok(2) by (meson order_less_le_trans)
    have "high < fst e" if "e \<in> set ?C" for e
      using cut(4) [OF nl nh that] dis in_set_dropD [OF that]
      by (auto simp: kids_disjoint_def intro: order_less_le_trans)
    then have lt: "\<forall>e \<in> set ?C. high < fst e" by blast
    have "map_erase_range ?ib j ?m = ?A @ ?C" by (simp add: map_erase_range_def)
    moreover have "?ib = j \<Longrightarrow> ?m = ?A @ ?C" by (metis append_take_drop_id)
    ultimately have "crm_StoreRange n base sz entry =
        (True, CRM (crm_base n) (crm_entry n) (Some (?A @ (high, c) # ?C)))"
      using map_insert_between [OF lt1 lt, of c]
      by (subst crm_StoreRange.simps)
        (simp only: Let_def high [symmetric] guard out' ch_def [symmetric] False if_False if_True
          j_def [symmetric], auto simp: c_def)
    then show ?thesis using st by simp
  qed
qed

lemma crm_StoreRange_ok:
  assumes "crm_wf n" and "0 < sz" and "base \<le> base + sz - 1"
  shows "case crm_StoreRange n base sz entry of (ok, n') \<Rightarrow>
    store_ok n base (base + sz - 1) entry ok n'"
  using assms
proof (induction "size n" arbitrary: n rule: less_induct)
  case less
  show ?case
  proof (cases "lower_bound (kids n) base = lower_bound (kids n) (base + sz - 1) \<and>
      lower_bound (kids n) base \<noteq> length (kids n) \<and>
      crm_base (snd (kids n ! lower_bound (kids n) base)) \<le> base")
    case True
    have IH: "case crm_StoreRange c base sz entry of (ok, c') \<Rightarrow> store_ok c base (base + sz - 1) entry ok c'"
      if "size c < size n" "crm_wf c" for c
      using less.hyps [OF that less.prems(2,3)] .
    show ?thesis
    proof (rule store_inside [where high = "base + sz - 1" and i = "lower_bound (kids n) base"])
      show "lower_bound (kids n) (base + sz - 1) = lower_bound (kids n) base"
        using True by (rule conjunct1 [THEN sym])
      show "lower_bound (kids n) base \<noteq> length (kids n)" using True by blast
      show "crm_base (snd (kids n ! lower_bound (kids n) base)) \<le> base" using True by blast
    qed (fact less.prems | rule refl | (rule IH; assumption))+
  next
    case False
    show ?thesis by (rule store_outside [OF less.prems refl False])
  qed
qed

section \<open>Lookup\<close>

definition contains :: "'a::linorder \<times> 'a \<Rightarrow> 'a \<Rightarrow> bool" where
  "contains r a \<longleftrightarrow> fst r \<le> a \<and> a \<le> snd r"

definition smallest_containing ::
  "('a::linorder \<times> 'a \<times> 'e) set \<Rightarrow> 'a \<Rightarrow> 'a \<Rightarrow> 'a \<Rightarrow> 'e \<Rightarrow> bool" where
  "smallest_containing R a b h e \<longleftrightarrow> (b, h, e) \<in> R \<and> contains (b, h) a \<and>
     (\<forall>(b', h', e') \<in> R. contains (b', h') a \<longrightarrow> b' \<le> b \<and> h \<le> h' \<and> ((b', h') = (b, h) \<longrightarrow> e' = e))"

lemma not_in_other_kid:
  assumes dis: "kids_disjoint m" and i: "i < length m" and c: "contains (crm_base (snd (m ! i)), fst (m ! i)) a"
    and y: "y \<in> set m" "contains (crm_base (snd y), fst y) a"
  shows "y = m ! i"
proof -
  obtain j where j: "j < length m" "y = m ! j" using y(1) by (auto simp: in_set_conv_nth)
  have "j = i"
    by (rule crm_kids.cover_unique [OF dis, of _ a]) (use i j c y(2) in \<open>simp_all add: contains_def\<close>)
  then show ?thesis using j by simp
qed

lemma smallest_in_kid:
  assumes wf: "crm_wf n" and i: "i < length (kids n)"
    and c: "contains (crm_base (snd (kids n ! i)), fst (kids n ! i)) a"
    and s: "smallest_containing (own (kids n ! i)) a b h e"
  shows "smallest_containing (set (crm_ranges n)) a b h e"
proof -
  have dis: "kids_disjoint (kids n)" using wf crm_wf_kids [of n] by simp
  have "(b', h', e') \<in> own (kids n ! i)"
    if r: "(b', h', e') \<in> set (crm_ranges n)" "contains (b', h') a" for b' h' e'
  proof -
    obtain y where y: "y \<in> set (kids n)" "(b', h', e') \<in> own y"
      using r(1) unfolding set_crm_ranges by blast
    from own_inside(1,3) [OF wf y] r(2) have "contains (crm_base (snd y), fst y) a"
      by (auto simp: contains_def)
    from not_in_other_kid [OF dis i c y(1) this] y(2) show ?thesis by simp
  qed
  moreover have "own (kids n ! i) \<subseteq> set (crm_ranges n)"
    unfolding set_crm_ranges using nth_mem [OF i] by blast
  ultimately show ?thesis
    using s unfolding smallest_containing_def by blast
qed

lemma crm_Retrieve_spec:
  "crm_wf n \<Longrightarrow> case crm_RetrieveRange n a of
     None \<Rightarrow> \<forall>(b, h, e) \<in> set (crm_ranges n). \<not> contains (b, h) a
   | Some e \<Rightarrow> \<exists>b h. smallest_containing (set (crm_ranges n)) a b h e"
proof (induction "size n" arbitrary: n rule: less_induct)
  case less
  let ?m = "kids n" and ?i = "lower_bound (kids n) a"
  have dis: "kids_disjoint ?m" using less.prems crm_wf_kids [of n] by simp
  have eq: "crm_RetrieveRange n a =
      (if ?i = length ?m \<or> a < crm_base (snd (?m ! ?i)) then None
       else case crm_RetrieveRange (snd (?m ! ?i)) a of
         None \<Rightarrow> Some (crm_entry (snd (?m ! ?i))) | Some e \<Rightarrow> Some e)"
    by (subst crm_RetrieveRange.simps) (auto simp: kids_def Let_def lower_bound_def split: option.split)
  show ?case
  proof (cases "?i = length ?m \<or> a < crm_base (snd (?m ! ?i))")
    case True
    then have no: "\<not> (\<exists>i < length (map fst ?m). crm_base (snd (?m ! i)) \<le> a \<and> a \<le> map fst ?m ! i)"
      unfolding crm_kids.lb_hits_iff [OF dis, symmetric] by auto
    have "\<not> contains (b, h) a" if r: "(b, h, e) \<in> set (crm_ranges n)" for b h e
    proof
      assume "contains (b, h) a"
      obtain y where y: "y \<in> set ?m" "(b, h, e) \<in> own y" using r unfolding set_crm_ranges by blast
      then obtain i where "i < length ?m" "?m ! i = y" by (auto simp: in_set_conv_nth)
      moreover have "crm_base (snd y) \<le> a" "a \<le> fst y"
        using own_inside(1,3) [OF less.prems y] \<open>contains (b, h) a\<close> by (auto simp: contains_def)
      ultimately show False using no by auto
    qed
    with True eq show ?thesis by auto
  next
    case False
    then have i: "?i < length ?m" using lower_bound_le_length [of ?m a] by auto
    define x where "x = ?m ! ?i"
    have x: "x \<in> set ?m" using i by (simp add: x_def)
    have c: "contains (crm_base (snd x), fst x) a"
      using False std.from_lb [OF kids_disjoint_keys_sorted [OF dis], of a ?i] i
      by (simp add: x_def contains_def)
    have wf: "crm_wf (snd x)"
      and inside: "\<forall>y \<in> set (kids (snd x)). strictly_in (crm_base (snd y), fst y) (crm_base (snd x), fst x)"
      using less.prems x unfolding crm_wf_kids [of n] by blast+
    note IH = less.hyps [OF kids_size [OF x] wf]
    have "\<exists>b h. smallest_containing (own x) a b h
        (case crm_RetrieveRange (snd x) a of None \<Rightarrow> crm_entry (snd x) | Some e \<Rightarrow> e)"
    proof (cases "crm_RetrieveRange (snd x) a")
      case None
      with IH c show ?thesis
        by (intro exI [of _ "crm_base (snd x)"] exI [of _ "fst x"])
          (auto simp: smallest_containing_def own_def)
    next
      case (Some e)
      with IH obtain b h where s: "smallest_containing (set (crm_ranges (snd x))) a b h e" by auto
      then have "strictly_in (b, h) (crm_base (snd x), fst x)"
        using crm_ranges_inside [OF wf inside] by (auto simp: smallest_containing_def)
      with s have "smallest_containing (own x) a b h e"
        by (auto simp: smallest_containing_def own_def strictly_in_def)
      then show ?thesis using Some by auto
    qed
    then obtain b h where "smallest_containing (set (crm_ranges n)) a b h
        (case crm_RetrieveRange (snd x) a of None \<Rightarrow> crm_entry (snd x) | Some e \<Rightarrow> e)"
      using smallest_in_kid [OF less.prems i, folded x_def, OF c] by blast
    with eq False show ?thesis by (auto simp: x_def split: option.splits)
  qed
qed


section \<open>Correctness\<close>

lemma crm_StoreRange_spec:
  assumes "crm_wf n"
  shows "case crm_StoreRange n base sz entry of (ok, n') \<Rightarrow>
    (ok \<longleftrightarrow> 0 < sz \<and> base \<le> base + sz - 1 \<and>
       (\<forall>(b, h, e) \<in> set (crm_ranges n). may_coexist (base, base + sz - 1) (b, h))) \<and>
    crm_wf n' \<and>
    set (crm_ranges n') =
      (if ok then insert (base, base + sz - 1, entry) (set (crm_ranges n)) else set (crm_ranges n))"
proof (cases "0 < sz \<and> base \<le> base + sz - 1")
  case True
  obtain ok n' where st: "crm_StoreRange n base sz entry = (ok, n')"
    by (cases "crm_StoreRange n base sz entry")
  show ?thesis
    using crm_StoreRange_ok [OF assms, of sz base entry] True
    by (simp add: st store_ok_def)
next
  case False
  have bad: "sz \<le> 0 \<or> base + sz - 1 < base"
    using False by (simp only: de_Morgan_conj not_less not_le)
  have "crm_StoreRange n base sz entry = (False, n)"
    by (subst crm_StoreRange.simps) (simp only: Let_def eqTrueI [OF bad] if_True)
  then show ?thesis using False assms by (simp only: prod.case if_False) blast
qed

text \<open>C9: Storing [base, base + size - 1] succeeds exactly when the size is positive, the range
  does not wrap, and every stored range is disjoint from it, strictly inside it or strictly
  around it (an identical range is rejected). On success the set of stored ranges grows by
  exactly the new one, on failure it is unchanged, and the tree stays well formed.\<close>

theorem crm_StoreRange_correct:
  assumes "crm_wf n"
  shows "case crm_StoreRange n base sz entry of (ok, n') \<Rightarrow>
    (ok \<longleftrightarrow> 0 < sz \<and> base \<le> base + sz - 1 \<and>
       (\<forall>(b, h, e) \<in> set (crm_ranges n). may_coexist (base, base + sz - 1) (b, h))) \<and>
    crm_wf n' \<and>
    set (crm_ranges n') =
      (if ok then insert (base, base + sz - 1, entry) (set (crm_ranges n)) else set (crm_ranges n))"
  using assms by (rule crm_StoreRange_spec)

definition crm_example :: "(8 word, nat) crm" where
  "crm_example = snd (crm_StoreRange (snd (crm_StoreRange (crm_init 0 0) 10 20 1)) 12 4 2)"

lemma crm_example_eval:
  "crm_example = CRM 0 0 (Some [(29, CRM 10 1 (Some [(15, CRM 12 2 None)]))])"
  by code_simp

lemma crm_example_wf: "crm_wf crm_example"
  by (simp add: crm_example_eval crm_wf.simps kids_disjoint_def strictly_in_def kids_def)

theorem crm_StoreRange_correct_witness:
  "case crm_StoreRange crm_example 9 30 (3::nat) of (ok, n') \<Rightarrow>
    (ok \<longleftrightarrow> 0 < (30::8 word) \<and> (9::8 word) \<le> 9 + 30 - 1 \<and>
       (\<forall>(b, h, e) \<in> set (crm_ranges crm_example). may_coexist (9, 9 + 30 - 1) (b, h))) \<and>
    crm_wf n' \<and>
    set (crm_ranges n') =
      (if ok then insert (9, 9 + 30 - 1, 3) (set (crm_ranges crm_example))
       else set (crm_ranges crm_example))"
  by (rule crm_StoreRange_correct [OF crm_example_wf])

text \<open>A lookup in a well-formed tree returns the entry of the smallest stored range that
  contains the address (the only one with these bounds), and fails exactly when no stored
  range contains it.\<close>

theorem crm_RetrieveRange_correct:
  assumes "crm_wf n"
  shows "case crm_RetrieveRange n a of
     None \<Rightarrow> \<forall>(b, h, e) \<in> set (crm_ranges n). \<not> contains (b, h) a
   | Some e \<Rightarrow> \<exists>b h. smallest_containing (set (crm_ranges n)) a b h e"
  using assms by (rule crm_Retrieve_spec)

theorem crm_RetrieveRange_correct_witness:
  "crm_RetrieveRange crm_example 13 = Some 2 \<and>
   (\<exists>b h. smallest_containing (set (crm_ranges crm_example)) 13 b h 2)"
proof -
  have "crm_RetrieveRange crm_example 13 = Some 2" by code_simp
  then show ?thesis using crm_RetrieveRange_correct [OF crm_example_wf, of 13] by simp
qed

lemma crm_Clear_empty: "crm_wf (crm_Clear n) \<and> crm_ranges (crm_Clear n) = []"
  by (simp add: crm_Clear_def)

end
