(* ===== verification/Address_Map.thy ===== *)
theory Address_Map
  imports Std_Map
begin

text \<open>
  \<open>AddressMap<AddressType, EntryType>\<close> of processor/address_map.h and address_map-inl.h: a map
  from single addresses to entries, searched for the nearest address at or below a request.
\<close>

section \<open>State and operations\<close>

record ('addr, 'e) address_map =
  am_map :: "('addr, 'e) std_map"

definition AddressMap_init :: "('addr, 'e) address_map" where
  "AddressMap_init = \<lparr>am_map = []\<rparr>"

definition am_Store :: "('addr::linorder, 'e) address_map \<Rightarrow> 'addr \<Rightarrow> 'e \<Rightarrow> bool \<times> ('addr, 'e) address_map" where
  "am_Store M address entry =
     (if map_find (am_map M) address \<noteq> length (am_map M) then (False, M)
      else (True, M\<lparr>am_map := map_insert address entry (am_map M)\<rparr>))"

text \<open>The result is the pair of \<open>*entry\<close> and \<open>*entry_address\<close>.\<close>

definition am_Retrieve :: "('addr::linorder, 'e) address_map \<Rightarrow> 'addr \<Rightarrow> ('e \<times> 'addr) option" where
  "am_Retrieve M address =
     (let iterator = upper_bound (am_map M) address in
      if iterator = 0 then None
      else let iterator = iterator - 1 in
        Some (snd (am_map M ! iterator), fst (am_map M ! iterator)))"

definition am_Clear :: "('addr, 'e) address_map \<Rightarrow> ('addr, 'e) address_map" where
  "am_Clear M = M\<lparr>am_map := []\<rparr>"

section \<open>Correctness\<close>

definition am_wf :: "('addr::linorder, 'e) address_map \<Rightarrow> bool" where
  "am_wf M \<longleftrightarrow> keys_sorted (am_map M)"

definition am_lookup :: "('addr::linorder, 'e) address_map \<Rightarrow> 'addr \<rightharpoonup> 'e" where
  "am_lookup M = map_of (am_map M)"

lemma map_find_absent: "keys_sorted m \<Longrightarrow> map_find m k = length m \<longleftrightarrow> k \<notin> dom (map_of m)"
  using map_find_Some_iff [of m k] by (auto simp: map_find_def Let_def)

lemma am_init_wf [wf_intros]: "am_wf AddressMap_init"
  by (simp add: am_wf_def AddressMap_init_def)

lemma am_clear_empty [lookup_simps]: "am_lookup (am_Clear M) = Map.empty"
  by (simp add: am_lookup_def am_Clear_def)

lemma am_Store_iff:
  assumes "am_wf M"
  shows "case am_Store M a e of (ok, M') \<Rightarrow>
    (ok \<longleftrightarrow> a \<notin> dom (am_lookup M)) \<and> am_wf M' \<and>
    am_lookup M' = (if ok then (am_lookup M)(a \<mapsto> e) else am_lookup M)"
  using assms map_find_absent [of "am_map M" a]
  by (auto simp: am_Store_def am_wf_def am_lookup_def lookup_simps intro: wf_intros
      split: option.splits)

lemma am_Retrieve_iff:
  assumes "am_wf M"
  shows "(am_Retrieve M a = Some (e, k) \<longleftrightarrow>
      am_lookup M k = Some e \<and> k \<le> a \<and> (\<forall>k' \<in> dom (am_lookup M). k' \<le> a \<longrightarrow> k' \<le> k)) \<and>
    (am_Retrieve M a = None \<longleftrightarrow> (\<forall>k' \<in> dom (am_lookup M). a < k'))"
proof -
  let ?m = "am_map M" and ?u = "upper_bound (am_map M) a"
  have ks: "keys_sorted ?m" using assms by (simp add: am_wf_def)
  then have dist: "distinct (map fst ?m)"
    by (simp add: keys_sorted_def strict_sorted_iff)
  have dom: "dom (am_lookup M) = fst ` set ?m"
    by (simp add: am_lookup_def dom_map_of_conv_image_fst)
  have ub: "(i < ?u) = (fst (?m ! i) \<le> a)" if "i < length ?m" for i
    using std.ub_iff [OF ks, of i a] that by simp
  have ul: "?u \<le> length ?m" by (rule upper_bound_le_length)
  have None_iff: "am_Retrieve M a = None \<longleftrightarrow> (\<forall>k' \<in> dom (am_lookup M). a < k')"
  proof
    assume "am_Retrieve M a = None"
    then have "?u = 0" by (simp add: am_Retrieve_def Let_def split: if_splits)
    then show "\<forall>k' \<in> dom (am_lookup M). a < k'"
      unfolding dom using ub by (fastforce simp: in_set_conv_nth not_le)
  next
    assume "\<forall>k' \<in> dom (am_lookup M). a < k'"
    then have "\<not> fst (?m ! 0) \<le> a" if "0 < length ?m"
      using that unfolding dom by (simp add: not_le)
    then have "\<not> 0 < ?u" using ub [of 0] ul by linarith
    then show "am_Retrieve M a = None" by (simp add: am_Retrieve_def)
  qed
  have "am_Retrieve M a = Some (e, k) \<longleftrightarrow>
      am_lookup M k = Some e \<and> k \<le> a \<and> (\<forall>k' \<in> dom (am_lookup M). k' \<le> a \<longrightarrow> k' \<le> k)"
  proof (cases "?u = 0")
    case True
    then have "am_Retrieve M a = None" by (simp add: am_Retrieve_def)
    then show ?thesis using None_iff by (auto simp: not_less [symmetric])
  next
    case False
    let ?i = "?u - 1"
    have i: "?i < length ?m" "?i < ?u" using False ul by simp_all
    have top: "fst (?m ! ?i) \<le> a" using ub i by simp
    have max: "k' \<le> fst (?m ! ?i)" if k': "k' \<in> fst ` set ?m" "k' \<le> a" for k'
    proof -
      obtain j where j: "j < length ?m" "fst (?m ! j) = k'"
        using k'(1) by (auto simp: in_set_conv_nth)
      then have "j \<le> ?i" using ub k'(2) by fastforce
      from keys_sorted_nth_mono [OF ks this i(1)] j show ?thesis by simp
    qed
    have val: "am_lookup M (fst (?m ! ?i)) = Some (snd (?m ! ?i))"
      using dist i(1) by (simp add: am_lookup_def)
    have "k = fst (?m ! ?i)" if "am_lookup M k = Some e" "k \<le> a"
      "\<forall>k' \<in> dom (am_lookup M). k' \<le> a \<longrightarrow> k' \<le> k"
    proof (rule order.antisym)
      show "k \<le> fst (?m ! ?i)" using max that(1,2) dom by (metis domI)
      show "fst (?m ! ?i) \<le> k" using that(3) val top by blast
    qed
    moreover have "am_Retrieve M a = Some (snd (?m ! ?i), fst (?m ! ?i))"
      using False by (simp add: am_Retrieve_def Let_def)
    ultimately show ?thesis using val top max by (auto simp: dom)
  qed
  with None_iff show ?thesis by blast
qed

text \<open>Storing at an address succeeds exactly when no entry is stored there yet; it then
  adds exactly this entry, and a refused store changes nothing.\<close>

theorem am_Store_correct:
  assumes "am_wf M"
  shows "case am_Store M a e of (ok, M') \<Rightarrow>
    (ok \<longleftrightarrow> a \<notin> dom (am_lookup M)) \<and> am_wf M' \<and>
    am_lookup M' = (if ok then (am_lookup M)(a \<mapsto> e) else am_lookup M)"
  using assms by (rule am_Store_iff)

theorem am_Store_correct_witness:
  "case am_Store \<lparr>am_map = [(4::8 word, ''f'')]\<rparr> 4 ''g'' of (ok, M') \<Rightarrow>
    (ok \<longleftrightarrow> (4::8 word) \<notin> dom (am_lookup \<lparr>am_map = [(4, ''f'')]\<rparr>)) \<and> am_wf M' \<and>
    am_lookup M' = (if ok then (am_lookup \<lparr>am_map = [(4, ''f'')]\<rparr>)(4 \<mapsto> ''g'')
      else am_lookup \<lparr>am_map = [(4, ''f'')]\<rparr>)"
  by (rule am_Store_correct) (simp add: am_wf_def keys_sorted_def)

text \<open>A lookup returns the entry stored at the highest address that is not above the
  request, and fails exactly when every stored address is above it.\<close>

theorem am_Retrieve_correct:
  assumes "am_wf M"
  shows "(am_Retrieve M a = Some (e, k) \<longleftrightarrow>
      am_lookup M k = Some e \<and> k \<le> a \<and> (\<forall>k' \<in> dom (am_lookup M). k' \<le> a \<longrightarrow> k' \<le> k)) \<and>
    (am_Retrieve M a = None \<longleftrightarrow> (\<forall>k' \<in> dom (am_lookup M). a < k'))"
  using assms by (rule am_Retrieve_iff)

theorem am_Retrieve_correct_witness:
  "am_Retrieve \<lparr>am_map = [(4::8 word, ''f''), (9, ''g'')]\<rparr> 8 = Some (''f'', 4) \<and>
   am_lookup \<lparr>am_map = [(4::8 word, ''f''), (9, ''g'')]\<rparr> 4 = Some ''f''"
proof -
  have wf: "am_wf \<lparr>am_map = [(4::8 word, ''f''), (9, ''g'')]\<rparr>"
    by (simp add: am_wf_def keys_sorted_def)
  have "am_Retrieve \<lparr>am_map = [(4::8 word, ''f''), (9, ''g'')]\<rparr> 8 = Some (''f'', 4)"
    by code_simp
  then show ?thesis using am_Retrieve_correct [OF wf, of 8 "''f''" 4] by simp
qed

end
