(* ===== verification/C_Library.thy ===== *)
theory C_Library
  imports BP_Prelude
begin

text \<open>
  The functions of the C and C++ standard libraries that the parsers of the processor call:
  \<open>isspace\<close>, \<open>strtok_r\<close>, \<open>strtol\<close>, \<open>strtoul\<close>, \<open>strtoull\<close>, and the formatted reading and
  writing of \<open>istringstream\<close> and \<open>ostringstream\<close>. Strings are the characters before the
  terminating NUL; \<open>long\<close> and \<open>unsigned long\<close> have 64 bits. The lemmas say how these
  functions read back what was written: words joined by separators, and printed numbers.
\<close>

section \<open>Outcomes\<close>

text \<open>
  What a call of a \<open>bool\<close> member function leads to: it returns true with a result or false in
  a state it leaves behind,
  or it performs an operation whose behaviour C++ leaves undefined (a write through a null
  pointer, a division by zero, a read past the end of a buffer).
\<close>

datatype ('r, 's) outcome = Ok 'r | Fail 's | Crash

fun bind_outcome :: "('r, 's) outcome \<Rightarrow> ('r \<Rightarrow> ('t, 's) outcome) \<Rightarrow> ('t, 's) outcome" where
  "bind_outcome (Ok r) f = f r"
| "bind_outcome (Fail s) f = Fail s"
| "bind_outcome Crash f = Crash"

lemma bind_outcome_assoc:
  "bind_outcome (bind_outcome x f) g = bind_outcome x (\<lambda>r. bind_outcome (f r) g)"
  by (cases x) simp_all

lemma bind_outcome_Ok [simp]: "bind_outcome x Ok = x"
  by (cases x) simp_all

section \<open>Characters and tokens\<close>

definition isspace :: "char \<Rightarrow> bool" where
  "isspace c \<longleftrightarrow> of_char c \<in> {9, 10, 11, 12, 13, 32::nat}"

text \<open>\<open>strtok_r\<close> gives the token and the text where the next call resumes.\<close>

definition strtok_r :: "(char \<Rightarrow> bool) \<Rightarrow> string \<Rightarrow> (string \<times> string) option" where
  "strtok_r delim s =
     (let s' = dropWhile delim s in
      if s' = [] then None
      else Some (takeWhile (\<lambda>c. \<not> delim c) s', drop 1 (dropWhile (\<lambda>c. \<not> delim c) s')))"

text \<open>\<open>stream >> token\<close> for a string: it leaves the delimiter in the stream.\<close>

definition stream_token :: "string \<Rightarrow> (string \<times> string) option" where
  "stream_token s =
     (let s' = dropWhile isspace s in
      if s' = [] then None
      else Some (takeWhile (\<lambda>c. \<not> isspace c) s', dropWhile (\<lambda>c. \<not> isspace c) s'))"

lemma length_dropWhile_less:
  assumes "dropWhile P s \<noteq> []"
  shows "length (dropWhile (\<lambda>c. \<not> P c) (dropWhile P s)) < length s"
proof -
  obtain c t where ct: "dropWhile P s = c # t" "\<not> P c"
    using assms by (metis dropWhile_eq_Cons_conv neq_Nil_conv)
  have "length (dropWhile (\<lambda>c. \<not> P c) t) \<le> length t" by (rule length_dropWhile_le)
  moreover have "length (dropWhile P s) \<le> length s" by (rule length_dropWhile_le)
  ultimately show ?thesis using ct by simp
qed

lemma strtok_r_shorter: "strtok_r P s = Some (t, r) \<Longrightarrow> length r < length s"
  using length_dropWhile_less [of P s] by (auto simp: strtok_r_def Let_def split: if_splits)

function strtok_all :: "(char \<Rightarrow> bool) \<Rightarrow> string \<Rightarrow> string list" where
  "strtok_all delim s =
     (case strtok_r delim s of None \<Rightarrow> [] | Some (t, r) \<Rightarrow> t # strtok_all delim r)"
  by pat_completeness auto
termination by (relation "measure (\<lambda>(delim, s). length s)") (auto dest: strtok_r_shorter)

declare strtok_all.simps [simp del]

function stream_words :: "string \<Rightarrow> string list" where
  "stream_words s =
     (case stream_token s of None \<Rightarrow> [] | Some (t, r) \<Rightarrow> t # stream_words r)"
  by pat_completeness auto
termination
  by (relation "measure length")
    (auto simp: stream_token_def Let_def intro: length_dropWhile_less split: if_splits)

declare stream_words.simps [simp del]

fun join :: "string \<Rightarrow> string list \<Rightarrow> string" where
  "join sep [] = []"
| "join sep [w] = w"
| "join sep (w # ws) = w @ sep @ join sep ws"

definition word :: "(char \<Rightarrow> bool) \<Rightarrow> string \<Rightarrow> bool" where
  "word delim w \<longleftrightarrow> w \<noteq> [] \<and> (\<forall>c \<in> set w. \<not> delim c)"

lemma takeWhile_word: "word P w \<Longrightarrow> takeWhile (\<lambda>c. \<not> P c) w = w"
  by (simp add: word_def)

lemma dropWhile_word_append: "word P w \<Longrightarrow> dropWhile P (w @ s) = w @ s"
  by (cases w) (auto simp: word_def)

lemma takeWhile_word_append: "word P w \<Longrightarrow> P c \<Longrightarrow> takeWhile (\<lambda>c. \<not> P c) (w @ c # s) = w"
  by (auto simp: word_def takeWhile_append)

lemma dropWhile_not_word_append: "word P w \<Longrightarrow> P c \<Longrightarrow> dropWhile (\<lambda>c. \<not> P c) (w @ c # s) = c # s"
  by (auto simp: word_def dropWhile_append)

lemma strtok_r_word: "word P w \<Longrightarrow> P c \<Longrightarrow> strtok_r P (w @ c # s) = Some (w, s)"
  by (simp add: strtok_r_def dropWhile_word_append takeWhile_word_append dropWhile_not_word_append)

lemma strtok_r_last: "word P w \<Longrightarrow> strtok_r P w = Some (w, [])"
proof -
  assume w: "word P w"
  then have "dropWhile P w = w" using dropWhile_word_append [of P w "[]"] by simp
  moreover have "dropWhile (\<lambda>c. \<not> P c) w = []" "w \<noteq> []" using w by (auto simp: word_def)
  ultimately show ?thesis
    using w by (simp add: strtok_r_def takeWhile_word del: dropWhile_eq_Nil_conv)
qed

lemma strtok_r_Nil [simp]: "strtok_r P [] = None"
  by (simp add: strtok_r_def)

lemma strtok_r_skip: "P c \<Longrightarrow> strtok_r P (c # s) = strtok_r P s"
  by (simp add: strtok_r_def)

lemma strtok_all_Nil [simp]: "strtok_all P [] = []"
  by (simp add: strtok_all.simps)

lemma strtok_all_word_Cons: "word P w \<Longrightarrow> P c \<Longrightarrow> strtok_all P (w @ c # s) = w # strtok_all P s"
  by (simp add: strtok_all.simps [of P "w @ c # s"] strtok_r_word)

lemma strtok_all_word: "word P w \<Longrightarrow> strtok_all P w = [w]"
  by (simp add: strtok_all.simps [of P w] strtok_r_last)

lemma strtok_all_join: "(\<forall>w \<in> set ws. word P w) \<Longrightarrow> P c \<Longrightarrow> strtok_all P (join [c] ws) = ws"
  by (induction "[c]" ws rule: join.induct) (simp_all add: strtok_all_word strtok_all_word_Cons)

lemma set_strtok_r:
  "strtok_r P s = Some (t, r) \<Longrightarrow> word P t \<and> set t \<subseteq> set s \<and> set r \<subseteq> set s"
proof -
  assume a: "strtok_r P s = Some (t, r)"
  then have ne: "dropWhile P s \<noteq> []" and t: "t = takeWhile (\<lambda>c. \<not> P c) (dropWhile P s)"
    and r: "r = drop 1 (dropWhile (\<lambda>c. \<not> P c) (dropWhile P s))"
    by (auto simp: strtok_r_def Let_def split: if_splits simp del: dropWhile_eq_Nil_conv)
  have "t \<noteq> []" using ne t hd_dropWhile [OF ne] by (cases "dropWhile P s") auto
  then show ?thesis
    using t r by (auto simp: word_def dest: set_takeWhileD set_dropWhileD in_set_dropD)
qed

lemma strtok_all_words: "w \<in> set (strtok_all P s) \<Longrightarrow> word P w \<and> set w \<subseteq> set s"
proof (induction P s rule: strtok_all.induct)
  case (1 P s)
  show ?case
  proof (cases "strtok_r P s")
    case None
    then show ?thesis using 1 by (simp add: strtok_all.simps [of P s])
  next
    case (Some tr)
    obtain t r where tr: "tr = (t, r)" by (cases tr)
    show ?thesis
      using 1(1) [OF Some tr [symmetric]] 1(2) Some tr set_strtok_r [of P s t r]
      by (auto simp: strtok_all.simps [of P s])
  qed
qed

text \<open>The stream reader splits on white space exactly as repeated \<open>strtok_r\<close> does.\<close>

lemma stream_words_eq: "stream_words s = strtok_all isspace s"
proof (induction s rule: stream_words.induct)
  case (1 s)
  have skip: "strtok_all isspace (drop 1 (dropWhile (\<lambda>c. \<not> isspace c) t)) =
      strtok_all isspace (dropWhile (\<lambda>c. \<not> isspace c) t)" for t
  proof (cases "dropWhile (\<lambda>c. \<not> isspace c) t")
    case (Cons c u)
    then have "isspace c" by (metis dropWhile_eq_Cons_conv)
    then show ?thesis
      using Cons by (simp add: strtok_all.simps [of isspace "c # u"] strtok_all.simps [of isspace u] strtok_r_skip)
  qed (simp del: dropWhile_eq_Nil_conv)
  show ?case
    using 1
    by (simp add: stream_words.simps [of s] strtok_all.simps [of isspace s] stream_token_def
        strtok_r_def Let_def skip [unfolded One_nat_def])
qed

section \<open>Numbers\<close>

definition digit_value :: "char \<Rightarrow> nat option" where
  "digit_value c =
     (let n = of_char c :: nat in
      if 48 \<le> n \<and> n \<le> 57 then Some (n - 48)
      else if 97 \<le> n \<and> n \<le> 122 then Some (n - 87)
      else if 65 \<le> n \<and> n \<le> 90 then Some (n - 55)
      else None)"

definition is_digit :: "nat \<Rightarrow> char \<Rightarrow> bool" where
  "is_digit b c = (case digit_value c of None \<Rightarrow> False | Some d \<Rightarrow> d < b)"

definition value_of :: "nat \<Rightarrow> string \<Rightarrow> nat" where
  "value_of b ds = foldl (\<lambda>n c. n * b + the (digit_value c)) 0 ds"

definition digit_char :: "nat \<Rightarrow> char" where
  "digit_char d = char_of (if d < 10 then 48 + d else 87 + d)"

text \<open>\<open>operator<<\<close> for an unsigned value in base 10; base 16 is \<open>std::hex\<close>.\<close>

fun print_nat :: "nat \<Rightarrow> nat \<Rightarrow> string" where
  "print_nat b n =
     (if n < b \<or> b < 2 then [digit_char n] else print_nat b (n div b) @ [digit_char (n mod b)])"

declare print_nat.simps [simp del]

definition skip_sign :: "string \<Rightarrow> bool \<times> string" where
  "skip_sign s = (case s of
      [] \<Rightarrow> (False, s)
    | c # r \<Rightarrow> if c = CHR ''-'' then (True, r) else if c = CHR ''+'' then (False, r) else (False, s))"

definition skip_prefix :: "nat \<Rightarrow> string \<Rightarrow> string" where
  "skip_prefix b s = (case s of
      z # x # d # r \<Rightarrow>
        if b = 16 \<and> z = CHR ''0'' \<and> (x = CHR ''x'' \<or> x = CHR ''X'') \<and> is_digit 16 d
        then d # r else s
    | _ \<Rightarrow> s)"

text \<open>
  The subject sequence of \<open>strtol\<close> and its relatives: sign, magnitude and the text after the
  number, or None where there are no digits.
\<close>

definition scan_number :: "nat \<Rightarrow> string \<Rightarrow> (bool \<times> nat \<times> string) option" where
  "scan_number b s =
     (case skip_sign (dropWhile isspace s) of (neg, r) \<Rightarrow>
        let r = skip_prefix b r; ds = takeWhile (is_digit b) r in
        if ds = [] then None else Some (neg, value_of b ds, dropWhile (is_digit b) r))"

definition strtoull :: "nat \<Rightarrow> string \<Rightarrow> uint64 \<times> string" where
  "strtoull b s =
     (case scan_number b s of
        None \<Rightarrow> (0, s)
      | Some (neg, n, r) \<Rightarrow>
          (if n < 2 ^ 64 then if neg then - of_nat n else of_nat n else - 1, r))"

definition strtoul :: "nat \<Rightarrow> string \<Rightarrow> uint64 \<times> string" where
  "strtoul = strtoull"

definition LONG_MAX :: int where "LONG_MAX = 2 ^ 63 - 1"

definition strtol :: "nat \<Rightarrow> string \<Rightarrow> int \<times> string" where
  "strtol b s =
     (case scan_number b s of
        None \<Rightarrow> (0, s)
      | Some (neg, n, r) \<Rightarrow>
          (let v = (if neg then - int n else int n) in
           if LONG_MAX < v then LONG_MAX else if v < - LONG_MAX - 1 then - LONG_MAX - 1 else v, r))"

text \<open>
  \<open>stream >> literal\<close> for an unsigned type in base 10. As in libstdc++ a sign is accepted and
  a negative number is reduced modulo the width; a magnitude out of range sets \<open>failbit\<close>.
\<close>

definition extract_unsigned :: "string \<Rightarrow> ('a::len word \<times> string) option" where
  "extract_unsigned s =
     (case scan_number 10 s of
        None \<Rightarrow> None
      | Some (neg, n, r) \<Rightarrow>
          if n < 2 ^ LENGTH('a) then Some (if neg then - of_nat n else of_nat n, r) else None)"

section \<open>Printed numbers are read back\<close>

lemma digit_value_char: "d < 36 \<Longrightarrow> digit_value (digit_char d) = Some d"
  by (auto simp: digit_value_def digit_char_def Let_def)

lemma is_digit_char: "d < b \<Longrightarrow> b \<le> 36 \<Longrightarrow> is_digit b (digit_char d)"
  by (simp add: is_digit_def digit_value_char)

lemma value_of_snoc: "value_of b (ds @ [c]) = value_of b ds * b + the (digit_value c)"
  by (simp add: value_of_def)

lemma print_nat_digits: "2 \<le> b \<Longrightarrow> b \<le> 36 \<Longrightarrow> \<forall>c \<in> set (print_nat b n). is_digit b c"
proof (induction b n rule: print_nat.induct)
  case (1 b n)
  then show ?case
    by (cases "n < b") (auto simp: print_nat.simps [of b n] intro!: is_digit_char)
qed

lemma print_nat_not_Nil [simp]: "print_nat b n \<noteq> []"
  by (simp add: print_nat.simps [of b n])

lemma value_of_print_nat: "2 \<le> b \<Longrightarrow> b \<le> 36 \<Longrightarrow> value_of b (print_nat b n) = n"
proof (induction b n rule: print_nat.induct)
  case (1 b n)
  show ?case
  proof (cases "n < b")
    case True
    then show ?thesis
      using 1(3) by (simp add: print_nat.simps [of b n] value_of_def digit_value_char)
  next
    case False
    have "n mod b < 36" using 1(2,3) mod_less_divisor [of b n] by linarith
    then show ?thesis
      using False 1 by (simp add: print_nat.simps [of b n] value_of_snoc digit_value_char)
  qed
qed

lemma digit_not_special:
  assumes "is_digit b c"
  shows "\<not> isspace c" and "c \<noteq> CHR ''-''" and "c \<noteq> CHR ''+''" and "c \<noteq> CHR '':''" and "c \<noteq> CHR ''$''"
    and "c \<noteq> CHR ''=''" and "of_char c \<noteq> (0::nat)"
  using assms
  by (auto simp: is_digit_def digit_value_def isspace_def Let_def split: if_splits option.splits)

lemma hex_digit_not_x: "is_digit 16 c \<Longrightarrow> c \<noteq> CHR ''x'' \<and> c \<noteq> CHR ''X''"
  by (auto simp: is_digit_def digit_value_def)

lemma scan_digits:
  assumes ds: "ds \<noteq> []" "\<forall>c \<in> set ds. is_digit b c"
    and rest: "rest = [] \<or> \<not> is_digit b (hd rest) \<and> hd rest \<noteq> CHR ''x'' \<and> hd rest \<noteq> CHR ''X''"
  shows "scan_number b (ds @ rest) = Some (False, value_of b ds, rest)"
proof -
  obtain d ds' where d: "ds = d # ds'" "is_digit b d" using ds by (cases ds) auto
  have sp: "dropWhile isspace (ds @ rest) = ds @ rest" and sg: "skip_sign (ds @ rest) = (False, ds @ rest)"
    using digit_not_special [OF d(2)] d(1) by (simp_all add: skip_sign_def)
  have "skip_prefix b (ds @ rest) = ds @ rest"
  proof (cases ds')
    case Nil
    then show ?thesis using d rest by (auto simp: skip_prefix_def split: list.splits)
  next
    case (Cons e es)
    then have "b = 16 \<Longrightarrow> e \<noteq> CHR ''x'' \<and> e \<noteq> CHR ''X''" using ds d(1) hex_digit_not_x by auto
    then show ?thesis using d Cons by (auto simp: skip_prefix_def split: list.splits)
  qed
  moreover have "takeWhile (is_digit b) (ds @ rest) = ds"
    using ds(2) rest by (cases rest) (auto simp: takeWhile_append)
  moreover have "dropWhile (is_digit b) (ds @ rest) = rest"
    using ds(2) rest by (cases rest) (auto simp: dropWhile_append)
  ultimately show ?thesis using sp sg ds(1) by (simp add: scan_number_def Let_def)
qed

lemma scan_print_nat:
  assumes "2 \<le> b" and "b \<le> 36"
    and "rest = [] \<or> \<not> is_digit b (hd rest) \<and> hd rest \<noteq> CHR ''x'' \<and> hd rest \<noteq> CHR ''X''"
  shows "scan_number b (print_nat b n @ rest) = Some (False, n, rest)"
  using scan_digits [OF print_nat_not_Nil print_nat_digits [OF assms(1,2)] assms(3)]
    value_of_print_nat [OF assms(1,2)] by simp

lemma strtoull_print:
  "2 \<le> b \<Longrightarrow> b \<le> 36 \<Longrightarrow> strtoull b (print_nat b (unat (w::uint64))) = (w, [])"
  using scan_print_nat [of b "[]" "unat w"] unsigned_less [of w, where 'a = nat]
  by (simp add: strtoull_def)

lemma strtol_print:
  "2 \<le> b \<Longrightarrow> b \<le> 36 \<Longrightarrow> int n \<le> LONG_MAX \<Longrightarrow> strtol b (print_nat b n) = (int n, [])"
  using scan_print_nat [of b "[]" n] by (simp add: strtol_def LONG_MAX_def)

lemma extract_unsigned_print:
  "extract_unsigned (print_nat 10 (unat w)) = Some (w :: 'a::len word, [])"
  using scan_print_nat [of 10 "[]" "unat w"] unsigned_less [of w, where 'a = nat]
  by (simp add: extract_unsigned_def)

end
