(* ===== verification/Postfix_Evaluator.thy ===== *)
theory Postfix_Evaluator
  imports C_Library
begin

text \<open>
  \<open>PostfixEvaluator<ValueType>\<close> of processor/postfix_evaluator.h and postfix_evaluator-inl.h:
  the stack machine that evaluates the register rules of stack frames. The machine keeps
  strings on its stack and prints and parses a number for every operand. The main theorem
  compiles expression trees to postfix text and shows that the machine computes their value.
  \<open>MemoryRegion\<close> is an abstract class: \<open>GetMemoryAtAddress\<close> is an argument. The dictionary
  pointer is assumed not to be null, as all callers ensure.
\<close>

section \<open>State\<close>

text \<open>
  \<open>stack_\<close> is kept with its back first. \<open>assigned\<close> is the caller's validity map, None when the
  caller passed NULL.
\<close>

record 'v evaluator =
  dictionary :: "string \<Rightarrow> 'v option"
  assigned :: "(string \<Rightarrow> bool option) option"
  stack :: "string list"

datatype 'v pop_result = POP_RESULT_FAIL | POP_RESULT_VALUE 'v | POP_RESULT_IDENTIFIER string | POP_CRASH

section \<open>Operations\<close>

text \<open>
  The flag says that the \<open>value\<close> out parameter is NULL, as in the assignment: then
  \<open>if (negative) *value = -*value\<close> writes through the null pointer.
\<close>

definition PopValueOrIdentifier ::
  "bool \<Rightarrow> 'a::len word evaluator \<Rightarrow> 'a word pop_result \<times> 'a word evaluator" where
  "PopValueOrIdentifier value_null ev =
     (case stack ev of
        [] \<Rightarrow> (POP_RESULT_FAIL, ev)
      | token # rest \<Rightarrow>
          let ev = ev\<lparr>stack := rest\<rparr>;
              negative = (token \<noteq> [] \<and> hd token = CHR ''-'');
              token_stream = (if negative then tl token else token) in
          (case extract_unsigned token_stream of
             Some (literal, []) \<Rightarrow>
               if negative then if value_null then (POP_CRASH, ev) else (POP_RESULT_VALUE (- literal), ev)
               else (POP_RESULT_VALUE literal, ev)
           | _ \<Rightarrow> (POP_RESULT_IDENTIFIER token, ev)))"

definition PopValue :: "'a::len word evaluator \<Rightarrow> ('a word \<times> 'a word evaluator, 'a word evaluator) outcome" where
  "PopValue ev =
     (case PopValueOrIdentifier False ev of
        (POP_RESULT_FAIL, ev) \<Rightarrow> Fail ev
      | (POP_RESULT_VALUE literal, ev) \<Rightarrow> Ok (literal, ev)
      | (POP_RESULT_IDENTIFIER token, ev) \<Rightarrow>
          (case dictionary ev token of None \<Rightarrow> Fail ev | Some value \<Rightarrow> Ok (value, ev))
      | (POP_CRASH, ev) \<Rightarrow> Crash)"

text \<open>\<open>PopValues(&value1, &value2)\<close> pops \<open>value2\<close> first.\<close>

definition PopValues ::
  "'a::len word evaluator \<Rightarrow>
     (('a word \<times> 'a word) \<times> 'a word evaluator, 'a word evaluator) outcome" where
  "PopValues ev =
     bind_outcome (PopValue ev) (\<lambda>(value2, ev).
       bind_outcome (PopValue ev) (\<lambda>(value1, ev). Ok ((value1, value2), ev)))"

definition PushValue :: "'a::len word \<Rightarrow> 'a word evaluator \<Rightarrow> 'a word evaluator" where
  "PushValue value ev = ev\<lparr>stack := print_nat 10 (unat value) # stack ev\<rparr>"

datatype binop = BINARY_OP_ADD | BINARY_OP_SUBTRACT | BINARY_OP_MULTIPLY
  | BINARY_OP_DIVIDE_QUOTIENT | BINARY_OP_DIVIDE_MODULUS | BINARY_OP_ALIGN

definition binop_of_token :: "string \<Rightarrow> binop option" where
  "binop_of_token token =
     (if token = ''+'' then Some BINARY_OP_ADD
      else if token = ''-'' then Some BINARY_OP_SUBTRACT
      else if token = ''*'' then Some BINARY_OP_MULTIPLY
      else if token = ''/'' then Some BINARY_OP_DIVIDE_QUOTIENT
      else if token = ''%'' then Some BINARY_OP_DIVIDE_MODULUS
      else if token = ''@'' then Some BINARY_OP_ALIGN
      else None)"

text \<open>None is the undefined division by zero.\<close>

fun apply_binop :: "binop \<Rightarrow> 'a::len word \<Rightarrow> 'a word \<Rightarrow> 'a word option" where
  "apply_binop BINARY_OP_ADD x y = Some (x + y)"
| "apply_binop BINARY_OP_SUBTRACT x y = Some (x - y)"
| "apply_binop BINARY_OP_MULTIPLY x y = Some (x * y)"
| "apply_binop BINARY_OP_DIVIDE_QUOTIENT x y = (if y = 0 then None else Some (x div y))"
| "apply_binop BINARY_OP_DIVIDE_MODULUS x y = (if y = 0 then None else Some (x mod y))"
| "apply_binop BINARY_OP_ALIGN x y = Some (x AND ((- 1) XOR (y - 1)))"

definition EvaluateToken ::
  "('a::len word \<Rightarrow> 'a word option) option \<Rightarrow> string \<Rightarrow> 'a word evaluator \<Rightarrow>
     ('a word evaluator, 'a word evaluator) outcome" where
  "EvaluateToken memory token ev =
     (case binop_of_token token of
        Some operation \<Rightarrow>
          bind_outcome (PopValues ev) (\<lambda>((operand1, operand2), ev).
            (case apply_binop operation operand1 operand2 of
               None \<Rightarrow> Crash
             | Some result \<Rightarrow> Ok (PushValue result ev)))
      | None \<Rightarrow>
          if token = ''^'' then
            (case memory of
               None \<Rightarrow> Fail ev
             | Some GetMemoryAtAddress \<Rightarrow>
                 bind_outcome (PopValue ev) (\<lambda>(address, ev).
                   (case GetMemoryAtAddress address of
                      None \<Rightarrow> Fail ev
                    | Some value \<Rightarrow> Ok (PushValue value ev))))
          else if token = ''='' then
            bind_outcome (PopValue ev) (\<lambda>(value, ev).
              (case PopValueOrIdentifier True ev of
                 (POP_RESULT_IDENTIFIER identifier, ev) \<Rightarrow>
                   if identifier = [] \<or> hd identifier \<noteq> CHR ''$'' then Fail ev
                   else Ok (ev\<lparr>dictionary := (dictionary ev)(identifier \<mapsto> value),
                               assigned := (case assigned ev of None \<Rightarrow> None
                                 | Some valid \<Rightarrow> Some (valid(identifier \<mapsto> True)))\<rparr>)
               | (POP_CRASH, ev) \<Rightarrow> Crash
               | (_, ev) \<Rightarrow> Fail ev))
          else Ok (ev\<lparr>stack := token # stack ev\<rparr>))"

text \<open>A token such as \<open>=$eip\<close> is an assignment that runs into the next token.\<close>

fun EvaluateTokens ::
  "('a::len word \<Rightarrow> 'a word option) option \<Rightarrow> string list \<Rightarrow> 'a word evaluator \<Rightarrow>
     ('a word evaluator, 'a word evaluator) outcome" where
  "EvaluateTokens memory [] ev = Ok ev"
| "EvaluateTokens memory (token # tokens) ev =
     bind_outcome
       (if length token > 1 \<and> token ! 0 = CHR ''='' then
          bind_outcome (EvaluateToken memory ''='' ev) (EvaluateToken memory (drop 1 token))
        else EvaluateToken memory token ev)
       (EvaluateTokens memory tokens)"

definition EvaluateInternal ::
  "('a::len word \<Rightarrow> 'a word option) option \<Rightarrow> string \<Rightarrow> 'a word evaluator \<Rightarrow>
     ('a word evaluator, 'a word evaluator) outcome" where
  "EvaluateInternal memory expression ev = EvaluateTokens memory (stream_words expression) ev"

text \<open>The \<open>AutoStackClearer\<close> empties the stack on every return.\<close>

definition AutoStackClearer :: "'a::len word evaluator \<Rightarrow> 'a word evaluator" where
  "AutoStackClearer ev = ev\<lparr>stack := []\<rparr>"

definition Evaluate ::
  "('a::len word \<Rightarrow> 'a word option) option \<Rightarrow> string \<Rightarrow> 'a word evaluator \<Rightarrow>
     ('a word evaluator, 'a word evaluator) outcome" where
  "Evaluate memory expression ev =
     (case EvaluateInternal memory expression ev of
        Crash \<Rightarrow> Crash
      | Fail ev \<Rightarrow> Fail (AutoStackClearer ev)
      | Ok ev \<Rightarrow> if stack ev = [] then Ok (AutoStackClearer ev) else Fail (AutoStackClearer ev))"

definition EvaluateForValue ::
  "('a::len word \<Rightarrow> 'a word option) option \<Rightarrow> string \<Rightarrow> 'a word evaluator \<Rightarrow>
     ('a word \<times> 'a word evaluator, 'a word evaluator) outcome" where
  "EvaluateForValue memory expression ev =
     (case EvaluateInternal memory expression (ev\<lparr>assigned := None\<rparr>) of
        Crash \<Rightarrow> Crash
      | Fail ev \<Rightarrow> Fail (AutoStackClearer ev)
      | Ok ev \<Rightarrow>
          if length (stack ev) \<noteq> 1 then Fail (AutoStackClearer ev)
          else (case PopValue ev of
                  Crash \<Rightarrow> Crash
                | Fail ev \<Rightarrow> Fail (AutoStackClearer ev)
                | Ok (result, ev) \<Rightarrow> Ok (result, AutoStackClearer ev)))"

section \<open>Expression trees\<close>

text \<open>
  The abstract syntax of a rule's right-hand side, its postfix text and its meaning. A name is
  looked up only when it is popped as an operand, so the meaning of a subtree is an operand
  that is still to be resolved.
\<close>

datatype 'v expr = Lit 'v | Var string | BinOp binop "'v expr" "'v expr" | Deref "'v expr"

datatype 'v operand = Val 'v | Name string

fun binop_token :: "binop \<Rightarrow> string" where
  "binop_token BINARY_OP_ADD = ''+''"
| "binop_token BINARY_OP_SUBTRACT = ''-''"
| "binop_token BINARY_OP_MULTIPLY = ''*''"
| "binop_token BINARY_OP_DIVIDE_QUOTIENT = ''/''"
| "binop_token BINARY_OP_DIVIDE_MODULUS = ''%''"
| "binop_token BINARY_OP_ALIGN = ''@''"

fun expr_tokens :: "'a::len word expr \<Rightarrow> string list" where
  "expr_tokens (Lit v) = [print_nat 10 (unat v)]"
| "expr_tokens (Var x) = [x]"
| "expr_tokens (BinOp opn e1 e2) = expr_tokens e1 @ expr_tokens e2 @ [binop_token opn]"
| "expr_tokens (Deref e) = expr_tokens e @ [''^'']"

definition resolve :: "(string \<Rightarrow> 'v option) \<Rightarrow> 'v operand \<Rightarrow> ('v, unit) outcome" where
  "resolve d opd = (case opd of Val v \<Rightarrow> Ok v
     | Name x \<Rightarrow> (case d x of None \<Rightarrow> Fail () | Some v \<Rightarrow> Ok v))"

fun expr_operand ::
  "('a::len word \<Rightarrow> 'a word option) option \<Rightarrow> (string \<Rightarrow> 'a word option) \<Rightarrow> 'a word expr \<Rightarrow>
     ('a word operand, unit) outcome" where
  "expr_operand mem d (Lit v) = Ok (Val v)"
| "expr_operand mem d (Var x) = Ok (Name x)"
| "expr_operand mem d (BinOp opn e1 e2) =
     bind_outcome (expr_operand mem d e1) (\<lambda>o1.
     bind_outcome (expr_operand mem d e2) (\<lambda>o2.
     bind_outcome (resolve d o2) (\<lambda>v2.
     bind_outcome (resolve d o1) (\<lambda>v1.
       case apply_binop opn v1 v2 of None \<Rightarrow> Crash | Some v \<Rightarrow> Ok (Val v)))))"
| "expr_operand mem d (Deref e) =
     bind_outcome (expr_operand mem d e) (\<lambda>o1.
       case mem of None \<Rightarrow> Fail ()
       | Some read \<Rightarrow> bind_outcome (resolve d o1) (\<lambda>a.
           case read a of None \<Rightarrow> Fail () | Some v \<Rightarrow> Ok (Val v)))"

definition expr_value ::
  "('a::len word \<Rightarrow> 'a word option) option \<Rightarrow> (string \<Rightarrow> 'a word option) \<Rightarrow> 'a word expr \<Rightarrow>
     ('a word, unit) outcome" where
  "expr_value mem d e = bind_outcome (expr_operand mem d e) (resolve d)"

text \<open>Names that the machine cannot take for a number, an operator or an assignment.\<close>

definition identifier_name :: "string \<Rightarrow> bool" where
  "identifier_name x \<longleftrightarrow> word isspace x \<and> \<not> is_digit 10 (hd x) \<and> hd x \<notin> set ''+-*/%@^=''"

fun expr_names :: "'v expr \<Rightarrow> string set" where
  "expr_names (Lit v) = {}"
| "expr_names (Var x) = {x}"
| "expr_names (BinOp opn e1 e2) = expr_names e1 \<union> expr_names e2"
| "expr_names (Deref e) = expr_names e"

fun operand_string :: "'a::len word operand \<Rightarrow> string" where
  "operand_string (Val v) = print_nat 10 (unat v)"
| "operand_string (Name x) = x"

definition operand_ok :: "'v operand \<Rightarrow> bool" where
  "operand_ok opd \<longleftrightarrow> (case opd of Val v \<Rightarrow> True | Name x \<Rightarrow> identifier_name x)"

section \<open>Popping what was pushed\<close>

lemma print_nat_hd_digit: "is_digit 10 (hd (print_nat 10 n))"
  using print_nat_digits [of 10 n] by simp

lemma Pop_value:
  "stack ev = print_nat 10 (unat v) # s \<Longrightarrow>
     PopValueOrIdentifier b ev = (POP_RESULT_VALUE (v :: 'a::len word), ev\<lparr>stack := s\<rparr>)"
  using digit_not_special(2) [OF print_nat_hd_digit [of "unat v"]]
  by (simp add: PopValueOrIdentifier_def extract_unsigned_print)

lemma identifier_not_number: "identifier_name x \<Longrightarrow> extract_unsigned x = None"
proof -
  assume x: "identifier_name x"
  then obtain c r where c: "x = c # r" "\<not> isspace c" "\<not> is_digit 10 c" "c \<noteq> CHR ''-''" "c \<noteq> CHR ''+''"
    by (cases x) (auto simp: identifier_name_def word_def)
  then have "scan_number 10 x = None"
    by (simp add: scan_number_def skip_sign_def skip_prefix_def split: list.splits)
  then show ?thesis by (simp add: extract_unsigned_def)
qed

lemma Pop_name:
  "stack ev = x # s \<Longrightarrow> identifier_name x \<Longrightarrow>
     PopValueOrIdentifier b ev = (POP_RESULT_IDENTIFIER x, ev\<lparr>stack := s\<rparr>)"
proof -
  assume "stack ev = x # s" and x: "identifier_name x"
  moreover have "hd x \<noteq> CHR ''-''" using x by (simp add: identifier_name_def)
  ultimately show ?thesis
    using identifier_not_number [OF x, where 'a = 'a] by (simp add: PopValueOrIdentifier_def Let_def)
qed

definition lift_fail :: "'s \<Rightarrow> ('r, unit) outcome \<Rightarrow> ('r, 's) outcome" where
  "lift_fail s x = (case x of Ok r \<Rightarrow> Ok r | Fail _ \<Rightarrow> Fail s | Crash \<Rightarrow> Crash)"

lemma PopValue_operand:
  "stack ev = operand_string opd # s \<Longrightarrow> operand_ok opd \<Longrightarrow>
     PopValue ev = lift_fail (ev\<lparr>stack := s\<rparr>)
       (bind_outcome (resolve (dictionary ev) opd) (\<lambda>v. Ok (v, ev\<lparr>stack := s\<rparr>)))"
  by (cases opd)
    (auto simp: PopValue_def Pop_value Pop_name operand_ok_def resolve_def lift_fail_def split: option.splits)

section \<open>Running the text of an expression\<close>

lemma EvaluateTokens_append:
  "EvaluateTokens mem (xs @ ys) ev = bind_outcome (EvaluateTokens mem xs ev) (EvaluateTokens mem ys)"
proof (induction xs arbitrary: ev)
  case (Cons x xs)
  then have "EvaluateTokens mem (xs @ ys) =
      (\<lambda>ev. bind_outcome (EvaluateTokens mem xs ev) (EvaluateTokens mem ys))" by (rule ext)
  then show ?case by (simp add: bind_outcome_assoc)
qed simp

lemma digit_not_operator: "is_digit 10 c \<Longrightarrow> c \<notin> set ''+-*/%@^=''"
  by (auto simp: is_digit_def digit_value_def)

lemma push_token:
  assumes "identifier_name x \<or> is_digit 10 (hd x) \<and> x \<noteq> []"
  shows "EvaluateTokens mem (x # xs) ev = EvaluateTokens mem xs (ev\<lparr>stack := x # stack ev\<rparr>)"
proof -
  obtain c r where x: "x = c # r" "c \<notin> set ''+-*/%@^=''"
    using assms digit_not_operator by (cases x) (auto simp: identifier_name_def word_def)
  then have "binop_of_token x = None" "x \<noteq> ''^''" "x \<noteq> ''=''" "c \<noteq> CHR ''=''"
    by (simp_all add: binop_of_token_def)
  then have "EvaluateToken mem x ev = Ok (ev\<lparr>stack := x # stack ev\<rparr>)" and "x ! 0 \<noteq> CHR ''=''"
    using x(1) by (auto simp add: EvaluateToken_def)
  then show ?thesis by simp
qed

lemma binop_of_binop_token [simp]: "binop_of_token (binop_token opn) = Some opn"
  by (cases opn) (simp_all add: binop_of_token_def)

lemma length_binop_token [simp]: "length (binop_token opn) = 1"
  by (cases opn) simp_all

definition runs_as ::
  "('a::len word evaluator, 'a word evaluator) outcome \<Rightarrow> 'a word evaluator \<Rightarrow>
     ('a word operand, unit) outcome \<Rightarrow> bool" where
  "runs_as res ev x \<longleftrightarrow> (case x of
       Ok opd \<Rightarrow> operand_ok opd \<and> res = Ok (ev\<lparr>stack := operand_string opd # stack ev\<rparr>)
     | Fail _ \<Rightarrow> (\<exists>s. res = Fail (ev\<lparr>stack := s\<rparr>))
     | Crash \<Rightarrow> res = Crash)"

lemma runs_as_binop:
  assumes 1: "runs_as (EvaluateTokens mem t1 ev) ev x1"
    and 2: "\<And>ev'. dictionary ev' = dictionary ev \<Longrightarrow> runs_as (EvaluateTokens mem t2 ev') ev' x2"
  shows "runs_as (EvaluateTokens mem (t1 @ t2 @ [binop_token opn]) ev) ev
    (bind_outcome x1 (\<lambda>o1. bind_outcome x2 (\<lambda>o2. bind_outcome (resolve (dictionary ev) o2) (\<lambda>v2.
       bind_outcome (resolve (dictionary ev) o1) (\<lambda>v1.
       case apply_binop opn v1 v2 of None \<Rightarrow> Crash | Some v \<Rightarrow> Ok (Val v))))))"
proof (cases x1)
  case (Ok o1)
  let ?ev1 = "ev\<lparr>stack := operand_string o1 # stack ev\<rparr>"
  have o1: "operand_ok o1" "EvaluateTokens mem t1 ev = Ok ?ev1"
    using 1 Ok by (simp_all add: runs_as_def)
  have r2: "runs_as (EvaluateTokens mem t2 ?ev1) ?ev1 x2" by (rule 2) simp
  show ?thesis
  proof (cases x2)
    case (Ok o2)
    let ?ev2 = "?ev1\<lparr>stack := operand_string o2 # stack ?ev1\<rparr>"
    have o2: "operand_ok o2" "EvaluateTokens mem t2 ?ev1 = Ok ?ev2"
      using r2 Ok by (simp_all add: runs_as_def)
    have "PopValue ?ev2 = lift_fail ?ev1
        (bind_outcome (resolve (dictionary ev) o2) (\<lambda>v. Ok (v, ?ev1)))"
      using PopValue_operand [of ?ev2 o2 "stack ?ev1"] o2(1) by simp
    moreover have "PopValue ?ev1 = lift_fail ev
        (bind_outcome (resolve (dictionary ev) o1) (\<lambda>v. Ok (v, ev)))"
      using PopValue_operand [of ?ev1 o1 "stack ev"] o1(1) by simp
    ultimately show ?thesis
      using \<open>x1 = Ok o1\<close> Ok o1 o2
      by (auto simp: runs_as_def EvaluateTokens_append EvaluateToken_def PopValues_def lift_fail_def
          resolve_def PushValue_def operand_ok_def split: operand.splits option.splits)
         (metis evaluator.surjective evaluator.update_convs(3))+
  next
    case (Fail u)
    then show ?thesis
      using r2 \<open>x1 = Ok o1\<close> o1 by (auto simp: runs_as_def EvaluateTokens_append)
  next
    case Crash
    then show ?thesis
      using r2 \<open>x1 = Ok o1\<close> o1 by (auto simp: runs_as_def EvaluateTokens_append)
  qed
qed (use 1 in \<open>auto simp: runs_as_def EvaluateTokens_append\<close>)

lemma runs_as_deref:
  assumes "runs_as (EvaluateTokens mem t ev) ev x"
  shows "runs_as (EvaluateTokens mem (t @ [''^'']) ev) ev
    (bind_outcome x (\<lambda>o1. case mem of None \<Rightarrow> Fail ()
       | Some read \<Rightarrow> bind_outcome (resolve (dictionary ev) o1) (\<lambda>a.
           case read a of None \<Rightarrow> Fail () | Some v \<Rightarrow> Ok (Val v))))"
proof (cases x)
  case (Ok o1)
  let ?ev1 = "ev\<lparr>stack := operand_string o1 # stack ev\<rparr>"
  have o1: "operand_ok o1" "EvaluateTokens mem t ev = Ok ?ev1"
    using assms Ok by (simp_all add: runs_as_def)
  have "PopValue ?ev1 = lift_fail ev
      (bind_outcome (resolve (dictionary ev) o1) (\<lambda>v. Ok (v, ev)))"
    using PopValue_operand [of ?ev1 o1 "stack ev"] o1(1) by simp
  then show ?thesis
    using Ok o1
    by (auto simp: runs_as_def EvaluateTokens_append EvaluateToken_def lift_fail_def binop_of_token_def
        resolve_def PushValue_def operand_ok_def split: operand.splits option.splits)
       (metis evaluator.surjective evaluator.update_convs(3))+
qed (use assms in \<open>auto simp: runs_as_def EvaluateTokens_append\<close>)

lemma expr_runs_as:
  "(\<forall>x \<in> expr_names e. identifier_name x) \<Longrightarrow>
     runs_as (EvaluateTokens mem (expr_tokens e) ev) ev (expr_operand mem (dictionary ev) e)"
proof (induction e arbitrary: ev)
  case (Lit v)
  then show ?case
    using push_token [of "print_nat 10 (unat v)" mem "[]" ev] print_nat_hd_digit
    by (simp add: runs_as_def operand_ok_def del: EvaluateTokens.simps(2))
next
  case (Var x)
  then show ?case
    using push_token [of x mem "[]" ev] by (simp add: runs_as_def operand_ok_def del: EvaluateTokens.simps(2))
next
  case (BinOp opn e1 e2)
  have "runs_as (EvaluateTokens mem (expr_tokens e2) ev') ev' (expr_operand mem (dictionary ev) e2)"
    if "dictionary ev' = dictionary ev" for ev'
    using BinOp.IH(2) [of ev'] BinOp.prems that by simp
  moreover have "runs_as (EvaluateTokens mem (expr_tokens e1) ev) ev (expr_operand mem (dictionary ev) e1)"
    using BinOp by simp
  ultimately show ?case unfolding expr_tokens.simps expr_operand.simps by (intro runs_as_binop)
next
  case (Deref e)
  then have "runs_as (EvaluateTokens mem (expr_tokens e) ev) ev (expr_operand mem (dictionary ev) e)"
    by simp
  then show ?case unfolding expr_tokens.simps expr_operand.simps by (rule runs_as_deref)
qed

section \<open>Expressions and programs\<close>

definition expr_text :: "'a::len word expr \<Rightarrow> string" where
  "expr_text e = join '' '' (expr_tokens e)"

lemma isspace_blank: "isspace CHR '' ''"
  by (simp add: isspace_def)

lemma print_nat_word: "word isspace (print_nat 10 n)"
  using print_nat_digits [of 10 n] digit_not_special(1) [of 10] by (auto simp: word_def)

lemma binop_token_word: "word isspace (binop_token opn)"
  by (cases opn) (simp_all add: word_def isspace_def)

lemma expr_tokens_words:
  "(\<forall>x \<in> expr_names e. identifier_name x) \<Longrightarrow> \<forall>t \<in> set (expr_tokens e). word isspace t"
proof (induction e)
  case (Deref e)
  have "word isspace ''^''" by (simp add: word_def isspace_def)
  with Deref show ?case by simp
next
  case (BinOp opn e1 e2)
  then show ?case by (simp add: binop_token_word ball_Un)
qed (simp_all add: print_nat_word identifier_name_def)

lemma stream_words_join: "\<forall>t \<in> set ts. word isspace t \<Longrightarrow> stream_words (join '' '' ts) = ts"
  by (simp add: stream_words_eq strtok_all_join isspace_blank)

lemma EvaluateForValue_text:
  assumes names: "\<forall>x \<in> expr_names e. identifier_name x" and st: "stack ev = []"
  shows "EvaluateForValue mem (expr_text e) ev =
    (case expr_value mem (dictionary ev) e of
       Ok v \<Rightarrow> Ok (v, ev\<lparr>assigned := None\<rparr>)
     | Fail _ \<Rightarrow> Fail (ev\<lparr>assigned := None\<rparr>)
     | Crash \<Rightarrow> Crash)"
proof -
  let ?ev = "ev\<lparr>assigned := None\<rparr>"
  have run: "runs_as (EvaluateInternal mem (expr_text e) ?ev) ?ev (expr_operand mem (dictionary ev) e)"
    using expr_runs_as [OF names, of mem ?ev] expr_tokens_words [OF names]
    by (simp add: EvaluateInternal_def expr_text_def stream_words_join)
  have clear: "AutoStackClearer (?ev\<lparr>stack := s\<rparr>) = ?ev" for s
    using st by (cases ev) (simp add: AutoStackClearer_def)
  show ?thesis
  proof (cases "expr_operand mem (dictionary ev) e")
    case (Ok opd)
    let ?ev1 = "?ev\<lparr>stack := [operand_string opd]\<rparr>"
    have opd: "operand_ok opd" "EvaluateInternal mem (expr_text e) ?ev = Ok ?ev1"
      using run Ok st by (simp_all add: runs_as_def)
    have pop: "PopValue ?ev1 = lift_fail (?ev1\<lparr>stack := []\<rparr>)
        (bind_outcome (resolve (dictionary ev) opd) (\<lambda>v. Ok (v, ?ev1\<lparr>stack := []\<rparr>)))"
      using PopValue_operand [of ?ev1 opd "[]"] opd(1) by simp
    show ?thesis
      using Ok opd(2) pop clear
      by (cases "resolve (dictionary ev) opd")
        (simp_all add: EvaluateForValue_def lift_fail_def expr_value_def)
  qed (use run clear in \<open>auto simp: runs_as_def EvaluateForValue_def expr_value_def\<close>)
qed

text \<open>
  A program is a sequence of assignments \<open>variable expression =\<close>; each is run in the
  dictionary that the ones before it left.
\<close>

fun program_tokens :: "(string \<times> 'a::len word expr) list \<Rightarrow> string list" where
  "program_tokens [] = []"
| "program_tokens ((x, e) # p) = x # expr_tokens e @ ''='' # program_tokens p"

fun run_program ::
  "('a::len word \<Rightarrow> 'a word option) option \<Rightarrow> (string \<times> 'a word expr) list \<Rightarrow> 'a word evaluator \<Rightarrow>
     ('a word evaluator, 'a word evaluator) outcome" where
  "run_program mem [] ev = Ok ev"
| "run_program mem ((x, e) # p) ev =
     bind_outcome (lift_fail ev (expr_value mem (dictionary ev) e)) (\<lambda>v.
       run_program mem p (ev\<lparr>dictionary := (dictionary ev)(x \<mapsto> v),
         assigned := map_option (\<lambda>valid. valid(x \<mapsto> True)) (assigned ev)\<rparr>))"

definition program_ok :: "(string \<times> 'a::len word expr) list \<Rightarrow> bool" where
  "program_ok p \<longleftrightarrow> (\<forall>(x, e) \<in> set p. word isspace x \<and> hd x = CHR ''$'' \<and>
     (\<forall>y \<in> expr_names e. identifier_name y))"

lemma dollar_identifier: "word isspace x \<Longrightarrow> hd x = CHR ''$'' \<Longrightarrow> identifier_name x"
  by (simp add: identifier_name_def is_digit_def digit_value_def)

lemma assignment_runs:
  assumes x: "word isspace x" "hd x = CHR ''$''" and names: "\<forall>y \<in> expr_names e. identifier_name y"
  shows "case lift_fail ev (expr_value mem (dictionary ev) e) of
      Ok v \<Rightarrow> EvaluateTokens mem (x # expr_tokens e @ [''='']) ev =
        Ok (ev\<lparr>dictionary := (dictionary ev)(x \<mapsto> v),
          assigned := map_option (\<lambda>valid. valid(x \<mapsto> True)) (assigned ev)\<rparr>)
    | Fail _ \<Rightarrow> (\<exists>s. EvaluateTokens mem (x # expr_tokens e @ [''='']) ev = Fail (ev\<lparr>stack := s\<rparr>))
    | Crash \<Rightarrow> EvaluateTokens mem (x # expr_tokens e @ [''='']) ev = Crash"
proof -
  have nx: "identifier_name x" using dollar_identifier x by blast
  let ?ev1 = "ev\<lparr>stack := x # stack ev\<rparr>"
  have push: "EvaluateTokens mem (x # expr_tokens e @ [''='']) ev =
      bind_outcome (EvaluateTokens mem (expr_tokens e) ?ev1) (EvaluateTokens mem [''=''])"
    using push_token [of x mem "expr_tokens e @ [''='']" ev] nx
    by (simp add: EvaluateTokens_append del: EvaluateTokens.simps(2))
  have run: "runs_as (EvaluateTokens mem (expr_tokens e) ?ev1) ?ev1 (expr_operand mem (dictionary ev) e)"
    using expr_runs_as [OF names, of mem ?ev1] by simp
  show ?thesis
  proof (cases "expr_operand mem (dictionary ev) e")
    case (Ok opd)
    let ?ev2 = "?ev1\<lparr>stack := operand_string opd # x # stack ev\<rparr>"
    have opd: "operand_ok opd" "EvaluateTokens mem (expr_tokens e) ?ev1 = Ok ?ev2"
      using run Ok by (simp_all add: runs_as_def)
    have pop: "PopValue ?ev2 = lift_fail ?ev1
        (bind_outcome (resolve (dictionary ev) opd) (\<lambda>v. Ok (v, ?ev1)))"
      using PopValue_operand [of ?ev2 opd "x # stack ev"] opd(1) by simp
    have name: "PopValueOrIdentifier True ?ev1 = (POP_RESULT_IDENTIFIER x, ev)"
      using Pop_name [of ?ev1 x "stack ev" True] nx by simp
    show ?thesis
      using Ok opd(2) pop name x push
      by (cases "resolve (dictionary ev) opd"; cases "assigned ev")
        (auto simp: EvaluateToken_def binop_of_token_def lift_fail_def expr_value_def word_def)
  qed (use run push in \<open>auto simp: runs_as_def lift_fail_def expr_value_def\<close>)
qed

lemma program_runs:
  "program_ok p \<Longrightarrow> case run_program mem p ev of
      Ok ev' \<Rightarrow> EvaluateTokens mem (program_tokens p) ev = Ok (ev'\<lparr>stack := stack ev\<rparr>)
    | Fail ev' \<Rightarrow> (\<exists>s. EvaluateTokens mem (program_tokens p) ev = Fail (ev'\<lparr>stack := s\<rparr>))
    | Crash \<Rightarrow> EvaluateTokens mem (program_tokens p) ev = Crash"
proof (induction p arbitrary: ev)
  case (Cons xe p)
  obtain x e where xe: "xe = (x, e)" by (cases xe)
  have x: "word isspace x" "hd x = CHR ''$''" "\<forall>y \<in> expr_names e. identifier_name y"
    and p: "program_ok p"
    using Cons.prems xe by (auto simp: program_ok_def)
  have split: "EvaluateTokens mem (program_tokens (xe # p)) ev =
      bind_outcome (EvaluateTokens mem (x # expr_tokens e @ [''='']) ev) (EvaluateTokens mem (program_tokens p))"
    using EvaluateTokens_append [of mem "x # expr_tokens e @ [''='']" "program_tokens p" ev] xe
    by (simp del: EvaluateTokens.simps(2))
  show ?case
  proof (cases "lift_fail ev (expr_value mem (dictionary ev) e)")
    case (Ok v)
    let ?ev1 = "ev\<lparr>dictionary := (dictionary ev)(x \<mapsto> v),
      assigned := map_option (\<lambda>valid. valid(x \<mapsto> True)) (assigned ev)\<rparr>"
    have eq: "EvaluateTokens mem (program_tokens (xe # p)) ev = EvaluateTokens mem (program_tokens p) ?ev1"
      using assignment_runs [OF x, of mem ev] Ok split by (simp del: EvaluateTokens.simps(2))
    show ?thesis
      unfolding eq using Cons.IH [OF p, of ?ev1] by (cases "run_program mem p ?ev1") (simp_all add: Ok xe)
  next
    case (Fail ev')
    then have "ev' = ev" by (auto simp: lift_fail_def split: outcome.splits)
    then show ?thesis
      using assignment_runs [OF x, of mem ev] Fail split xe by (auto simp del: EvaluateTokens.simps(2))
  next
    case Crash
    then show ?thesis
      using assignment_runs [OF x, of mem ev] split xe by (simp del: EvaluateTokens.simps(2))
  qed
qed simp

section \<open>Correctness\<close>

text \<open>C10: Evaluating the postfix text of an expression tree yields the value of the tree: the
  result is the tree's value, a failure or an undefined operation exactly where the tree has
  one, the dictionary is left alone and the stack is empty afterwards.\<close>

theorem EvaluateForValue_expression:
  assumes "\<forall>x \<in> expr_names e. identifier_name x" and "stack ev = []"
  shows "EvaluateForValue mem (expr_text e) ev =
    (case expr_value mem (dictionary ev) e of
       Ok v \<Rightarrow> Ok (v, ev\<lparr>assigned := None\<rparr>)
     | Fail _ \<Rightarrow> Fail (ev\<lparr>assigned := None\<rparr>)
     | Crash \<Rightarrow> Crash)"
  using assms by (rule EvaluateForValue_text)

theorem EvaluateForValue_expression_witness:
  "EvaluateForValue (Some (\<lambda>a. if a = 24 then Some 7 else None))
     (expr_text (Deref (BinOp BINARY_OP_ADD (Var ''$esp'') (Lit (8 :: 32 word)))))
     \<lparr>dictionary = [''$esp'' \<mapsto> 16], assigned = None, stack = []\<rparr> =
   Ok (7 :: 32 word, \<lparr>dictionary = [''$esp'' \<mapsto> 16], assigned = None, stack = []\<rparr>)"
proof -
  let ?e = "Deref (BinOp BINARY_OP_ADD (Var ''$esp'') (Lit (8 :: 32 word)))"
  have "\<forall>x \<in> expr_names ?e. identifier_name x"
    by (simp add: identifier_name_def word_def isspace_def is_digit_def digit_value_def)
  from EvaluateForValue_expression [OF this, of "\<lparr>dictionary = [''$esp'' \<mapsto> 16], assigned = None, stack = []\<rparr>"
      "Some (\<lambda>a. if a = 24 then Some 7 else None)"]
  show ?thesis by (simp add: expr_value_def resolve_def)
qed

lemma run_program_stack:
  "run_program mem p ev = Ok ev' \<or> run_program mem p ev = Fail ev' \<Longrightarrow> stack ev' = stack ev"
proof (induction p arbitrary: ev)
  case (Cons xe p)
  obtain x e where xe: "xe = (x, e)" by (cases xe)
  show ?case
    using Cons.prems Cons.IH xe
    by (cases "expr_value mem (dictionary ev) e") (auto simp: lift_fail_def)
qed auto

lemma Evaluate_program_text:
  assumes "program_ok p" and "stack ev = []"
  shows "Evaluate mem (join '' '' (program_tokens p)) ev = run_program mem p ev"
proof -
  have "\<forall>t \<in> set (program_tokens p). word isspace t"
    using assms(1)
  proof (induction p rule: program_tokens.induct)
    case (2 x e p)
    have "word isspace ''=''" by (simp add: word_def isspace_def)
    with 2 show ?case using expr_tokens_words [of e] by (auto simp: program_ok_def)
  qed simp
  then have words: "EvaluateInternal mem (join '' '' (program_tokens p)) ev =
      EvaluateTokens mem (program_tokens p) ev"
    by (simp add: EvaluateInternal_def stream_words_join)
  show ?thesis
    using program_runs [OF assms(1), of mem ev] run_program_stack [of mem p ev] assms(2)
    by (cases "run_program mem p ev")
      (auto simp: Evaluate_def words AutoStackClearer_def)
qed

text \<open>C27: Evaluating a program of assignments performs them in order, each in the dictionary
  the previous ones left, and marks each assigned variable; where an expression fails the
  evaluation stops with the assignments made so far.\<close>

theorem Evaluate_program:
  assumes "program_ok p" and "stack ev = []"
  shows "Evaluate mem (join '' '' (program_tokens p)) ev = run_program mem p ev"
  using assms by (rule Evaluate_program_text)

theorem Evaluate_program_witness:
  "Evaluate None (join '' '' (program_tokens [(''$T0'', Lit (5 :: 32 word)),
     (''$L'', BinOp BINARY_OP_MULTIPLY (Var ''$T0'') (Lit 3))]))
     \<lparr>dictionary = Map.empty, assigned = Some Map.empty, stack = []\<rparr> =
   Ok \<lparr>dictionary = [''$T0'' \<mapsto> 5 :: 32 word, ''$L'' \<mapsto> 15], assigned = Some [''$T0'' \<mapsto> True, ''$L'' \<mapsto> True], stack = []\<rparr>"
proof -
  have "program_ok [(''$T0'', Lit (5 :: 32 word)), (''$L'', BinOp BINARY_OP_MULTIPLY (Var ''$T0'') (Lit 3))]"
    by (simp add: program_ok_def identifier_name_def word_def isspace_def is_digit_def digit_value_def)
  from Evaluate_program [OF this, of "\<lparr>dictionary = Map.empty, assigned = Some Map.empty, stack = []\<rparr>" None]
  show ?thesis by (simp add: expr_value_def resolve_def lift_fail_def fun_upd_twist)
qed

text \<open>An assignment sign glued to the next token is evaluated as if it stood alone.\<close>

theorem EvaluateTokens_glued:
  assumes "t \<noteq> []" and "length t = 1 \<or> hd t \<noteq> CHR ''=''"
  shows "EvaluateTokens mem (xs @ (CHR ''='' # t) # ys) ev = EvaluateTokens mem (xs @ ''='' # t # ys) ev"
proof -
  have "\<not> (length t > 1 \<and> t ! 0 = CHR ''='')" using assms by (auto simp: hd_conv_nth)
  then have "EvaluateTokens mem ((CHR ''='' # t) # ys) ev' = EvaluateTokens mem (''='' # t # ys) ev'" for ev'
    using assms(1) by (cases "EvaluateToken mem ''='' ev'") auto
  then have "EvaluateTokens mem ((CHR ''='' # t) # ys) = EvaluateTokens mem (''='' # t # ys)"
    by (rule ext)
  then show ?thesis by (simp add: EvaluateTokens_append del: EvaluateTokens.simps)
qed

theorem EvaluateTokens_glued_witness:
  "EvaluateTokens None [''$a'', ''2'', ''=$b'', ''3'', ''='']
     \<lparr>dictionary = Map.empty, assigned = None, stack = []\<rparr> =
   EvaluateTokens (None :: (32 word \<Rightarrow> 32 word option) option) [''$a'', ''2'', ''='', ''$b'', ''3'', ''='']
     \<lparr>dictionary = Map.empty, assigned = None, stack = []\<rparr>"
  using EvaluateTokens_glued [of "''$b''" None "[''$a'', ''2'']" "[''3'', ''='']"
      "\<lparr>dictionary = Map.empty, assigned = None, stack = []\<rparr> :: 32 word evaluator"] by simp

text \<open>Assigning to a negative literal writes through a null pointer, whatever the numbers.\<close>

theorem assign_negative_literal_crashes:
  fixes v w :: "'a::len word" and ev :: "'a word evaluator"
  shows "Evaluate mem (join '' '' [CHR ''-'' # print_nat 10 (unat v), print_nat 10 (unat w), ''='']) ev = Crash"
proof -
  let ?ts = "[CHR ''-'' # print_nat 10 (unat v), print_nat 10 (unat w), ''='']"
  have "word isspace (CHR ''-'' # print_nat 10 (unat v))"
    using print_nat_word [of "unat v"] by (simp add: word_def isspace_def)
  moreover have "word isspace ''=''" by (simp add: word_def isspace_def)
  ultimately have words: "stream_words (join '' '' ?ts) = ?ts"
    by (intro stream_words_join) (simp add: print_nat_word)
  let ?ev1 = "ev\<lparr>stack := (CHR ''-'' # print_nat 10 (unat v)) # stack ev\<rparr>"
  have 1: "EvaluateToken mem (CHR ''-'' # print_nat 10 (unat v)) ev = Ok ?ev1"
    by (simp add: EvaluateToken_def binop_of_token_def)
  have 2: "EvaluateTokens mem [print_nat 10 (unat w), ''=''] ?ev1 =
      EvaluateTokens mem [''=''] (?ev1\<lparr>stack := print_nat 10 (unat w) # stack ?ev1\<rparr>)"
    by (rule push_token) (simp add: print_nat_hd_digit)
  have 3: "PopValueOrIdentifier True ?ev1 = (POP_CRASH, ev)"
    by (simp add: PopValueOrIdentifier_def extract_unsigned_print Let_def)
  have 4: "PopValue (?ev1\<lparr>stack := print_nat 10 (unat w) # stack ?ev1\<rparr>) = Ok (w, ?ev1)"
    by (simp add: PopValue_def Pop_value)
  have "EvaluateTokens mem ?ts ev = Crash"
    unfolding EvaluateTokens.simps(2) [of mem "CHR ''-'' # print_nat 10 (unat v)"]
    using 1 2 3 4 by (simp add: EvaluateToken_def [of mem "''=''"] binop_of_token_def
        del: EvaluateTokens.simps(2)) (simp add: EvaluateToken_def binop_of_token_def)
  then show ?thesis unfolding Evaluate_def EvaluateInternal_def words by simp
qed

end
