(* ===== verification/CFI_Frame_Info.thy ===== *)
theory CFI_Frame_Info
  imports Std_Map Postfix_Evaluator "HOL-Library.Char_ord" "HOL-Library.List_Lexorder"
begin

text \<open>
  \<open>CFIFrameInfo\<close>, \<open>CFIRuleParser\<close>, \<open>CFIFrameInfoParseHandler\<close> and \<open>SimpleCFIWalker\<close> of
  processor/cfi_frame_info.h, cfi_frame_info.cc and cfi_frame_info-inl.h: the register recovery
  rules of a stack frame, their text form, and their use to find the caller's registers. The
  lemmas show that parsing inverts serializing, that the caller's registers are the values of
  the rules in the callee's registers, and what the walker marks as valid.
\<close>

section \<open>Rule sets\<close>

record cfi_frame_info =
  cfa_rule :: string
  ra_rule :: string
  register_rules :: "(string, string) std_map"

definition CFIFrameInfo_init :: cfi_frame_info where
  "CFIFrameInfo_init = \<lparr>cfa_rule = [], ra_rule = [], register_rules = []\<rparr>"

definition SetCFARule :: "string \<Rightarrow> cfi_frame_info \<Rightarrow> cfi_frame_info" where
  "SetCFARule expression fi = fi\<lparr>cfa_rule := expression\<rparr>"

definition SetRARule :: "string \<Rightarrow> cfi_frame_info \<Rightarrow> cfi_frame_info" where
  "SetRARule expression fi = fi\<lparr>ra_rule := expression\<rparr>"

definition SetRegisterRule :: "string \<Rightarrow> string \<Rightarrow> cfi_frame_info \<Rightarrow> cfi_frame_info" where
  "SetRegisterRule register_name expression fi =
     fi\<lparr>register_rules := map_assign register_name expression (register_rules fi)\<rparr>"

section \<open>Finding the caller's registers\<close>

type_synonym 'v registers = "string \<Rightarrow> 'v option"

text \<open>Each rule is evaluated in a fresh copy of the known registers, with an empty stack.\<close>

definition working_evaluator :: "'a::len word registers \<Rightarrow> 'a word evaluator" where
  "working_evaluator working = \<lparr>dictionary = working, assigned = None, stack = []\<rparr>"

fun find_register_rules ::
  "('a::len word \<Rightarrow> 'a word option) \<Rightarrow> 'a word registers \<Rightarrow> (string, string) std_map \<Rightarrow>
     'a word registers \<Rightarrow> ('a word registers, 'a word registers) outcome" where
  "find_register_rules memory working [] caller_registers = Ok caller_registers"
| "find_register_rules memory working ((name, rule) # rules) caller_registers =
     (case EvaluateForValue (Some memory) rule (working_evaluator working) of
        Crash \<Rightarrow> Crash
      | Fail _ \<Rightarrow> Fail caller_registers
      | Ok (value, _) \<Rightarrow> find_register_rules memory working rules (caller_registers(name \<mapsto> value)))"

definition FindCallerRegs ::
  "cfi_frame_info \<Rightarrow> 'a::len word registers \<Rightarrow> ('a word \<Rightarrow> 'a word option) \<Rightarrow>
     'a word registers \<Rightarrow> ('a word registers, 'a word registers) outcome" where
  "FindCallerRegs fi registers memory caller_registers =
     (if cfa_rule fi = [] \<or> ra_rule fi = [] then Fail caller_registers
      else
        case EvaluateForValue (Some memory) (cfa_rule fi) (working_evaluator registers) of
          Crash \<Rightarrow> Crash
        | Fail _ \<Rightarrow> Fail Map.empty
        | Ok (cfa, _) \<Rightarrow>
            let working = registers(''.cfa'' \<mapsto> cfa) in
            case EvaluateForValue (Some memory) (ra_rule fi) (working_evaluator working) of
              Crash \<Rightarrow> Crash
            | Fail _ \<Rightarrow> Fail Map.empty
            | Ok (ra, _) \<Rightarrow>
                bind_outcome (find_register_rules memory working (register_rules fi) Map.empty)
                  (\<lambda>caller. Ok (caller(''.ra'' \<mapsto> ra, ''.cfa'' \<mapsto> cfa))))"

section \<open>The text form\<close>

definition Serialize_rules :: "string \<Rightarrow> (string, string) std_map \<Rightarrow> string" where
  "Serialize_rules stream rules =
     foldl (\<lambda>stream (name, rule). stream @ (if stream \<noteq> [] then '' '' else []) @ name @ '': '' @ rule)
       stream rules"

definition Serialize :: "cfi_frame_info \<Rightarrow> string" where
  "Serialize fi =
     (let stream = (if cfa_rule fi \<noteq> [] then ''.cfa: '' @ cfa_rule fi else []);
          stream = (if ra_rule fi \<noteq> []
            then stream @ (if stream \<noteq> [] then '' '' else []) @ ''.ra: '' @ ra_rule fi else stream)
      in Serialize_rules stream (register_rules fi))"

text \<open>
  The parser reports each complete rule to a \<open>Handler\<close>; a call of a handler is an event. The
  rules reported before an error has been found stay reported.
\<close>

datatype rule_event = CFARule string | RARule string | RegisterRule string string

definition Report :: "string \<Rightarrow> string \<Rightarrow> bool \<times> rule_event list" where
  "Report name expression =
     (if name = [] \<or> expression = [] then (False, [])
      else if name = ''.cfa'' then (True, [CFARule expression])
      else if name = ''.ra'' then (True, [RARule expression])
      else (True, [RegisterRule name expression]))"

fun Parse_tokens :: "string list \<Rightarrow> string \<Rightarrow> string \<Rightarrow> bool \<times> rule_event list" where
  "Parse_tokens [] name expression = Report name expression"
| "Parse_tokens (token # tokens) name expression =
     (if token \<noteq> [] \<and> last token = CHR '':'' then
        if length token < 2 then (False, [])
        else
          (case if name \<noteq> [] \<or> expression \<noteq> [] then Report name expression else (True, []) of
             (False, reported) \<Rightarrow> (False, reported)
           | (True, reported) \<Rightarrow>
               (case Parse_tokens tokens (butlast token) [] of
                  (ok, later) \<Rightarrow> (ok, reported @ later)))
      else Parse_tokens tokens name
        (if expression \<noteq> [] then expression @ '' '' @ token else token))"

definition token_break :: "char \<Rightarrow> bool" where
  "token_break c \<longleftrightarrow> c \<in> {CHR '' '', CHR 0x09, CHR 0x0D, CHR 0x0A}"

text \<open>The working copy is a C string: it ends at the first NUL of the rule set.\<close>

definition c_string :: "string \<Rightarrow> string" where
  "c_string s = takeWhile (\<lambda>c. c \<noteq> CHR 0x00) s"

definition Parse :: "string \<Rightarrow> bool \<times> rule_event list" where
  "Parse rule_set = Parse_tokens (strtok_all token_break (c_string rule_set)) [] []"

fun handle :: "rule_event \<Rightarrow> cfi_frame_info \<Rightarrow> cfi_frame_info" where
  "handle (CFARule expression) fi = SetCFARule expression fi"
| "handle (RARule expression) fi = SetRARule expression fi"
| "handle (RegisterRule name expression) fi = SetRegisterRule name expression fi"

definition ParseCFIRuleSet :: "string \<Rightarrow> cfi_frame_info \<Rightarrow> bool \<times> cfi_frame_info" where
  "ParseCFIRuleSet rule_set fi = (case Parse rule_set of (ok, events) \<Rightarrow> (ok, fold handle events fi))"

section \<open>The architecture-independent walker\<close>

text \<open>
  A raw context is a value for each member; \<open>context_member\<close> names the member of a register.
\<close>

record 'm register_set =
  reg_name :: string
  alternate_name :: "string option"
  callee_saves :: bool
  validity_flag :: uint32
  context_member :: 'm

text \<open>What \<open>memset(caller_context, 0xda, ...)\<close> leaves in a member of at most 64 bits.\<close>

definition da_fill :: "'a::len word" where
  "da_fill = 0xdadadadadadadada"

definition callee_registers ::
  "'m register_set list \<Rightarrow> ('m \<Rightarrow> 'v) \<Rightarrow> uint32 \<Rightarrow> 'v registers" where
  "callee_registers register_map callee_context callee_validity =
     foldl (\<lambda>regs r. if callee_validity AND validity_flag r \<noteq> 0
         then regs(reg_name r \<mapsto> callee_context (context_member r)) else regs)
       Map.empty register_map"

text \<open>One round of the loop that populates the caller's context.\<close>

definition populate_register ::
  "'v registers \<Rightarrow> ('m \<Rightarrow> 'v) \<Rightarrow> uint32 \<Rightarrow> 'm register_set \<Rightarrow>
     ('m \<Rightarrow> 'v) \<times> uint32 \<Rightarrow> ('m \<Rightarrow> 'v) \<times> uint32" where
  "populate_register caller_registers callee_context callee_validity r state =
     (case state of (caller_context, caller_validity) \<Rightarrow>
        let put = (\<lambda>v. (caller_context(context_member r := v), caller_validity OR validity_flag r)) in
        case caller_registers (reg_name r) of
          Some v \<Rightarrow> put v
        | None \<Rightarrow>
            (case (case alternate_name r of None \<Rightarrow> None | Some a \<Rightarrow> caller_registers a) of
               Some v \<Rightarrow> put v
             | None \<Rightarrow>
                 if callee_saves r \<and> callee_validity AND validity_flag r \<noteq> 0
                 then put (callee_context (context_member r))
                 else (caller_context, caller_validity)))"

definition FindCallerRegisters ::
  "'m register_set list \<Rightarrow> ('a::len word \<Rightarrow> 'a word option) \<Rightarrow> cfi_frame_info \<Rightarrow>
     ('m \<Rightarrow> 'a word) \<Rightarrow> uint32 \<Rightarrow> (('m \<Rightarrow> 'a word) \<times> uint32, unit) outcome" where
  "FindCallerRegisters register_map memory cfi_frame_info callee_context callee_validity =
     (case FindCallerRegs cfi_frame_info (callee_registers register_map callee_context callee_validity)
             memory Map.empty of
        Crash \<Rightarrow> Crash
      | Fail _ \<Rightarrow> Fail ()
      | Ok caller_registers \<Rightarrow>
          Ok (fold (populate_register caller_registers callee_context callee_validity) register_map
            (\<lambda>m. da_fill, 0)))"

section \<open>Parsing inverts serializing\<close>

text \<open>
  The expressions that survive a round trip: words without a final colon, separated by single
  blanks. A name is one word and is not one of the two reserved names.
\<close>

definition rule_expression :: "string \<Rightarrow> bool" where
  "rule_expression e \<longleftrightarrow> e \<noteq> [] \<and> CHR 0x00 \<notin> set e \<and> join '' '' (strtok_all token_break e) = e \<and>
     (\<forall>w \<in> set (strtok_all token_break e). last w \<noteq> CHR '':'')"

definition rule_name :: "string \<Rightarrow> bool" where
  "rule_name n \<longleftrightarrow> word token_break n \<and> CHR 0x00 \<notin> set n"

definition cfi_wf :: "cfi_frame_info \<Rightarrow> bool" where
  "cfi_wf fi \<longleftrightarrow> (cfa_rule fi = [] \<or> rule_expression (cfa_rule fi)) \<and>
     (ra_rule fi = [] \<or> rule_expression (ra_rule fi)) \<and> keys_sorted (register_rules fi) \<and>
     (\<forall>(n, e) \<in> set (register_rules fi).
        rule_name n \<and> n \<noteq> ''.cfa'' \<and> n \<noteq> ''.ra'' \<and> rule_expression e)"

definition all_rules :: "cfi_frame_info \<Rightarrow> (string \<times> string) list" where
  "all_rules fi = (if cfa_rule fi \<noteq> [] then [(''.cfa'', cfa_rule fi)] else []) @
     (if ra_rule fi \<noteq> [] then [(''.ra'', ra_rule fi)] else []) @ register_rules fi"

definition rule_tokens :: "(string \<times> string) list \<Rightarrow> string list" where
  "rule_tokens rs = concat (map (\<lambda>(n, e). (n @ '':'') # strtok_all token_break e) rs)"

definition rule_ok :: "string \<times> string \<Rightarrow> bool" where
  "rule_ok r \<longleftrightarrow> rule_name (fst r) \<and> rule_expression (snd r)"

definition rule_event :: "string \<times> string \<Rightarrow> rule_event" where
  "rule_event r = (case r of (n, e) \<Rightarrow>
     if n = ''.cfa'' then CFARule e else if n = ''.ra'' then RARule e else RegisterRule n e)"

lemma rule_tokens_Nil [simp]: "rule_tokens [] = []"
  by (simp add: rule_tokens_def)

lemma rule_tokens_Cons [simp]:
  "rule_tokens ((n, e) # rs) = (n @ '':'') # strtok_all token_break e @ rule_tokens rs"
  by (simp add: rule_tokens_def)

lemma rule_tokens_append [simp]: "rule_tokens (rs @ qs) = rule_tokens rs @ rule_tokens qs"
  by (simp add: rule_tokens_def)

lemma rule_words:
  "rule_expression e \<Longrightarrow> w \<in> set (strtok_all token_break e) \<Longrightarrow>
     word token_break w \<and> last w \<noteq> CHR '':'' \<and> CHR 0x00 \<notin> set w"
  using strtok_all_words [of w token_break e] by (auto simp: rule_expression_def)

lemma rule_words_not_Nil: "rule_expression e \<Longrightarrow> strtok_all token_break e \<noteq> []"
  by (auto simp: rule_expression_def)

lemma rule_tokens_words:
  assumes "\<forall>r \<in> set rs. rule_ok r" and "t \<in> set (rule_tokens rs)"
  shows "word token_break t \<and> CHR 0x00 \<notin> set t"
proof -
  obtain n e where r: "(n, e) \<in> set rs" "t = n @ '':'' \<or> t \<in> set (strtok_all token_break e)"
    using assms(2) by (auto simp: rule_tokens_def)
  then have ok: "rule_name n" "rule_expression e" using assms(1) by (auto simp: rule_ok_def)
  from r(2) show ?thesis
  proof
    assume "t = n @ '':''"
    then show ?thesis using ok(1) by (auto simp: rule_name_def word_def token_break_def)
  qed (use rule_words [OF ok(2)] in blast)
qed

lemma join_append: "xs \<noteq> [] \<Longrightarrow> ys \<noteq> [] \<Longrightarrow> join s (xs @ ys) = join s xs @ s @ join s ys"
proof (induction s xs rule: join.induct)
  case (2 sep w)
  then show ?case by (cases ys) auto
qed simp_all

lemma join_Nil_iff: "(\<forall>t \<in> set ts. t \<noteq> []) \<Longrightarrow> join s ts = [] \<longleftrightarrow> ts = []"
  by (induction s ts rule: join.induct) auto

lemma serialize_step:
  assumes "\<forall>t \<in> set ts. t \<noteq> []" and e: "rule_expression e"
  shows "join '' '' ts @ (if join '' '' ts \<noteq> [] then '' '' else []) @ n @ '': '' @ e =
    join '' '' (ts @ rule_tokens [(n, e)])"
proof -
  have "join '' '' (rule_tokens [(n, e)]) = n @ '': '' @ e"
    using join_append [of "[n @ '':'']" "strtok_all token_break e" "'' ''"] rule_words_not_Nil [OF e] e
    by (simp add: rule_expression_def)
  then show ?thesis
    using join_append [of ts "rule_tokens [(n, e)]" "'' ''"] join_Nil_iff [OF assms(1)]
    by (cases "ts = []") (simp_all del: rule_tokens_Cons, simp add: rule_tokens_def)
qed

lemma Serialize_rules_join:
  "(\<forall>t \<in> set ts. t \<noteq> []) \<Longrightarrow> (\<forall>r \<in> set rs. rule_ok r) \<Longrightarrow>
     Serialize_rules (join '' '' ts) rs = join '' '' (ts @ rule_tokens rs)"
proof (induction rs arbitrary: ts)
  case Nil
  then show ?case by (simp add: Serialize_rules_def)
next
  case (Cons r rs)
  obtain n e where r: "r = (n, e)" by (cases r)
  have e: "rule_expression e" using Cons.prems(2) r by (simp add: rule_ok_def)
  have ok: "\<forall>t \<in> set (ts @ rule_tokens [(n, e)]). t \<noteq> []"
    using Cons.prems r rule_tokens_words [of "[(n, e)]"] by (auto simp: word_def)
  have "Serialize_rules (join '' '' ts) (r # rs) =
      Serialize_rules (join '' '' (ts @ rule_tokens [(n, e)])) rs"
    unfolding serialize_step [OF Cons.prems(1) e, symmetric] by (simp add: Serialize_rules_def r)
  also have "\<dots> = join '' '' ((ts @ rule_tokens [(n, e)]) @ rule_tokens rs)"
    using Cons.IH [OF ok] Cons.prems(2) by simp
  finally show ?case by (simp add: r)
qed

lemma special_rule_names: "rule_name ''.cfa''" "rule_name ''.ra''"
  by (simp_all add: rule_name_def word_def token_break_def)

lemma all_rules_ok:
  assumes "cfi_wf fi" and "r \<in> set (all_rules fi)"
  shows "rule_ok r"
proof -
  consider "r = (''.cfa'', cfa_rule fi)" "cfa_rule fi \<noteq> []" | "r = (''.ra'', ra_rule fi)" "ra_rule fi \<noteq> []"
    | "r \<in> set (register_rules fi)"
    using assms(2) by (auto simp only: all_rules_def set_append split: if_splits) simp_all
  then show ?thesis
  proof cases
    case 3
    then have "case r of (n, e) \<Rightarrow> rule_name n \<and> n \<noteq> ''.cfa'' \<and> n \<noteq> ''.ra'' \<and> rule_expression e"
      using assms(1) unfolding cfi_wf_def by blast
    then show ?thesis by (simp add: rule_ok_def split_beta)
  qed (use assms(1) special_rule_names in \<open>auto simp only: cfi_wf_def rule_ok_def fst_conv snd_conv\<close>)
qed

lemma Serialize_join:
  assumes "cfi_wf fi"
  shows "Serialize fi = join '' '' (rule_tokens (all_rules fi))"
proof -
  have rules: "\<forall>r \<in> set (all_rules fi). rule_ok r"
    using all_rules_ok [OF assms] by blast
  have "Serialize fi = Serialize_rules (join '' '' []) (all_rules fi)"
    by (simp add: Serialize_def Serialize_rules_def all_rules_def Let_def)
  also have "\<dots> = join '' '' ([] @ rule_tokens (all_rules fi))"
    by (rule Serialize_rules_join) (use rules in auto)
  finally show ?thesis by simp
qed

lemma Parse_tokens_words:
  "(\<forall>w \<in> set ws. w \<noteq> [] \<and> last w \<noteq> CHR '':'') \<Longrightarrow>
     Parse_tokens (ws @ ts) n e = Parse_tokens ts n
       (if ws = [] then e else if e = [] then join '' '' ws else e @ '' '' @ join '' '' ws)"
proof (induction ws arbitrary: e)
  case (Cons w ws)
  then have "join '' '' (w # ws) = (if ws = [] then w else w @ '' '' @ join '' '' ws)"
    by (cases ws) auto
  with Cons show ?case by auto
qed simp

lemma Report_rule: "n \<noteq> [] \<Longrightarrow> e \<noteq> [] \<Longrightarrow> Report n e = (True, [rule_event (n, e)])"
  by (simp add: Report_def rule_event_def)

lemma Parse_first_rule:
  assumes "rule_ok (n, e)" and "n0 = [] \<and> e0 = [] \<and> es = [] \<or> Report n0 e0 = (True, es)"
  shows "Parse_tokens (rule_tokens ((n, e) # rs)) n0 e0 =
    (case Parse_tokens (rule_tokens rs) n e of (ok, later) \<Rightarrow> (ok, es @ later))"
proof -
  have n: "n \<noteq> []" and e: "rule_expression e" using assms(1) by (auto simp: rule_ok_def rule_name_def word_def)
  have "Parse_tokens (strtok_all token_break e @ rule_tokens rs) n [] = Parse_tokens (rule_tokens rs) n e"
    using Parse_tokens_words [of "strtok_all token_break e" "rule_tokens rs" n "[]"]
      rule_words [OF e] rule_words_not_Nil [OF e] e
    by (auto simp: word_def rule_expression_def)
  then show ?thesis
    using n assms(2) by (auto simp: Report_def split: if_splits)
qed

lemma Parse_rules:
  "(\<forall>r \<in> set rs. rule_ok r) \<Longrightarrow> n \<noteq> [] \<Longrightarrow> e \<noteq> [] \<Longrightarrow>
     Parse_tokens (rule_tokens rs) n e = (True, rule_event (n, e) # map rule_event rs)"
proof (induction rs arbitrary: n e)
  case Nil
  then show ?case by (simp add: Report_rule)
next
  case (Cons r rs)
  obtain m f where r: "r = (m, f)" by (cases r)
  have ok: "rule_ok (m, f)" "m \<noteq> []" "f \<noteq> []"
    using Cons.prems(1) r by (auto simp: rule_ok_def rule_name_def word_def rule_expression_def)
  show ?case
    using Parse_first_rule [OF ok(1), of n e "[rule_event (n, e)]" rs] Report_rule [OF Cons.prems(2,3)]
      Cons.IH [OF _ ok(2,3)] Cons.prems(1) r by simp
qed

lemma fold_map_assign:
  "keys_sorted (m @ rs) \<Longrightarrow> fold (\<lambda>(n, e). map_assign n e) rs m = m @ rs"
proof (induction rs arbitrary: m)
  case (Cons r rs)
  obtain n e where r: "r = (n, e)" by (cases r)
  have "\<forall>x \<in> set m. fst x < n" using Cons.prems r by (auto simp: keys_sorted_def sorted_wrt_append)
  then have "map_assign n e m = m @ [(n, e)]"
    by (induction m) (auto split: prod.splits)
  then show ?case using Cons r by simp
qed simp

lemma handle_register_rules:
  assumes "\<forall>(n, e) \<in> set rs. n \<noteq> ''.cfa'' \<and> n \<noteq> ''.ra''"
  shows "fold handle (map rule_event rs) fi =
    fi\<lparr>register_rules := fold (\<lambda>(n, e). map_assign n e) rs (register_rules fi)\<rparr>"
  using assms
proof (induction rs arbitrary: fi)
  case (Cons r rs)
  then show ?case by (cases r) (simp add: rule_event_def SetRegisterRule_def)
qed simp

text \<open>C11: Parsing the serialized form of a rule set into an empty frame info gives the rule set
  back, whatever rules are present.\<close>

theorem Parse_Serialize:
  assumes "cfi_wf fi" and "fi \<noteq> CFIFrameInfo_init"
  shows "ParseCFIRuleSet (Serialize fi) CFIFrameInfo_init = (True, fi)"
proof -
  let ?rs = "all_rules fi"
  have rules: "\<forall>r \<in> set ?rs. rule_ok r"
    using all_rules_ok [OF assms(1)] by blast
  have words: "\<forall>t \<in> set (rule_tokens ?rs). word token_break t \<and> CHR 0x00 \<notin> set t"
    using rule_tokens_words [OF rules] by blast
  have "CHR 0x00 \<notin> set (join '' '' ts)" if "\<forall>t \<in> set ts. CHR 0x00 \<notin> set t" for ts
    using that by (induction "'' ''" ts rule: join.induct) auto
  then have "CHR 0x00 \<notin> set (Serialize fi)"
    unfolding Serialize_join [OF assms(1)] using words by blast
  then have "c_string (Serialize fi) = Serialize fi"
    unfolding c_string_def by (auto simp: takeWhile_eq_all_conv)
  moreover have "strtok_all token_break (Serialize fi) = rule_tokens ?rs"
    unfolding Serialize_join [OF assms(1)]
    by (rule strtok_all_join) (use words in \<open>blast, simp add: token_break_def\<close>)
  ultimately have tokens: "strtok_all token_break (c_string (Serialize fi)) = rule_tokens ?rs"
    by (simp only:)
  have "?rs \<noteq> []"
    using assms(2) by (cases fi) (auto simp: all_rules_def CFIFrameInfo_init_def split: if_splits)
  then obtain n e rs where rs: "?rs = (n, e) # rs" by (cases ?rs) auto
  have ne: "rule_ok (n, e)" "n \<noteq> []" "e \<noteq> []"
    using rules rs by (auto simp: rule_ok_def rule_name_def word_def rule_expression_def)
  have "Parse_tokens (rule_tokens ?rs) [] [] = (True, map rule_event ?rs)"
    using Parse_first_rule [OF ne(1), of "[]" "[]" "[]" rs] Parse_rules [OF _ ne(2,3), of rs] rules rs
    by simp
  then have parse: "Parse (Serialize fi) = (True, map rule_event ?rs)"
    by (simp add: Parse_def tokens)
  have "fold handle (map rule_event (register_rules fi)) fi' =
      fi'\<lparr>register_rules := register_rules fi\<rparr>" if "register_rules fi' = []" for fi'
    using handle_register_rules [of "register_rules fi" fi'] assms(1) that
      fold_map_assign [of "[]" "register_rules fi"] by (auto simp: cfi_wf_def)
  then have "fold handle (map rule_event ?rs) CFIFrameInfo_init = fi"
    by (simp add: all_rules_def rule_event_def SetCFARule_def SetRARule_def CFIFrameInfo_init_def)
  then show ?thesis by (simp add: ParseCFIRuleSet_def parse)
qed

theorem Parse_Serialize_witness:
  "let fi = \<lparr>cfa_rule = ''$esp 4 +'', ra_rule = ''.cfa 4 - ^'',
      register_rules = [(''$ebp'', ''.cfa 8 - ^'')]\<rparr> in
   Serialize fi = ''.cfa: $esp 4 + .ra: .cfa 4 - ^ $ebp: .cfa 8 - ^'' \<and>
   ParseCFIRuleSet (Serialize fi) CFIFrameInfo_init = (True, fi)"
proof -
  let ?fi = "\<lparr>cfa_rule = ''$esp 4 +'', ra_rule = ''.cfa 4 - ^'',
      register_rules = [(''$ebp'', ''.cfa 8 - ^'')]\<rparr>"
  have "cfi_wf ?fi" by code_simp
  moreover have "Serialize ?fi = ''.cfa: $esp 4 + .ra: .cfa 4 - ^ $ebp: .cfa 8 - ^''" by code_simp
  moreover have "?fi \<noteq> CFIFrameInfo_init" by (simp add: CFIFrameInfo_init_def)
  ultimately show ?thesis unfolding Let_def using Parse_Serialize [of ?fi] by blast
qed

section \<open>The caller's registers\<close>

text \<open>The values of register rules given as expressions, where they have a value.\<close>

definition rule_values ::
  "('a::len word \<Rightarrow> 'a word option) \<Rightarrow> 'a word registers \<Rightarrow> (string \<times> 'a word expr) list \<Rightarrow> 'a word registers" where
  "rule_values memory working rs n =
     (case map_of rs n of None \<Rightarrow> None
      | Some e \<Rightarrow> (case expr_value (Some memory) working e of Ok v \<Rightarrow> Some v | _ \<Rightarrow> None))"

definition names_ok :: "'v expr \<Rightarrow> bool" where
  "names_ok e \<longleftrightarrow> (\<forall>x \<in> expr_names e. identifier_name x)"

lemma working_expression:
  "names_ok e \<Longrightarrow> EvaluateForValue mem (expr_text e) (working_evaluator working) =
     (case expr_value mem working e of
        Ok v \<Rightarrow> Ok (v, working_evaluator working)
      | Fail _ \<Rightarrow> Fail (working_evaluator working)
      | Crash \<Rightarrow> Crash)"
proof -
  assume "names_ok e"
  moreover have "(working_evaluator working)\<lparr>assigned := None\<rparr> = working_evaluator working"
    and "stack (working_evaluator working) = []" and "dictionary (working_evaluator working) = working"
    by (simp_all add: working_evaluator_def)
  ultimately show ?thesis
    using EvaluateForValue_text [of e "working_evaluator working" mem] by (simp only: names_ok_def)
qed

lemma find_register_rules_Ok:
  "distinct (map fst rs) \<Longrightarrow> (\<forall>(n, e) \<in> set rs. names_ok e) \<Longrightarrow>
     find_register_rules memory working (map (\<lambda>(n, e). (n, expr_text e)) rs) c0 = Ok c \<longleftrightarrow>
     (\<forall>(n, e) \<in> set rs. \<exists>v. expr_value (Some memory) working e = Ok v) \<and>
     c = c0 ++ rule_values memory working rs"
proof (induction rs arbitrary: c0)
  case Nil
  then show ?case by (auto simp: rule_values_def map_add_def)
next
  case (Cons r rs)
  obtain n e where r: "r = (n, e)" by (cases r)
  have fresh: "map_of rs n = None" using Cons.prems(1) r by (simp add: map_of_eq_None_iff)
  have "c0(n \<mapsto> v) ++ rule_values memory working rs = c0 ++ rule_values memory working (r # rs)"
    if "expr_value (Some memory) working e = Ok v" for v
    using that fresh r by (auto simp: fun_eq_iff rule_values_def map_add_def split: option.split)
  then show ?case
    using Cons working_expression [of e "Some memory" working] r
    by (cases "expr_value (Some memory) working e") auto
qed

lemma expr_tokens_not_Nil [simp]: "expr_tokens e \<noteq> []"
  by (induction e) simp_all

lemma expr_text_not_Nil: "names_ok e \<Longrightarrow> expr_text e \<noteq> []"
  using expr_tokens_words [of e] join_Nil_iff [of "expr_tokens e" "'' ''"]
  by (auto simp: expr_text_def names_ok_def word_def)

lemma FindCallerRegs_iff:
  assumes "cfa_rule fi = expr_text ec" and "ra_rule fi = expr_text er"
    and "register_rules fi = map (\<lambda>(n, e). (n, expr_text e)) rs" and "distinct (map fst rs)"
    and "names_ok ec" and "names_ok er" and "\<forall>(n, e) \<in> set rs. names_ok e"
  shows "FindCallerRegs fi registers memory old = Ok c \<longleftrightarrow>
    (\<exists>cfa ra. expr_value (Some memory) registers ec = Ok cfa \<and>
       expr_value (Some memory) (registers(''.cfa'' \<mapsto> cfa)) er = Ok ra \<and>
       (\<forall>(n, e) \<in> set rs. \<exists>v. expr_value (Some memory) (registers(''.cfa'' \<mapsto> cfa)) e = Ok v) \<and>
       c = (rule_values memory (registers(''.cfa'' \<mapsto> cfa)) rs)(''.ra'' \<mapsto> ra, ''.cfa'' \<mapsto> cfa))"
proof (cases "expr_value (Some memory) registers ec")
  case (Ok cfa)
  let ?w = "registers(''.cfa'' \<mapsto> cfa)"
  have rules: "find_register_rules memory ?w (register_rules fi) Map.empty = Ok d \<longleftrightarrow>
      (\<forall>(n, e) \<in> set rs. \<exists>v. expr_value (Some memory) ?w e = Ok v) \<and> d = rule_values memory ?w rs" for d
    using find_register_rules_Ok [OF assms(4,7), of memory ?w Map.empty d] assms(3) by simp
  show ?thesis
  proof (cases "expr_value (Some memory) ?w er")
    case (Ok ra)
    have "FindCallerRegs fi registers memory old =
        bind_outcome (find_register_rules memory ?w (register_rules fi) Map.empty)
          (\<lambda>caller. Ok (caller(''.ra'' \<mapsto> ra, ''.cfa'' \<mapsto> cfa)))"
      using Ok \<open>expr_value (Some memory) registers ec = Ok cfa\<close> assms(1,2,5,6)
      by (simp add: FindCallerRegs_def working_expression expr_text_not_Nil)
    then have "FindCallerRegs fi registers memory old = Ok c \<longleftrightarrow>
        (\<exists>d. find_register_rules memory ?w (register_rules fi) Map.empty = Ok d \<and>
          c = d(''.ra'' \<mapsto> ra, ''.cfa'' \<mapsto> cfa))"
      by (cases "find_register_rules memory ?w (register_rules fi) Map.empty") auto
    then show ?thesis unfolding rules using Ok \<open>expr_value (Some memory) registers ec = Ok cfa\<close> by auto
  qed (use Ok assms(1,2,5,6) in
    \<open>simp_all add: FindCallerRegs_def working_expression expr_text_not_Nil\<close>)
qed (use assms(1,2,5) in \<open>simp_all add: FindCallerRegs_def working_expression\<close>)

text \<open>C28: Where the rules are expression texts, the caller's registers are found exactly when
  the CFA rule has a value in the callee's registers and all other rules have one with
  \<open>.cfa\<close> added to them, and each register then has the value of its own rule.\<close>

theorem FindCallerRegs_correct:
  assumes "cfa_rule fi = expr_text ec" and "ra_rule fi = expr_text er"
    and "register_rules fi = map (\<lambda>(n, e). (n, expr_text e)) rs" and "distinct (map fst rs)"
    and "names_ok ec" and "names_ok er" and "\<forall>(n, e) \<in> set rs. names_ok e"
  shows "FindCallerRegs fi registers memory old = Ok c \<longleftrightarrow>
    (\<exists>cfa ra. expr_value (Some memory) registers ec = Ok cfa \<and>
       expr_value (Some memory) (registers(''.cfa'' \<mapsto> cfa)) er = Ok ra \<and>
       (\<forall>(n, e) \<in> set rs. \<exists>v. expr_value (Some memory) (registers(''.cfa'' \<mapsto> cfa)) e = Ok v) \<and>
       c = (rule_values memory (registers(''.cfa'' \<mapsto> cfa)) rs)(''.ra'' \<mapsto> ra, ''.cfa'' \<mapsto> cfa))"
  using assms by (rule FindCallerRegs_iff)

theorem FindCallerRegs_correct_witness:
  "FindCallerRegs \<lparr>cfa_rule = expr_text (BinOp BINARY_OP_ADD (Var ''$sp'') (Lit (8 :: 32 word))),
       ra_rule = expr_text (Deref (Var ''.cfa'') :: 32 word expr),
       register_rules = [(''$r4'', expr_text (Var ''$sp'' :: 32 word expr))]\<rparr>
     [''$sp'' \<mapsto> 100] (\<lambda>a. if a = 108 then Some 77 else None) Map.empty =
   Ok [''$r4'' \<mapsto> 100, ''.ra'' \<mapsto> 77, ''.cfa'' \<mapsto> 108 :: 32 word]"
proof -
  let ?ec = "BinOp BINARY_OP_ADD (Var ''$sp'') (Lit (8 :: 32 word))" and ?er = "Deref (Var ''.cfa'')"
  have ok: "names_ok ?ec" "names_ok ?er" "\<forall>(n, e) \<in> set [(''$r4'', Var ''$sp'' :: 32 word expr)]. names_ok e"
    by (simp_all add: names_ok_def identifier_name_def word_def isspace_def is_digit_def digit_value_def)
  show ?thesis
    by (subst FindCallerRegs_correct [OF _ _ _ _ ok])
      (auto simp: expr_value_def resolve_def rule_values_def fun_eq_iff)
qed

section \<open>What the walker recovers\<close>

text \<open>The value the walker finds for one register, if it finds one.\<close>

definition recovered ::
  "'v registers \<Rightarrow> ('m \<Rightarrow> 'v) \<Rightarrow> uint32 \<Rightarrow> 'm register_set \<Rightarrow> 'v option" where
  "recovered caller_registers callee_context callee_validity r =
     (case caller_registers (reg_name r) of
        Some v \<Rightarrow> Some v
      | None \<Rightarrow>
          (case Option.bind (alternate_name r) caller_registers of
             Some v \<Rightarrow> Some v
           | None \<Rightarrow> if callee_saves r \<and> callee_validity AND validity_flag r \<noteq> 0
               then Some (callee_context (context_member r)) else None))"

lemma populate_register_recovered:
  "populate_register caller callee valid r (ctx, flags) =
     (case recovered caller callee valid r of
        None \<Rightarrow> (ctx, flags)
      | Some v \<Rightarrow> (ctx(context_member r := v), flags OR validity_flag r))"
  by (auto simp: populate_register_def recovered_def Let_def split: option.splits)

text \<open>A register map: each register has its own member of the context and its own flag bits.\<close>

definition register_map_ok :: "'m register_set list \<Rightarrow> bool" where
  "register_map_ok rm \<longleftrightarrow> distinct (map context_member rm) \<and>
     (\<forall>r \<in> set rm. validity_flag r \<noteq> 0) \<and>
     sorted_wrt (\<lambda>r s. validity_flag r AND validity_flag s = 0) rm"

lemma and_or_distrib_zero: "(a OR b) AND c = 0 \<longleftrightarrow> a AND c = 0 \<and> b AND (c :: 'a::len word) = 0"
  by (simp only: bit.conj_disj_distrib2 or_eq_0_iff)

lemma populate_registers:
  assumes "register_map_ok rm" and "fold (populate_register caller callee valid) rm (ctx, flags) = (ctx', flags')"
  shows "\<forall>r \<in> set rm. ctx' (context_member r) =
      (case recovered caller callee valid r of None \<Rightarrow> ctx (context_member r) | Some v \<Rightarrow> v)"
    and "\<forall>m. m \<notin> context_member ` set rm \<longrightarrow> ctx' m = ctx m"
    and "\<forall>g. flags' AND g = 0 \<longleftrightarrow> flags AND g = 0 \<and>
      (\<forall>r \<in> set rm. recovered caller callee valid r \<noteq> None \<longrightarrow> validity_flag r AND g = 0)"
proof -
  have "(\<forall>r \<in> set rm. ctx' (context_member r) =
      (case recovered caller callee valid r of None \<Rightarrow> ctx (context_member r) | Some v \<Rightarrow> v)) \<and>
    (\<forall>m. m \<notin> context_member ` set rm \<longrightarrow> ctx' m = ctx m) \<and>
    (\<forall>g. flags' AND g = 0 \<longleftrightarrow> flags AND g = 0 \<and>
      (\<forall>r \<in> set rm. recovered caller callee valid r \<noteq> None \<longrightarrow> validity_flag r AND g = 0))"
    using assms
  proof (induction rm arbitrary: ctx flags)
    case (Cons r rm)
    have ok: "register_map_ok rm" and fresh: "context_member r \<notin> context_member ` set rm"
      using Cons.prems(1) by (auto simp: register_map_ok_def)
    show ?case
    proof (cases "recovered caller callee valid r")
      case None
      then show ?thesis
        using Cons.IH [OF ok, of ctx flags] Cons.prems(2) fresh by (simp add: populate_register_recovered)
    next
      case (Some v)
      have apart: "context_member s \<noteq> context_member r" if "s \<in> set rm" for s using fresh that by (metis imageI)
      have st: "fold (populate_register caller callee valid) rm
          (ctx(context_member r := v), flags OR validity_flag r) = (ctx', flags')"
        using Cons.prems(2) Some by (simp add: populate_register_recovered)
      note IH = Cons.IH [OF ok st]
      have "ctx' (context_member r) = v" using IH fresh by auto
      then show ?thesis
        using IH Some apart by (auto simp: and_or_distrib_zero split: option.split)
    qed
  qed simp
  then show "\<forall>r \<in> set rm. ctx' (context_member r) =
      (case recovered caller callee valid r of None \<Rightarrow> ctx (context_member r) | Some v \<Rightarrow> v)"
    and "\<forall>m. m \<notin> context_member ` set rm \<longrightarrow> ctx' m = ctx m"
    and "\<forall>g. flags' AND g = 0 \<longleftrightarrow> flags AND g = 0 \<and>
      (\<forall>r \<in> set rm. recovered caller callee valid r \<noteq> None \<longrightarrow> validity_flag r AND g = 0)"
    by blast+
qed

lemma flag_apart:
  "sorted_wrt (\<lambda>r s. validity_flag r AND validity_flag s = (0 :: uint32)) rm \<Longrightarrow>
     r \<in> set rm \<Longrightarrow> s \<in> set rm \<Longrightarrow> r \<noteq> s \<Longrightarrow> validity_flag r AND validity_flag s = 0"
  by (induction rm) (auto simp: and.commute)

text \<open>C29: The walker marks a register of the caller valid exactly when the rules give a value
  under its name or its alternate name, or it is callee-saved and was valid in the callee; a
  valid register has that value, every other member keeps the fill pattern.\<close>

theorem FindCallerRegisters_correct:
  assumes "register_map_ok rm"
    and "FindCallerRegisters rm memory fi callee valid = Ok (ctx, flags)"
  shows "\<exists>caller. FindCallerRegs fi (callee_registers rm callee valid) memory Map.empty = Ok caller \<and>
    (\<forall>r \<in> set rm.
       (flags AND validity_flag r \<noteq> 0 \<longleftrightarrow> recovered caller callee valid r \<noteq> None) \<and>
       ctx (context_member r) =
         (case recovered caller callee valid r of None \<Rightarrow> da_fill | Some v \<Rightarrow> v))"
proof -
  obtain caller where c: "FindCallerRegs fi (callee_registers rm callee valid) memory Map.empty = Ok caller"
    and st: "fold (populate_register caller callee valid) rm (\<lambda>m. da_fill, 0) = (ctx, flags)"
    using assms(2) by (auto simp: FindCallerRegisters_def split: outcome.splits)
  note pop = populate_registers [OF assms(1) st]
  have "flags AND validity_flag r \<noteq> 0 \<longleftrightarrow> recovered caller callee valid r \<noteq> None" if r: "r \<in> set rm" for r
  proof -
    have "validity_flag s AND validity_flag r = 0" if "s \<in> set rm" "s \<noteq> r" for s
      using flag_apart [of rm s r] assms(1) that r by (simp add: register_map_ok_def)
    moreover have "validity_flag r AND validity_flag r \<noteq> 0"
      using assms(1) r by (simp add: register_map_ok_def)
    ultimately show ?thesis using spec [OF pop(3), of "validity_flag r"] r by (metis and_zero_eq and.commute)
  qed
  with c pop(1) show ?thesis by blast
qed

definition example_register_map :: "nat register_set list" where
  "example_register_map =
     [\<lparr>reg_name = ''$eip'', alternate_name = Some ''.ra'', callee_saves = False, validity_flag = 1, context_member = 0\<rparr>,
      \<lparr>reg_name = ''$ebx'', alternate_name = None, callee_saves = True, validity_flag = 2, context_member = 1\<rparr>]"

theorem FindCallerRegisters_correct_witness:
  "\<exists>ctx flags. FindCallerRegisters example_register_map (\<lambda>a. Some (a + 1))
      \<lparr>cfa_rule = expr_text (Lit (8 :: uint32)), ra_rule = expr_text (Deref (Var ''.cfa'') :: uint32 expr),
        register_rules = []\<rparr> (\<lambda>m. of_nat m + 5 :: uint32) 2 = Ok (ctx, flags) \<and>
    flags AND 1 \<noteq> 0 \<and> flags AND 2 \<noteq> 0 \<and> ctx 0 = 9 \<and> ctx 1 = 6"
proof -
  let ?fi = "\<lparr>cfa_rule = expr_text (Lit (8 :: uint32)), ra_rule = expr_text (Deref (Var ''.cfa'') :: uint32 expr),
        register_rules = []\<rparr>"
  let ?mem = "\<lambda>a :: uint32. Some (a + 1)" and ?callee = "\<lambda>m. of_nat m + 5 :: uint32"
  let ?regs = "callee_registers example_register_map ?callee 2"
  let ?caller = "[''.ra'' \<mapsto> 9, ''.cfa'' \<mapsto> 8] :: uint32 registers"
  have rm: "register_map_ok example_register_map"
    by (simp add: register_map_ok_def example_register_map_def)
  have ok: "names_ok (Lit (8 :: uint32))" "names_ok (Deref (Var ''.cfa'') :: uint32 expr)"
    by (simp_all add: names_ok_def identifier_name_def word_def isspace_def is_digit_def digit_value_def)
  have c: "FindCallerRegs ?fi ?regs ?mem Map.empty = Ok ?caller"
    by (subst FindCallerRegs_iff [where rs = "[]", OF _ _ _ _ ok])
      (auto simp: expr_value_def resolve_def rule_values_def fun_eq_iff)
  obtain ctx flags where run: "FindCallerRegisters example_register_map ?mem ?fi ?callee 2 = Ok (ctx, flags)"
    by (cases "fold (populate_register ?caller ?callee 2) example_register_map (\<lambda>m. da_fill, 0)")
      (simp add: FindCallerRegisters_def c)
  from FindCallerRegisters_correct [OF rm run] c
  have "\<forall>r \<in> set example_register_map. (flags AND validity_flag r \<noteq> 0 \<longleftrightarrow> recovered ?caller ?callee 2 r \<noteq> None) \<and>
       ctx (context_member r) = (case recovered ?caller ?callee 2 r of None \<Rightarrow> da_fill | Some v \<Rightarrow> v)"
    by simp
  then show ?thesis
    using run by (auto simp: example_register_map_def recovered_def)
qed

end
