(* ===== verification/Symbol_Parser.thy ===== *)
theory Symbol_Parser
  imports C_Library
begin

text \<open>
  \<open>Tokenize\<close> of processor/tokenize.cc, \<open>SymbolParseHelper\<close> of
  processor/basic_source_line_resolver.cc and \<open>WindowsFrameInfo\<close> of
  processor/windows_frame_info.h: the parsers for the records of a symbol file. The lemmas say
  that a printed record is read back and which values a parser accepts.
\<close>

section \<open>Splitting a line\<close>

text \<open>\<open>kWhitespace\<close> and the line separators.\<close>

definition kWhitespace :: "char \<Rightarrow> bool" where
  "kWhitespace c \<longleftrightarrow> c \<in> {CHR '' '', CHR 0x0D, CHR 0x0A}"

definition line_break :: "char \<Rightarrow> bool" where
  "line_break c \<longleftrightarrow> c \<in> {CHR 0x0D, CHR 0x0A}"

text \<open>A call of \<open>strtok_r\<close>: the token, None for NULL, and the new value of \<open>save_ptr\<close>.\<close>

definition next_token :: "(char \<Rightarrow> bool) \<Rightarrow> string \<Rightarrow> string option \<times> string" where
  "next_token delim save = (case strtok_r delim save of None \<Rightarrow> (None, []) | Some (t, r) \<Rightarrow> (Some t, r))"

function Tokenize_loop ::
  "(char \<Rightarrow> bool) \<Rightarrow> int \<Rightarrow> string option \<Rightarrow> string \<Rightarrow> string list \<Rightarrow> int \<times> string \<times> string list" where
  "Tokenize_loop separators remaining None save tokens = (remaining, save, tokens)"
| "Tokenize_loop separators remaining (Some token) save tokens =
     (if remaining - 1 > 0 then
        let remaining = remaining - 1; tokens = tokens @ [token] in
        if remaining > 1
        then case next_token separators save of (token, save) \<Rightarrow>
          Tokenize_loop separators remaining token save tokens
        else Tokenize_loop separators remaining (Some token) save tokens
      else (remaining - 1, save, tokens))"
  by pat_completeness auto
termination by (relation "measure (\<lambda>(_, remaining, _, _, _). nat remaining)") auto

declare Tokenize_loop.simps(2) [simp del]

definition Tokenize :: "string \<Rightarrow> (char \<Rightarrow> bool) \<Rightarrow> int \<Rightarrow> bool \<times> string list" where
  "Tokenize line separators max_tokens =
     (case next_token separators line of (token, save) \<Rightarrow>
      case Tokenize_loop separators max_tokens token save [] of (remaining, save, tokens) \<Rightarrow>
        let tokens = (if remaining = 0
          then case next_token line_break save of
              (None, _) \<Rightarrow> tokens
            | (Some token, _) \<Rightarrow> tokens @ [token]
          else tokens)
        in (int (length tokens) = max_tokens, tokens))"

section \<open>The records\<close>

definition IsValidAfterNumber :: "string \<Rightarrow> bool" where
  "IsValidAfterNumber after_number \<longleftrightarrow> after_number = [] \<or> kWhitespace (hd after_number)"

definition SymbolParseHelper_ParseFile :: "string \<Rightarrow> (int \<times> string) option" where
  "SymbolParseHelper_ParseFile file_line =
     (case Tokenize (drop 5 file_line) kWhitespace 2 of
        (False, _) \<Rightarrow> None
      | (True, tokens) \<Rightarrow>
          (case strtol 10 (tokens ! 0) of (index, after_number) \<Rightarrow>
             if \<not> IsValidAfterNumber after_number \<or> index < 0 \<or> index = LONG_MAX then None
             else if tokens ! 1 = [] then None
             else Some (index, tokens ! 1)))"

definition SymbolParseHelper_ParseFunction ::
  "string \<Rightarrow> (uint64 \<times> uint64 \<times> int \<times> string) option" where
  "SymbolParseHelper_ParseFunction function_line =
     (case Tokenize (drop 5 function_line) kWhitespace 4 of
        (False, _) \<Rightarrow> None
      | (True, tokens) \<Rightarrow>
          (case strtoull 16 (tokens ! 0) of (address, after_number) \<Rightarrow>
             if \<not> IsValidAfterNumber after_number \<or> address = - 1 then None
             else
               case strtoull 16 (tokens ! 1) of (sz, after_number) \<Rightarrow>
                 if \<not> IsValidAfterNumber after_number \<or> sz = - 1 then None
                 else
                   case strtol 16 (tokens ! 2) of (stack_param_size, after_number) \<Rightarrow>
                     if \<not> IsValidAfterNumber after_number \<or> stack_param_size = LONG_MAX \<or>
                       stack_param_size < 0 then None
                     else Some (address, sz, stack_param_size, tokens ! 3)))"

definition SymbolParseHelper_ParseLine :: "string \<Rightarrow> (uint64 \<times> uint64 \<times> int \<times> int) option" where
  "SymbolParseHelper_ParseLine line_line =
     (case Tokenize line_line kWhitespace 4 of
        (False, _) \<Rightarrow> None
      | (True, tokens) \<Rightarrow>
          (case strtoull 16 (tokens ! 0) of (address, after_number) \<Rightarrow>
             if \<not> IsValidAfterNumber after_number \<or> address = - 1 then None
             else
               case strtoull 16 (tokens ! 1) of (sz, after_number) \<Rightarrow>
                 if \<not> IsValidAfterNumber after_number \<or> sz = - 1 then None
                 else
                   case strtol 10 (tokens ! 2) of (line_number, after_number) \<Rightarrow>
                     if \<not> IsValidAfterNumber after_number \<or> line_number = LONG_MAX then None
                     else
                       case strtol 10 (tokens ! 3) of (source_file, after_number) \<Rightarrow>
                         if \<not> IsValidAfterNumber after_number \<or> source_file < 0 \<or>
                           source_file = LONG_MAX then None
                         else if line_number < 0 then None
                         else Some (address, sz, line_number, source_file)))"

definition SymbolParseHelper_ParsePublicSymbol :: "string \<Rightarrow> (uint64 \<times> int \<times> string) option" where
  "SymbolParseHelper_ParsePublicSymbol public_line =
     (case Tokenize (drop 7 public_line) kWhitespace 3 of
        (False, _) \<Rightarrow> None
      | (True, tokens) \<Rightarrow>
          (case strtoull 16 (tokens ! 0) of (address, after_number) \<Rightarrow>
             if \<not> IsValidAfterNumber after_number \<or> address = - 1 then None
             else
               case strtol 16 (tokens ! 1) of (stack_param_size, after_number) \<Rightarrow>
                 if \<not> IsValidAfterNumber after_number \<or> stack_param_size = LONG_MAX \<or>
                   stack_param_size < 0 then None
                 else Some (address, stack_param_size, tokens ! 2)))"

section \<open>Windows frame information\<close>

text \<open>\<open>type_\<close> and \<open>valid\<close> are plain ints in the code; the enumerators are the constants below.\<close>

record windows_frame_info =
  wfi_type :: int
  valid :: int
  prolog_size :: uint32
  epilog_size :: uint32
  parameter_size :: uint32
  saved_register_size :: uint32
  local_size :: uint32
  max_stack_size :: uint32
  allocates_base_pointer :: bool
  program_string :: string

definition VALID_NONE :: int where "VALID_NONE = 0"
definition VALID_PARAMETER_SIZE :: int where "VALID_PARAMETER_SIZE = 1"
definition VALID_ALL :: int where "VALID_ALL = - 1"
definition STACK_INFO_FPO :: int where "STACK_INFO_FPO = 0"
definition STACK_INFO_FRAME_DATA :: int where "STACK_INFO_FRAME_DATA = 4"
definition STACK_INFO_LAST :: int where "STACK_INFO_LAST = 5"
definition STACK_INFO_UNKNOWN :: int where "STACK_INFO_UNKNOWN = - 1"

definition WindowsFrameInfo_init :: windows_frame_info where
  "WindowsFrameInfo_init = \<lparr>wfi_type = STACK_INFO_UNKNOWN, valid = VALID_NONE, prolog_size = 0,
     epilog_size = 0, parameter_size = 0, saved_register_size = 0, local_size = 0,
     max_stack_size = 0, allocates_base_pointer = False, program_string = []\<rparr>"

text \<open>Conversion to a 32-bit \<open>int\<close>.\<close>

definition to_int32 :: "int \<Rightarrow> int" where
  "to_int32 x = (x + 2 ^ 31) mod 2 ^ 32 - 2 ^ 31"

definition strtoul_32 :: "string \<Rightarrow> uint32" where
  "strtoul_32 s = ucast (fst (strtoul 16 s))"

text \<open>The parsed object together with the out parameters \<open>type\<close>, \<open>rva\<close> and \<open>code_size\<close>.\<close>

definition ParseFromString ::
  "string \<Rightarrow> (windows_frame_info \<times> int \<times> uint64 \<times> uint64) option" where
  "ParseFromString str =
     (case Tokenize str kWhitespace 11 of
        (False, _) \<Rightarrow> None
      | (True, tokens) \<Rightarrow>
          let type = to_int32 (fst (strtol 16 (tokens ! 0))) in
          if type < 0 \<or> type > STACK_INFO_LAST - 1 then None
          else
            let has_program_string = strtoul_32 (tokens ! 9) \<noteq> 0 in
            Some (\<lparr>wfi_type = type, valid = VALID_ALL,
                   prolog_size = strtoul_32 (tokens ! 3),
                   epilog_size = strtoul_32 (tokens ! 4),
                   parameter_size = strtoul_32 (tokens ! 5),
                   saved_register_size = strtoul_32 (tokens ! 6),
                   local_size = strtoul_32 (tokens ! 7),
                   max_stack_size = strtoul_32 (tokens ! 8),
                   allocates_base_pointer =
                     (if has_program_string then False else strtoul_32 (tokens ! 10) \<noteq> 0),
                   program_string = (if has_program_string then tokens ! 10 else [])\<rparr>,
                 type, fst (strtoull 16 (tokens ! 1)), fst (strtoull 16 (tokens ! 2))))"

definition wfi_CopyFrom :: "windows_frame_info \<Rightarrow> windows_frame_info \<Rightarrow> windows_frame_info" where
  "wfi_CopyFrom that this = this\<lparr>wfi_type := wfi_type that, valid := valid that,
     prolog_size := prolog_size that, epilog_size := epilog_size that,
     parameter_size := parameter_size that, saved_register_size := saved_register_size that,
     local_size := local_size that, max_stack_size := max_stack_size that,
     allocates_base_pointer := allocates_base_pointer that, program_string := program_string that\<rparr>"

definition wfi_Clear :: "windows_frame_info \<Rightarrow> windows_frame_info" where
  "wfi_Clear this = this\<lparr>wfi_type := STACK_INFO_UNKNOWN, valid := VALID_NONE, program_string := []\<rparr>"

section \<open>Tokens of a joined line\<close>

text \<open>The last field of a record runs to the end of the line and may contain blanks.\<close>

definition last_field :: "string \<Rightarrow> bool" where
  "last_field l \<longleftrightarrow> word line_break l"

lemma kWhitespace_blank [simp]: "kWhitespace CHR '' ''"
  by (simp add: kWhitespace_def)

lemma next_token_join:
  "word P w \<Longrightarrow> P c \<Longrightarrow> next_token P (join [c] (w # ws @ [l])) = (Some w, join [c] (ws @ [l]))"
  by (cases "ws @ [l]") (simp_all add: next_token_def strtok_r_word)

lemma Tokenize_loop_join:
  "\<forall>v \<in> set ws. word kWhitespace v \<Longrightarrow>
     Tokenize_loop kWhitespace (int (length ws) + 2) (Some w) (join '' '' (ws @ [l])) acc = (0, l, acc @ w # ws)"
proof (induction ws arbitrary: w acc)
  case Nil
  then show ?case by (simp add: Tokenize_loop.simps(2))
next
  case (Cons v ws)
  then show ?case
    using Cons.IH [of v "acc @ [w]"] next_token_join [of kWhitespace v "CHR '' ''" ws l]
    by (simp add: Tokenize_loop.simps(2) [of _ _ w] Let_def add.commute)
qed

lemma Tokenize_join:
  assumes "\<forall>w \<in> set ws. word kWhitespace w" and "ws \<noteq> []" and "last_field l"
    and "n = int (length ws) + 1"
  shows "Tokenize (join '' '' (ws @ [l])) kWhitespace n = (True, ws @ [l])"
proof -
  obtain w ws' where ws: "ws = w # ws'" using assms(2) by (cases ws) auto
  have "next_token kWhitespace (join '' '' (ws @ [l])) = (Some w, join '' '' (ws' @ [l]))"
    using next_token_join [of kWhitespace w "CHR '' ''" ws' l] assms(1) ws by simp
  moreover have "Tokenize_loop kWhitespace n (Some w) (join '' '' (ws' @ [l])) [] = (0, l, ws)"
    using Tokenize_loop_join [of ws' w l "[]"] assms(1,4) ws by (simp add: add.commute)
  moreover have "next_token line_break l = (Some l, [])"
    using assms(3) by (simp add: next_token_def strtok_r_last last_field_def)
  ultimately show ?thesis using assms(4) by (simp add: Tokenize_def)
qed

lemma digit_not_kWhitespace: "is_digit b c \<Longrightarrow> \<not> kWhitespace c"
  by (auto simp: is_digit_def digit_value_def kWhitespace_def)

lemma print_nat_kWhitespace: "2 \<le> b \<Longrightarrow> b \<le> 36 \<Longrightarrow> word kWhitespace (print_nat b n)"
  using print_nat_digits [of b n] digit_not_kWhitespace by (auto simp: word_def)

lemma kWhitespace_word_last: "word kWhitespace w \<Longrightarrow> last_field w"
  by (auto simp: word_def last_field_def kWhitespace_def line_break_def)

lemma IsValidAfterNumber_Nil [simp]: "IsValidAfterNumber []"
  by (simp add: IsValidAfterNumber_def)

section \<open>Printed records are read back\<close>

definition hex :: "uint64 \<Rightarrow> string" where
  "hex w = print_nat 16 (unat w)"

definition file_record :: "nat \<Rightarrow> string \<Rightarrow> string" where
  "file_record i name = ''FILE '' @ join '' '' [print_nat 10 i, name]"

definition function_record :: "uint64 \<Rightarrow> uint64 \<Rightarrow> nat \<Rightarrow> string \<Rightarrow> string" where
  "function_record address sz p name = ''FUNC '' @ join '' '' [hex address, hex sz, print_nat 16 p, name]"

definition line_record :: "uint64 \<Rightarrow> uint64 \<Rightarrow> nat \<Rightarrow> nat \<Rightarrow> string" where
  "line_record address sz n file = join '' '' [hex address, hex sz, print_nat 10 n, print_nat 10 file]"

definition public_record :: "uint64 \<Rightarrow> nat \<Rightarrow> string \<Rightarrow> string" where
  "public_record address p name = ''PUBLIC '' @ join '' '' [hex address, print_nat 16 p, name]"

lemmas number_words = print_nat_kWhitespace [of 10] print_nat_kWhitespace [of 16]

lemma hex_word: "word kWhitespace (hex w)"
  by (simp add: hex_def print_nat_kWhitespace)

lemma strtoull_hex: "strtoull 16 (hex w) = (w, [])"
  by (simp add: hex_def strtoull_print)

lemma file_record_parses:
  assumes "int i < LONG_MAX" and "last_field name"
  shows "SymbolParseHelper_ParseFile (file_record i name) = Some (int i, name)"
proof -
  have "Tokenize (drop 5 (file_record i name)) kWhitespace 2 = (True, [print_nat 10 i, name])"
    using Tokenize_join [of "[print_nat 10 i]" name 2] assms(2) number_words
    by (simp add: file_record_def)
  then show ?thesis
    using assms strtol_print [of 10 i]
    by (auto simp: SymbolParseHelper_ParseFile_def last_field_def word_def)
qed

lemma function_record_parses:
  assumes "address \<noteq> - 1" and "sz \<noteq> - 1" and "int p < LONG_MAX" and "last_field name"
  shows "SymbolParseHelper_ParseFunction (function_record address sz p name) = Some (address, sz, int p, name)"
proof -
  have "Tokenize (drop 5 (function_record address sz p name)) kWhitespace 4 =
      (True, [hex address, hex sz, print_nat 16 p, name])"
    using Tokenize_join [of "[hex address, hex sz, print_nat 16 p]" name 4] assms(4) number_words hex_word
    by (simp add: function_record_def)
  then show ?thesis
    using assms strtol_print [of 16 p]
    by (simp add: SymbolParseHelper_ParseFunction_def strtoull_hex)
qed

lemma line_record_parses:
  assumes "address \<noteq> - 1" and "sz \<noteq> - 1" and "int n < LONG_MAX" and "int file < LONG_MAX"
  shows "SymbolParseHelper_ParseLine (line_record address sz n file) = Some (address, sz, int n, int file)"
proof -
  have "Tokenize (line_record address sz n file) kWhitespace 4 =
      (True, [hex address, hex sz, print_nat 10 n, print_nat 10 file])"
    using Tokenize_join [of "[hex address, hex sz, print_nat 10 n]" "print_nat 10 file" 4]
      number_words hex_word kWhitespace_word_last
    by (simp add: line_record_def)
  then show ?thesis
    using assms strtol_print [of 10 n] strtol_print [of 10 "file"]
    by (simp add: SymbolParseHelper_ParseLine_def strtoull_hex)
qed

lemma public_record_parses:
  assumes "address \<noteq> - 1" and "int p < LONG_MAX" and "last_field name"
  shows "SymbolParseHelper_ParsePublicSymbol (public_record address p name) = Some (address, int p, name)"
proof -
  have "Tokenize (drop 7 (public_record address p name)) kWhitespace 3 =
      (True, [hex address, print_nat 16 p, name])"
    using Tokenize_join [of "[hex address, print_nat 16 p]" name 3] assms(3) number_words hex_word
    by (simp add: public_record_def)
  then show ?thesis
    using assms strtol_print [of 16 p]
    by (simp add: SymbolParseHelper_ParsePublicSymbol_def strtoull_hex)
qed

text \<open>C30: Every FILE, FUNC, PUBLIC and source line record whose numbers are below the reserved
  maximum and whose name is not empty and has no line break is parsed back to its fields.\<close>

theorem symbol_records_roundtrip:
  assumes "address \<noteq> - 1" and "sz \<noteq> - 1" and "int p < LONG_MAX" and "int n < LONG_MAX"
    and "int i < LONG_MAX" and "last_field name"
  shows "SymbolParseHelper_ParseFile (file_record i name) = Some (int i, name) \<and>
    SymbolParseHelper_ParseFunction (function_record address sz p name) = Some (address, sz, int p, name) \<and>
    SymbolParseHelper_ParsePublicSymbol (public_record address p name) = Some (address, int p, name) \<and>
    SymbolParseHelper_ParseLine (line_record address sz n i) = Some (address, sz, int n, int i)"
  using assms by (simp add: file_record_parses function_record_parses public_record_parses line_record_parses)

theorem symbol_records_roundtrip_witness:
  "SymbolParseHelper_ParseFunction (function_record 4096 32 8 ''operator new(unsigned int)'') =
     Some (4096, 32, 8, ''operator new(unsigned int)'')"
proof -
  have "last_field ''operator new(unsigned int)''" by (simp add: last_field_def word_def line_break_def)
  from symbol_records_roundtrip [OF _ _ _ _ _ this, of 4096 32 8 0 0]
  show ?thesis by (simp add: LONG_MAX_def)
qed

lemma strtol_le_max: "strtol b s = (v, r) \<Longrightarrow> v \<le> LONG_MAX"
  by (auto simp: strtol_def LONG_MAX_def Let_def split: option.splits if_splits)

lemma parse_line_bounds:
  assumes "SymbolParseHelper_ParseLine l = Some (address, sz, n, file_id)"
  shows "address \<noteq> - 1 \<and> sz \<noteq> - 1 \<and> 0 \<le> n \<and> n < LONG_MAX \<and> 0 \<le> file_id \<and> file_id < LONG_MAX"
  using assms unfolding SymbolParseHelper_ParseLine_def
  by (auto split: prod.splits bool.splits if_splits dest!: strtol_le_max)

lemma parse_function_bounds:
  assumes "SymbolParseHelper_ParseFunction l = Some (address, sz, p, name)"
  shows "address \<noteq> - 1 \<and> sz \<noteq> - 1 \<and> 0 \<le> p \<and> p < LONG_MAX"
  using assms unfolding SymbolParseHelper_ParseFunction_def
  by (auto split: prod.splits bool.splits if_splits dest!: strtol_le_max)

text \<open>A line record or function record that is accepted carries no reserved value: the
  addresses and sizes are not the maximum, and the decimal and hexadecimal counts lie
  between 0 and the largest long exclusively.\<close>

theorem symbol_records_bounds:
  "(case SymbolParseHelper_ParseLine l of None \<Rightarrow> True
    | Some (address, sz, n, file_id) \<Rightarrow> address \<noteq> - 1 \<and> sz \<noteq> - 1 \<and> 0 \<le> n \<and> n < LONG_MAX \<and>
        0 \<le> file_id \<and> file_id < LONG_MAX) \<and>
   (case SymbolParseHelper_ParseFunction l of None \<Rightarrow> True
    | Some (address, sz, p, name) \<Rightarrow> address \<noteq> - 1 \<and> sz \<noteq> - 1 \<and> 0 \<le> p \<and> p < LONG_MAX)"
  using parse_line_bounds [of l] parse_function_bounds [of l]
  by (simp split: option.split prod.split)

end
