(* ===== verification/Basic_Resolver.thy ===== *)
theory Basic_Resolver
  imports Range_Map Contained_Range_Map Address_Map CFI_Frame_Info Symbol_Parser
begin

text \<open>
  \<open>BasicSourceLineResolver::Module\<close> of processor/basic_source_line_resolver.cc: loading a symbol
  file into the maps of a module, and answering queries about a code address. Functions are
  shared between \<open>functions_\<close> and \<open>cur_func\<close> through \<open>linked_ptr\<close>, so they live in an explicit
  store and the map holds references to them.
\<close>

section \<open>State\<close>

record sym_line =
  ln_address :: mem_addr
  ln_size :: mem_addr
  source_file_id :: int
  ln_line :: int

record sym_function =
  fn_name :: string
  fn_address :: mem_addr
  fn_size :: mem_addr
  fn_parameter_size :: int
  fn_lines :: "(mem_addr, sym_line) range_map"

record public_symbol =
  ps_name :: string
  ps_address :: mem_addr
  ps_parameter_size :: int

record sym_module =
  store :: "sym_function list"
  files :: "(int, string) std_map"
  functions_map :: "(mem_addr, nat) range_map"
  public_symbols :: "(mem_addr, public_symbol) address_map"
  is_corrupt :: bool
  wfi_maps :: "(mem_addr, windows_frame_info) crm list"
  cfi_initial_rules :: "(mem_addr, string) range_map"
  cfi_delta_rules :: "(mem_addr, string) std_map"

definition Module_init :: sym_module where
  "Module_init = \<lparr>store = [], files = [], functions_map = RangeMap_init,
     public_symbols = AddressMap_init, is_corrupt = False,
     wfi_maps = replicate (nat STACK_INFO_LAST) (crm_init 0 WindowsFrameInfo_init),
     cfi_initial_rules = RangeMap_init, cfi_delta_rules = []\<rparr>"

section \<open>Parsing the records\<close>

definition ParseFile :: "string \<Rightarrow> sym_module \<Rightarrow> bool \<times> sym_module" where
  "ParseFile file_line M =
     (case SymbolParseHelper_ParseFile file_line of
        Some (index, filename) \<Rightarrow> (True, M\<lparr>files := map_insert (to_int32 index) filename (files M)\<rparr>)
      | None \<Rightarrow> (False, M))"

definition ParseFunction :: "string \<Rightarrow> sym_function option" where
  "ParseFunction function_line =
     (case SymbolParseHelper_ParseFunction function_line of
        Some (address, sz, stack_param_size, name) \<Rightarrow>
          Some \<lparr>fn_name = name, fn_address = address, fn_size = sz,
            fn_parameter_size = to_int32 stack_param_size, fn_lines = RangeMap_init\<rparr>
      | None \<Rightarrow> None)"

definition ParseLine :: "string \<Rightarrow> sym_line option" where
  "ParseLine line_line =
     (case SymbolParseHelper_ParseLine line_line of
        Some (address, sz, line_number, source_file) \<Rightarrow>
          Some \<lparr>ln_address = address, ln_size = sz, source_file_id = to_int32 source_file,
            ln_line = to_int32 line_number\<rparr>
      | None \<Rightarrow> None)"

definition ParsePublicSymbol :: "string \<Rightarrow> sym_module \<Rightarrow> bool \<times> sym_module" where
  "ParsePublicSymbol public_line M =
     (case SymbolParseHelper_ParsePublicSymbol public_line of
        Some (address, stack_param_size, name) \<Rightarrow>
          if address = 0 then (True, M)
          else
            (case am_Store (public_symbols M) address
                \<lparr>ps_name = name, ps_address = address, ps_parameter_size = to_int32 stack_param_size\<rparr> of
               (ok, symbols) \<Rightarrow> (ok, M\<lparr>public_symbols := symbols\<rparr>))
      | None \<Rightarrow> (False, M))"

definition ParseCFIFrameInfo :: "string \<Rightarrow> sym_module \<Rightarrow> bool \<times> sym_module" where
  "ParseCFIFrameInfo stack_info_line M =
     (case strtok_r kWhitespace stack_info_line of
        None \<Rightarrow> (False, M)
      | Some (init_or_address, cursor) \<Rightarrow>
          if init_or_address = ''INIT'' then
            (case strtok_r kWhitespace cursor of
               None \<Rightarrow> (False, M)
             | Some (address_field, cursor) \<Rightarrow>
                 (case strtok_r kWhitespace cursor of
                    None \<Rightarrow> (False, M)
                  | Some (size_field, cursor) \<Rightarrow>
                      (case strtok_r line_break cursor of
                         None \<Rightarrow> (False, M)
                       | Some (initial_rules, cursor) \<Rightarrow>
                           (True, M\<lparr>cfi_initial_rules :=
                              snd (StoreRange (cfi_initial_rules M) (fst (strtoul 16 address_field))
                                (fst (strtoul 16 size_field)) initial_rules)\<rparr>))))
          else
            (case strtok_r line_break cursor of
               None \<Rightarrow> (False, M)
             | Some (delta_rules, cursor) \<Rightarrow>
                 (True, M\<lparr>cfi_delta_rules :=
                    map_assign (fst (strtoul 16 init_or_address)) delta_rules (cfi_delta_rules M)\<rparr>)))"

text \<open>
  The line after the platform word is None when the word ends the line: the pointer then
  steps past the terminating NUL, and a WIN or CFI record reads on in the bytes behind it.
\<close>

definition ParseStackInfo :: "string \<Rightarrow> sym_module \<Rightarrow> (sym_module, sym_module) outcome" where
  "ParseStackInfo line M =
     (let stack_info_line = dropWhile (\<lambda>c. c = CHR '' '') (drop 6 line);
          platform = takeWhile (\<lambda>c. \<not> kWhitespace c) stack_info_line;
          stack_info_line = (case dropWhile (\<lambda>c. \<not> kWhitespace c) stack_info_line of
            [] \<Rightarrow> None | _ # rest \<Rightarrow> Some rest) in
      if platform = ''WIN'' then
        (case stack_info_line of
           None \<Rightarrow> Crash
         | Some str \<Rightarrow>
             (case ParseFromString str of
                None \<Rightarrow> Fail M
              | Some (stack_frame_info, type, rva, code_size) \<Rightarrow>
                  Ok (M\<lparr>wfi_maps := (wfi_maps M)[nat type :=
                    snd (crm_StoreRange (wfi_maps M ! nat type) rva code_size stack_frame_info)]\<rparr>)))
      else if platform = ''CFI'' then
        (case stack_info_line of
           None \<Rightarrow> Crash
         | Some str \<Rightarrow>
             (case ParseCFIFrameInfo str M of (ok, M) \<Rightarrow> if ok then Ok M else Fail M))
      else Fail M)"

section \<open>Loading a symbol file\<close>

definition kMaxErrorsBeforeBailing :: nat where
  "kMaxErrorsBeforeBailing = 100"

text \<open>What \<open>LogParseError\<close> does besides logging.\<close>

definition LogParseError :: "nat \<Rightarrow> nat" where
  "LogParseError num_errors = num_errors + 1"

text \<open>The loop's variables: the module, \<open>cur_func\<close> and \<open>num_errors\<close>.\<close>

type_synonym load_state = "sym_module \<times> nat option \<times> nat"

definition process_line :: "string \<Rightarrow> load_state \<Rightarrow> (load_state, load_state) outcome" where
  "process_line buffer state =
     (case state of (M, cur_func, num_errors) \<Rightarrow>
        if take 5 buffer = ''FILE '' then
          (case ParseFile buffer M of (ok, M) \<Rightarrow>
             Ok (M, cur_func, if ok then num_errors else LogParseError num_errors))
        else if take 6 buffer = ''STACK '' then
          (case ParseStackInfo buffer M of
             Ok M \<Rightarrow> Ok (M, cur_func, num_errors)
           | Fail M \<Rightarrow> Ok (M, cur_func, LogParseError num_errors)
           | Crash \<Rightarrow> Crash)
        else if take 5 buffer = ''FUNC '' then
          (case ParseFunction buffer of
             None \<Rightarrow> Ok (M, None, LogParseError num_errors)
           | Some f \<Rightarrow>
               let r = length (store M) in
               Ok (M\<lparr>store := store M @ [f],
                     functions_map := snd (StoreRange (functions_map M) (fn_address f) (fn_size f) r)\<rparr>,
                   Some r, num_errors))
        else if take 7 buffer = ''PUBLIC '' then
          (case ParsePublicSymbol buffer M of (ok, M) \<Rightarrow>
             Ok (M, None, if ok then num_errors else LogParseError num_errors))
        else if take 7 buffer = ''MODULE '' then Ok (M, cur_func, num_errors)
        else if take 5 buffer = ''INFO '' then Ok (M, cur_func, num_errors)
        else
          (case cur_func of
             None \<Rightarrow> Ok (M, cur_func, LogParseError num_errors)
           | Some r \<Rightarrow>
               (case ParseLine buffer of
                  None \<Rightarrow> Ok (M, cur_func, LogParseError num_errors)
                | Some line \<Rightarrow>
                    let f = store M ! r in
                    Ok (M\<lparr>store := (store M)[r := f\<lparr>fn_lines :=
                          snd (StoreRange (fn_lines f) (ln_address line) (ln_size line) line)\<rparr>]\<rparr>,
                        cur_func, num_errors))))"

fun process_lines :: "string list \<Rightarrow> load_state \<Rightarrow> (load_state, load_state) outcome" where
  "process_lines [] state = Ok state"
| "process_lines (buffer # buffers) state =
     bind_outcome (process_line buffer state) (\<lambda>(M, cur_func, num_errors).
       if num_errors > kMaxErrorsBeforeBailing then Ok (M, cur_func, num_errors)
       else process_lines buffers (M, cur_func, num_errors))"

text \<open>
  The buffer is repaired first: its last byte becomes NUL, the NULs at the end are skipped and
  the others become underscores. Lines are what \<open>strtok_r\<close> finds in the rest.
\<close>

definition repair_buffer :: "string \<Rightarrow> string \<times> bool" where
  "repair_buffer memory_buffer =
     (let data = rev (dropWhile (\<lambda>c. c = CHR 0x00) (rev (butlast memory_buffer))) in
      (map (\<lambda>c. if c = CHR 0x00 then CHR ''_'' else c) data, CHR 0x00 \<in> set data))"

definition LoadMapFromMemory :: "string \<Rightarrow> sym_module \<Rightarrow> (sym_module, sym_module) outcome" where
  "LoadMapFromMemory memory_buffer M =
     (if memory_buffer = [] then Ok M
      else
        case repair_buffer memory_buffer of (data, has_null_terminator_in_the_middle) \<Rightarrow>
          case process_lines (strtok_all line_break data)
              (M, None, if has_null_terminator_in_the_middle then LogParseError 0 else 0) of
            Ok (M, _, num_errors) \<Rightarrow> Ok (M\<lparr>is_corrupt := num_errors > 0\<rparr>)
          | Fail (M, _, _) \<Rightarrow> Fail M
          | Crash \<Rightarrow> Crash)"

section \<open>Queries\<close>

text \<open>The fields of a \<open>StackFrame\<close> that the queries read and write; the module of the frame
  contributes its base address.\<close>

record stack_frame =
  instruction :: mem_addr
  module_base :: mem_addr
  function_name :: string
  function_base :: mem_addr
  source_file_name :: string
  source_line :: int
  source_line_base :: mem_addr

definition LookupAddress :: "sym_module \<Rightarrow> stack_frame \<Rightarrow> stack_frame" where
  "LookupAddress M frame =
     (let address = instruction frame - module_base frame;
          nearest = RetrieveNearestRange (functions_map M) address in
      case nearest of
        Some (func, base, _, sz) \<Rightarrow>
          if base \<le> address \<and> address - base < sz then
            let f = store M ! func;
                frame = frame\<lparr>function_name := fn_name f, function_base := module_base frame + base\<rparr> in
            (case RetrieveRange (fn_lines f) address of
               None \<Rightarrow> frame
             | Some (line, line_base, _, _) \<Rightarrow>
                 let it = map_find (files M) (source_file_id line);
                     frame = (if it \<noteq> length (files M)
                       then frame\<lparr>source_file_name := snd (files M ! it)\<rparr> else frame) in
                 frame\<lparr>source_line := ln_line line, source_line_base := module_base frame + line_base\<rparr>)
          else
            (case am_Retrieve (public_symbols M) address of
               None \<Rightarrow> frame
             | Some (symbol, public_address) \<Rightarrow>
                 if public_address > base
                 then frame\<lparr>function_name := ps_name symbol, function_base := module_base frame + public_address\<rparr>
                 else frame)
      | None \<Rightarrow>
          (case am_Retrieve (public_symbols M) address of
             None \<Rightarrow> frame
           | Some (symbol, public_address) \<Rightarrow>
               frame\<lparr>function_name := ps_name symbol, function_base := module_base frame + public_address\<rparr>))"

text \<open>
  The code stores the parameter size of a public symbol in an object that it then discards;
  the answer is NULL there.
\<close>

definition FindWindowsFrameInfo :: "sym_module \<Rightarrow> stack_frame \<Rightarrow> windows_frame_info option" where
  "FindWindowsFrameInfo M frame =
     (let address = instruction frame - module_base frame;
          result = WindowsFrameInfo_init in
      case crm_RetrieveRange (wfi_maps M ! nat STACK_INFO_FRAME_DATA) address of
        Some frame_info \<Rightarrow> Some (wfi_CopyFrom frame_info result)
      | None \<Rightarrow>
          (case crm_RetrieveRange (wfi_maps M ! nat STACK_INFO_FPO) address of
             Some frame_info \<Rightarrow> Some (wfi_CopyFrom frame_info result)
           | None \<Rightarrow>
               (case RetrieveNearestRange (functions_map M) address of
                  Some (func, base, _, sz) \<Rightarrow>
                    if base \<le> address \<and> address - base < sz
                    then Some (result\<lparr>parameter_size := word_of_int (fn_parameter_size (store M ! func)),
                      valid := valid result OR VALID_PARAMETER_SIZE\<rparr>)
                    else None
                | None \<Rightarrow> None)))"

text \<open>Delta rules whose text is not well formed are applied as far as they were parsed.\<close>

fun apply_delta_rules :: "(mem_addr, string) std_map \<Rightarrow> mem_addr \<Rightarrow> cfi_frame_info \<Rightarrow> cfi_frame_info" where
  "apply_delta_rules [] address rules = rules"
| "apply_delta_rules ((delta, rule_set) # deltas) address rules =
     (if delta \<le> address
      then apply_delta_rules deltas address (snd (ParseCFIRuleSet rule_set rules))
      else rules)"

definition FindCFIFrameInfo :: "sym_module \<Rightarrow> stack_frame \<Rightarrow> cfi_frame_info option" where
  "FindCFIFrameInfo M frame =
     (let address = instruction frame - module_base frame in
      case RetrieveRange (cfi_initial_rules M) address of
        None \<Rightarrow> None
      | Some (initial_rules, initial_base, _, initial_size) \<Rightarrow>
          (case ParseCFIRuleSet initial_rules CFIFrameInfo_init of
             (False, _) \<Rightarrow> None
           | (True, rules) \<Rightarrow>
               Some (apply_delta_rules
                 (drop (lower_bound (cfi_delta_rules M) initial_base) (cfi_delta_rules M)) address rules)))"

section \<open>The module invariant\<close>

text \<open>A map without shrinking; no range spans the whole address space, its size would be 0.\<close>

definition strict_map :: "('a::len word, 'e) range_map \<Rightarrow> bool" where
  "strict_map rm \<longleftrightarrow> rm_wf rm \<and> \<not> enable_shrink_down rm \<and>
     (\<forall>(h, r) \<in> set (rm_map rm). h - rng_base r + 1 \<noteq> 0)"

lemma strict_map_init: "strict_map RangeMap_init"
  by (simp add: strict_map_def RangeMap_init_def rm_wf_def)

lemma strict_map_store:
  assumes "strict_map rm"
  shows "strict_map (snd (StoreRange rm base sz entry))"
    and "set (rm_map (snd (StoreRange rm base sz entry))) \<subseteq>
      insert (base + (sz - 1), \<lparr>rng_base = base, rng_delta = 0, rng_entry = entry\<rparr>) (set (rm_map rm))"
proof -
  obtain ok rm' where st: "StoreRange rm base sz entry = (ok, rm')"
    by (cases "StoreRange rm base sz entry")
  have "strict_map rm' \<and> set (rm_map rm') \<subseteq>
      insert (base + (sz - 1), \<lparr>rng_base = base, rng_delta = 0, rng_entry = entry\<rparr>) (set (rm_map rm))"
    using StoreRange_strict_cases [OF _ _ st] assms by (auto simp: strict_map_def good_span_def)
  then show "strict_map (snd (StoreRange rm base sz entry))"
    and "set (rm_map (snd (StoreRange rm base sz entry))) \<subseteq>
      insert (base + (sz - 1), \<lparr>rng_base = base, rng_delta = 0, rng_entry = entry\<rparr>) (set (rm_map rm))"
    by (simp_all add: st)
qed

text \<open>
  Each stored function range is the range of the function it refers to, and every component
  map keeps its own invariant.
\<close>

definition function_ranges_ok :: "sym_module \<Rightarrow> bool" where
  "function_ranges_ok M \<longleftrightarrow> (\<forall>(h, r) \<in> set (rm_map (functions_map M)).
     rng_entry r < length (store M) \<and> rng_base r = fn_address (store M ! rng_entry r) \<and>
     h = fn_address (store M ! rng_entry r) + (fn_size (store M ! rng_entry r) - 1))"

definition module_wf :: "sym_module \<Rightarrow> bool" where
  "module_wf M \<longleftrightarrow> strict_map (functions_map M) \<and> function_ranges_ok M \<and>
     (\<forall>f \<in> set (store M). strict_map (fn_lines f)) \<and> keys_sorted (files M) \<and>
     am_wf (public_symbols M) \<and> length (wfi_maps M) = nat STACK_INFO_LAST \<and>
     (\<forall>n \<in> set (wfi_maps M). crm_wf n) \<and> strict_map (cfi_initial_rules M) \<and>
     keys_sorted (cfi_delta_rules M)"

lemma module_wf_init: "module_wf Module_init"
  by (auto simp: module_wf_def Module_init_def function_ranges_ok_def RangeMap_init_def
      am_wf_def AddressMap_init_def crm_init_def strict_map_init [unfolded RangeMap_init_def])

lemma ParseFile_wf: "module_wf M \<Longrightarrow> module_wf (snd (ParseFile l M))"
  by (auto simp: ParseFile_def module_wf_def function_ranges_ok_def intro: wf_intros split: option.splits)

lemma ParsePublicSymbol_wf: "module_wf M \<Longrightarrow> module_wf (snd (ParsePublicSymbol l M))"
  using am_Store_iff [of "public_symbols M"]
  by (fastforce simp: ParsePublicSymbol_def module_wf_def function_ranges_ok_def split: option.splits prod.splits)

lemma ParseCFIFrameInfo_wf: "module_wf M \<Longrightarrow> module_wf (snd (ParseCFIFrameInfo l M))"
  by (auto simp: ParseCFIFrameInfo_def module_wf_def function_ranges_ok_def
      intro: wf_intros strict_map_store(1) split: option.splits)

lemma crm_StoreRange_wf: "crm_wf n \<Longrightarrow> crm_wf (snd (crm_StoreRange n base sz e))"
  using crm_StoreRange_spec [where n = n and base = base and sz = sz and entry = e]
  by (cases "crm_StoreRange n base sz e") simp

lemma ParseFromString_type: "ParseFromString s = Some (w, t, a, c) \<Longrightarrow> 0 \<le> t \<and> t < STACK_INFO_LAST"
  by (auto simp: ParseFromString_def Let_def split: prod.splits bool.splits if_splits)

lemma ParseStackInfo_wf:
  assumes "module_wf M" and "ParseStackInfo l M = Ok M' \<or> ParseStackInfo l M = Fail M'"
  shows "module_wf M'"
proof -
  have win: "module_wf (M\<lparr>wfi_maps := (wfi_maps M)[nat t := snd (crm_StoreRange (wfi_maps M ! nat t) rva sz w)]\<rparr>)"
    if "ParseFromString s = Some (w, t, rva, sz)" for s w t rva sz
  proof -
    have "nat t < length (wfi_maps M)"
      using ParseFromString_type [OF that] assms(1) by (simp add: module_wf_def STACK_INFO_LAST_def nat_less_iff)
    then have "crm_wf (snd (crm_StoreRange (wfi_maps M ! nat t) rva sz w))"
      using assms(1) by (intro crm_StoreRange_wf) (simp add: module_wf_def)
    then show ?thesis
      using assms(1) by (auto simp: module_wf_def function_ranges_ok_def dest!: subsetD [OF set_update_subset_insert])
  qed
  have cfi: "module_wf M'" if "ParseCFIFrameInfo s M = (ok, M')" for s ok M'
    using ParseCFIFrameInfo_wf [OF assms(1), of s] that by simp
  show ?thesis
    using assms(2,1) win cfi unfolding ParseStackInfo_def Let_def
    by (auto split: if_splits option.splits prod.splits list.splits)
qed

lemma function_ranges_ok_add:
  assumes wf: "module_wf M" and lines: "strict_map (fn_lines f)"
  shows "module_wf (M\<lparr>store := store M @ [f], functions_map :=
      snd (StoreRange (functions_map M) (fn_address f) (fn_size f) (length (store M)))\<rparr>)"
    (is "module_wf ?M")
proof -
  have "strict_map (functions_map M)" using wf by (simp add: module_wf_def)
  note st = strict_map_store [OF this, of "fn_address f" "fn_size f" "length (store M)"]
  have "function_ranges_ok ?M"
    using st(2) wf by (fastforce simp: function_ranges_ok_def module_wf_def nth_append)
  then show ?thesis using wf st(1) lines by (auto simp: module_wf_def)
qed

lemma line_added_wf:
  assumes "module_wf M" and "r < length (store M)"
  shows "module_wf (M\<lparr>store := (store M)[r := (store M ! r)\<lparr>fn_lines :=
      snd (StoreRange (fn_lines (store M ! r)) a sz line)\<rparr>]\<rparr>)"
proof -
  have "strict_map (snd (StoreRange (fn_lines (store M ! r)) a sz line))"
    using assms by (intro strict_map_store(1)) (simp add: module_wf_def)
  moreover have "fn_address ((store M)[r := (store M ! r)\<lparr>fn_lines := ls\<rparr>] ! i) = fn_address (store M ! i)"
    "fn_size ((store M)[r := (store M ! r)\<lparr>fn_lines := ls\<rparr>] ! i) = fn_size (store M ! i)" for i ls
    using assms(2) by (cases "i = r"; simp)+
  ultimately show ?thesis
    using assms by (auto simp: module_wf_def function_ranges_ok_def dest!: subsetD [OF set_update_subset_insert])
qed

definition state_wf :: "load_state \<Rightarrow> bool" where
  "state_wf st \<longleftrightarrow> (case st of (M, cur, n) \<Rightarrow> module_wf M \<and>
     (case cur of None \<Rightarrow> True | Some r \<Rightarrow> r < length (store M)))"

lemma store_unchanged:
  "store (snd (ParseFile l M)) = store M" "store (snd (ParsePublicSymbol l M)) = store M"
  by (auto simp: ParseFile_def ParsePublicSymbol_def split: option.splits prod.splits)

lemma store_ParseStackInfo:
  "ParseStackInfo l M = Ok M' \<or> ParseStackInfo l M = Fail M' \<Longrightarrow> store M' = store M"
  by (auto simp: ParseStackInfo_def ParseCFIFrameInfo_def Let_def split: if_splits option.splits prod.splits list.splits)

lemma process_line_wf:
  assumes "state_wf st" and "process_line l st = Ok st'"
  shows "state_wf st'"
proof -
  obtain M cur n where st: "st = (M, cur, n)" by (cases st)
  have wf: "module_wf M" using assms(1) st by (simp add: state_wf_def)
  consider "take 5 l = ''FILE ''" | "take 5 l \<noteq> ''FILE ''" "take 6 l = ''STACK ''"
    | "take 5 l \<noteq> ''FILE ''" "take 6 l \<noteq> ''STACK ''" "take 5 l = ''FUNC ''"
    | "take 5 l \<noteq> ''FILE ''" "take 6 l \<noteq> ''STACK ''" "take 5 l \<noteq> ''FUNC ''" "take 7 l = ''PUBLIC ''"
    | "take 5 l \<noteq> ''FILE ''" "take 6 l \<noteq> ''STACK ''" "take 5 l \<noteq> ''FUNC ''" "take 7 l \<noteq> ''PUBLIC ''"
    by blast
  then show ?thesis
  proof cases
    case 1
    obtain ok M1 where p: "ParseFile l M = (ok, M1)" by (cases "ParseFile l M")
    then have "module_wf M1" "store M1 = store M"
      using ParseFile_wf [OF wf, of l] store_unchanged(1) [of l M] by simp_all
    moreover have "st' = (M1, cur, if ok then n else LogParseError n)"
      using assms(2) 1 p by (simp add: process_line_def st)
    ultimately show ?thesis using assms(1) by (cases cur) (simp_all add: state_wf_def st)
  next
    case 2
    then obtain M1 n1 where p: "ParseStackInfo l M = Ok M1 \<or> ParseStackInfo l M = Fail M1"
      and st': "st' = (M1, cur, n1)"
      using assms(2) by (cases "ParseStackInfo l M") (auto simp: process_line_def st)
    then show ?thesis
      using assms(1) ParseStackInfo_wf [OF wf p] store_ParseStackInfo [OF p]
      by (cases cur) (simp_all add: state_wf_def st)
  next
    case 3
    have "strict_map (fn_lines f)" if "ParseFunction l = Some f" for f
      using that strict_map_init by (auto simp: ParseFunction_def split: option.splits)
    with 3 show ?thesis
      using assms st wf function_ranges_ok_add [OF wf]
      by (auto simp: process_line_def state_wf_def Let_def split: option.splits)
  next
    case 4
    then show ?thesis
      using assms st ParsePublicSymbol_wf [OF wf, of l] store_unchanged(2) [of l M]
      by (auto simp: process_line_def state_wf_def split: prod.splits)
  next
    case 5
    then show ?thesis
      using assms st wf line_added_wf [OF wf]
      by (auto simp: process_line_def state_wf_def Let_def split: option.splits if_splits)
  qed
qed

lemma process_lines_wf: "state_wf st \<Longrightarrow> process_lines ls st = Ok st' \<Longrightarrow> state_wf st'"
proof (induction ls arbitrary: st)
  case (Cons l ls)
  then show ?case
    using process_line_wf [OF Cons.prems(1), of l]
    by (cases "process_line l st") (auto split: if_splits)
qed simp

lemma load_wf:
  "case LoadMapFromMemory buffer Module_init of Ok M \<Rightarrow> module_wf M | Fail M \<Rightarrow> False | Crash \<Rightarrow> True"
proof -
  have fin: "process_lines ls st = Fail st' \<Longrightarrow> False" for ls st st'
  proof (induction ls arbitrary: st)
    case (Cons l ls)
    obtain M cur n where st: "st = (M, cur, n)" by (cases st)
    have np: "process_line l st \<noteq> Fail s" for s
      by (auto simp: st process_line_def Let_def split: if_splits outcome.splits option.splits prod.splits)
    show ?case
    proof (cases "process_line l st")
      case (Fail s)
      then show ?thesis using np by simp
    qed (use Cons in \<open>auto split: if_splits\<close>)
  qed simp
  have start: "state_wf (Module_init, None, n)" for n by (simp add: state_wf_def module_wf_init)
  have cor: "module_wf (M\<lparr>is_corrupt := b\<rparr>)" if "module_wf M" for M b
    using that by (simp add: module_wf_def function_ranges_ok_def)
  show ?thesis
  proof (cases "buffer = []")
    case False
    obtain data bad where data: "repair_buffer buffer = (data, bad)" by (cases "repair_buffer buffer")
    let ?n = "if bad then LogParseError 0 else 0"
    show ?thesis
    proof (cases "process_lines (strtok_all line_break data) (Module_init, None, ?n)")
      case (Ok st')
      obtain M cur n where st': "st' = (M, cur, n)" by (cases st')
      have "module_wf M" using process_lines_wf [OF start Ok] st' by (simp add: state_wf_def)
      then show ?thesis using False data Ok st' cor by (simp add: LoadMapFromMemory_def)
    next
      case (Fail s)
      then show ?thesis using fin by blast
    qed (use False data in \<open>simp add: LoadMapFromMemory_def\<close>)
  qed (simp add: LoadMapFromMemory_def module_wf_init)
qed

text \<open>C31: Whatever the bytes of a symbol file, a module loaded from it satisfies the invariant:
  functions and lines are disjoint ranges in order, every function range is the one its
  record gave, public symbols and CFI rules are sorted, Windows frame information is nested.\<close>

theorem LoadMapFromMemory_wf:
  "case LoadMapFromMemory buffer Module_init of Ok M \<Rightarrow> module_wf M | Fail M \<Rightarrow> False | Crash \<Rightarrow> True"
  by (rule load_wf)

section \<open>Looking up an address\<close>

definition frame_address :: "stack_frame \<Rightarrow> mem_addr" where
  "frame_address frame = instruction frame - module_base frame"

lemma covered_size:
  assumes "rm_wf rm" and "rm_lookup rm a = Some (h, r)"
  shows "rng_base r \<le> a" and "a \<le> h" and "h - rng_base r + 1 = 0 \<or> a - rng_base r < h - rng_base r + 1"
proof -
  have c: "rng_base r \<le> a \<and> a \<le> h" using assms by (simp add: rm_lookup_iff covers_def)
  then show "rng_base r \<le> a" and "a \<le> h" by simp_all
  show "h - rng_base r + 1 = 0 \<or> a - rng_base r < h - rng_base r + 1"
    using c by uint_arith
qed

text \<open>What a line range adds to a frame.\<close>

definition add_line :: "sym_module \<Rightarrow> (mem_addr \<times> (mem_addr, sym_line) rm_range) option \<Rightarrow> stack_frame \<Rightarrow> stack_frame" where
  "add_line M found frame = (case found of None \<Rightarrow> frame
     | Some (h, r) \<Rightarrow> frame\<lparr>
         source_file_name := (case map_of (files M) (source_file_id (rng_entry r)) of
            None \<Rightarrow> source_file_name frame | Some n \<Rightarrow> n),
         source_line := ln_line (rng_entry r),
         source_line_base := module_base frame + rng_base r\<rparr>)"

lemma LookupAddress_in_function:
  assumes wf: "module_wf M" and hit: "rm_lookup (functions_map M) (frame_address frame) = Some (h, r)"
  shows "LookupAddress M frame =
    add_line M (rm_lookup (fn_lines (store M ! rng_entry r)) (frame_address frame))
      (frame\<lparr>function_name := fn_name (store M ! rng_entry r),
             function_base := module_base frame + rng_base r\<rparr>)"
proof -
  let ?a = "frame_address frame" and ?f = "store M ! rng_entry r"
  have rw: "rm_wf (functions_map M)" and ks: "keys_sorted (files M)"
    using wf by (simp_all add: module_wf_def strict_map_def)
  have near: "RetrieveNearestRange (functions_map M) ?a = Some (range_result (h, r))"
    by (simp add: RetrieveNearestRange_def RetrieveRange_eq_lookup [OF rw] hit)
  have hr: "(h, r) \<in> set (rm_map (functions_map M))" using hit by (simp add: rm_lookup_iff [OF rw])
  then have proper: "h - rng_base r + 1 \<noteq> 0" using wf by (auto simp: module_wf_def strict_map_def)
  from hr have "?f \<in> set (store M)" using wf by (auto simp: module_wf_def function_ranges_ok_def)
  then have "rm_wf (fn_lines ?f)" using wf by (auto simp: module_wf_def strict_map_def)
  note line = RetrieveRange_eq_lookup [OF this, of ?a]
  have c: "rng_base r \<le> ?a" "?a - rng_base r < h - rng_base r + 1"
    using covered_size [OF rw hit] proper by auto
  show ?thesis
    using near c line map_find_map_of [OF ks]
    by (cases "rm_lookup (fn_lines ?f) ?a")
      (auto simp: LookupAddress_def frame_address_def Let_def range_result_def add_line_def)
qed

text \<open>Which public symbol names an address that no function covers: the nearest one at or below
  it, unless a function range ends between the two or starts at or above the symbol.\<close>

definition nearest_public :: "sym_module \<Rightarrow> mem_addr \<Rightarrow> mem_addr \<Rightarrow> public_symbol \<Rightarrow> bool" where
  "nearest_public M a k s \<longleftrightarrow> am_lookup (public_symbols M) k = Some s \<and> k \<le> a \<and>
     (\<forall>k' \<in> dom (am_lookup (public_symbols M)). k' \<le> a \<longrightarrow> k' \<le> k) \<and>
     (\<forall>e \<in> set (rm_map (functions_map M)). fst e < a \<longrightarrow> rng_base (snd e) < k)"

lemma last_filter_base:
  assumes "ranges_wf m" and "\<exists>e \<in> set m. fst e < a"
  shows "last (filter (\<lambda>e. fst e < a) m) \<in> set m \<and> fst (last (filter (\<lambda>e. fst e < a) m)) < a \<and>
    (\<forall>e \<in> set m. fst e < a \<longrightarrow> rng_base (snd e) \<le> rng_base (snd (last (filter (\<lambda>e. fst e < a) m))))"
  using assms
proof (induction m)
  case (Cons e m)
  have wf: "ranges_wf m" "rng_base (snd e) \<le> fst e" "\<forall>f \<in> set m. fst e < rng_base (snd f)"
    using Cons.prems(1) by (auto simp: ranges_wf_Cons)
  show ?case
  proof (cases "\<exists>e \<in> set m. fst e < a")
    case True
    let ?l = "last (filter (\<lambda>e. fst e < a) m)"
    have ne: "filter (\<lambda>e. fst e < a) m \<noteq> []" using True by (simp add: filter_empty_conv)
    have "last (filter (\<lambda>e. fst e < a) (e # m)) = ?l" using ne by simp
    moreover have "rng_base (snd e) \<le> rng_base (snd ?l)"
      using Cons.IH [OF wf(1) True] wf(2,3) by fastforce
    ultimately show ?thesis using Cons.IH [OF wf(1) True] by auto
  next
    case False
    then have "filter (\<lambda>e. fst e < a) m = []" by (simp add: filter_empty_conv)
    then show ?thesis using Cons.prems(2) False by auto
  qed
qed simp

lemma miss_not_in_range:
  assumes "ranges_wf m" and "e \<in> set m" and "fst e < (a :: mem_addr)"
  shows "\<not> (a - rng_base (snd e) < fst e - rng_base (snd e) + 1)"
proof -
  have "rng_base (snd e) \<le> fst e" using assms(1,2) by (rule ranges_wf_base_le)
  then show ?thesis using assms(3) by uint_arith
qed

lemma LookupAddress_no_function:
  assumes wf: "module_wf M" and miss: "rm_lookup (functions_map M) (frame_address frame) = None"
  shows "(\<forall>k s. nearest_public M (frame_address frame) k s \<longrightarrow>
      LookupAddress M frame = frame\<lparr>function_name := ps_name s, function_base := module_base frame + k\<rparr>) \<and>
    ((\<nexists>k s. nearest_public M (frame_address frame) k s) \<longrightarrow> LookupAddress M frame = frame)"
proof -
  let ?a = "frame_address frame" and ?m = "rm_map (functions_map M)"
  have rw: "rm_wf (functions_map M)" and am: "am_wf (public_symbols M)" and mw: "ranges_wf ?m"
    using wf by (simp_all add: module_wf_def strict_map_def rm_wf_def)
  define l where "l = last (filter (\<lambda>e. fst e < ?a) ?m)"
  have near: "RetrieveNearestRange (functions_map M) ?a =
      (if \<exists>e \<in> set ?m. fst e < ?a then Some (range_result l) else None)"
    using RetrieveNearestRange_miss [OF rw miss] by (simp add: l_def)
  have look: "LookupAddress M frame = (case am_Retrieve (public_symbols M) ?a of
      None \<Rightarrow> frame
    | Some (s, k) \<Rightarrow> if (\<exists>e \<in> set ?m. fst e < ?a) \<longrightarrow> rng_base (snd l) < k
        then frame\<lparr>function_name := ps_name s, function_base := module_base frame + k\<rparr> else frame)"
  proof (cases "\<exists>e \<in> set ?m. fst e < ?a")
    case True
    note l = last_filter_base [OF mw True, folded l_def]
    have "\<not> (?a - rng_base (snd l) < fst l - rng_base (snd l) + 1)"
      using miss_not_in_range [OF mw] l by blast
    then show ?thesis
      using near True by (cases l) (auto simp: LookupAddress_def frame_address_def Let_def range_result_def
          split: option.splits)
  next
    case False
    then show ?thesis
      using near by (simp add: LookupAddress_def frame_address_def Let_def split: option.splits)
  qed
  have base: "(\<forall>e \<in> set ?m. fst e < ?a \<longrightarrow> rng_base (snd e) < k) \<longleftrightarrow>
      ((\<exists>e \<in> set ?m. fst e < ?a) \<longrightarrow> rng_base (snd l) < k)" for k
    using last_filter_base [OF mw, of ?a, folded l_def] by (meson order_le_less_trans)
  have pub: "nearest_public M ?a k s \<longleftrightarrow> am_Retrieve (public_symbols M) ?a = Some (s, k) \<and>
      ((\<exists>e \<in> set ?m. fst e < ?a) \<longrightarrow> rng_base (snd l) < k)" for k s
    using am_Retrieve_iff [OF am, of ?a s k] base [of k] by (auto simp: nearest_public_def)
  show ?thesis
    using look pub by (cases "am_Retrieve (public_symbols M) ?a") auto
qed


text \<open>C32: In a well-formed module, an address inside the range of a function is attributed to
  that function with the function's absolute base, and to the source line whose range
  contains it, with the name of the line's file where the file is known.\<close>

theorem LookupAddress_function:
  assumes "module_wf M" and "rm_lookup (functions_map M) (frame_address frame) = Some (h, r)"
  shows "LookupAddress M frame =
    add_line M (rm_lookup (fn_lines (store M ! rng_entry r)) (frame_address frame))
      (frame\<lparr>function_name := fn_name (store M ! rng_entry r),
             function_base := module_base frame + rng_base r\<rparr>)"
  using assms by (rule LookupAddress_in_function)

text \<open>C14: An address in no function is attributed to the nearest public symbol at or below it
  provided that no function begins between the symbol and the address; otherwise the frame
  is left as it was.\<close>

theorem LookupAddress_public:
  assumes "module_wf M" and "rm_lookup (functions_map M) (frame_address frame) = None"
  shows "(\<forall>k s. nearest_public M (frame_address frame) k s \<longrightarrow>
      LookupAddress M frame = frame\<lparr>function_name := ps_name s, function_base := module_base frame + k\<rparr>) \<and>
    ((\<nexists>k s. nearest_public M (frame_address frame) k s) \<longrightarrow> LookupAddress M frame = frame)"
  using assms by (rule LookupAddress_no_function)

definition example_module :: sym_module where
  "example_module = Module_init\<lparr>
     store := [\<lparr>fn_name = ''main'', fn_address = 0x1000, fn_size = 0x20, fn_parameter_size = 8,
       fn_lines = \<lparr>enable_shrink_down = False, rm_map = [(0x100F, \<lparr>rng_base = 0x1000, rng_delta = 0,
         rng_entry = \<lparr>ln_address = 0x1000, ln_size = 0x10, source_file_id = 1, ln_line = 42\<rparr>\<rparr>)]\<rparr>\<rparr>],
     files := [(1, ''main.c'')],
     functions_map := \<lparr>enable_shrink_down = False,
       rm_map = [(0x101F, \<lparr>rng_base = 0x1000, rng_delta = 0, rng_entry = 0\<rparr>)]\<rparr>,
     public_symbols := \<lparr>am_map = [(0x2000, \<lparr>ps_name = ''_start'', ps_address = 0x2000, ps_parameter_size = 0\<rparr>)]\<rparr>\<rparr>"

lemma example_module_wf: "module_wf example_module"
  using module_wf_init
  by (simp add: example_module_def module_wf_def function_ranges_ok_def strict_map_def rm_wf_def
      ranges_wf_def am_wf_def keys_sorted_def)

definition example_frame :: "mem_addr \<Rightarrow> stack_frame" where
  "example_frame pc = \<lparr>instruction = pc, module_base = 0x400000, function_name = [], function_base = 0,
     source_file_name = [], source_line = 0, source_line_base = 0\<rparr>"

theorem LookupAddress_function_witness:
  "LookupAddress example_module (example_frame 0x401004) =
     (example_frame 0x401004)\<lparr>function_name := ''main'', function_base := 0x401000,
       source_file_name := ''main.c'', source_line := 42, source_line_base := 0x401000\<rparr>"
proof -
  have "rm_lookup (functions_map example_module) (frame_address (example_frame 0x401004)) =
      Some (0x101F, \<lparr>rng_base = 0x1000, rng_delta = 0, rng_entry = 0\<rparr>)"
    by (simp add: rm_lookup_def covers_def example_module_def frame_address_def example_frame_def)
  from LookupAddress_function [OF example_module_wf this] show ?thesis
    by (simp add: add_line_def rm_lookup_def covers_def example_module_def frame_address_def example_frame_def)
qed

theorem LookupAddress_public_witness:
  "LookupAddress example_module (example_frame 0x402010) =
     (example_frame 0x402010)\<lparr>function_name := ''_start'', function_base := 0x402000\<rparr>"
proof -
  let ?s = "\<lparr>ps_name = ''_start'', ps_address = 0x2000, ps_parameter_size = 0\<rparr>"
  have "rm_lookup (functions_map example_module) (frame_address (example_frame 0x402010)) = None"
    by (simp add: rm_lookup_def covers_def example_module_def frame_address_def example_frame_def)
  moreover have "nearest_public example_module (frame_address (example_frame 0x402010)) 0x2000 ?s"
    by (simp add: nearest_public_def am_lookup_def example_module_def frame_address_def example_frame_def)
  ultimately show ?thesis
    using LookupAddress_public [OF example_module_wf, of "example_frame 0x402010"]
    by (simp add: example_frame_def)
qed

section \<open>Frame information\<close>

lemma apply_delta_rules_sorted:
  "keys_sorted m \<Longrightarrow> apply_delta_rules m a rules =
     fold (\<lambda>(d, rule_set). snd \<circ> ParseCFIRuleSet rule_set) (filter (\<lambda>(d, rule_set). d \<le> a) m) rules"
proof (induction m arbitrary: rules)
  case (Cons e m)
  obtain d rule_set where e: "e = (d, rule_set)" by (cases e)
  show ?case
  proof (cases "d \<le> a")
    case True
    then show ?thesis using Cons e by (simp add: keys_sorted_Cons)
  next
    case False
    then have "filter (\<lambda>(d, rule_set). d \<le> a) m = []"
      using Cons.prems e by (fastforce simp: keys_sorted_Cons filter_empty_conv)
    then show ?thesis using False e by simp
  qed
qed simp

lemma drop_lower_bound_filter:
  assumes "keys_sorted m"
  shows "drop (lower_bound m k) m = filter (\<lambda>e. k \<le> fst e) m"
  using assms
proof (induction m)
  case (Cons e m)
  show ?case
  proof (cases "fst e < k")
    case True
    then show ?thesis using Cons by (cases e) (auto simp: lower_bound_def keys_sorted_Cons)
  next
    case False
    then have "\<forall>x \<in> set m. k \<le> fst x" using Cons.prems by (cases e) (fastforce simp: keys_sorted_Cons)
    then show ?thesis using False by (auto simp: lower_bound_def filter_id_conv)
  qed
qed (simp add: lower_bound_def)

text \<open>C33: The CFI rules in effect at an address are those of the STACK CFI INIT record whose range
  contains it, with the STACK CFI records from the start of that range up to and including the
  address applied in address order; there are none exactly when no INIT range contains the
  address or its rule set does not parse.\<close>

theorem FindCFIFrameInfo_correct:
  assumes "module_wf M"
  shows "FindCFIFrameInfo M frame =
    (case rm_lookup (cfi_initial_rules M) (frame_address frame) of
       None \<Rightarrow> None
     | Some (h, r) \<Rightarrow>
         (case ParseCFIRuleSet (rng_entry r) CFIFrameInfo_init of (ok, rules) \<Rightarrow>
            if ok then Some (fold (\<lambda>(d, rule_set). snd \<circ> ParseCFIRuleSet rule_set)
              (filter (\<lambda>(d, rule_set). rng_base r \<le> d \<and> d \<le> frame_address frame) (cfi_delta_rules M)) rules)
            else None))"
proof -
  have rw: "rm_wf (cfi_initial_rules M)" and ks: "keys_sorted (cfi_delta_rules M)"
    using assms by (simp_all add: module_wf_def strict_map_def)
  have "keys_sorted (filter P (cfi_delta_rules M))" for P
    using ks by (simp add: keys_sorted_def sorted_wrt_map sorted_wrt_filter)
  moreover have both: "filter (\<lambda>(d, rule_set). d \<le> a) (filter (\<lambda>e. b \<le> fst e) m) =
      filter (\<lambda>(d, rule_set). b \<le> d \<and> d \<le> a) m" for a b and m :: "(mem_addr, string) std_map"
    by (induction m) auto
  ultimately have "apply_delta_rules (drop (lower_bound (cfi_delta_rules M) b) (cfi_delta_rules M)) a rules =
      fold (\<lambda>(d, rule_set). snd \<circ> ParseCFIRuleSet rule_set)
        (filter (\<lambda>(d, rule_set). b \<le> d \<and> d \<le> a) (cfi_delta_rules M)) rules" for a b rules
    by (simp add: drop_lower_bound_filter [OF ks] apply_delta_rules_sorted both)
  then show ?thesis
    by (cases "rm_lookup (cfi_initial_rules M) (frame_address frame)")
      (auto simp: FindCFIFrameInfo_def RetrieveRange_eq_lookup [OF rw] range_result_def frame_address_def
        Let_def split: bool.splits prod.splits)
qed

theorem FindCFIFrameInfo_correct_witness:
  "FindCFIFrameInfo (Module_init\<lparr>cfi_delta_rules := [(0x1004, ''.cfa: $esp 8 +'')]\<rparr>) (example_frame 0x401004) = None"
proof -
  have "module_wf (Module_init\<lparr>cfi_delta_rules := [(0x1004, ''.cfa: $esp 8 +'')]\<rparr>)"
    using module_wf_init by (simp add: module_wf_def function_ranges_ok_def keys_sorted_def)
  from FindCFIFrameInfo_correct [OF this, of "example_frame 0x401004"] show ?thesis
    by (simp add: Module_init_def RangeMap_init_def rm_lookup_def)
qed

text \<open>
  The code case by case. In the last one the answer is NULL even where a public symbol covers the
  address: its parameter size is stored in a result that is then dropped.
\<close>

lemma FindWindowsFrameInfo_cases:
  assumes "module_wf M" and "w = FindWindowsFrameInfo M frame" and "a = frame_address frame"
    and "D = set (crm_ranges (wfi_maps M ! 4))" and "F = set (crm_ranges (wfi_maps M ! 0))"
  shows "if \<exists>(b, h, e) \<in> D. contains (b, h) a
      then \<exists>b h e. smallest_containing D a b h e \<and> w = Some (wfi_CopyFrom e WindowsFrameInfo_init)
      else if \<exists>(b, h, e) \<in> F. contains (b, h) a
      then \<exists>b h e. smallest_containing F a b h e \<and> w = Some (wfi_CopyFrom e WindowsFrameInfo_init)
      else w = (case rm_lookup (functions_map M) a of
          None \<Rightarrow> None
        | Some (h, r) \<Rightarrow> Some (WindowsFrameInfo_init\<lparr>
            parameter_size := word_of_int (fn_parameter_size (store M ! rng_entry r)),
            valid := VALID_PARAMETER_SIZE\<rparr>))"
proof -
  have len: "length (wfi_maps M) = 5" and wfn: "\<forall>n \<in> set (wfi_maps M). crm_wf n"
    and rw: "rm_wf (functions_map M)"
    using assms(1) by (simp_all add: module_wf_def strict_map_def STACK_INFO_LAST_def)
  have "crm_wf (wfi_maps M ! 4)" "crm_wf (wfi_maps M ! 0)" using len wfn by simp_all
  then have R: "case crm_RetrieveRange (wfi_maps M ! 4) a of
       None \<Rightarrow> \<forall>(b, h, e) \<in> D. \<not> contains (b, h) a
     | Some e \<Rightarrow> \<exists>b h. smallest_containing D a b h e"
    "case crm_RetrieveRange (wfi_maps M ! 0) a of
       None \<Rightarrow> \<forall>(b, h, e) \<in> F. \<not> contains (b, h) a
     | Some e \<Rightarrow> \<exists>b h. smallest_containing F a b h e"
    using crm_Retrieve_spec assms(4,5) by blast+
  have hit: "\<exists>(b, h, e) \<in> S. contains (b, h) a" if "smallest_containing S a b h e" for S b h and e :: windows_frame_info
    using that by (auto simp: smallest_containing_def)
  have cs: "nat STACK_INFO_FRAME_DATA = 4" "nat STACK_INFO_FPO = 0"
    "valid WindowsFrameInfo_init OR VALID_PARAMETER_SIZE = VALID_PARAMETER_SIZE"
    by (simp_all add: STACK_INFO_FRAME_DATA_def STACK_INFO_FPO_def WindowsFrameInfo_init_def VALID_NONE_def)
  have eq: "w = (case crm_RetrieveRange (wfi_maps M ! 4) a of
      Some e \<Rightarrow> Some (wfi_CopyFrom e WindowsFrameInfo_init)
    | None \<Rightarrow> (case crm_RetrieveRange (wfi_maps M ! 0) a of
        Some e \<Rightarrow> Some (wfi_CopyFrom e WindowsFrameInfo_init)
      | None \<Rightarrow> (case RetrieveNearestRange (functions_map M) a of
          Some (func, base, _, sz) \<Rightarrow>
            if base \<le> a \<and> a - base < sz
            then Some (WindowsFrameInfo_init\<lparr>parameter_size := word_of_int (fn_parameter_size (store M ! func)),
                valid := VALID_PARAMETER_SIZE\<rparr>)
            else None
        | None \<Rightarrow> None)))"
    unfolding assms(2,3) FindWindowsFrameInfo_def frame_address_def Let_def cs by (rule refl)
  have fn: "(case RetrieveNearestRange (functions_map M) a of
      Some (func, base, _, sz) \<Rightarrow> if base \<le> a \<and> a - base < sz then Some (X func) else None
    | None \<Rightarrow> None) = (case rm_lookup (functions_map M) a of None \<Rightarrow> None | Some (h, r) \<Rightarrow> Some (X (rng_entry r)))"
    for X :: "nat \<Rightarrow> windows_frame_info"
  proof (cases "rm_lookup (functions_map M) a")
    case (Some hr)
    obtain h r where hr: "hr = (h, r)" by (cases hr)
    have "(h, r) \<in> set (rm_map (functions_map M))" using Some hr by (simp add: rm_lookup_iff [OF rw])
    then have "h - rng_base r + 1 \<noteq> 0" using assms(1) by (auto simp: module_wf_def strict_map_def)
    then show ?thesis
      using covered_size [OF rw, of a h r] Some hr
      by (auto simp: RetrieveNearestRange_def RetrieveRange_eq_lookup [OF rw] range_result_def)
  next
    case None
    have mw: "ranges_wf (rm_map (functions_map M))" using rw by (simp add: rm_wf_def)
    show ?thesis
      using None RetrieveNearestRange_miss [OF rw None] last_filter_base [OF mw, of a] miss_not_in_range [OF mw]
      by (auto simp: range_result_def split_beta)
  qed
  show ?thesis
  proof (cases "crm_RetrieveRange (wfi_maps M ! 4) a")
    case (Some e)
    then obtain b h where s: "smallest_containing D a b h e" using R(1) by auto
    moreover have "w = Some (wfi_CopyFrom e WindowsFrameInfo_init)" using eq Some by simp
    ultimately have "\<exists>b h e. smallest_containing D a b h e \<and> w = Some (wfi_CopyFrom e WindowsFrameInfo_init)"
      by blast
    then show ?thesis by (simp only: hit [OF s] if_True)
  next
    case None
    then have noD: "\<not> (\<exists>(b, h, e) \<in> D. contains (b, h) a)" using R(1) by auto
    show ?thesis
    proof (cases "crm_RetrieveRange (wfi_maps M ! 0) a")
      case (Some e)
      then obtain b h where s: "smallest_containing F a b h e" using R(2) by auto
      moreover have "w = Some (wfi_CopyFrom e WindowsFrameInfo_init)" using eq None Some by simp
      ultimately have "\<exists>b h e. smallest_containing F a b h e \<and> w = Some (wfi_CopyFrom e WindowsFrameInfo_init)"
        by blast
      then show ?thesis by (simp only: noD hit [OF s] if_True if_False)
    next
      case none: None
      then have noF: "\<not> (\<exists>(b, h, e) \<in> F. contains (b, h) a)" using R(2) by auto
      have "w = (case rm_lookup (functions_map M) a of None \<Rightarrow> None
        | Some (h, r) \<Rightarrow> Some (WindowsFrameInfo_init\<lparr>
            parameter_size := word_of_int (fn_parameter_size (store M ! rng_entry r)),
            valid := VALID_PARAMETER_SIZE\<rparr>))"
        using eq None none fn [of "\<lambda>func. WindowsFrameInfo_init\<lparr>parameter_size :=
            word_of_int (fn_parameter_size (store M ! func)), valid := VALID_PARAMETER_SIZE\<rparr>"]
        by simp
      then show ?thesis by (simp only: noD noF if_False)
    qed
  qed
qed

text \<open>C34: Windows frame information is that of the smallest FRAME_DATA range around the address,
  else of the smallest FPO range; else a function around the address contributes its
  parameter size. The answer is NULL when none of these is there and no public symbol covers the
  address either.\<close>

theorem FindWindowsFrameInfo_correct:
  assumes "module_wf M" and "w = FindWindowsFrameInfo M frame" and "a = frame_address frame"
    and "D = set (crm_ranges (wfi_maps M ! 4))" and "F = set (crm_ranges (wfi_maps M ! 0))"
  shows "if \<exists>(b, h, e) \<in> D. contains (b, h) a
      then \<exists>b h e. smallest_containing D a b h e \<and> w = Some (wfi_CopyFrom e WindowsFrameInfo_init)
      else if \<exists>(b, h, e) \<in> F. contains (b, h) a
      then \<exists>b h e. smallest_containing F a b h e \<and> w = Some (wfi_CopyFrom e WindowsFrameInfo_init)
      else case rm_lookup (functions_map M) a of
          Some (h, r) \<Rightarrow> w = Some (WindowsFrameInfo_init\<lparr>
            parameter_size := word_of_int (fn_parameter_size (store M ! rng_entry r)),
            valid := VALID_PARAMETER_SIZE\<rparr>)
        | None \<Rightarrow> (\<nexists>k s. nearest_public M a k s) \<longrightarrow> w = None"
  using FindWindowsFrameInfo_cases [OF assms] by (auto split: if_splits option.splits)

theorem FindWindowsFrameInfo_correct_witness:
  "FindWindowsFrameInfo example_module (example_frame 0x401004) =
     Some (WindowsFrameInfo_init\<lparr>parameter_size := 8, valid := VALID_PARAMETER_SIZE\<rparr>)"
proof -
  have "wfi_maps example_module ! 4 = crm_init 0 WindowsFrameInfo_init"
    "wfi_maps example_module ! 0 = crm_init 0 WindowsFrameInfo_init"
    by (simp_all add: example_module_def Module_init_def STACK_INFO_LAST_def)
  then have "set (crm_ranges (wfi_maps example_module ! 4)) = {}" "set (crm_ranges (wfi_maps example_module ! 0)) = {}"
    by (simp_all add: crm_init_def)
  moreover have "rm_lookup (functions_map example_module) (frame_address (example_frame 0x401004)) =
      Some (0x101F, \<lparr>rng_base = 0x1000, rng_delta = 0, rng_entry = 0\<rparr>)"
    by (simp add: rm_lookup_def covers_def example_module_def frame_address_def example_frame_def)
  ultimately show ?thesis
    using FindWindowsFrameInfo_correct [OF example_module_wf refl refl refl refl, of "example_frame 0x401004"]
    by (simp add: example_module_def)
qed

section \<open>Loading the text of records\<close>

text \<open>The records of a symbol file as abstract syntax, their text, and what each does.\<close>

datatype sym_record =
    ModuleRec string
  | InfoRec string
  | FileRec nat string
  | FunctionRec uint64 uint64 nat string
  | LineRec uint64 uint64 nat nat
  | PublicRec uint64 nat string
  | CFIInitRec uint64 uint64 string
  | CFIDeltaRec uint64 string

fun record_text :: "sym_record \<Rightarrow> string" where
  "record_text (ModuleRec s) = ''MODULE '' @ s"
| "record_text (InfoRec s) = ''INFO '' @ s"
| "record_text (FileRec i name) = file_record i name"
| "record_text (FunctionRec a sz p name) = function_record a sz p name"
| "record_text (LineRec a sz n i) = line_record a sz n i"
| "record_text (PublicRec a p name) = public_record a p name"
| "record_text (CFIInitRec a sz rules) = ''STACK CFI '' @ join '' '' [''INIT'', hex a, hex sz, rules]"
| "record_text (CFIDeltaRec a rules) = ''STACK CFI '' @ join '' '' [hex a, rules]"

definition add_line_record :: "uint64 \<Rightarrow> uint64 \<Rightarrow> nat \<Rightarrow> nat \<Rightarrow> sym_function \<Rightarrow> sym_function" where
  "add_line_record a sz n i f = f\<lparr>fn_lines := snd (StoreRange (fn_lines f) a sz
     \<lparr>ln_address = a, ln_size = sz, source_file_id = to_int32 (int i), ln_line = to_int32 (int n)\<rparr>)\<rparr>"

fun apply_record :: "sym_record \<Rightarrow> load_state \<Rightarrow> load_state" where
  "apply_record (ModuleRec s) st = st"
| "apply_record (InfoRec s) st = st"
| "apply_record (FileRec i name) (M, cur, n) =
     (M\<lparr>files := map_insert (to_int32 (int i)) name (files M)\<rparr>, cur, n)"
| "apply_record (FunctionRec a sz p name) (M, cur, n) =
     (M\<lparr>store := store M @ [\<lparr>fn_name = name, fn_address = a, fn_size = sz,
            fn_parameter_size = to_int32 (int p), fn_lines = RangeMap_init\<rparr>],
        functions_map := snd (StoreRange (functions_map M) a sz (length (store M)))\<rparr>,
      Some (length (store M)), n)"
| "apply_record (LineRec a sz ln i) (M, None, n) = (M, None, n + 1)"
| "apply_record (LineRec a sz ln i) (M, Some r, n) =
     (M\<lparr>store := (store M)[r := add_line_record a sz ln i (store M ! r)]\<rparr>, Some r, n)"
| "apply_record (PublicRec a p name) (M, cur, n) =
     (if a = 0 then (M, None, n)
      else case am_Store (public_symbols M) a
          \<lparr>ps_name = name, ps_address = a, ps_parameter_size = to_int32 (int p)\<rparr> of
        (ok, symbols) \<Rightarrow> (M\<lparr>public_symbols := symbols\<rparr>, None, if ok then n else n + 1))"
| "apply_record (CFIInitRec a sz rules) (M, cur, n) =
     (M\<lparr>cfi_initial_rules := snd (StoreRange (cfi_initial_rules M) a sz rules)\<rparr>, cur, n)"
| "apply_record (CFIDeltaRec a rules) (M, cur, n) =
     (M\<lparr>cfi_delta_rules := map_assign a rules (cfi_delta_rules M)\<rparr>, cur, n)"

text \<open>Text of a field: no line break and no NUL; numbers below the values the parser reserves.\<close>

definition field_ok :: "string \<Rightarrow> bool" where
  "field_ok s \<longleftrightarrow> last_field s \<and> CHR 0x00 \<notin> set s"

fun record_ok :: "sym_record \<Rightarrow> bool" where
  "record_ok (ModuleRec s) \<longleftrightarrow> field_ok s"
| "record_ok (InfoRec s) \<longleftrightarrow> field_ok s"
| "record_ok (FileRec i name) \<longleftrightarrow> int i < LONG_MAX \<and> field_ok name"
| "record_ok (FunctionRec a sz p name) \<longleftrightarrow> a \<noteq> - 1 \<and> sz \<noteq> - 1 \<and> int p < LONG_MAX \<and> field_ok name"
| "record_ok (LineRec a sz n i) \<longleftrightarrow> a \<noteq> - 1 \<and> sz \<noteq> - 1 \<and> int n < LONG_MAX \<and> int i < LONG_MAX"
| "record_ok (PublicRec a p name) \<longleftrightarrow> a \<noteq> - 1 \<and> int p < LONG_MAX \<and> field_ok name"
| "record_ok (CFIInitRec a sz rules) \<longleftrightarrow> field_ok rules"
| "record_ok (CFIDeltaRec a rules) \<longleftrightarrow> field_ok rules"

lemma print_nat_chars: "2 \<le> b \<Longrightarrow> c \<in> set (print_nat b n) \<Longrightarrow> \<exists>d < b. c = digit_char d"
proof (induction b n rule: print_nat.induct)
  case (1 b n)
  show ?case
  proof (cases "n < b")
    case False
    show ?thesis
    proof (cases "c \<in> set (print_nat b (n div b))")
      case False
      then have "c = digit_char (n mod b)" "n mod b < b"
        using \<open>\<not> n < b\<close> 1 by (auto simp: print_nat.simps [of b n])
      then show ?thesis by blast
    qed (use \<open>\<not> n < b\<close> 1 in auto)
  qed (use 1 in \<open>auto simp: print_nat.simps [of b n]\<close>)
qed

lemma digit_char_plain: "d < 16 \<Longrightarrow> digit_char d \<notin> set ''FSPMIT'' \<and> digit_char d \<noteq> CHR 0x00 \<and> \<not> line_break (digit_char d)"
proof -
  assume "d < 16"
  then have "d = 0 \<or> d = 1 \<or> d = 2 \<or> d = 3 \<or> d = 4 \<or> d = 5 \<or> d = 6 \<or> d = 7 \<or> d = 8 \<or> d = 9 \<or>
      d = 10 \<or> d = 11 \<or> d = 12 \<or> d = 13 \<or> d = 14 \<or> d = 15" by presburger
  then show ?thesis by (elim disjE) (simp_all add: digit_char_def line_break_def char_of_eq_iff)
qed

lemma print_nat_plain:
  "b = 10 \<or> b = 16 \<Longrightarrow> c \<in> set (print_nat b n) \<Longrightarrow> c \<notin> set ''FSPMIT'' \<and> c \<noteq> CHR 0x00 \<and> \<not> line_break c"
  using print_nat_chars [of b c n] digit_char_plain by fastforce

lemma hex_hd: "hd (hex w) \<notin> set ''FSPMIT''"
  using print_nat_plain [of 16 "hd (hex w)" "unat w"] by (simp add: hex_def)

lemma hex_not_INIT: "hex w \<noteq> ''INIT''"
  using hex_hd [of w] by auto

lemma line_record_prefix:
  "take 5 (line_record a sz n i) \<noteq> ''FILE ''" "take 6 (line_record a sz n i) \<noteq> ''STACK ''"
  "take 5 (line_record a sz n i) \<noteq> ''FUNC ''" "take 7 (line_record a sz n i) \<noteq> ''PUBLIC ''"
  "take 7 (line_record a sz n i) \<noteq> ''MODULE ''" "take 5 (line_record a sz n i) \<noteq> ''INFO ''"
proof -
  obtain c r where c: "hex a = c # r" using print_nat_not_Nil by (cases "hex a") (auto simp: hex_def)
  then have "c \<notin> set ''FSPMIT''" using hex_hd [of a] by simp
  then show "take 5 (line_record a sz n i) \<noteq> ''FILE ''" "take 6 (line_record a sz n i) \<noteq> ''STACK ''"
    "take 5 (line_record a sz n i) \<noteq> ''FUNC ''" "take 7 (line_record a sz n i) \<noteq> ''PUBLIC ''"
    "take 7 (line_record a sz n i) \<noteq> ''MODULE ''" "take 5 (line_record a sz n i) \<noteq> ''INFO ''"
    using c by (simp_all add: line_record_def)
qed

lemma strtok_field: "field_ok s \<Longrightarrow> strtok_r line_break s = Some (s, [])"
  by (simp add: field_ok_def last_field_def strtok_r_last)

lemma strtoul_hex: "strtoul 16 (hex w) = (w, [])"
  by (simp add: strtoul_def strtoull_hex)

lemma ParseCFIFrameInfo_init:
  assumes "field_ok rules"
  shows "ParseCFIFrameInfo (join '' '' [''INIT'', hex a, hex sz, rules]) M =
    (True, M\<lparr>cfi_initial_rules := snd (StoreRange (cfi_initial_rules M) a sz rules)\<rparr>)"
proof -
  have i: "strtok_r kWhitespace (''INIT'' @ CHR '' '' # s) = Some (''INIT'', s)" for s
    by (rule strtok_r_word) (simp_all add: word_def kWhitespace_def)
  have h: "strtok_r kWhitespace (hex w @ CHR '' '' # s) = Some (hex w, s)" for w s
    by (rule strtok_r_word [OF hex_word]) simp
  show ?thesis
    using i [of "hex a @ CHR '' '' # hex sz @ CHR '' '' # rules"] h strtok_field [OF assms] strtoul_hex
    by (simp add: ParseCFIFrameInfo_def)
qed

lemma ParseCFIFrameInfo_delta:
  assumes "field_ok rules"
  shows "ParseCFIFrameInfo (join '' '' [hex a, rules]) M =
    (True, M\<lparr>cfi_delta_rules := map_assign a rules (cfi_delta_rules M)\<rparr>)"
proof -
  have h: "strtok_r kWhitespace (hex w @ CHR '' '' # s) = Some (hex w, s)" for w s
    by (rule strtok_r_word [OF hex_word]) simp
  show ?thesis
    using h strtok_field [OF assms] strtoul_hex hex_not_INIT by (simp add: ParseCFIFrameInfo_def)
qed

lemma ParseStackInfo_CFI:
  "ParseStackInfo (''STACK CFI '' @ str) M = (case ParseCFIFrameInfo str M of (ok, M) \<Rightarrow> if ok then Ok M else Fail M)"
  by (simp add: ParseStackInfo_def kWhitespace_def)

lemma process_record:
  assumes "record_ok r"
  shows "process_line (record_text r) st = Ok (apply_record r st)"
proof -
  obtain M cur n where st: "st = (M, cur, n)" by (cases st)
  show ?thesis
  proof (cases r)
    case (FileRec i name)
    then have "ParseFile (file_record i name) M =
        (True, M\<lparr>files := map_insert (to_int32 (int i)) name (files M)\<rparr>)"
      using assms by (simp add: ParseFile_def file_record_parses field_ok_def)
    then show ?thesis using FileRec st by (simp add: process_line_def file_record_def)
  next
    case (FunctionRec a sz p name)
    then have "ParseFunction (function_record a sz p name) = Some \<lparr>fn_name = name, fn_address = a,
        fn_size = sz, fn_parameter_size = to_int32 (int p), fn_lines = RangeMap_init\<rparr>"
      using assms by (simp add: ParseFunction_def function_record_parses field_ok_def)
    then show ?thesis using FunctionRec st by (simp add: process_line_def function_record_def Let_def)
  next
    case (LineRec a sz ln i)
    then have "ParseLine (line_record a sz ln i) = Some \<lparr>ln_address = a, ln_size = sz,
        source_file_id = to_int32 (int i), ln_line = to_int32 (int ln)\<rparr>"
      using assms by (simp add: ParseLine_def line_record_parses)
    then show ?thesis
      using LineRec st line_record_prefix [of a sz ln i]
      by (cases cur) (simp_all add: process_line_def Let_def LogParseError_def add_line_record_def)
  next
    case (PublicRec a p name)
    then have "SymbolParseHelper_ParsePublicSymbol (public_record a p name) = Some (a, int p, name)"
      using assms by (simp add: public_record_parses field_ok_def)
    then show ?thesis
      using PublicRec st
      by (auto simp: process_line_def public_record_def ParsePublicSymbol_def LogParseError_def split: prod.splits)
  next
    case (CFIInitRec a sz rules)
    then show ?thesis
      using assms st ParseStackInfo_CFI [of "join '' '' [''INIT'', hex a, hex sz, rules]" M]
        ParseCFIFrameInfo_init [of rules a sz M]
      by (simp add: process_line_def)
  next
    case (CFIDeltaRec a rules)
    then show ?thesis
      using assms st ParseStackInfo_CFI [of "join '' '' [hex a, rules]" M]
        ParseCFIFrameInfo_delta [of rules a M]
      by (simp add: process_line_def)
  qed (simp_all add: process_line_def st)
qed

lemma apply_record_errors: "snd (snd st) \<le> snd (snd (apply_record r st))"
  by (induction r st rule: apply_record.induct) (auto split: prod.splits)

lemma fold_errors: "snd (snd st) \<le> snd (snd (fold apply_record rs st))"
proof (induction rs arbitrary: st)
  case (Cons r rs)
  show ?case using apply_record_errors [of st r] Cons.IH [of "apply_record r st"] by simp
qed simp

lemma process_records:
  "(\<forall>r \<in> set rs. record_ok r) \<Longrightarrow> snd (snd (fold apply_record rs st)) \<le> kMaxErrorsBeforeBailing \<Longrightarrow>
     process_lines (map record_text rs) st = Ok (fold apply_record rs st)"
proof (induction rs arbitrary: st)
  case (Cons r rs)
  have "snd (snd (apply_record r st)) \<le> kMaxErrorsBeforeBailing"
    using fold_errors [of "apply_record r st" rs] Cons.prems(2) by simp
  then show ?case
    using Cons process_record [of r st] by (cases "apply_record r st") simp
qed simp

definition clean :: "string \<Rightarrow> bool" where
  "clean s \<longleftrightarrow> (\<forall>c \<in> set s. c \<noteq> CHR 0x00 \<and> \<not> line_break c)"

lemma clean_simps [simp]:
  "clean []" "clean (c # s) \<longleftrightarrow> c \<noteq> CHR 0x00 \<and> \<not> line_break c \<and> clean s"
  "clean (s @ t) \<longleftrightarrow> clean s \<and> clean t"
  by (auto simp: clean_def)

lemma clean_numbers [simp]: "clean (hex w)" "clean (print_nat 10 n)" "clean (print_nat 16 n)"
  using print_nat_plain [of 16] print_nat_plain [of 10] by (simp_all add: clean_def hex_def)

lemma field_ok_clean: "field_ok s \<longleftrightarrow> s \<noteq> [] \<and> clean s"
  by (auto simp: field_ok_def last_field_def word_def clean_def)

lemma record_text_field: "record_ok r \<Longrightarrow> field_ok (record_text r)"
  by (cases r)
    (simp_all add: field_ok_clean file_record_def function_record_def line_record_def public_record_def
      line_break_def)

lemma load_records:
  assumes "\<forall>r \<in> set rs. record_ok r" and "fold apply_record rs (M, None, 0) = (M', cur, n)"
    and "n \<le> kMaxErrorsBeforeBailing"
  shows "LoadMapFromMemory (join [CHR 0x0A] (map record_text rs) @ [CHR 0x00]) M = Ok (M'\<lparr>is_corrupt := n > 0\<rparr>)"
proof -
  let ?data = "join [CHR 0x0A] (map record_text rs)"
  have ok: "\<forall>t \<in> set (map record_text rs). word line_break t \<and> CHR 0x00 \<notin> set t"
    using assms(1) record_text_field by (auto simp: field_ok_def last_field_def)
  have "CHR 0x00 \<notin> set (join [CHR 0x0A] ts)" if "\<forall>t \<in> set ts. CHR 0x00 \<notin> set t" for ts
    using that by (induction "[CHR 0x0A]" ts rule: join.induct) auto
  then have clean: "CHR 0x00 \<notin> set ?data" using ok by blast
  have "dropWhile (\<lambda>c. c = CHR 0x00) (rev ?data) = rev ?data"
    using clean by (cases "rev ?data") (auto simp: set_rev [of ?data, symmetric] simp del: set_rev)
  moreover have "map (\<lambda>c. if c = CHR 0x00 then CHR ''_'' else c) ?data = ?data"
    using clean by (intro map_idI) auto
  ultimately have repair: "repair_buffer (?data @ [CHR 0x00]) = (?data, False)"
    using clean by (simp add: repair_buffer_def)
  have "strtok_all line_break ?data = map record_text rs"
    by (rule strtok_all_join) (use ok in \<open>blast, simp add: line_break_def\<close>)
  then show ?thesis
    using repair process_records [OF assms(1), of "(M, None, 0)"] assms(2,3)
    by (simp add: LoadMapFromMemory_def)
qed

text \<open>C3: Loading the text of a symbol file performs its records one after another: files,
  functions, the lines of the function before them, public symbols and CFI rules end up in
  the maps with the values that were printed, and the module is marked corrupt exactly when a
  record was in error, provided there are not more than a hundred errors.\<close>

theorem LoadMapFromMemory_records:
  assumes "\<forall>r \<in> set rs. record_ok r" and "fold apply_record rs (M, None, 0) = (M', cur, n)"
    and "n \<le> kMaxErrorsBeforeBailing"
  shows "LoadMapFromMemory (join [CHR 0x0A] (map record_text rs) @ [CHR 0x00]) M = Ok (M'\<lparr>is_corrupt := n > 0\<rparr>)"
  using assms by (rule load_records)

text \<open>A complete symbol file: one file name, one function with a line, one public symbol.\<close>

definition example_records :: "sym_record list" where
  "example_records = [ModuleRec ''Linux x86 000 a.out'', FileRec 1 ''main.c'', FunctionRec 0x1000 0x20 8 ''main'',
     LineRec 0x1000 0x10 42 1, PublicRec 0x2000 0 ''_start'']"

lemma example_records_ok: "\<forall>r \<in> set example_records. record_ok r"
  by (simp add: example_records_def field_ok_clean line_break_def LONG_MAX_def)

lemma example_records_run:
  "fold apply_record example_records (Module_init, None, 0) = (example_module, None, 0)"
  by (simp add: example_records_def example_module_def Module_init_def RangeMap_init_def AddressMap_init_def
      StoreRange_def StoreRangeInternal.simps Let_def lower_bound_def am_Store_def map_find_def
      add_line_record_def to_int32_def)

lemma example_not_corrupt: "example_module\<lparr>is_corrupt := False\<rparr> = example_module"
  by (simp add: example_module_def Module_init_def)

text \<open>The text of the example, with its terminator.\<close>

definition example_text :: string where
  "example_text = join [CHR 0x0A] (map record_text example_records)"

lemma example_text_loads: "LoadMapFromMemory (example_text @ [CHR 0x00]) Module_init = Ok example_module"
  using load_records [OF example_records_ok example_records_run]
  by (simp add: kMaxErrorsBeforeBailing_def example_not_corrupt example_text_def)

theorem LoadMapFromMemory_records_witness:
  "LoadMapFromMemory (join [CHR 0x0A] (map record_text example_records) @ [CHR 0x00]) Module_init = Ok example_module"
  using LoadMapFromMemory_records [OF example_records_ok example_records_run]
  by (simp add: kMaxErrorsBeforeBailing_def example_not_corrupt)

end
