(* ===== verification/Memory.thy ===== *)
theory Memory
  imports C_Library
begin

text \<open>
  The memory that the serializers write and the static maps read: a flat array of bytes
  addressed by natural numbers, 0 being the null pointer. Integers are little endian, as on the
  hosts the processor runs on. Reading past a buffer reads whatever bytes are there; that the
  queries depend on the buffer alone is a consequence of the theorems about them, which hold
  for every memory that holds the serialized bytes.
\<close>

section \<open>Bytes of integers and strings\<close>

type_synonym memory = "nat \<Rightarrow> uint8"

fun le_bytes :: "nat \<Rightarrow> nat \<Rightarrow> bytes" where
  "le_bytes 0 v = []"
| "le_bytes (Suc n) v = word_of_nat v # le_bytes n (v div 256)"

fun of_le_bytes :: "bytes \<Rightarrow> nat" where
  "of_le_bytes [] = 0"
| "of_le_bytes (b # bs) = unat b + 256 * of_le_bytes bs"

definition word_bytes :: "'a::len word \<Rightarrow> bytes" where
  "word_bytes w = le_bytes (LENGTH('a) div 8) (unat w)"

definition char_byte :: "char \<Rightarrow> uint8" where
  "char_byte c = word_of_nat (of_char c)"

definition byte_char :: "uint8 \<Rightarrow> char" where
  "byte_char b = char_of (unat b)"

text \<open>The bytes of a C string with its terminator.\<close>

definition string_bytes :: "string \<Rightarrow> bytes" where
  "string_bytes s = map char_byte s @ [0]"

section \<open>Reading and writing\<close>

definition peek :: "memory \<Rightarrow> nat \<Rightarrow> nat \<Rightarrow> bytes" where
  "peek mem p n = map mem [p..<p + n]"

definition load_word :: "memory \<Rightarrow> nat \<Rightarrow> 'a::len word" where
  "load_word mem p = word_of_nat (of_le_bytes (peek mem p (LENGTH('a) div 8)))"

definition store_bytes :: "nat \<Rightarrow> bytes \<Rightarrow> memory \<Rightarrow> memory" where
  "store_bytes p bs mem = (\<lambda>i. if p \<le> i \<and> i < p + length bs then bs ! (i - p) else mem i)"

text \<open>The string at a pointer; None when no terminator ever follows.\<close>

partial_function (option) load_string :: "memory \<Rightarrow> nat \<Rightarrow> string option" where
  "load_string mem p =
     (if mem p = 0 then Some []
      else Option.bind (load_string mem (Suc p)) (\<lambda>s. Some (byte_char (mem p) # s)))"

definition holds :: "memory \<Rightarrow> nat \<Rightarrow> bytes \<Rightarrow> bool" where
  "holds mem p bs \<longleftrightarrow> peek mem p (length bs) = bs"

section \<open>Lemmas\<close>

lemma length_le_bytes [simp]: "length (le_bytes n v) = n"
  by (induction n v rule: le_bytes.induct) auto

lemma length_word_bytes [simp]: "length (word_bytes (w :: 'a::len word)) = LENGTH('a) div 8"
  by (simp add: word_bytes_def)

lemma length_string_bytes [simp]: "length (string_bytes s) = length s + 1"
  by (simp add: string_bytes_def)

lemma of_le_le_bytes: "of_le_bytes (le_bytes n v) = v mod 256 ^ n"
proof (induction n v rule: le_bytes.induct)
  case (2 n v)
  have "v mod 256 ^ Suc n = v mod 256 + 256 * (v div 256 mod 256 ^ n)"
    by (simp add: mod_mult2_eq)
  then show ?case using 2 by (simp add: unsigned_of_nat take_bit_eq_mod)
qed simp

lemma of_le_word_bytes:
  assumes "8 dvd LENGTH('a::len)"
  shows "word_of_nat (of_le_bytes (word_bytes (w :: 'a word))) = w"
proof -
  have "(256::nat) ^ (LENGTH('a) div 8) = 2 ^ (8 * (LENGTH('a) div 8))"
    by (simp add: power_mult)
  also have "\<dots> = 2 ^ LENGTH('a)" using assms by simp
  finally show ?thesis
    using unsigned_less [of w, where 'a=nat] by (simp add: word_bytes_def of_le_le_bytes)
qed

lemma length_peek [simp]: "length (peek mem p n) = n"
  by (simp add: peek_def)

lemma nth_peek: "i < n \<Longrightarrow> peek mem p n ! i = mem (p + i)"
  by (simp add: peek_def)

lemma peek_append: "peek mem p (m + n) = peek mem p m @ peek mem (p + m) n"
  by (rule nth_equalityI) (auto simp: nth_append nth_peek)

lemma holds_iff: "holds mem p bs \<longleftrightarrow> (\<forall>i < length bs. mem (p + i) = bs ! i)"
  by (auto simp: holds_def list_eq_iff_nth_eq nth_peek)

lemma holds_Nil [simp]: "holds mem p []"
  by (simp add: holds_iff)

lemma holds_append: "holds mem p (xs @ ys) \<longleftrightarrow> holds mem p xs \<and> holds mem (p + length xs) ys"
  by (simp add: holds_def peek_append)

lemma holds_Cons: "holds mem p (x # xs) \<longleftrightarrow> mem p = x \<and> holds mem (Suc p) xs"
  using holds_append [of mem p "[x]" xs] by (simp add: holds_def peek_def)

lemma holds_concat_nth:
  "holds mem p (concat bss) \<Longrightarrow> i < length bss \<Longrightarrow>
     holds mem (p + length (concat (take i bss))) (bss ! i)"
proof (induction bss arbitrary: p i)
  case (Cons bs bss)
  show ?case
  proof (cases i)
    case (Suc j)
    then show ?thesis
      using Cons.IH [of "p + length bs" j] Cons.prems by (simp add: holds_append add.assoc)
  qed (use Cons.prems in \<open>simp add: holds_append\<close>)
qed simp

lemma length_concat_uniform: "(\<forall>b \<in> set bss. length b = k) \<Longrightarrow> length (concat bss) = length bss * k"
  by (induction bss) auto

lemma holds_concat_uniform:
  assumes "holds mem p (concat bss)" and "i < length bss" and "\<forall>b \<in> set bss. length b = k"
  shows "holds mem (p + i * k) (bss ! i)"
proof -
  have "length (concat (take i bss)) = i * k"
    using assms(2,3) by (subst length_concat_uniform) (auto dest: in_set_takeD)
  with holds_concat_nth [OF assms(1,2)] show ?thesis by simp
qed

lemma load_holds:
  assumes "8 dvd LENGTH('a::len)" and "holds mem p (word_bytes (w :: 'a word))"
  shows "load_word mem p = w"
  using assms by (simp add: load_word_def holds_def of_le_word_bytes)

lemma char_byte_inverse [simp]: "byte_char (char_byte c) = c"
  proof -
  have "(of_char c :: nat) mod 256 = of_char c" by (rule mod_less) simp
  then show ?thesis by (simp add: char_byte_def byte_char_def unsigned_of_nat take_bit_eq_mod)
qed

lemma char_byte_0_iff [simp]: "char_byte c = 0 \<longleftrightarrow> c = CHR 0x00"
proof
  assume "char_byte c = 0"
  then have "byte_char (char_byte c) = byte_char 0" by (rule arg_cong)
  then have "c = byte_char 0" by (simp only: char_byte_inverse)
  also have "byte_char 0 = CHR 0x00" by (simp add: byte_char_def char_of_def)
  finally show "c = CHR 0x00" .
qed (simp add: char_byte_def)

lemma load_string_holds:
  "holds mem p (string_bytes s) \<Longrightarrow> CHR 0x00 \<notin> set s \<Longrightarrow> load_string mem p = Some s"
proof (induction s arbitrary: p)
  case Nil
  then show ?case by (subst load_string.simps) (simp add: string_bytes_def holds_Cons)
next
  case (Cons c s)
  then show ?case
    by (subst load_string.simps) (auto simp: string_bytes_def holds_Cons)
qed

lemma holds_store: "holds (store_bytes p bs mem) p bs"
  by (simp add: holds_iff store_bytes_def)

lemma store_bytes_Nil [simp]: "store_bytes p [] mem = mem"
  by (rule ext) (auto simp: store_bytes_def)

lemma store_bytes_append:
  "store_bytes p (xs @ ys) mem = store_bytes (p + length xs) ys (store_bytes p xs mem)"
  by (rule ext) (auto simp: store_bytes_def nth_append)

lemma store_bytes_commute:
  "p + length xs \<le> q \<Longrightarrow>
     store_bytes p xs (store_bytes q ys mem) = store_bytes q ys (store_bytes p xs mem)"
  by (rule ext) (auto simp: store_bytes_def)

end
