(* ===== verification/Static_Map.thy ===== *)
theory Static_Map
  imports Std_Map Memory
begin

text \<open>
  \<open>StaticMap\<close> of processor/static_map.h and static_map-inl.h with its iterator
  (static_map_iterator.h, static_map_iterator-inl.h): a read-only map laid out in memory as a
  node count, the offsets of the values, the sorted keys and the values, and searched by
  bisection. A key is the integer it denotes; \<open>val\<close> says how the stored word of the key type
  reads (\<open>uint\<close> for addresses, \<open>sint\<close> for \<open>int\<close> keys). The bisection is the second provider of
  the contract \<open>key_search\<close>.
\<close>

section \<open>The map object\<close>

text \<open>Members of the class; the map also needs the memory that \<open>raw_data_\<close> points into.\<close>

record static_map =
  raw_data :: nat
  num_nodes :: int
  offsets :: nat
  keys_at :: nat

definition StaticMap_init :: static_map where
  "StaticMap_init = \<lparr>raw_data = 0, num_nodes = 0, offsets = 0, keys_at = 0\<rparr>"

definition StaticMap :: "memory \<Rightarrow> nat \<Rightarrow> static_map" where
  "StaticMap mem raw =
     (let n = sint (load_word mem raw :: uint32) in
      \<lparr>raw_data = raw, num_nodes = n, offsets = raw + 4, keys_at = nat (int raw + (1 + n) * 4)\<rparr>)"

text \<open>The default comparison of keys.\<close>

definition DefaultCompare :: "int \<Rightarrow> int \<Rightarrow> int" where
  "DefaultCompare k1 k2 = (if k1 < k2 then - 1 else if k1 = k2 then 0 else 1)"

definition key_address :: "('k::len word \<Rightarrow> int) \<Rightarrow> nat \<Rightarrow> nat \<Rightarrow> nat" where
  "key_address val p i = p + i * (LENGTH('k) div 8)"

definition GetKeyAtIndex :: "memory \<Rightarrow> ('k::len word \<Rightarrow> int) \<Rightarrow> static_map \<Rightarrow> int \<Rightarrow> int" where
  "GetKeyAtIndex mem val m index =
     (if index < 0 \<or> index \<ge> num_nodes m then 0
      else val (load_word mem (key_address val (keys_at m) (nat index))))"

section \<open>Iterators\<close>

record static_map_iterator =
  it_index :: int
  it_base :: nat
  it_num_nodes :: int
  it_offsets :: nat
  it_keys :: nat

definition StaticMapIterator :: "memory \<Rightarrow> nat \<Rightarrow> int \<Rightarrow> static_map_iterator" where
  "StaticMapIterator mem base index =
     (let n = sint (load_word mem base :: uint32) in
      \<lparr>it_index = index, it_base = base, it_num_nodes = n, it_offsets = base + 4,
       it_keys = nat (int base + (1 + n) * 4)\<rparr>)"

definition IsValid :: "static_map_iterator \<Rightarrow> bool" where
  "IsValid it \<longleftrightarrow> \<not> (it_base it = 0 \<or> it_index it < 0 \<or> it_index it > it_num_nodes it)"

text \<open>\<open>operator++\<close> and \<open>operator--\<close>; the postfix forms return the old iterator beside the new one.\<close>

definition pre_increment :: "static_map_iterator \<Rightarrow> static_map_iterator" where
  "pre_increment it =
     (if \<not> IsValid it then it
      else let i = it_index it + 1 in
        it\<lparr>it_index := (if i > it_num_nodes it then it_num_nodes it else i)\<rparr>)"

definition post_increment :: "static_map_iterator \<Rightarrow> static_map_iterator \<times> static_map_iterator" where
  "post_increment it =
     (if \<not> IsValid it then (it, it)
      else let i = it_index it + 1 in
        (it, it\<lparr>it_index := (if i > it_num_nodes it then it_num_nodes it else i)\<rparr>))"

definition pre_decrement :: "static_map_iterator \<Rightarrow> static_map_iterator" where
  "pre_decrement it =
     (if \<not> IsValid it then it
      else let i = it_index it - 1 in it\<lparr>it_index := (if i < 0 then 0 else i)\<rparr>)"

definition post_decrement :: "static_map_iterator \<Rightarrow> static_map_iterator \<times> static_map_iterator" where
  "post_decrement it =
     (if \<not> IsValid it then (it, it)
      else let i = it_index it - 1 in (it, it\<lparr>it_index := (if i < 0 then 0 else i)\<rparr>))"

text \<open>The pointers to the key and to the value; None is NULL.\<close>

definition GetKeyPtr :: "('k::len word \<Rightarrow> int) \<Rightarrow> static_map_iterator \<Rightarrow> nat option" where
  "GetKeyPtr val it =
     (if \<not> IsValid it then None else Some (key_address val (it_keys it) (nat (it_index it))))"

definition GetValueRawPtr :: "memory \<Rightarrow> static_map_iterator \<Rightarrow> nat option" where
  "GetValueRawPtr mem it =
     (if \<not> IsValid it then None
      else Some (it_base it + unat (load_word mem (it_offsets it + nat (it_index it) * 4) :: uint32)))"

text \<open>\<open>GetKey\<close> dereferences the pointer: None is the null dereference.\<close>

definition GetKey :: "memory \<Rightarrow> ('k::len word \<Rightarrow> int) \<Rightarrow> static_map_iterator \<Rightarrow> int option" where
  "GetKey mem val it =
     (case GetKeyPtr val it of None \<Rightarrow> None | Some p \<Rightarrow> Some (val (load_word mem p)))"

definition it_equal :: "static_map_iterator \<Rightarrow> static_map_iterator \<Rightarrow> bool" where
  "it_equal it x \<longleftrightarrow> it_base it = it_base x \<and> it_index it = it_index x"

definition it_not_equal :: "static_map_iterator \<Rightarrow> static_map_iterator \<Rightarrow> bool" where
  "it_not_equal it x \<longleftrightarrow> it_base it \<noteq> it_base x \<or> it_index it \<noteq> it_index x"

definition sm_IteratorAtIndex :: "memory \<Rightarrow> static_map \<Rightarrow> int \<Rightarrow> static_map_iterator" where
  "sm_IteratorAtIndex mem m index = StaticMapIterator mem (raw_data m) index"

definition sm_begin :: "memory \<Rightarrow> static_map \<Rightarrow> static_map_iterator" where
  "sm_begin mem m = sm_IteratorAtIndex mem m 0"

definition sm_end :: "memory \<Rightarrow> static_map \<Rightarrow> static_map_iterator" where
  "sm_end mem m = sm_IteratorAtIndex mem m (num_nodes m)"

definition sm_size :: "static_map \<Rightarrow> int" where
  "sm_size m = num_nodes m"

section \<open>Bisection\<close>

text \<open>
  The loop shared by the three searches: it stops at a key equal to the one sought (True and
  its position), or when the interval is empty (False and its lower end). The indices are
  between 0 and \<open>num_nodes_\<close>, so the \<open>int\<close> arithmetic does not overflow.
\<close>

function search_loop :: "(int \<Rightarrow> int) \<Rightarrow> int \<Rightarrow> int \<Rightarrow> bool \<times> int" where
  "search_loop compare_key lo hi =
     (if lo < hi then
        let middle = lo + (hi - lo) div 2;
            compare_result = compare_key middle in
        if compare_result = 0 then (True, middle)
        else if compare_result < 0 then search_loop compare_key lo middle
        else search_loop compare_key (middle + 1) hi
      else (False, lo))"
  by pat_completeness auto
termination
  by (relation "measure (\<lambda>(c, b, e). nat (e - b))") auto

declare search_loop.simps [simp del]

definition sm_search :: "memory \<Rightarrow> ('k::len word \<Rightarrow> int) \<Rightarrow> static_map \<Rightarrow> int \<Rightarrow> bool \<times> int" where
  "sm_search mem val m key =
     search_loop (\<lambda>middle. DefaultCompare key (GetKeyAtIndex mem val m middle)) 0 (num_nodes m)"

definition sm_find :: "memory \<Rightarrow> ('k::len word \<Rightarrow> int) \<Rightarrow> static_map \<Rightarrow> int \<Rightarrow> static_map_iterator" where
  "sm_find mem val m key =
     (case sm_search mem val m key of
        (True, middle) \<Rightarrow> sm_IteratorAtIndex mem m middle
      | (False, lo) \<Rightarrow> sm_end mem m)"

definition sm_lower_bound :: "memory \<Rightarrow> ('k::len word \<Rightarrow> int) \<Rightarrow> static_map \<Rightarrow> int \<Rightarrow> static_map_iterator" where
  "sm_lower_bound mem val m key =
     (case sm_search mem val m key of
        (True, middle) \<Rightarrow> sm_IteratorAtIndex mem m middle
      | (False, lo) \<Rightarrow> sm_IteratorAtIndex mem m lo)"

definition sm_upper_bound :: "memory \<Rightarrow> ('k::len word \<Rightarrow> int) \<Rightarrow> static_map \<Rightarrow> int \<Rightarrow> static_map_iterator" where
  "sm_upper_bound mem val m key =
     (case sm_search mem val m key of
        (True, middle) \<Rightarrow> sm_IteratorAtIndex mem m (middle + 1)
      | (False, lo) \<Rightarrow> sm_IteratorAtIndex mem m lo)"

section \<open>Validation\<close>

definition offset_at :: "memory \<Rightarrow> static_map \<Rightarrow> nat \<Rightarrow> uint32" where
  "offset_at mem m i = load_word mem (offsets m + i * 4)"

text \<open>The body of the validation loop for one node index.\<close>

definition node_increasing :: "memory \<Rightarrow> ('k::len word \<Rightarrow> int) \<Rightarrow> static_map \<Rightarrow> nat \<Rightarrow> bool" where
  "node_increasing mem val m node_index \<longleftrightarrow>
     \<not> offset_at mem m node_index \<le> offset_at mem m (node_index - 1) \<and>
     \<not> DefaultCompare (GetKeyAtIndex mem val m (int node_index))
         (GetKeyAtIndex mem val m (int node_index - 1)) \<le> 0"

definition ValidateInMemoryStructure :: "memory \<Rightarrow> ('k::len word \<Rightarrow> int) \<Rightarrow> static_map \<Rightarrow> bool" where
  "ValidateInMemoryStructure mem val m \<longleftrightarrow>
     (if raw_data m = 0 then False
      else if sint (load_word mem (raw_data m) :: uint32) < 0 then False
      else if num_nodes m \<noteq> 0 \<and>
        (let first_offset = 4 * (num_nodes m + 1) + int (LENGTH('k) div 8) * num_nodes m in
         first_offset > 0xffffffff \<or> offset_at mem m 0 \<noteq> word_of_int first_offset) then False
      else (\<forall>node_index \<in> set [1..<nat (num_nodes m)]. node_increasing mem val m node_index))"

section \<open>The searches are correct\<close>

lemma search_loop_empty: "\<not> b < e \<Longrightarrow> search_loop c b e = (False, b)"
  by (simp add: search_loop.simps)

lemma search_loop_bounds:
  assumes "search_loop c b e = (hit, i)" and "b \<le> e"
  shows "b \<le> i \<and> (if hit then i < e \<and> c i = 0 else i \<le> e)"
  using assms
proof (induction c b e rule: search_loop.induct)
  case (1 c b e)
  let ?m = "b + (e - b) div 2"
  show ?case
  proof (cases "b < e")
    case True
    then have m: "b \<le> ?m" "?m < e" by auto
    consider "c ?m = 0" | "c ?m < 0" | "c ?m > 0" by linarith
    then show ?thesis
    proof cases
      case 1
      then show ?thesis using "1.prems" True m by (auto simp: search_loop.simps [of c b e] Let_def)
    next
      case 2
      then have "search_loop c b ?m = (hit, i)"
        using "1.prems" True by (simp add: search_loop.simps [of c b e] Let_def)
      then show ?thesis using "1.IH"(1) [OF True refl refl] 2 m by (auto split: if_splits)
    next
      case 3
      then have "search_loop c (?m + 1) e = (hit, i)"
        using "1.prems" True by (simp add: search_loop.simps [of c b e] Let_def)
      then show ?thesis using "1.IH"(2) [OF True refl refl] 3 m by (auto split: if_splits)
    qed
  next
    case False
    then show ?thesis using "1.prems" search_loop_empty [OF False, of c] by (auto split: if_splits)
  qed
qed

text \<open>Against sorted keys, the position divides them into smaller and larger ones.\<close>

lemma search_loop_correct:
  assumes sorted: "sorted_wrt (<) ks" and "0 \<le> b" and "e \<le> int (length ks)" and "b \<le> e"
    and "\<And>i. i < nat b \<Longrightarrow> ks ! i < (k :: int)" and "\<And>i. nat e \<le> i \<Longrightarrow> i < length ks \<Longrightarrow> k < ks ! i"
    and c: "\<And>i. 0 \<le> i \<Longrightarrow> i < int (length ks) \<Longrightarrow> c i = DefaultCompare k (ks ! nat i)"
    and "search_loop c b e = (hit, i)"
  shows "if hit then nat i < length ks \<and> ks ! nat i = k
    else nat i \<le> length ks \<and> (\<forall>j < nat i. ks ! j < k) \<and> (\<forall>j < length ks. nat i \<le> j \<longrightarrow> k < ks ! j)"
  using assms(2-6,8)
proof (induction "nat (e - b)" arbitrary: b e rule: less_induct)
  case less
  let ?m = "b + (e - b) div 2"
  show ?case
  proof (cases "b < e")
    case False
    then show ?thesis using less.prems search_loop_empty [OF False, of c] by (auto split: if_splits)
  next
    case True
    then have m: "0 \<le> ?m" "b \<le> ?m" "?m < e" using less.prems by auto
    then have cm: "c ?m = DefaultCompare k (ks ! nat ?m)" and mi: "nat ?m < length ks"
      using c less.prems by auto
    consider "ks ! nat ?m = k" | "k < ks ! nat ?m" | "ks ! nat ?m < k" by linarith
    then show ?thesis
    proof cases
      case 1
      then have "(hit, i) = (True, ?m)"
        using less.prems(6) True cm by (simp add: search_loop.simps [of c b e] Let_def DefaultCompare_def)
      then show ?thesis using 1 mi by simp
    next
      case 2
      then have s: "search_loop c b ?m = (hit, i)"
        using less.prems(6) True cm by (simp add: search_loop.simps [of c b e] Let_def DefaultCompare_def)
      have "k < ks ! j" if "nat ?m \<le> j" "j < length ks" for j
        using 2 sorted that by (metis le_neq_implies_less order.strict_trans sorted_wrt_nth_less)
      moreover have "nat (?m - b) < nat (e - b)" using m True by linarith
      moreover have "?m \<le> int (length ks)" using m less.prems(2) by linarith
      ultimately show ?thesis
        using less.hyps [OF _ less.prems(1) _ m(2) less.prems(4) _ s] by blast
    next
      case 3
      then have s: "search_loop c (?m + 1) e = (hit, i)"
        using less.prems(6) True cm by (simp add: search_loop.simps [of c b e] Let_def DefaultCompare_def)
      have "ks ! j < k" if "j < nat (?m + 1)" for j
      proof -
        have "j \<le> nat ?m" using that m by linarith
        then show ?thesis using 3 sorted mi
          by (metis le_neq_implies_less order.strict_trans sorted_wrt_nth_less)
      qed
      moreover have "nat (e - (?m + 1)) < nat (e - b)" using m True by linarith
      moreover have "0 \<le> ?m + 1" "?m + 1 \<le> e" using m by linarith+
      ultimately show ?thesis
        using less.hyps [OF _ _ less.prems(2) _ _ less.prems(5) s] by blast
    qed
  qed
qed

section \<open>The contract\<close>

definition sm_keys :: "memory \<Rightarrow> ('k::len word \<Rightarrow> int) \<Rightarrow> static_map \<Rightarrow> int list" where
  "sm_keys mem val m =
     map (\<lambda>i. val (load_word mem (key_address val (keys_at m) i))) [0..<nat (num_nodes m)]"

definition sm_sorted :: "memory \<Rightarrow> ('k::len word \<Rightarrow> int) \<Rightarrow> static_map \<Rightarrow> bool" where
  "sm_sorted mem val m \<longleftrightarrow> 0 \<le> num_nodes m \<and> sorted_wrt (<) (sm_keys mem val m)"

lemma length_sm_keys [simp]: "length (sm_keys mem val m) = nat (num_nodes m)"
  by (simp add: sm_keys_def)

lemma GetKeyAtIndex_keys:
  "0 \<le> i \<Longrightarrow> i < num_nodes m \<Longrightarrow> GetKeyAtIndex mem val m i = sm_keys mem val m ! nat i"
  by (simp add: GetKeyAtIndex_def sm_keys_def)

lemma sm_search_correct:
  assumes "sm_sorted mem val m" and "sm_search mem val m key = (hit, i)"
  shows "0 \<le> i \<and> (let ks = sm_keys mem val m in
    if hit then nat i < length ks \<and> ks ! nat i = key
    else nat i \<le> length ks \<and> (\<forall>j < nat i. ks ! j < key) \<and> (\<forall>j < length ks. nat i \<le> j \<longrightarrow> key < ks ! j))"
proof -
  have n: "0 \<le> num_nodes m" and s: "sorted_wrt (<) (sm_keys mem val m)"
    using assms(1) by (simp_all add: sm_sorted_def)
  note loop = assms(2) [unfolded sm_search_def]
  have "0 \<le> i" using search_loop_bounds [OF loop n] by simp
  moreover have "if hit then nat i < length (sm_keys mem val m) \<and> sm_keys mem val m ! nat i = key
    else nat i \<le> length (sm_keys mem val m) \<and> (\<forall>j < nat i. sm_keys mem val m ! j < key) \<and>
      (\<forall>j < length (sm_keys mem val m). nat i \<le> j \<longrightarrow> key < sm_keys mem val m ! j)"
    by (rule search_loop_correct [OF s _ _ n _ _ _ loop])
      (use n in \<open>simp_all add: GetKeyAtIndex_keys del: GetKeyAtIndex_def\<close>)
  ultimately show ?thesis unfolding Let_def by (rule conjI)
qed

lemma sm_position:
  "it_index (sm_IteratorAtIndex mem m i) = i"
  by (simp add: sm_IteratorAtIndex_def StaticMapIterator_def Let_def)

interpretation sm: key_search "sm_keys mem val"
  "\<lambda>m k. nat (it_index (sm_lower_bound mem val m k))"
  "\<lambda>m k. nat (it_index (sm_upper_bound mem val m k))"
  "sm_sorted mem val" for mem and val :: "'k::len word \<Rightarrow> int"
proof unfold_locales
  fix m k i
  assume m: "sm_sorted mem val m"
  obtain hit j where h: "sm_search mem val m k = (hit, j)" by fastforce
  let ?ks = "sm_keys mem val m"
  note c = sm_search_correct [OF m h, unfolded Let_def]
  show s: "sorted_wrt (<) ?ks" using m by (simp add: sm_sorted_def)
  have lb: "nat (it_index (sm_lower_bound mem val m k)) = nat j"
    by (simp add: sm_lower_bound_def h sm_position split: bool.split)
  have ub: "nat (it_index (sm_upper_bound mem val m k)) = (if hit then Suc (nat j) else nat j)"
    using c by (simp add: sm_upper_bound_def h sm_position nat_add_distrib split: bool.split)
  have less: "?ks ! a < ?ks ! b" if "a < b" "b < length ?ks" for a b
    using s that by (rule sorted_wrt_nth_less)
  show "nat (it_index (sm_lower_bound mem val m k)) \<le> length ?ks"
    "nat (it_index (sm_upper_bound mem val m k)) \<le> length ?ks"
    unfolding lb ub using c by (auto split: if_splits)
  show "?ks ! i < k" if "i < nat (it_index (sm_lower_bound mem val m k))"
    using that c less [of i "nat j"] unfolding lb by (auto split: if_splits)
  show "?ks ! i \<le> k" if "i < nat (it_index (sm_upper_bound mem val m k))"
    using that c less [of i "nat j"] unfolding ub
    by (cases "i = nat j") (auto split: if_splits intro: less_imp_le)
  assume i: "i < length ?ks"
  show "k \<le> ?ks ! i" if "nat (it_index (sm_lower_bound mem val m k)) \<le> i"
    using that c less [of "nat j" i] i unfolding lb
    by (cases "i = nat j") (auto split: if_splits intro: less_imp_le)
  show "k < ?ks ! i" if "nat (it_index (sm_upper_bound mem val m k)) \<le> i"
    using that c less [of "nat j" i] i unfolding ub by (auto split: if_splits)
qed

text \<open>A map that passes the validation satisfies the contract's premise.\<close>

lemma Validate_sorted:
  assumes "ValidateInMemoryStructure mem val (StaticMap mem raw)"
  shows "sm_sorted mem val (StaticMap mem raw)"
proof -
  let ?m = "StaticMap mem raw"
  have n: "0 \<le> num_nodes ?m"
    using assms by (auto simp: ValidateInMemoryStructure_def StaticMap_def Let_def split: if_splits)
  have node: "node_increasing mem val ?m i" if "1 \<le> i" "i < nat (num_nodes ?m)" for i
    using assms that unfolding ValidateInMemoryStructure_def by (auto split: if_splits)
  then have step: "sm_keys mem val ?m ! i < sm_keys mem val ?m ! Suc i"
    if "Suc i < nat (num_nodes ?m)" for i
  proof -
    have "node_increasing mem val ?m (Suc i)" using node that by simp
    moreover have "GetKeyAtIndex mem val ?m (int (Suc i)) = sm_keys mem val ?m ! Suc i"
      "GetKeyAtIndex mem val ?m (int (Suc i) - 1) = sm_keys mem val ?m ! i"
      using that GetKeyAtIndex_keys [of "int i" ?m mem val] GetKeyAtIndex_keys [of "int (Suc i)" ?m mem val]
      by (simp_all add: nat_add_distrib)
    ultimately show ?thesis by (simp add: node_increasing_def DefaultCompare_def split: if_splits)
  qed
  have "sorted_wrt (<) (sm_keys mem val ?m)"
    unfolding sorted_wrt_iff_nth_Suc_transp [OF transp_on_less] using step by simp
  with n show ?thesis by (simp add: sm_sorted_def)
qed

section \<open>Static maps that represent a map\<close>

text \<open>
  A static map represents an association list when it has its keys, and each value pointer
  leads to the bytes of the value. \<open>key\<close> is the integer that a key denotes.
\<close>

definition static_of ::
  "memory \<Rightarrow> ('w::len word \<Rightarrow> int) \<Rightarrow> ('k::linorder \<Rightarrow> int) \<Rightarrow> ('v \<Rightarrow> bytes) \<Rightarrow> static_map \<Rightarrow>
     ('k, 'v) std_map \<Rightarrow> bool" where
  "static_of mem val key img m std \<longleftrightarrow>
     raw_data m \<noteq> 0 \<and> m = StaticMap mem (raw_data m) \<and> keys_sorted std \<and>
     num_nodes m = int (length std) \<and> sm_keys mem val m = map (key \<circ> fst) std \<and>
     (\<forall>i < length std. \<exists>q. GetValueRawPtr mem (sm_IteratorAtIndex mem m (int i)) = Some q \<and> q \<noteq> 0 \<and>
        holds mem q (img (snd (std ! i))))"

lemma iterator_valid:
  "static_of mem val key img m std \<Longrightarrow> 0 \<le> i \<Longrightarrow> i \<le> int (length std) \<Longrightarrow>
     IsValid (sm_IteratorAtIndex mem m i) \<and> it_num_nodes (sm_IteratorAtIndex mem m i) = int (length std)"
  unfolding static_of_def
  by (metis IsValid_def StaticMapIterator_def StaticMap_def linorder_not_less sm_IteratorAtIndex_def
      static_map.select_convs(2) static_map_iterator.select_convs(1,2,3))

lemma iterator_key:
  assumes "static_of mem val key img m std" and "i < length std"
  shows "GetKey mem val (sm_IteratorAtIndex mem m (int i)) = Some (key (fst (std ! i)))"
proof -
  have raw: "m = StaticMap mem (raw_data m)" and n: "nat (num_nodes m) = length std"
    and ks: "sm_keys mem val m = map (key \<circ> fst) std"
    using assms(1) by (simp_all add: static_of_def)
  have "it_keys (sm_IteratorAtIndex mem m (int i)) = keys_at m"
    by (subst (2) raw) (simp add: sm_IteratorAtIndex_def StaticMapIterator_def StaticMap_def Let_def)
  moreover have "val (load_word mem (key_address val (keys_at m) i)) = sm_keys mem val m ! i"
    using assms(2) n by (simp add: sm_keys_def)
  ultimately show ?thesis
    using iterator_valid [OF assms(1), of "int i"] assms(2) ks
    by (simp add: GetKey_def GetKeyPtr_def sm_position)
qed

lemma static_sorted:
  assumes "static_of mem val key img m std" and "strict_mono key"
  shows "sm_sorted mem val m"
  using assms
  by (simp add: static_of_def sm_sorted_def keys_sorted_def sorted_wrt_map strict_mono_less)

lemma sm_bounds_of:
  assumes "static_of mem val key img m std" and "strict_mono key"
  shows "sm_lower_bound mem val m (key k) = sm_IteratorAtIndex mem m (int (lower_bound std k))"
    and "sm_upper_bound mem val m (key k) = sm_IteratorAtIndex mem m (int (upper_bound std k))"
proof -
  note s = static_sorted [OF assms]
  have ks: "sm_keys mem val m = map (key \<circ> fst) std" using assms(1) by (simp add: static_of_def)
  obtain hit j where h: "sm_search mem val m (key k) = (hit, j)" by fastforce
  have j: "0 \<le> j" using sm_search_correct [OF s h] by simp
  have lb: "sm_lower_bound mem val m (key k) = sm_IteratorAtIndex mem m j"
    and ub: "sm_upper_bound mem val m (key k) = sm_IteratorAtIndex mem m (if hit then j + 1 else j)"
    by (simp_all add: sm_lower_bound_def sm_upper_bound_def h split: bool.split)
  have "nat j = lower_bound std k"
    using sm.lb_length_takeWhile [OF s, of "key k"] assms(2)
    by (simp add: lb sm_position ks takeWhile_map lower_bound_def strict_mono_less o_def)
  then show "sm_lower_bound mem val m (key k) = sm_IteratorAtIndex mem m (int (lower_bound std k))"
    using j lb by (metis nat_0_le)
  have "nat (if hit then j + 1 else j) = upper_bound std k"
    using sm.ub_length_takeWhile [OF s, of "key k"] assms(2)
    by (simp add: ub sm_position ks takeWhile_map upper_bound_def strict_mono_less_eq o_def)
  then show "sm_upper_bound mem val m (key k) = sm_IteratorAtIndex mem m (int (upper_bound std k))"
    using j ub by (metis (full_types) add_nonneg_nonneg nat_0_le zero_le_one)
qed

lemma sm_find_of:
  assumes "static_of mem val key img m std" and "strict_mono key"
  shows "sm_find mem val m (key k) = sm_IteratorAtIndex mem m (int (map_find std k))"
proof -
  note s = static_sorted [OF assms] and lb = sm_bounds_of(1) [OF assms, of k]
  have ks: "sm_keys mem val m = map (key \<circ> fst) std" and n: "num_nodes m = int (length std)"
    using assms(1) by (simp_all add: static_of_def)
  obtain hit j where h: "sm_search mem val m (key k) = (hit, j)" by fastforce
  have pos: "j = int (lower_bound std k)"
    using arg_cong [OF lb, of it_index] by (simp add: sm_lower_bound_def h sm_position split: bool.splits)
  note c = sm_search_correct [OF s h]
  have inj: "key x = key y \<longleftrightarrow> x = y" for x y using assms(2) by (simp add: strict_mono_eq)
  have "hit \<longleftrightarrow> lower_bound std k < length std \<and> fst (std ! lower_bound std k) = k"
    using c by (auto simp: pos ks n inj Let_def split: if_splits)
  then show ?thesis
    using pos n by (auto simp: sm_find_def h map_find_def sm_end_def Let_def split: bool.split)
qed

section \<open>The memory image of a map\<close>

fun value_offsets :: "nat \<Rightarrow> bytes list \<Rightarrow> nat list" where
  "value_offsets off [] = []"
| "value_offsets off (v # vs) = off # value_offsets (off + length v) vs"

definition offset_bytes :: "nat \<Rightarrow> bytes" where
  "offset_bytes off = word_bytes (word_of_nat off :: uint32)"

text \<open>Number of nodes, offsets of the values from the start, keys, values.\<close>

definition map_image :: "(bytes \<times> bytes) list \<Rightarrow> bytes" where
  "map_image kvs =
     offset_bytes (length kvs) @
     concat (map offset_bytes (value_offsets
       (4 + 4 * length kvs + length (concat (map fst kvs))) (map snd kvs))) @
     concat (map fst kvs) @ concat (map snd kvs)"

lemma length_offset_bytes [simp]: "length (offset_bytes n) = 4"
  by (simp add: offset_bytes_def)

lemma length_value_offsets [simp]: "length (value_offsets off vs) = length vs"
  by (induction off vs rule: value_offsets.induct) auto

lemma nth_value_offsets:
  "i < length vs \<Longrightarrow> value_offsets off vs ! i = off + length (concat (take i vs))"
  by (induction off vs arbitrary: i rule: value_offsets.induct) (auto simp: nth_Cons split: nat.splits)

lemma length_offset_table [simp]: "length (concat (map offset_bytes ns)) = 4 * length ns"
  by (induction ns) auto

lemma length_map_image:
  "length (map_image kvs) = 4 + 4 * length kvs + length (concat (map fst kvs)) + length (concat (map snd kvs))"
  by (simp add: map_image_def)

lemma load_offset: "holds mem p (offset_bytes n) \<Longrightarrow> n < 2 ^ 32 \<Longrightarrow> unat (load_word mem p :: uint32) = n"
  unfolding offset_bytes_def by (subst load_holds) (auto simp: unsigned_of_nat take_bit_eq_mod)

lemma length_concat_take: "length (concat (take i xs)) \<le> length (concat xs)"
  by (metis append_take_drop_id concat_append le_add1 length_append)

lemma holds_table:
  "holds mem p (concat (map offset_bytes ns)) \<Longrightarrow> i < length ns \<Longrightarrow>
     holds mem (p + i * 4) (offset_bytes (ns ! i))"
  using holds_concat_uniform [of mem p "map offset_bytes ns" i 4] by simp

lemma StaticMap_image:
  fixes val :: "'w::len word \<Rightarrow> int"
  assumes holds_image: "holds mem p (map_image kvs)" and p: "p \<noteq> 0"
    and K: "\<forall>kv \<in> set kvs. length (fst kv) = LENGTH('w) div 8" "8 dvd LENGTH('w)"
    and small: "length (map_image kvs) < 2 ^ 32"
  shows "num_nodes (StaticMap mem p) = int (length kvs)"
    and "i < length kvs \<Longrightarrow>
      holds mem (key_address val (keys_at (StaticMap mem p)) i) (fst (kvs ! i))"
    and "i < length kvs \<Longrightarrow> \<exists>q. GetValueRawPtr mem (sm_IteratorAtIndex mem (StaticMap mem p) (int i)) = Some q \<and>
      q \<noteq> 0 \<and> holds mem q (snd (kvs ! i))"
proof -
  let ?n = "length kvs" and ?ks = "concat (map fst kvs)" and ?vs = "concat (map snd kvs)"
  let ?hd = "4 + 4 * ?n + length ?ks"
  let ?offs = "value_offsets ?hd (map snd kvs)"
  have n0: "holds mem p (offset_bytes ?n)"
    and offs: "holds mem (p + 4) (concat (map offset_bytes ?offs))"
    and ks: "holds mem (p + 4 + 4 * ?n) ?ks" and vs: "holds mem (p + ?hd) ?vs"
    using holds_image by (simp_all add: map_image_def holds_append add.assoc)
  have lens: "?hd + length ?vs < 2 ^ 32" using small by (simp add: length_map_image)
  have "?n < 2 ^ 31" using lens by simp
  have ld: "(load_word mem p :: uint32) = word_of_nat ?n"
    using n0 by (simp add: offset_bytes_def load_holds)
  have nn: "sint (load_word mem p :: uint32) = int ?n"
    unfolding ld using \<open>?n < 2 ^ 31\<close>
    by (simp add: signed_of_nat signed_take_bit_int_eq_self_iff)
  then show num: "num_nodes (StaticMap mem p) = int ?n" by (simp add: StaticMap_def Let_def)
  have keys: "keys_at (StaticMap mem p) = p + 4 + 4 * ?n"
    using nn by (simp add: StaticMap_def Let_def)
  show "holds mem (key_address val (keys_at (StaticMap mem p)) i) (fst (kvs ! i))" if "i < ?n"
    using holds_concat_uniform [OF ks, of i "LENGTH('w) div 8"] K(1) that
    by (simp add: keys key_address_def)
  show "\<exists>q. GetValueRawPtr mem (sm_IteratorAtIndex mem (StaticMap mem p) (int i)) = Some q \<and>
      q \<noteq> 0 \<and> holds mem q (snd (kvs ! i))" if i: "i < ?n"
  proof -
    have off: "?offs ! i = ?hd + length (concat (take i (map snd kvs)))"
      using i by (simp add: nth_value_offsets)
    then have "?offs ! i < 2 ^ 32"
      using lens length_concat_take [of i "map snd kvs"] by linarith
    moreover have "i < length ?offs" using i by simp
    then have "holds mem (p + 4 + i * 4) (offset_bytes (?offs ! i))"
      by (rule holds_table [OF offs])
    ultimately have "unat (load_word mem (p + 4 + i * 4) :: uint32) = ?offs ! i"
      by (rule load_offset [rotated])
    moreover have "holds mem (p + ?offs ! i) (snd (kvs ! i))"
      using holds_concat_nth [OF vs, of i] i off by (simp add: add.assoc)
    ultimately show ?thesis
      using p nn i
      by (intro exI [of _ "p + ?offs ! i"])
        (simp add: GetValueRawPtr_def IsValid_def sm_IteratorAtIndex_def StaticMapIterator_def StaticMap_def Let_def)
  qed
qed

text \<open>The image of a sorted map represents it.\<close>

lemma static_of_image:
  fixes val :: "'w::len word \<Rightarrow> int"
  assumes holds_image: "holds mem p (map_image (map (\<lambda>(k, v). (kimage k, img v)) std))" and p: "p \<noteq> 0"
    and K: "\<And>k. length (kimage k) = LENGTH('w) div 8" "8 dvd LENGTH('w)"
    and val: "\<And>q k. k \<in> fst ` set std \<Longrightarrow> holds mem q (kimage k) \<Longrightarrow>
      val (load_word mem q) = key k"
    and small: "length (map_image (map (\<lambda>(k, v). (kimage k, img v)) std)) < 2 ^ 32"
    and sorted: "keys_sorted std"
  shows "static_of mem val key img (StaticMap mem p) std"
proof -
  let ?kvs = "map (\<lambda>(k, v). (kimage k, img v)) std"
  have "\<forall>kv \<in> set ?kvs. length (fst kv) = LENGTH('w) div 8" using K(1) by auto
  note im = StaticMap_image(1,3) [OF holds_image p this K(2) small]
    StaticMap_image(2) [OF holds_image p this K(2) small, where val = val]
  have "sm_keys mem val (StaticMap mem p) = map (key \<circ> fst) std"
  proof (rule nth_equalityI)
    fix i assume "i < length (sm_keys mem val (StaticMap mem p))"
    then have i: "i < length std" using im(1) by simp
    then have "fst (std ! i) \<in> fst ` set std" by simp
    moreover have "holds mem (key_address val (keys_at (StaticMap mem p)) i) (kimage (fst (std ! i)))"
      using im(3) [of i] i by (simp add: case_prod_beta)
    ultimately show "sm_keys mem val (StaticMap mem p) ! i = map (key \<circ> fst) std ! i"
      using i im(1) val by (simp add: sm_keys_def)
  qed (use im(1) in simp)
  moreover have "raw_data (StaticMap mem p) = p" by (simp add: StaticMap_def Let_def)
  ultimately show ?thesis
    using im(1,2) p sorted by (simp add: static_of_def case_prod_beta)
qed

section \<open>The searches agree with a scan of the keys\<close>

text \<open>On a map that passes the validation, bisection finds what a scan of the keys from the
  left would: \<open>lower_bound\<close> the first key not below the request, \<open>upper_bound\<close> the first one
  above it, and \<open>find\<close> the position of the key, or the end when it is absent.\<close>

theorem StaticMap_bisection:
  fixes val :: "'k::len word \<Rightarrow> int"
  assumes "ValidateInMemoryStructure mem val (StaticMap mem raw)"
  shows "let m = StaticMap mem raw; ks = sm_keys mem val m in
    nat (it_index (sm_lower_bound mem val m k)) = length (takeWhile (\<lambda>x. x < k) ks) \<and>
    nat (it_index (sm_upper_bound mem val m k)) = length (takeWhile (\<lambda>x. x \<le> k) ks) \<and>
    nat (it_index (sm_find mem val m k)) =
      (if k \<in> set ks then length (takeWhile (\<lambda>x. x < k) ks) else length ks)"
proof -
  let ?m = "StaticMap mem raw" and ?ks = "sm_keys mem val (StaticMap mem raw)"
  note s = Validate_sorted [OF assms]
  obtain hit j where h: "sm_search mem val ?m k = (hit, j)" by fastforce
  note c = sm_search_correct [OF s h, unfolded Let_def]
  have lb: "nat (it_index (sm_lower_bound mem val ?m k)) = nat j"
    by (simp add: sm_lower_bound_def h sm_position split: bool.split)
  have "hit \<longleftrightarrow> k \<in> set ?ks"
  proof (cases hit)
    case True
    then show ?thesis using c nth_mem [of "nat j" ?ks] by auto
  next
    case False
    then have "k \<noteq> ?ks ! i" if "i < length ?ks" for i
      using c that by (metis linorder_not_less order_less_irrefl)
    then show ?thesis using False by (metis in_set_conv_nth)
  qed
  then have "nat (it_index (sm_find mem val ?m k)) = (if k \<in> set ?ks then nat j else length ?ks)"
    using c by (auto simp: sm_find_def h sm_position sm_end_def split: bool.split)
  then show ?thesis
    using sm.lb_length_takeWhile [OF s, of k] sm.ub_length_takeWhile [OF s, of k] lb
    by (simp add: Let_def)
qed

definition example_memory :: memory where
  "example_memory = store_bytes 16 (map_image [([3, 0, 0, 0], [7]), ([9, 0, 0, 0], [8])]) (\<lambda>_. 0)"

lemma example_memory_valid:
  "ValidateInMemoryStructure example_memory (sint :: uint32 \<Rightarrow> int) (StaticMap example_memory 16)"
  by code_simp

theorem StaticMap_bisection_witness:
  "let m = StaticMap example_memory 16; ks = sm_keys example_memory (sint :: uint32 \<Rightarrow> int) m in
    nat (it_index (sm_lower_bound example_memory (sint :: uint32 \<Rightarrow> int) m 5)) = length (takeWhile (\<lambda>x. x < 5) ks) \<and>
    nat (it_index (sm_upper_bound example_memory (sint :: uint32 \<Rightarrow> int) m 5)) = length (takeWhile (\<lambda>x. x \<le> 5) ks) \<and>
    nat (it_index (sm_find example_memory (sint :: uint32 \<Rightarrow> int) m 5)) =
      (if 5 \<in> set ks then length (takeWhile (\<lambda>x. x < 5) ks) else length ks)"
  by (rule StaticMap_bisection [OF example_memory_valid])

end
