(* ===== verification/Static_Lookup.thy ===== *)
theory Static_Lookup
  imports Static_Map Range_Map Contained_Range_Map Address_Map
begin

text \<open>
  The read-only counterparts of the maps of symbol data: \<open>StaticRangeMap\<close>, \<open>StaticAddressMap\<close>
  and \<open>StaticContainedRangeMap\<close> (processor/static_range_map-inl.h, static_address_map-inl.h,
  static_contained_range_map-inl.h). An entry is returned as a pointer. The outer option of a
  result is None where the code would use a null pointer or not return, the inner option is
  the boolean result. Where the memory holds the image of a map, the lookups answer what the
  original map answers.
\<close>

section \<open>StaticRangeMap\<close>

text \<open>The class \<open>Range\<close>: the base address, followed by the entry.\<close>

definition range_base :: "memory \<Rightarrow> nat \<Rightarrow> 'a::len word" where
  "range_base mem rng = load_word mem rng"

definition range_entryptr :: "'a::len word itself \<Rightarrow> nat \<Rightarrow> nat" where
  "range_entryptr T rng = rng + LENGTH('a) div 8"

text \<open>What the retrieving operations hand back for the range at an iterator.\<close>

definition srm_result ::
  "memory \<Rightarrow> static_map_iterator \<Rightarrow> (nat \<times> 'a::len word \<times> 'a word) option" where
  "srm_result mem it =
     (case GetValueRawPtr mem it of
        None \<Rightarrow> None
      | Some rng \<Rightarrow>
          (case GetKey mem (uint :: 'a word \<Rightarrow> int) it of
             None \<Rightarrow> None
           | Some key \<Rightarrow> Some (range_entryptr TYPE('a word) rng, range_base mem rng,
               word_of_int key - range_base mem rng + 1)))"

definition srm_RetrieveRange ::
  "memory \<Rightarrow> static_map \<Rightarrow> 'a::len word \<Rightarrow> (nat \<times> 'a word \<times> 'a word) option option" where
  "srm_RetrieveRange mem smap address =
     (let it = sm_lower_bound mem (uint :: 'a word \<Rightarrow> int) smap (uint address) in
      if it_equal it (sm_end mem smap) then Some None
      else
        case GetValueRawPtr mem it of
          None \<Rightarrow> None
        | Some rng \<Rightarrow>
            if address < range_base mem rng then Some None
            else map_option Some (srm_result mem it))"

definition srm_RetrieveNearestRange ::
  "memory \<Rightarrow> static_map \<Rightarrow> 'a::len word \<Rightarrow> (nat \<times> 'a word \<times> 'a word) option option" where
  "srm_RetrieveNearestRange mem smap address =
     (case srm_RetrieveRange mem smap address of
        None \<Rightarrow> None
      | Some (Some r) \<Rightarrow> Some (Some r)
      | Some None \<Rightarrow>
          (let it = sm_upper_bound mem (uint :: 'a word \<Rightarrow> int) smap (uint address) in
           if it_equal it (sm_begin mem smap) then Some None
           else map_option Some (srm_result mem (pre_decrement it))))"

definition srm_GetCount :: "static_map \<Rightarrow> int" where
  "srm_GetCount smap = sm_size smap"

definition srm_RetrieveRangeAtIndex ::
  "memory \<Rightarrow> static_map \<Rightarrow> int \<Rightarrow> (nat \<times> 'a::len word \<times> 'a word) option option" where
  "srm_RetrieveRangeAtIndex mem smap index =
     (if index \<ge> srm_GetCount smap then Some None
      else map_option Some (srm_result mem (sm_IteratorAtIndex mem smap index)))"

section \<open>StaticAddressMap\<close>

definition sam_Retrieve ::
  "memory \<Rightarrow> static_map \<Rightarrow> 'a::len word \<Rightarrow> (nat \<times> 'a word) option option" where
  "sam_Retrieve mem smap address =
     (let it = sm_upper_bound mem (uint :: 'a word \<Rightarrow> int) smap (uint address) in
      if it_equal it (sm_begin mem smap) then Some None
      else
        let it = pre_decrement it in
        case GetValueRawPtr mem it of
          None \<Rightarrow> None
        | Some entry \<Rightarrow>
            (case GetKey mem (uint :: 'a word \<Rightarrow> int) it of
               None \<Rightarrow> None
             | Some key \<Rightarrow> Some (Some (entry, word_of_int key))))"

section \<open>StaticContainedRangeMap\<close>

text \<open>The entry pointer is NULL (0) when the entry has size 0.\<close>

record 'addr static_contained_range_map =
  scrm_base :: 'addr
  scrm_entry_size :: uint32
  scrm_entry_ptr :: nat
  scrm_map :: static_map

definition StaticContainedRangeMap :: "memory \<Rightarrow> nat \<Rightarrow> 'a::len word static_contained_range_map" where
  "StaticContainedRangeMap mem base =
     (let base_size = LENGTH('a) div 8; entry_size = load_word mem (base + base_size) in
      \<lparr>scrm_base = load_word mem base, scrm_entry_size = entry_size,
       scrm_entry_ptr = (if entry_size = 0 then 0 else base + base_size + 4),
       scrm_map = StaticMap mem (base + base_size + 4 + unat entry_size)\<rparr>)"

text \<open>
  The recursion follows pointers in the memory, so it is bounded only by the data: a child lies
  behind its parent, and on damaged data the chain of children need not end.
\<close>

partial_function (option) scrm_RetrieveRange ::
  "memory \<Rightarrow> 'a::len word static_contained_range_map \<Rightarrow> 'a word \<Rightarrow> nat option option" where
  "scrm_RetrieveRange mem this address =
     (let it = sm_lower_bound mem (uint :: 'a word \<Rightarrow> int) (scrm_map this) (uint address) in
      if it_equal it (sm_end mem (scrm_map this)) then Some None
      else Option.bind (GetValueRawPtr mem it) (\<lambda>memory_child.
        let child_map = StaticContainedRangeMap mem memory_child :: 'a word static_contained_range_map in
        if address < scrm_base child_map then Some None
        else Option.bind (scrm_RetrieveRange mem child_map address) (\<lambda>found.
          case found of
            None \<Rightarrow> Some (Some (scrm_entry_ptr child_map))
          | Some entry \<Rightarrow> Some (Some entry))))"

section \<open>Range maps in memory\<close>

text \<open>The bytes of a value of the map: the base of the range and its entry.\<close>

definition range_image :: "('e \<Rightarrow> bytes) \<Rightarrow> ('a::len word, 'e) rm_range \<Rightarrow> bytes" where
  "range_image img r = word_bytes (rng_base r) @ img (rng_entry r)"

definition srm_of ::
  "memory \<Rightarrow> ('e \<Rightarrow> bytes) \<Rightarrow> static_map \<Rightarrow> ('a::len word, 'e) range_map \<Rightarrow> bool" where
  "srm_of mem img smap rm \<longleftrightarrow>
     static_of mem (uint :: 'a word \<Rightarrow> int) uint (range_image img) smap (rm_map rm)"

lemma strict_mono_uint: "strict_mono (uint :: 'a::len word \<Rightarrow> int)"
  by (simp add: strict_mono_def word_less_def)

lemma it_equal_at:
  "it_equal (sm_IteratorAtIndex mem m i) (sm_IteratorAtIndex mem m j) \<longleftrightarrow> i = j"
  by (simp add: it_equal_def sm_IteratorAtIndex_def StaticMapIterator_def Let_def)

lemma pre_decrement_at:
  assumes "static_of mem val key img m std" and "0 < i" and "i \<le> length std"
  shows "pre_decrement (sm_IteratorAtIndex mem m (int i)) = sm_IteratorAtIndex mem m (int (i - 1))"
  using iterator_valid [OF assms(1), of "int i"] assms(2,3)
  by (simp add: pre_decrement_def sm_position Let_def)
    (simp add: sm_IteratorAtIndex_def StaticMapIterator_def Let_def of_nat_diff)

text \<open>A pointer result stands for an entry when the entry's bytes are at the pointer.\<close>

definition points_to :: "memory \<Rightarrow> ('e \<Rightarrow> bytes) \<Rightarrow> nat \<Rightarrow> 'e \<Rightarrow> bool" where
  "points_to mem img q e \<longleftrightarrow> q \<noteq> 0 \<and> holds mem q (img e)"

lemma srm_result_at:
  fixes std :: "('a::len word, ('a word, 'e) rm_range) std_map"
  assumes "static_of mem (uint :: 'a word \<Rightarrow> int) uint (range_image img) m std" and "i < length std"
    and "8 dvd LENGTH('a)"
  obtains q p where "GetValueRawPtr mem (sm_IteratorAtIndex mem m (int i)) = Some p"
    and "range_base mem p = rng_base (snd (std ! i))"
    and "points_to mem img q (rng_entry (snd (std ! i)))"
    and "srm_result mem (sm_IteratorAtIndex mem m (int i)) =
      Some (q, rng_base (snd (std ! i)), fst (std ! i) - rng_base (snd (std ! i)) + 1)"
proof -
  let ?e = "std ! i"
  obtain p where p: "GetValueRawPtr mem (sm_IteratorAtIndex mem m (int i)) = Some p" "p \<noteq> 0"
      "holds mem p (range_image img (snd ?e))"
    using assms(1,2) by (auto simp: static_of_def)
  have b: "range_base mem p = rng_base (snd ?e)"
    using p(3) assms(3) by (simp add: range_base_def range_image_def holds_append load_holds)
  have q: "points_to mem img (p + LENGTH('a) div 8) (rng_entry (snd ?e))"
    using p(2,3) by (simp add: points_to_def range_image_def holds_append)
  have "srm_result mem (sm_IteratorAtIndex mem m (int i)) =
      Some (p + LENGTH('a) div 8, rng_base (snd ?e), fst ?e - rng_base (snd ?e) + 1)"
    using iterator_key [OF assms(1,2)] p(1) b by (simp add: srm_result_def range_entryptr_def)
  with p(1) b q show ?thesis by (rule that)
qed

text \<open>The result of a lookup in memory, against that of the original map.\<close>

definition same_range ::
  "memory \<Rightarrow> ('e \<Rightarrow> bytes) \<Rightarrow> (nat \<times> 'a word \<times> 'a word) option option \<Rightarrow>
     ('e \<times> 'a::len word \<times> 'a word \<times> 'a word) option \<Rightarrow> bool" where
  "same_range mem img found original \<longleftrightarrow>
     (case original of
        None \<Rightarrow> found = Some None
      | Some (e, base, delta, sz) \<Rightarrow> \<exists>q. found = Some (Some (q, base, sz)) \<and> points_to mem img q e)"

lemma srm_RetrieveRange_of:
  fixes rm :: "('a::len word, 'e) range_map"
  assumes "srm_of mem img m rm" and "8 dvd LENGTH('a)"
  shows "same_range mem img (srm_RetrieveRange mem m a) (RetrieveRange rm a)"
proof -
  let ?s = "rm_map rm"
  note st = assms(1) [unfolded srm_of_def]
  note lb = sm_bounds_of(1) [OF st strict_mono_uint, of a]
  have n: "num_nodes m = int (length ?s)" using st by (simp add: static_of_def)
  show ?thesis
  proof (cases "lower_bound ?s a = length ?s")
    case True
    then show ?thesis
      using lb n by (simp add: same_range_def srm_RetrieveRange_def RetrieveRange_def sm_end_def it_equal_at)
  next
    case False
    then have i: "lower_bound ?s a < length ?s" using lower_bound_le_length [of ?s a] by linarith
    obtain q p where r: "GetValueRawPtr mem (sm_IteratorAtIndex mem m (int (lower_bound ?s a))) = Some p"
      "range_base mem p = rng_base (snd (?s ! lower_bound ?s a))"
      "points_to mem img q (rng_entry (snd (?s ! lower_bound ?s a)))"
      "srm_result mem (sm_IteratorAtIndex mem m (int (lower_bound ?s a))) =
        Some (q, rng_base (snd (?s ! lower_bound ?s a)),
          fst (?s ! lower_bound ?s a) - rng_base (snd (?s ! lower_bound ?s a)) + 1)"
      using srm_result_at [OF st i assms(2)] .
    show ?thesis
      using False r lb n
      by (cases "?s ! lower_bound ?s a")
        (simp add: same_range_def srm_RetrieveRange_def RetrieveRange_def sm_end_def it_equal_at
          range_result_def Let_def)
  qed
qed

lemma srm_RetrieveNearestRange_of:
  fixes rm :: "('a::len word, 'e) range_map"
  assumes "srm_of mem img m rm" and "8 dvd LENGTH('a)"
  shows "same_range mem img (srm_RetrieveNearestRange mem m a) (RetrieveNearestRange rm a)"
proof -
  let ?s = "rm_map rm" and ?u = "upper_bound (rm_map rm) a"
  note st = assms(1) [unfolded srm_of_def]
  note ub = sm_bounds_of(2) [OF st strict_mono_uint, of a]
  note rng = srm_RetrieveRange_of [OF assms, of a]
  show ?thesis
  proof (cases "RetrieveRange rm a")
    case (Some r)
    then show ?thesis using rng
      by (cases r) (auto simp: same_range_def srm_RetrieveNearestRange_def RetrieveNearestRange_def)
  next
    case None
    then have miss: "srm_RetrieveRange mem m a = Some None" using rng by (simp add: same_range_def)
    show ?thesis
    proof (cases "?u = 0")
      case True
      then show ?thesis
        using miss None ub
        by (simp add: same_range_def srm_RetrieveNearestRange_def RetrieveNearestRange_def sm_begin_def
            it_equal_at)
    next
      case False
      have le: "?u \<le> length ?s" by (rule upper_bound_le_length)
      then have i: "?u - 1 < length ?s" using False by linarith
      obtain q p where "points_to mem img q (rng_entry (snd (?s ! (?u - 1))))"
        "srm_result mem (sm_IteratorAtIndex mem m (int (?u - 1))) =
          Some (q, rng_base (snd (?s ! (?u - 1))), fst (?s ! (?u - 1)) - rng_base (snd (?s ! (?u - 1))) + 1)"
        using srm_result_at [OF st i assms(2)] by metis
      then show ?thesis
        using False miss None ub pre_decrement_at [OF st _ le]
        by (cases "?s ! (?u - 1)")
          (simp add: same_range_def srm_RetrieveNearestRange_def RetrieveNearestRange_def sm_begin_def
            it_equal_at range_result_def Let_def)
    qed
  qed
qed

lemma sam_Retrieve_of:
  fixes M :: "('a::len word, 'e) address_map"
  assumes "static_of mem (uint :: 'a word \<Rightarrow> int) uint img m (am_map M)"
  shows "case am_Retrieve M a of None \<Rightarrow> sam_Retrieve mem m a = Some None
    | Some (e, k) \<Rightarrow> \<exists>q. sam_Retrieve mem m a = Some (Some (q, k)) \<and> points_to mem img q e"
proof -
  let ?s = "am_map M" and ?u = "upper_bound (am_map M) a"
  note ub = sm_bounds_of(2) [OF assms strict_mono_uint, of a]
  show ?thesis
  proof (cases "?u = 0")
    case True
    then show ?thesis using ub by (simp add: sam_Retrieve_def am_Retrieve_def sm_begin_def it_equal_at)
  next
    case False
    have le: "?u \<le> length ?s" by (rule upper_bound_le_length)
    then have i: "?u - 1 < length ?s" using False by linarith
    obtain q where q: "GetValueRawPtr mem (sm_IteratorAtIndex mem m (int (?u - 1))) = Some q"
        "points_to mem img q (snd (?s ! (?u - 1)))"
      using assms i by (auto simp: static_of_def points_to_def)
    show ?thesis
      using False ub q iterator_key [OF assms i] pre_decrement_at [OF assms _ le]
      by (simp add: sam_Retrieve_def am_Retrieve_def sm_begin_def it_equal_at Let_def)
  qed
qed

section \<open>Contained range maps in memory\<close>

text \<open>Base, size of the entry, entry, and the map of the children by their high addresses.\<close>

function crm_image :: "('e \<Rightarrow> bytes) \<Rightarrow> ('a::len word, 'e) crm \<Rightarrow> bytes" where
  "crm_image img n =
     word_bytes (crm_base n) @ offset_bytes (length (img (crm_entry n))) @ img (crm_entry n) @
     map_image (map (\<lambda>(k, c). (word_bytes k, crm_image img c)) (kids n))"
  by pat_completeness auto
termination
  by (relation "measure (\<lambda>(img, n). size n)") (auto dest: kids_size)

declare crm_image.simps [simp del]

lemma crm_RetrieveRange_kids:
  "crm_RetrieveRange n a =
     (let m = kids n; it = lower_bound m a in
      if it = length m \<or> a < crm_base (snd (m ! it)) then None
      else case crm_RetrieveRange (snd (m ! it)) a of
        None \<Rightarrow> Some (crm_entry (snd (m ! it)))
      | Some e \<Rightarrow> Some e)"
  by (subst crm_RetrieveRange.simps)
    (auto simp: kids_def lower_bound_def Let_def split: option.split)

lemma length_le_concat: "v \<in> set vs \<Longrightarrow> length v \<le> length (concat vs)"
  by (induction vs) auto

lemma child_image_le:
  assumes "i < length (kids n)"
  shows "length (crm_image img (snd (kids n ! i))) \<le> length (crm_image img n)"
proof -
  let ?vs = "map (\<lambda>(k, c). crm_image img c) (kids n)"
  have "?vs ! i \<in> set ?vs" using assms by simp
  then have "length (?vs ! i) \<le> length (concat ?vs)" by (rule length_le_concat)
  moreover have "length (concat ?vs) \<le> length (crm_image img n)"
    by (simp add: crm_image.simps [of img n] length_map_image case_prod_unfold o_def)
  ultimately show ?thesis using assms by (simp add: case_prod_beta)
qed

text \<open>The object constructed on the image of a node.\<close>

lemma StaticContainedRangeMap_image:
  fixes n :: "('a::len word, 'e) crm"
  assumes img: "holds mem p (crm_image img n)" and p: "p \<noteq> 0" and dvd: "8 dvd LENGTH('a)"
    and small: "length (crm_image img n) < 2 ^ 32" and wf: "crm_wf n"
  defines "this \<equiv> StaticContainedRangeMap mem p :: 'a word static_contained_range_map"
  shows "scrm_base this = crm_base n"
    and "img (crm_entry n) \<noteq> [] \<Longrightarrow> points_to mem img (scrm_entry_ptr this) (crm_entry n)"
    and "static_of mem (uint :: 'a word \<Rightarrow> int) uint (crm_image img) (scrm_map this) (kids n)"
proof -
  let ?K = "LENGTH('a) div 8" and ?e = "img (crm_entry n)"
  let ?mi = "map_image (map (\<lambda>(k, c). (word_bytes k, crm_image img c)) (kids n))"
  have parts: "holds mem p (word_bytes (crm_base n))" "holds mem (p + ?K) (offset_bytes (length ?e))"
    "holds mem (p + ?K + 4) ?e" "holds mem (p + ?K + 4 + length ?e) ?mi"
    using img by (subst (asm) crm_image.simps, simp add: holds_append add.assoc)+
  have len: "length ?e < 2 ^ 32" "length ?mi < 2 ^ 32"
    using small by (subst (asm) crm_image.simps, simp)+
  have es: "unat (load_word mem (p + ?K) :: uint32) = length ?e"
    by (rule load_offset [OF parts(2) len(1)])
  show "scrm_base this = crm_base n"
    using parts(1) dvd by (simp add: this_def StaticContainedRangeMap_def load_holds Let_def)
  show "points_to mem img (scrm_entry_ptr this) (crm_entry n)" if "?e \<noteq> []"
  proof -
    have "(load_word mem (p + ?K) :: uint32) \<noteq> 0" using es that by (metis length_0_conv unsigned_0)
    then show ?thesis
      using parts(3) p by (simp add: this_def StaticContainedRangeMap_def points_to_def Let_def)
  qed
  have "scrm_map this = StaticMap mem (p + ?K + 4 + length ?e)"
    using es by (simp add: this_def StaticContainedRangeMap_def Let_def)
  moreover have "kids_disjoint (kids n)" using wf crm_wf_kids by blast
  ultimately show "static_of mem (uint :: 'a word \<Rightarrow> int) uint (crm_image img) (scrm_map this) (kids n)"
    using static_of_image [OF parts(4) _ _ dvd _ len(2), where val = uint and key = uint] p dvd
    by (simp add: load_holds kids_disjoint_keys_sorted)
qed

lemma scrm_RetrieveRange_of:
  fixes n :: "('a::len word, 'e) crm"
  assumes "crm_wf n" and "holds mem p (crm_image img n)" and "length (crm_image img n) < 2 ^ 32"
    and "p \<noteq> 0" and "8 dvd LENGTH('a)" and "\<forall>(b, h, e) \<in> set (crm_ranges n). img e \<noteq> []"
  shows "case crm_RetrieveRange n a of
      None \<Rightarrow> scrm_RetrieveRange mem (StaticContainedRangeMap mem p) a = Some None
    | Some e \<Rightarrow> \<exists>q. scrm_RetrieveRange mem (StaticContainedRangeMap mem p) a = Some (Some q) \<and> points_to mem img q e"
  using assms(1-4,6)
proof (induction "size n" arbitrary: n p rule: less_induct)
  case less
  define this where "this = (StaticContainedRangeMap mem p :: 'a word static_contained_range_map)"
  note node = StaticContainedRangeMap_image [OF less.prems(2,4) assms(5) less.prems(3,1), folded this_def]
  let ?i = "lower_bound (kids n) a" and ?m = "scrm_map this"
  note lb = sm_bounds_of(1) [OF node(3) strict_mono_uint, of a]
  have num: "num_nodes ?m = int (length (kids n))" using node(3) by (simp add: static_of_def)
  show ?case
  proof (cases "?i = length (kids n)")
    case True
    then have "crm_RetrieveRange n a = None" by (subst crm_RetrieveRange_kids) (simp add: Let_def)
    moreover have "scrm_RetrieveRange mem this a = Some None"
      using True lb num by (subst scrm_RetrieveRange.simps) (simp add: sm_end_def it_equal_at Let_def)
    ultimately show ?thesis by (simp add: this_def)
  next
    case False
    let ?c = "snd (kids n ! ?i)"
    have i: "?i < length (kids n)" using False lower_bound_le_length [of "kids n" a] by linarith
    then have mem_i: "kids n ! ?i \<in> set (kids n)" by simp
    have wfc: "crm_wf ?c" using less.prems(1) mem_i crm_wf_kids by blast
    obtain q where q: "GetValueRawPtr mem (sm_IteratorAtIndex mem ?m (int ?i)) = Some q" "q \<noteq> 0"
        "holds mem q (crm_image img ?c)"
      using node(3) i by (auto simp: static_of_def)
    have small: "length (crm_image img ?c) < 2 ^ 32"
      using child_image_le [OF i, of img] less.prems(3) by linarith
    have ranges: "set (crm_ranges ?c) \<subseteq> set (crm_ranges n)"
      "(crm_base ?c, fst (kids n ! ?i), crm_entry ?c) \<in> set (crm_ranges n)"
      using mem_i by (auto simp: set_crm_ranges [of n] own_def)
    define child where "child = (StaticContainedRangeMap mem q :: 'a word static_contained_range_map)"
    note cnode = StaticContainedRangeMap_image [OF q(3,2) assms(5) small wfc, folded child_def]
    have IH: "case crm_RetrieveRange ?c a of
        None \<Rightarrow> scrm_RetrieveRange mem child a = Some None
      | Some e \<Rightarrow> \<exists>q. scrm_RetrieveRange mem child a = Some (Some q) \<and> points_to mem img q e"
      using less.hyps [OF kids_size [OF mem_i] wfc q(3) small q(2)] ranges(1) less.prems(5)
      unfolding child_def by blast
    have eptr: "points_to mem img (scrm_entry_ptr child) (crm_entry ?c)"
      using cnode(2) ranges(2) less.prems(5) by blast
    have step: "scrm_RetrieveRange mem this a =
        (if a < crm_base ?c then Some None
         else Option.bind (scrm_RetrieveRange mem child a) (\<lambda>found.
           case found of None \<Rightarrow> Some (Some (scrm_entry_ptr child)) | Some entry \<Rightarrow> Some (Some entry)))"
      using False lb num q(1) cnode(1)
      by (subst scrm_RetrieveRange.simps) (simp add: sm_end_def it_equal_at Let_def child_def)
    have orig: "crm_RetrieveRange n a =
        (if a < crm_base ?c then None
         else case crm_RetrieveRange ?c a of None \<Rightarrow> Some (crm_entry ?c) | Some e \<Rightarrow> Some e)"
      using False by (subst crm_RetrieveRange_kids) (simp add: Let_def)
    show ?thesis
      using IH eptr unfolding this_def [symmetric] step orig
      by (cases "crm_RetrieveRange ?c a") auto
  qed
qed

end
