(* ===== verification/Serializers.thy ===== *)
theory Serializers
  imports Static_Lookup Basic_Resolver
begin

text \<open>
  The serializers of processor/simple_serializer.h, simple_serializer-inl.h and
  map_serializers-inl.h. \<open>Write\<close> changes the memory at a destination pointer and returns the
  pointer behind what it wrote; \<open>SizeOf\<close> announces how many bytes that takes. The locale
  \<open>serializer\<close> is the contract between the two and an abstract image of the value; the map
  serializers are proved once for every pair of serializers that keep it.
\<close>

section \<open>The contract\<close>

type_synonym 'x writer = "'x \<Rightarrow> nat \<Rightarrow> memory \<Rightarrow> memory \<times> nat"

locale serializer =
  fixes size_of :: "'x \<Rightarrow> nat"
    and wr :: "'x writer"
    and img :: "'x \<Rightarrow> bytes"
    and ok :: "'x \<Rightarrow> bool"
  assumes write_image: "ok x \<Longrightarrow> dest \<noteq> 0 \<Longrightarrow>
      wr x dest mem = (store_bytes dest (img x) mem, dest + length (img x))"
    and size_image: "ok x \<Longrightarrow> size_of x = length (img x)"
begin

lemma write_holds: "ok x \<Longrightarrow> dest \<noteq> 0 \<Longrightarrow> holds (fst (wr x dest mem)) dest (img x)"
  by (simp add: write_image holds_store)

lemma write_end: "ok x \<Longrightarrow> dest \<noteq> 0 \<Longrightarrow> snd (wr x dest mem) = dest + size_of x"
  by (simp add: write_image size_image)

text \<open>Bytes outside the announced size stay as they are.\<close>

lemma write_frame:
  "ok x \<Longrightarrow> dest \<noteq> 0 \<Longrightarrow> i < dest \<or> dest + size_of x \<le> i \<Longrightarrow> fst (wr x dest mem) i = mem i"
  by (auto simp: write_image size_image store_bytes_def)

end

section \<open>Simple values\<close>

text \<open>The default template: the object representation is copied.\<close>

definition SizeOf_word :: "'a::len word \<Rightarrow> nat" where
  "SizeOf_word w = LENGTH('a) div 8"

definition Write_word :: "'a::len word writer" where
  "Write_word w dest mem = (store_bytes dest (word_bytes w) mem, dest + SizeOf_word w)"

text \<open>An \<open>int32_t\<close>, given by its value.\<close>

definition int32_word :: "int \<Rightarrow> uint32" where
  "int32_word i = word_of_int i"

definition SizeOf_int32 :: "int \<Rightarrow> nat" where
  "SizeOf_int32 i = SizeOf_word (int32_word i)"

definition Write_int32 :: "int writer" where
  "Write_int32 i = Write_word (int32_word i)"

definition SizeOf_bool :: "bool \<Rightarrow> nat" where
  "SizeOf_bool b = 1"

definition Write_bool :: "bool writer" where
  "Write_bool b dest mem = (store_bytes dest [if b then 255 else 0] mem, dest + 1)"

definition Read_bool :: "memory \<Rightarrow> nat \<Rightarrow> nat \<times> bool" where
  "Read_bool mem source = (source + 1, mem source \<noteq> 0)"

text \<open>\<open>strcpy\<close> stops at the first NUL, while the size counts all characters.\<close>

definition c_str :: "string \<Rightarrow> string" where
  "c_str s = takeWhile (\<lambda>c. c \<noteq> CHR 0x00) s"

definition SizeOf_string :: "string \<Rightarrow> nat" where
  "SizeOf_string str = length str + 1"

definition Write_string :: "string writer" where
  "Write_string str dest mem = (store_bytes dest (string_bytes (c_str str)) mem, dest + SizeOf_string str)"

text \<open>The specialization for C strings.\<close>

definition SizeOf_cstring :: "string \<Rightarrow> nat" where
  "SizeOf_cstring cstring = length (c_str cstring) + 1"

definition Write_cstring :: "string writer" where
  "Write_cstring cstring dest mem =
     (store_bytes dest (string_bytes (c_str cstring)) mem, dest + SizeOf_cstring cstring)"

section \<open>Records of symbol data\<close>

definition SizeOf_Line :: "sym_line \<Rightarrow> nat" where
  "SizeOf_Line line = SizeOf_word (ln_address line) + SizeOf_word (ln_size line) +
     SizeOf_int32 (source_file_id line) + SizeOf_int32 (ln_line line)"

definition Write_Line :: "sym_line writer" where
  "Write_Line line dest mem =
     (case Write_word (ln_address line) dest mem of (mem, dest) \<Rightarrow>
      case Write_word (ln_size line) dest mem of (mem, dest) \<Rightarrow>
      case Write_int32 (source_file_id line) dest mem of (mem, dest) \<Rightarrow>
      Write_int32 (ln_line line) dest mem)"

definition SizeOf_PublicSymbol :: "public_symbol \<Rightarrow> nat" where
  "SizeOf_PublicSymbol pubsymbol = SizeOf_string (ps_name pubsymbol) +
     SizeOf_word (ps_address pubsymbol) + SizeOf_int32 (ps_parameter_size pubsymbol)"

definition Write_PublicSymbol :: "public_symbol writer" where
  "Write_PublicSymbol pubsymbol dest mem =
     (case Write_string (ps_name pubsymbol) dest mem of (mem, dest) \<Rightarrow>
      case Write_word (ps_address pubsymbol) dest mem of (mem, dest) \<Rightarrow>
      Write_int32 (ps_parameter_size pubsymbol) dest mem)"

text \<open>The size is summed up in an \<open>unsigned int\<close>.\<close>

definition SizeOf_WindowsFrameInfo :: "windows_frame_info \<Rightarrow> nat" where
  "SizeOf_WindowsFrameInfo wfi =
     (4 + SizeOf_int32 (valid wfi) + SizeOf_word (prolog_size wfi) + SizeOf_word (epilog_size wfi) +
      SizeOf_word (parameter_size wfi) + SizeOf_word (saved_register_size wfi) +
      SizeOf_word (local_size wfi) + SizeOf_word (max_stack_size wfi) +
      SizeOf_bool (allocates_base_pointer wfi) + SizeOf_string (program_string wfi)) mod 2 ^ 32"

definition Write_WindowsFrameInfo :: "windows_frame_info writer" where
  "Write_WindowsFrameInfo wfi dest mem =
     (case Write_int32 (wfi_type wfi) dest mem of (mem, dest) \<Rightarrow>
      case Write_int32 (valid wfi) dest mem of (mem, dest) \<Rightarrow>
      case Write_word (prolog_size wfi) dest mem of (mem, dest) \<Rightarrow>
      case Write_word (epilog_size wfi) dest mem of (mem, dest) \<Rightarrow>
      case Write_word (parameter_size wfi) dest mem of (mem, dest) \<Rightarrow>
      case Write_word (saved_register_size wfi) dest mem of (mem, dest) \<Rightarrow>
      case Write_word (local_size wfi) dest mem of (mem, dest) \<Rightarrow>
      case Write_word (max_stack_size wfi) dest mem of (mem, dest) \<Rightarrow>
      case Write_bool (allocates_base_pointer wfi) dest mem of (mem, dest) \<Rightarrow>
      Write_string (program_string wfi) dest mem)"

text \<open>The specializations for \<open>linked_ptr\<close>, None being a null pointer.\<close>

definition SizeOf_linked :: "('x \<Rightarrow> nat) \<Rightarrow> 'x option \<Rightarrow> nat" where
  "SizeOf_linked size_of ptr = (case ptr of None \<Rightarrow> 0 | Some x \<Rightarrow> size_of x)"

definition Write_linked :: "'x writer \<Rightarrow> 'x option writer" where
  "Write_linked wr ptr dest mem = (case ptr of None \<Rightarrow> (mem, dest) | Some x \<Rightarrow> wr x dest mem)"

section \<open>Maps\<close>

text \<open>
  The traversal shared by the map serializers: for each node its value's offset from the start,
  its key and its value are written, the offsets and the keys into the tables before the values.
\<close>

fun write_nodes :: "'k writer \<Rightarrow> nat \<Rightarrow> ('k \<times> 'v) list \<Rightarrow> 'v writer \<Rightarrow> nat \<Rightarrow> nat \<Rightarrow> nat \<Rightarrow> memory \<Rightarrow> memory \<times> nat" where
  "write_nodes write_key start_address [] write_value offset_address key_dest dest mem = (mem, dest)"
| "write_nodes write_key start_address ((k, v) # m) write_value offset_address key_dest dest mem =
     (case Write_word (word_of_nat (dest - start_address) :: uint32) offset_address mem of
        (mem, offset_address) \<Rightarrow>
      case write_key k key_dest mem of (mem, key_dest) \<Rightarrow>
      case write_value v dest mem of (mem, dest) \<Rightarrow>
      write_nodes write_key start_address m write_value offset_address key_dest dest mem)"

lemma write_nodes_cong [fundef_cong]:
  assumes "wk = wk'" and "start = start'" and "m = m'" and "off = off'" and "ka = ka'" and "dest = dest'"
    and "mem = mem'" and "\<And>k v. (k, v) \<in> set m' \<Longrightarrow> wv v = wv' v"
  shows "write_nodes wk start m wv off ka dest mem = write_nodes wk' start' m' wv' off' ka' dest' mem'"
  unfolding assms(1-7) using assms(8)
proof (induction m' arbitrary: off' ka' dest' mem')
  case (Cons e m')
  obtain k v where e: "e = (k, v)" by fastforce
  have "wv v = wv' v" using Cons.prems [of k v] e by simp
  moreover have "\<And>k v. (k, v) \<in> set m' \<Longrightarrow> wv v = wv' v"
    using Cons.prems by (meson list.set_intros(2))
  ultimately show ?case using Cons.IH by (auto simp: e split: prod.split)
qed simp

text \<open>Header, tables and nodes, from a non-null destination on. \<open>key_size\<close> is \<open>sizeof(Key)\<close>.\<close>

definition write_map :: "nat \<Rightarrow> 'k writer \<Rightarrow> ('k \<times> 'v) list \<Rightarrow> 'v writer \<Rightarrow> nat \<Rightarrow> memory \<Rightarrow> memory \<times> nat" where
  "write_map key_size write_key m write_value start_address mem =
     (case Write_word (word_of_nat (length m) :: uint32) start_address mem of (mem, dest) \<Rightarrow>
        let offset_address = dest;
            key_dest = offset_address + 4 * length m;
            dest = key_dest + key_size * length m in
        write_nodes write_key start_address m write_value offset_address key_dest dest mem)"

lemma write_map_cong [fundef_cong]:
  assumes "ks = ks'" and "wk = wk'" and "m = m'" and "dest = dest'"
    and "mem = mem'" and "\<And>k v. (k, v) \<in> set m' \<Longrightarrow> wv v = wv' v"
  shows "write_map ks wk m wv dest mem = write_map ks' wk' m' wv' dest' mem'"
  unfolding assms(1-5) write_map_def Let_def
  by (intro prod.case_cong refl write_nodes_cong) (rule assms(6))

definition StdMap_SizeOf :: "('k \<Rightarrow> nat) \<Rightarrow> ('v \<Rightarrow> nat) \<Rightarrow> ('k, 'v) std_map \<Rightarrow> nat" where
  "StdMap_SizeOf size_key size_value m =
     (1 + length m) * 4 + (\<Sum>(k, v) \<leftarrow> m. size_key k + size_value v)"

definition StdMap_Write :: "nat \<Rightarrow> 'k writer \<Rightarrow> 'v writer \<Rightarrow> ('k, 'v) std_map writer" where
  "StdMap_Write key_size write_key write_value m dest mem =
     (if dest = 0 then (mem, 0) else write_map key_size write_key m write_value dest mem)"

definition RangeMap_SizeOf :: "('e \<Rightarrow> nat) \<Rightarrow> ('a::len word, 'e) range_map \<Rightarrow> nat" where
  "RangeMap_SizeOf size_entry rm =
     (1 + length (rm_map rm)) * 4 +
     (\<Sum>(high, r) \<leftarrow> rm_map rm. SizeOf_word high + SizeOf_word (rng_base r) + size_entry (rng_entry r))"

definition write_range :: "'e writer \<Rightarrow> ('a::len word, 'e) rm_range writer" where
  "write_range write_entry r dest mem =
     (case Write_word (rng_base r) dest mem of (mem, dest) \<Rightarrow> write_entry (rng_entry r) dest mem)"

definition RangeMap_Write :: "'e writer \<Rightarrow> ('a::len word, 'e) range_map writer" where
  "RangeMap_Write write_entry rm dest mem =
     (if dest = 0 then (mem, 0)
      else write_map (LENGTH('a) div 8) Write_word (rm_map rm) (write_range write_entry) dest mem)"

definition AddressMap_SizeOf :: "('e \<Rightarrow> nat) \<Rightarrow> ('a::len word, 'e) address_map \<Rightarrow> nat" where
  "AddressMap_SizeOf size_entry M = StdMap_SizeOf SizeOf_word size_entry (am_map M)"

definition AddressMap_Write :: "'e writer \<Rightarrow> ('a::len word, 'e) address_map writer" where
  "AddressMap_Write write_entry M = StdMap_Write (LENGTH('a) div 8) Write_word write_entry (am_map M)"

function ContainedRangeMap_SizeOf :: "('e \<Rightarrow> nat) \<Rightarrow> ('a::len word, 'e) crm \<Rightarrow> nat" where
  "ContainedRangeMap_SizeOf size_entry m =
     SizeOf_word (crm_base m) + size_entry (crm_entry m) + 4 + 4 +
     length (kids m) * 4 +
     (\<Sum>(k, c) \<leftarrow> kids m. SizeOf_word k + ContainedRangeMap_SizeOf size_entry c)"
  by pat_completeness auto
termination
  by (relation "measure (\<lambda>(s, n). size n)") (auto dest: kids_size)

declare ContainedRangeMap_SizeOf.simps [simp del]

text \<open>A null child map is written like an empty one: a node count of 0.\<close>

function ContainedRangeMap_Write ::
  "('e \<Rightarrow> nat) \<Rightarrow> 'e writer \<Rightarrow> ('a::len word, 'e) crm \<Rightarrow> nat \<Rightarrow> memory \<Rightarrow> memory \<times> nat" where
  "ContainedRangeMap_Write size_entry write_entry m dest mem =
     (if dest = 0 then (mem, 0)
      else
        case Write_word (crm_base m) dest mem of (mem, dest) \<Rightarrow>
        case Write_word (word_of_nat (size_entry (crm_entry m)) :: uint32) dest mem of (mem, dest) \<Rightarrow>
        case write_entry (crm_entry m) dest mem of (mem, dest) \<Rightarrow>
        if crm_map m = None then Write_word (0 :: uint32) dest mem
        else write_map (LENGTH('a) div 8) Write_word (kids m)
          (\<lambda>c. ContainedRangeMap_Write size_entry write_entry c) dest mem)"
  by pat_completeness auto
termination
  by (relation "measure (\<lambda>(s, w, n, dest, mem). size n)") (auto dest: kids_size)

declare ContainedRangeMap_Write.simps [simp del]

text \<open>
  \<open>Serialize\<close>, common to the three: \<open>alloc\<close> is what \<open>new char[]\<close> returns for the request. The
  result is the memory, the pointer, and \<open>*size\<close>.
\<close>

definition Serialize_map :: "('m \<Rightarrow> nat) \<Rightarrow> 'm writer \<Rightarrow> (uint32 \<Rightarrow> nat) \<Rightarrow> 'm \<Rightarrow> memory \<Rightarrow> memory \<times> nat \<times> uint32" where
  "Serialize_map size_of wr alloc m mem =
     (let size_to_alloc = word_of_nat (size_of m) :: uint32; serialized_data = alloc size_to_alloc in
      if serialized_data = 0 then (mem, 0, 0)
      else (fst (wr m serialized_data mem), serialized_data, size_to_alloc))"

definition StdMap_Serialize ::
  "nat \<Rightarrow> ('k \<Rightarrow> nat) \<Rightarrow> 'k writer \<Rightarrow> ('v \<Rightarrow> nat) \<Rightarrow> 'v writer \<Rightarrow> (uint32 \<Rightarrow> nat) \<Rightarrow> ('k, 'v) std_map \<Rightarrow>
     memory \<Rightarrow> memory \<times> nat \<times> uint32" where
  "StdMap_Serialize key_size size_key write_key size_value write_value =
     Serialize_map (StdMap_SizeOf size_key size_value) (StdMap_Write key_size write_key write_value)"

definition RangeMap_Serialize ::
  "('e \<Rightarrow> nat) \<Rightarrow> 'e writer \<Rightarrow> (uint32 \<Rightarrow> nat) \<Rightarrow> ('a::len word, 'e) range_map \<Rightarrow> memory \<Rightarrow> memory \<times> nat \<times> uint32" where
  "RangeMap_Serialize size_entry write_entry =
     Serialize_map (RangeMap_SizeOf size_entry) (RangeMap_Write write_entry)"

definition AddressMap_Serialize ::
  "('e \<Rightarrow> nat) \<Rightarrow> 'e writer \<Rightarrow> (uint32 \<Rightarrow> nat) \<Rightarrow> ('a::len word, 'e) address_map \<Rightarrow> memory \<Rightarrow> memory \<times> nat \<times> uint32" where
  "AddressMap_Serialize size_entry write_entry =
     Serialize_map (AddressMap_SizeOf size_entry) (AddressMap_Write write_entry)"

definition ContainedRangeMap_Serialize ::
  "('e \<Rightarrow> nat) \<Rightarrow> 'e writer \<Rightarrow> (uint32 \<Rightarrow> nat) \<Rightarrow> ('a::len word, 'e) crm \<Rightarrow> memory \<Rightarrow> memory \<times> nat \<times> uint32" where
  "ContainedRangeMap_Serialize size_entry write_entry =
     Serialize_map (ContainedRangeMap_SizeOf size_entry) (ContainedRangeMap_Write size_entry write_entry)"

section \<open>Images\<close>

definition int32_bytes :: "int \<Rightarrow> bytes" where
  "int32_bytes i = word_bytes (int32_word i)"

definition bool_bytes :: "bool \<Rightarrow> bytes" where
  "bool_bytes b = [if b then 255 else 0]"

definition line_image :: "sym_line \<Rightarrow> bytes" where
  "line_image l = word_bytes (ln_address l) @ word_bytes (ln_size l) @
     int32_bytes (source_file_id l) @ int32_bytes (ln_line l)"

definition public_image :: "public_symbol \<Rightarrow> bytes" where
  "public_image s = string_bytes (ps_name s) @ word_bytes (ps_address s) @ int32_bytes (ps_parameter_size s)"

definition wfi_image :: "windows_frame_info \<Rightarrow> bytes" where
  "wfi_image w = int32_bytes (wfi_type w) @ int32_bytes (valid w) @ word_bytes (prolog_size w) @
     word_bytes (epilog_size w) @ word_bytes (parameter_size w) @ word_bytes (saved_register_size w) @
     word_bytes (local_size w) @ word_bytes (max_stack_size w) @ bool_bytes (allocates_base_pointer w) @
     string_bytes (program_string w)"

definition linked_image :: "('x \<Rightarrow> bytes) \<Rightarrow> 'x option \<Rightarrow> bytes" where
  "linked_image img ptr = (case ptr of None \<Rightarrow> [] | Some x \<Rightarrow> img x)"

definition nodes_image :: "('k \<Rightarrow> bytes) \<Rightarrow> ('v \<Rightarrow> bytes) \<Rightarrow> ('k \<times> 'v) list \<Rightarrow> bytes" where
  "nodes_image key_img value_img m = map_image (map (\<lambda>(k, v). (key_img k, value_img v)) m)"

definition range_map_image :: "('e \<Rightarrow> bytes) \<Rightarrow> ('a::len word, 'e) range_map \<Rightarrow> bytes" where
  "range_map_image img rm = nodes_image word_bytes (range_image img) (rm_map rm)"

definition no_nul :: "string \<Rightarrow> bool" where
  "no_nul s \<longleftrightarrow> CHR 0x00 \<notin> set s"

lemma c_str_no_nul: "no_nul s \<Longrightarrow> c_str s = s"
  unfolding c_str_def no_nul_def by (rule takeWhile_eq_all_conv [THEN iffD2]) auto

lemma length_int32_bytes [simp]: "length (int32_bytes i) = 4"
  by (simp add: int32_bytes_def)

lemma length_bool_bytes [simp]: "length (bool_bytes b) = 1"
  by (simp add: bool_bytes_def)

section \<open>The simple serializers keep the contract\<close>

named_theorems write_simps \<open>what the simple serializers write\<close>

lemma Write_word_image [write_simps]:
  "Write_word (w :: 'a::len word) dest mem = (store_bytes dest (word_bytes w) mem, dest + LENGTH('a) div 8)"
  by (simp add: Write_word_def SizeOf_word_def)

lemma Write_int32_image [write_simps]:
  "Write_int32 i dest mem = (store_bytes dest (int32_bytes i) mem, dest + 4)"
  by (simp add: Write_int32_def Write_word_image int32_bytes_def)

lemma Write_bool_image [write_simps]:
  "Write_bool b dest mem = (store_bytes dest (bool_bytes b) mem, dest + 1)"
  by (simp add: Write_bool_def bool_bytes_def)

lemma Write_string_image [write_simps]:
  "no_nul s \<Longrightarrow> Write_string s dest mem = (store_bytes dest (string_bytes s) mem, dest + (length s + 1))"
  by (simp add: Write_string_def SizeOf_string_def c_str_no_nul)

lemmas size_simps = SizeOf_word_def SizeOf_int32_def SizeOf_bool_def SizeOf_string_def

interpretation word_serializer: serializer SizeOf_word Write_word word_bytes "\<lambda>_. True"
  by unfold_locales (simp_all add: write_simps SizeOf_word_def)

interpretation int32_serializer: serializer SizeOf_int32 Write_int32 int32_bytes "\<lambda>_. True"
  by unfold_locales (simp_all add: write_simps size_simps)

interpretation bool_serializer: serializer SizeOf_bool Write_bool bool_bytes "\<lambda>_. True"
  by unfold_locales (simp_all add: write_simps SizeOf_bool_def)

interpretation string_serializer: serializer SizeOf_string Write_string string_bytes no_nul
  by unfold_locales (simp_all add: write_simps SizeOf_string_def)

interpretation cstring_serializer: serializer SizeOf_cstring Write_cstring "string_bytes \<circ> c_str" "\<lambda>_. True"
  by unfold_locales (simp_all add: Write_cstring_def SizeOf_cstring_def)

interpretation line_serializer: serializer SizeOf_Line Write_Line line_image "\<lambda>_. True"
  by unfold_locales
    (simp_all add: Write_Line_def SizeOf_Line_def line_image_def write_simps size_simps store_bytes_append add.assoc)

interpretation public_serializer: serializer SizeOf_PublicSymbol Write_PublicSymbol public_image "no_nul \<circ> ps_name"
  by unfold_locales
    (simp_all add: Write_PublicSymbol_def SizeOf_PublicSymbol_def public_image_def write_simps size_simps
      store_bytes_append add.assoc)

definition wfi_ok :: "windows_frame_info \<Rightarrow> bool" where
  "wfi_ok w \<longleftrightarrow> no_nul (program_string w) \<and> length (wfi_image w) < 2 ^ 32"

interpretation wfi_serializer: serializer SizeOf_WindowsFrameInfo Write_WindowsFrameInfo wfi_image wfi_ok
  by unfold_locales
    (simp_all add: Write_WindowsFrameInfo_def SizeOf_WindowsFrameInfo_def wfi_image_def wfi_ok_def write_simps
      size_simps store_bytes_append add.assoc)

section \<open>The map serializers keep the contract\<close>

text \<open>Writers that store the image of every element they are given.\<close>

definition stores :: "'x writer \<Rightarrow> ('x \<Rightarrow> bytes) \<Rightarrow> 'x set \<Rightarrow> bool" where
  "stores wr img X \<longleftrightarrow> (\<forall>x \<in> X. \<forall>dest mem. dest \<noteq> 0 \<longrightarrow>
     wr x dest mem = (store_bytes dest (img x) mem, dest + length (img x)))"

lemma write_nodes_image:
  assumes "stores write_key key_img (fst ` set m)" and "stores write_value value_img (snd ` set m)"
    and "\<forall>k \<in> fst ` set m. length (key_img k) = K"
    and "0 < off" and "off + 4 * length m \<le> kd" and "kd + K * length m \<le> dest" and "start \<le> dest"
  shows "write_nodes write_key start m write_value off kd dest mem =
    (store_bytes dest (concat (map (value_img \<circ> snd) m))
      (store_bytes kd (concat (map (key_img \<circ> fst) m))
        (store_bytes off (concat (map offset_bytes (value_offsets (dest - start) (map (value_img \<circ> snd) m)))) mem)),
     dest + length (concat (map (value_img \<circ> snd) m)))"
  using assms
proof (induction m arbitrary: off kd dest mem)
  case (Cons e m)
  obtain k v where e: "e = (k, v)" by fastforce
  let ?o = "offset_bytes (dest - start)" and ?k = "key_img k" and ?v = "value_img v"
  let ?vs = "map (value_img \<circ> snd) m" and ?ks = "concat (map (key_img \<circ> fst) m)"
  let ?os = "concat (map offset_bytes (value_offsets (dest + length ?v - start) ?vs))"
  have K: "length ?k = K" and pos: "0 < kd" "0 < dest" using Cons.prems e by auto
  have k: "write_key k kd mem' = (store_bytes kd ?k mem', kd + K)"
    and v: "write_value v dest mem' = (store_bytes dest ?v mem', dest + length ?v)" for mem'
    using Cons.prems(1,2) K pos e by (auto simp: stores_def)
  have lks: "length ?ks = K * length m"
    using Cons.prems(3) length_concat_uniform [of "map (key_img \<circ> fst) m" K] by (auto simp: mult.commute)
  have past: "store_bytes p xs (store_bytes q ys M) = store_bytes q ys (store_bytes p xs M)"
    if "p + length xs \<le> q" for p xs q ys M
    using that by (rule store_bytes_commute)
  have "write_nodes write_key start (e # m) write_value off kd dest mem =
      write_nodes write_key start m write_value (off + 4) (kd + K) (dest + length ?v)
        (store_bytes dest ?v (store_bytes kd ?k (store_bytes off ?o mem)))"
    by (simp add: e k v write_simps offset_bytes_def)
  also have "\<dots> = (store_bytes (dest + length ?v) (concat ?vs) (store_bytes (kd + K) ?ks
        (store_bytes (off + 4) ?os (store_bytes dest ?v (store_bytes kd ?k (store_bytes off ?o mem))))),
      dest + length ?v + length (concat ?vs))"
    by (rule Cons.IH) (use Cons.prems e in \<open>auto simp: stores_def\<close>)
  also have "store_bytes (off + 4) ?os (store_bytes dest ?v (store_bytes kd ?k (store_bytes off ?o mem))) =
      store_bytes dest ?v (store_bytes kd ?k (store_bytes off (?o @ ?os) mem))"
    using past [of "off + 4" ?os dest ?v] past [of "off + 4" ?os kd ?k] Cons.prems(5,6) e
    by (simp add: store_bytes_append)
  also have "store_bytes (kd + K) ?ks (store_bytes dest ?v (store_bytes kd ?k (store_bytes off (?o @ ?os) mem))) =
      store_bytes dest ?v (store_bytes kd (?k @ ?ks) (store_bytes off (?o @ ?os) mem))"
    using past [of "kd + K" ?ks dest ?v] Cons.prems(6) e K lks by (simp add: store_bytes_append)
  finally show ?case
    using Cons.prems(7) by (simp add: e store_bytes_append add.assoc Nat.add_diff_assoc2 o_def)
qed simp

lemma write_map_image:
  assumes "stores write_key key_img (fst ` set m)" and "stores write_value value_img (snd ` set m)"
    and K: "\<forall>k \<in> fst ` set m. length (key_img k) = K" and "dest \<noteq> 0"
  shows "write_map K write_key m write_value dest mem =
    (store_bytes dest (nodes_image key_img value_img m) mem, dest + length (nodes_image key_img value_img m))"
proof -
  let ?kvs = "map (\<lambda>(k, v). (key_img k, value_img v)) m"
  have f: "map fst ?kvs = map (key_img \<circ> fst) m" "map snd ?kvs = map (value_img \<circ> snd) m"
    by (simp_all add: case_prod_unfold o_def)
  have lk: "length (concat (map (key_img \<circ> fst) m)) = K * length m"
    using K length_concat_uniform [of "map (key_img \<circ> fst) m" K] by (auto simp: mult.commute)
  have "write_map K write_key m write_value dest mem =
      write_nodes write_key dest m write_value (dest + 4) (dest + 4 + 4 * length m)
        (dest + 4 + 4 * length m + K * length m) (store_bytes dest (offset_bytes (length m)) mem)"
    by (simp add: write_map_def write_simps offset_bytes_def Let_def)
  also note write_nodes_image [OF assms(1-3)]
  finally show ?thesis
    unfolding nodes_image_def map_image_def f using assms(4) lk
    by (simp add: store_bytes_append add.assoc)
qed

lemma length_nodes_image:
  "length (nodes_image key_img value_img m) =
     (1 + length m) * 4 + (\<Sum>(k, v) \<leftarrow> m. length (key_img k) + length (value_img v))"
  by (simp add: nodes_image_def length_map_image length_concat o_def case_prod_unfold sum_list_addf)

locale map_serializer =
  key: serializer size_key write_key key_img key_ok + val: serializer size_value write_value value_img value_ok
  for size_key :: "'k \<Rightarrow> nat" and write_key key_img key_ok
    and size_value :: "'v \<Rightarrow> nat" and write_value value_img value_ok +
  fixes key_size :: nat
  assumes key_fixed: "key_ok k \<Longrightarrow> length (key_img k) = key_size"
begin

lemma std_map_serializer:
  "serializer (StdMap_SizeOf size_key size_value) (StdMap_Write key_size write_key write_value)
     (nodes_image key_img value_img) (\<lambda>m. \<forall>(k, v) \<in> set m. key_ok k \<and> value_ok v)"
proof
  fix m dest mem
  assume ok: "\<forall>(k, v) \<in> set m. key_ok k \<and> value_ok v"
  have "stores write_key key_img (fst ` set m)" "stores write_value value_img (snd ` set m)"
    "\<forall>k \<in> fst ` set m. length (key_img k) = key_size"
    using ok by (auto simp: stores_def key.write_image val.write_image key_fixed)
  note w = write_map_image [OF this, of dest mem]
  show "StdMap_Write key_size write_key write_value m dest mem =
      (store_bytes dest (nodes_image key_img value_img m) mem, dest + length (nodes_image key_img value_img m))"
    if "dest \<noteq> 0"
    using w that by (simp add: StdMap_Write_def)
  show "StdMap_SizeOf size_key size_value m = length (nodes_image key_img value_img m)"
    unfolding StdMap_SizeOf_def length_nodes_image
    using ok key.size_image val.size_image
    by (auto intro!: arg_cong [where f = sum_list] simp: case_prod_unfold)
qed

end

sublocale map_serializer \<subseteq> std_map: serializer "StdMap_SizeOf size_key size_value"
  "StdMap_Write key_size write_key write_value" "nodes_image key_img value_img"
  "\<lambda>m. \<forall>(k, v) \<in> set m. key_ok k \<and> value_ok v"
  by (rule std_map_serializer)

context serializer
begin

lemma range_serializer:
  "serializer (\<lambda>r :: ('a::len word, 'x) rm_range. SizeOf_word (rng_base r) + size_of (rng_entry r))
     (write_range wr) (range_image img) (\<lambda>r. ok (rng_entry r))"
  by unfold_locales
    (simp_all add: write_range_def range_image_def write_simps write_image size_image SizeOf_word_def store_bytes_append)

lemma range_map_serializer:
  "serializer (RangeMap_SizeOf size_of) (RangeMap_Write wr) (range_map_image img)
     (\<lambda>rm :: ('a::len word, 'x) range_map. \<forall>(h, r) \<in> set (rm_map rm). ok (rng_entry r))"
proof -
  have "map_serializer (SizeOf_word :: 'a word \<Rightarrow> nat) Write_word word_bytes (\<lambda>_. True)
      (\<lambda>r :: ('a word, 'x) rm_range. SizeOf_word (rng_base r) + size_of (rng_entry r)) (write_range wr)
      (range_image img) (\<lambda>r. ok (rng_entry r)) (LENGTH('a) div 8)"
    by (intro map_serializer.intro map_serializer_axioms.intro word_serializer.serializer_axioms range_serializer) simp
  note nodes = serializer.write_image [OF map_serializer.std_map_serializer [OF this]]
    serializer.size_image [OF map_serializer.std_map_serializer [OF this]]
  show ?thesis
  proof
    fix rm :: "('a word, 'x) range_map" and dest :: nat and mem
    assume ok: "\<forall>(h, r) \<in> set (rm_map rm). ok (rng_entry r)"
    then have ok': "\<forall>(h, r) \<in> set (rm_map rm). True \<and> ok (rng_entry r)" by simp
    show "RangeMap_Write wr rm dest mem =
        (store_bytes dest (range_map_image img rm) mem, dest + length (range_map_image img rm))" if "dest \<noteq> 0"
      using nodes(1) [OF ok' that, of mem] that
      by (simp add: RangeMap_Write_def StdMap_Write_def range_map_image_def)
    show "RangeMap_SizeOf size_of rm = length (range_map_image img rm)"
      using nodes(2) [OF ok'] by (simp add: RangeMap_SizeOf_def StdMap_SizeOf_def range_map_image_def add.assoc)
  qed
qed

text \<open>\<open>Serialize\<close> leaves exactly the image in the block it allocates.\<close>

lemma serialize_image:
  assumes "ok x" and "length (img x) < 2 ^ 32" and "alloc (word_of_nat (length (img x))) \<noteq> 0"
    and "Serialize_map size_of wr alloc x mem = (mem', p, sz)"
  shows "p = alloc (word_of_nat (length (img x)))" and "unat sz = length (img x)" and "mem' = store_bytes p (img x) mem"
  using assms by (auto simp: Serialize_map_def size_image write_image Let_def unsigned_of_nat take_bit_eq_mod)

text \<open>Every entry of a tree satisfies the entry's premise.\<close>

lemma contained_range_map_write:
  fixes n :: "('b::len word, 'x) crm"
  assumes "ok (crm_entry n)" and "\<forall>(b, h, e) \<in> set (crm_ranges n). ok e" and "dest \<noteq> 0"
  shows "ContainedRangeMap_Write size_of wr n dest mem =
      (store_bytes dest (crm_image img n) mem, dest + length (crm_image img n))"
  using assms
proof (induction "size n" arbitrary: n dest mem rule: less_induct)
  case less
  have kid: "ok (crm_entry (snd x)) \<and> (\<forall>(b, h, e) \<in> set (crm_ranges (snd x)). ok e)" if "x \<in> set (kids n)" for x
    using less.prems(2) that by (auto simp: set_crm_ranges [of n] own_def)
  have vals: "stores (ContainedRangeMap_Write size_of wr) (crm_image img) (snd ` set (kids n))"
    using less.hyps kid kids_size by (fastforce simp: stores_def)
  have keys: "stores Write_word word_bytes (fst ` set (kids n))" by (simp add: stores_def write_simps)
  note m = write_map_image [OF keys vals, where K = "LENGTH('b) div 8"]
  have img: "crm_image img n = word_bytes (crm_base n) @ offset_bytes (length (img (crm_entry n))) @
      img (crm_entry n) @ nodes_image word_bytes (crm_image img) (kids n)"
    by (subst crm_image.simps) (simp add: nodes_image_def)
  have empty: "nodes_image word_bytes (crm_image img) ([] :: ('b word \<times> ('b word, 'x) crm) list) = word_bytes (0 :: uint32)"
    by (simp add: nodes_image_def map_image_def offset_bytes_def)
  show ?case
  proof (cases "crm_map n")
    case None
    then have "kids n = []" by (simp add: kids_def)
    then show ?thesis
      using None less.prems(1,3) empty
      by (subst ContainedRangeMap_Write.simps)
        (simp add: img write_simps write_image size_image offset_bytes_def store_bytes_append add.assoc)
  next
    case Some
    then show ?thesis
      using less.prems(1,3) m
      by (subst ContainedRangeMap_Write.simps)
        (simp add: img write_simps write_image size_image offset_bytes_def store_bytes_append add.assoc)
  qed
qed

lemma contained_range_map_size:
  fixes n :: "('b::len word, 'x) crm"
  assumes "ok (crm_entry n)" and "\<forall>(b, h, e) \<in> set (crm_ranges n). ok e"
  shows "ContainedRangeMap_SizeOf size_of n = length (crm_image img n)"
  using assms
proof (induction "size n" arbitrary: n rule: less_induct)
  case less
  have kid: "ContainedRangeMap_SizeOf size_of c = length (crm_image img c)" if "(k, c) \<in> set (kids n)" for k c
  proof (rule less.hyps)
    show "size c < size n" using kids_size [OF that] by simp
    show "ok (crm_entry c)" "\<forall>(b, h, e) \<in> set (crm_ranges c). ok e"
      using less.prems(2) that by (auto simp: set_crm_ranges [of n] own_def)
  qed
  have "(\<Sum>(k, c) \<leftarrow> kids n. SizeOf_word k + ContainedRangeMap_SizeOf size_of c) =
      (\<Sum>(k, c) \<leftarrow> kids n. length (word_bytes k) + length (crm_image img c))"
    using kid by (auto intro!: arg_cong [where f = sum_list] simp: SizeOf_word_def)
  moreover have "length (crm_image img n) = LENGTH('b) div 8 + 4 + length (img (crm_entry n)) +
      length (nodes_image word_bytes (crm_image img) (kids n))"
    by (subst crm_image.simps) (simp add: nodes_image_def)
  ultimately show ?case
    using less.prems(1)
    by (subst ContainedRangeMap_SizeOf.simps) (simp add: size_image length_nodes_image SizeOf_word_def)
qed

lemma contained_range_map_serializer:
  "serializer (ContainedRangeMap_SizeOf size_of) (ContainedRangeMap_Write size_of wr) (crm_image img)
     (\<lambda>n. ok (crm_entry n) \<and> (\<forall>(b, h, e) \<in> set (crm_ranges n). ok e))"
  by unfold_locales (auto simp: contained_range_map_write contained_range_map_size)

text \<open>Entries that refer to the objects they stand for.\<close>

lemma deref_serializer:
  "serializer (\<lambda>r. size_of (f r)) (\<lambda>r. wr (f r)) (\<lambda>r. img (f r)) (\<lambda>r. ok (f r))"
  by unfold_locales (auto simp: write_image size_image)

lemma linked_serializer:
  "serializer (SizeOf_linked size_of) (Write_linked wr) (linked_image img) (\<lambda>p. \<forall>x \<in> set_option p. ok x)"
  by unfold_locales
    (auto simp: SizeOf_linked_def Write_linked_def linked_image_def write_image size_image split: option.split)

end

section \<open>Functions\<close>

definition SizeOf_Function :: "sym_function \<Rightarrow> nat" where
  "SizeOf_Function func =
     (SizeOf_string (fn_name func) + SizeOf_word (fn_address func) + SizeOf_word (fn_size func) +
      SizeOf_int32 (fn_parameter_size func) + RangeMap_SizeOf SizeOf_Line (fn_lines func)) mod 2 ^ 32"

definition Write_Function :: "sym_function writer" where
  "Write_Function func dest mem =
     (case Write_string (fn_name func) dest mem of (mem, dest) \<Rightarrow>
      case Write_word (fn_address func) dest mem of (mem, dest) \<Rightarrow>
      case Write_word (fn_size func) dest mem of (mem, dest) \<Rightarrow>
      case Write_int32 (fn_parameter_size func) dest mem of (mem, dest) \<Rightarrow>
      RangeMap_Write Write_Line (fn_lines func) dest mem)"

definition function_image :: "sym_function \<Rightarrow> bytes" where
  "function_image f = string_bytes (fn_name f) @ word_bytes (fn_address f) @ word_bytes (fn_size f) @
     int32_bytes (fn_parameter_size f) @ range_map_image line_image (fn_lines f)"

definition function_ok :: "sym_function \<Rightarrow> bool" where
  "function_ok f \<longleftrightarrow> no_nul (fn_name f) \<and> length (function_image f) < 2 ^ 32"

text \<open>The serializers of the members of a module.\<close>

interpretation lines_serializer: serializer "RangeMap_SizeOf SizeOf_Line"
  "RangeMap_Write Write_Line :: (mem_addr, sym_line) range_map writer" "range_map_image line_image"
  "\<lambda>rm. \<forall>(h, r) \<in> set (rm_map rm). True"
  by (rule line_serializer.range_map_serializer)

interpretation function_serializer: serializer SizeOf_Function Write_Function function_image function_ok
proof unfold_locales
  fix f dest mem
  assume ok: "function_ok f"
  show "Write_Function f dest mem = (store_bytes dest (function_image f) mem, dest + length (function_image f))"
    using ok lines_serializer.write_image [of "fn_lines f"]
    by (simp add: Write_Function_def function_image_def function_ok_def write_simps store_bytes_append add.assoc)
  show "SizeOf_Function f = length (function_image f)"
    using ok lines_serializer.size_image [of "fn_lines f"]
    by (simp add: SizeOf_Function_def function_image_def function_ok_def size_simps add.assoc)
qed

interpretation files_serializer: map_serializer SizeOf_int32 Write_int32 int32_bytes "\<lambda>_. True"
  SizeOf_string Write_string string_bytes no_nul 4
  by unfold_locales simp

interpretation cfi_delta_serializer: map_serializer "SizeOf_word :: mem_addr \<Rightarrow> nat" Write_word word_bytes "\<lambda>_. True"
  SizeOf_string Write_string string_bytes no_nul 8
  by unfold_locales simp

interpretation pubsym_serializer: map_serializer "SizeOf_word :: mem_addr \<Rightarrow> nat" Write_word word_bytes "\<lambda>_. True"
  SizeOf_PublicSymbol Write_PublicSymbol public_image "no_nul \<circ> ps_name" 8
  by unfold_locales simp

interpretation cfi_init_serializer: serializer "RangeMap_SizeOf SizeOf_string"
  "RangeMap_Write Write_string :: (mem_addr, string) range_map writer" "range_map_image string_bytes"
  "\<lambda>rm. \<forall>(h, r) \<in> set (rm_map rm). no_nul (rng_entry r)"
  by (rule string_serializer.range_map_serializer)

interpretation wfi_ptr_serializer: serializer "SizeOf_linked SizeOf_WindowsFrameInfo"
  "Write_linked Write_WindowsFrameInfo" "linked_image wfi_image" "\<lambda>p. \<forall>x \<in> set_option p. wfi_ok x"
  by (rule wfi_serializer.linked_serializer)

interpretation wfi_tree_serializer: serializer "ContainedRangeMap_SizeOf (SizeOf_linked SizeOf_WindowsFrameInfo)"
  "ContainedRangeMap_Write (SizeOf_linked SizeOf_WindowsFrameInfo) (Write_linked Write_WindowsFrameInfo)
     :: (mem_addr, windows_frame_info option) crm writer"
  "crm_image (linked_image wfi_image)"
  "\<lambda>n. (\<forall>x \<in> set_option (crm_entry n). wfi_ok x) \<and> (\<forall>(b, h, e) \<in> set (crm_ranges n). \<forall>x \<in> set_option e. wfi_ok x)"
  by (rule wfi_ptr_serializer.contained_range_map_serializer)

section \<open>Lookups in a serialized map\<close>

text \<open>The block of a serialized range map answers every lookup as the map itself: the same
  ranges, bases and sizes, with a pointer to the bytes of the entry, and no range where the
  map has none.\<close>

theorem RangeMap_Serialize_lookup:
  fixes rm :: "(mem_addr, sym_line) range_map"
  assumes "rm_wf rm" and "length (range_map_image line_image rm) < 2 ^ 32"
    and "alloc (word_of_nat (length (range_map_image line_image rm))) \<noteq> 0"
  shows "case RangeMap_Serialize SizeOf_Line Write_Line alloc rm mem of (mem', p, sz) \<Rightarrow>
    unat sz = length (range_map_image line_image rm) \<and>
    same_range mem' line_image (srm_RetrieveRange mem' (StaticMap mem' p) a) (RetrieveRange rm a) \<and>
    same_range mem' line_image (srm_RetrieveNearestRange mem' (StaticMap mem' p) a) (RetrieveNearestRange rm a)"
proof -
  obtain mem' p sz where s: "Serialize_map (RangeMap_SizeOf SizeOf_Line) (RangeMap_Write Write_Line) alloc rm mem = (mem', p, sz)"
    using prod_cases3 by blast
  have "\<forall>(h, r) \<in> set (rm_map rm). True" by simp
  note b = lines_serializer.serialize_image [OF this assms(2,3) s]
  have h: "holds mem' p (range_map_image line_image rm)" using b(3) by (simp add: holds_store)
  have "static_of mem' (uint :: mem_addr \<Rightarrow> int) uint (range_image line_image) (StaticMap mem' p) (rm_map rm)"
    by (rule static_of_image [OF h [unfolded range_map_image_def nodes_image_def]])
      (use assms b(1) in \<open>simp_all add: range_map_image_def nodes_image_def load_holds rm_wf_def ranges_wf_keys_sorted\<close>)
  then have "srm_of mem' line_image (StaticMap mem' p) rm" by (simp add: srm_of_def)
  then show ?thesis
    using s b(2) srm_RetrieveRange_of [of mem' line_image "StaticMap mem' p" rm a]
      srm_RetrieveNearestRange_of [of mem' line_image "StaticMap mem' p" rm a]
    by (simp add: RangeMap_Serialize_def)
qed

definition example_lines :: "(mem_addr, sym_line) range_map" where
  "example_lines = \<lparr>enable_shrink_down = False, rm_map = [(0x100F, \<lparr>rng_base = 0x1000, rng_delta = 0,
     rng_entry = \<lparr>ln_address = 0x1000, ln_size = 0x10, source_file_id = 1, ln_line = 42\<rparr>\<rparr>)]\<rparr>"

theorem RangeMap_Serialize_lookup_witness:
  "case RangeMap_Serialize SizeOf_Line Write_Line (\<lambda>n. 64) example_lines (\<lambda>i. 0) of (mem', p, sz) \<Rightarrow>
    unat sz = length (range_map_image line_image example_lines) \<and>
    same_range mem' line_image (srm_RetrieveRange mem' (StaticMap mem' p) 0x1004) (RetrieveRange example_lines 0x1004) \<and>
    same_range mem' line_image (srm_RetrieveNearestRange mem' (StaticMap mem' p) 0x1004) (RetrieveNearestRange example_lines 0x1004)"
  by (rule RangeMap_Serialize_lookup)
    (simp_all add: example_lines_def rm_wf_def ranges_wf_def range_map_image_def length_nodes_image range_image_def line_image_def)

end
