(* ===== verification/Module_Serializer.thy ===== *)
theory Module_Serializer
  imports Serializers
begin

text \<open>
  \<open>ModuleSerializer\<close> (processor/module_serializer.cc) turns a loaded module into one block of
  memory; \<open>FastSourceLineResolver::Module\<close> (processor/fast_source_line_resolver.cc and
  fast_source_line_resolver_types.h) answers the queries from that block without building any
  structure. This theory holds both programs.
\<close>

section \<open>Serializing a module\<close>

text \<open>
  The root of a tree of Windows frame data holds a null \<open>linked_ptr\<close>; all other entries, and
  those of the other maps, are non-null pointers, for which the module holds the objects.
\<close>

definition linked_crm :: "('a, 'e) crm \<Rightarrow> ('a, 'e option) crm" where
  "linked_crm n = CRM (crm_base n) None (map_option (map (\<lambda>(k, c). (k, map_crm id Some c))) (crm_map n))"

text \<open>\<open>kNumberMaps_\<close>.\<close>

definition kNumberMaps :: nat where
  "kNumberMaps = 5 + nat STACK_INFO_LAST"

text \<open>\<open>SizeOf\<close> also stores the sizes of the maps in the member \<open>map_sizes_\<close>.\<close>

definition map_sizes :: "sym_module \<Rightarrow> nat list" where
  "map_sizes M =
     [StdMap_SizeOf SizeOf_int32 SizeOf_string (files M),
      RangeMap_SizeOf (\<lambda>r. SizeOf_Function (store M ! r)) (functions_map M),
      AddressMap_SizeOf SizeOf_PublicSymbol (public_symbols M)] @
     map (\<lambda>n. ContainedRangeMap_SizeOf (SizeOf_linked SizeOf_WindowsFrameInfo) (linked_crm n)) (wfi_maps M) @
     [RangeMap_SizeOf SizeOf_string (cfi_initial_rules M),
      StdMap_SizeOf SizeOf_word SizeOf_string (cfi_delta_rules M)]"

definition Module_SizeOf :: "sym_module \<Rightarrow> nat \<times> uint32 list" where
  "Module_SizeOf M =
     (let sizes = map word_of_nat (map_sizes M) :: uint32 list in
      (SizeOf_bool (is_corrupt M) + kNumberMaps * 4 + sum_list (map unat sizes) + 1, sizes))"

fun write_all :: "'x writer \<Rightarrow> 'x list writer" where
  "write_all wr [] dest mem = (mem, dest)"
| "write_all wr (x # xs) dest mem = (case wr x dest mem of (mem, dest) \<Rightarrow> write_all wr xs dest mem)"

definition Module_Write :: "uint32 list \<Rightarrow> sym_module writer" where
  "Module_Write sizes M dest mem =
     (case Write_bool (is_corrupt M) dest mem of (mem, dest) \<Rightarrow>
      case write_all Write_word sizes dest mem of (mem, dest) \<Rightarrow>
      case StdMap_Write 4 Write_int32 Write_string (files M) dest mem of (mem, dest) \<Rightarrow>
      case RangeMap_Write (\<lambda>r. Write_Function (store M ! r)) (functions_map M) dest mem of (mem, dest) \<Rightarrow>
      case AddressMap_Write Write_PublicSymbol (public_symbols M) dest mem of (mem, dest) \<Rightarrow>
      case write_all (\<lambda>n. ContainedRangeMap_Write (SizeOf_linked SizeOf_WindowsFrameInfo)
          (Write_linked Write_WindowsFrameInfo) (linked_crm n)) (wfi_maps M) dest mem of (mem, dest) \<Rightarrow>
      case RangeMap_Write Write_string (cfi_initial_rules M) dest mem of (mem, dest) \<Rightarrow>
      case StdMap_Write 8 Write_word Write_string (cfi_delta_rules M) dest mem of (mem, dest) \<Rightarrow>
      Write_word (0 :: uint8) dest mem)"

text \<open>
  \<open>alloc\<close> is the result of \<open>new char[]\<close>; the result is the memory, the block and its size. That
  the sizes agree is only logged.
\<close>

definition Module_Serialize :: "(uint32 \<Rightarrow> nat) \<Rightarrow> sym_module \<Rightarrow> memory \<Rightarrow> memory \<times> nat \<times> uint32" where
  "Module_Serialize alloc M mem =
     (case Module_SizeOf M of (total_size, sizes) \<Rightarrow>
        let size_to_alloc = word_of_nat total_size :: uint32;
            serialized_data = alloc size_to_alloc in
        if serialized_data = 0 then (mem, 0, 0)
        else (fst (Module_Write sizes M serialized_data mem), serialized_data, size_to_alloc))"

text \<open>The whole conversion of the text of a symbol file; None is a crash of the parser.\<close>

definition SerializeSymbolFileData ::
  "(uint32 \<Rightarrow> nat) \<Rightarrow> string \<Rightarrow> memory \<Rightarrow> (memory \<times> nat \<times> uint32) option" where
  "SerializeSymbolFileData alloc symbol_data mem =
     (case LoadMapFromMemory (symbol_data @ [CHR 0x00]) Module_init of
        Ok M \<Rightarrow> Some (Module_Serialize alloc M mem)
      | Fail M \<Rightarrow> Some (mem, 0, 0)
      | Crash \<Rightarrow> None)"

section \<open>Reading records back\<close>

text \<open>
  \<open>CopyFrom\<close> of lines, functions, public symbols and frame data. None is a null pointer, or a
  string without terminator.
\<close>

definition Line_CopyFrom :: "memory \<Rightarrow> nat \<Rightarrow> sym_line" where
  "Line_CopyFrom mem raw =
     \<lparr>ln_address = load_word mem raw, ln_size = load_word mem (raw + 8),
      source_file_id = sint (load_word mem (raw + 2 * 8) :: uint32),
      ln_line = sint (load_word mem (raw + 2 * 8 + 4) :: uint32)\<rparr>"

record fast_function =
  ff_name :: string
  ff_address :: mem_addr
  ff_size :: mem_addr
  ff_parameter_size :: int
  ff_lines :: static_map

definition Function_CopyFrom :: "memory \<Rightarrow> nat \<Rightarrow> fast_function option" where
  "Function_CopyFrom mem raw =
     map_option (\<lambda>name.
       let name_size = length name + 1 in
       \<lparr>ff_name = name, ff_address = load_word mem (raw + name_size),
        ff_size = load_word mem (raw + name_size + 8),
        ff_parameter_size = sint (load_word mem (raw + name_size + 2 * 8) :: uint32),
        ff_lines = StaticMap mem (raw + name_size + 2 * 8 + 4)\<rparr>) (load_string mem raw)"

definition PublicSymbol_CopyFrom :: "memory \<Rightarrow> nat \<Rightarrow> public_symbol option" where
  "PublicSymbol_CopyFrom mem raw =
     map_option (\<lambda>name.
       let name_size = length name + 1 in
       \<lparr>ps_name = name, ps_address = load_word mem (raw + name_size),
        ps_parameter_size = sint (load_word mem (raw + name_size + 8) :: uint32)\<rparr>) (load_string mem raw)"

text \<open>The stored \<open>valid\<close> is not read; the constructor sets it to \<open>VALID_ALL\<close>.\<close>

definition CopyWFI :: "memory \<Rightarrow> nat \<Rightarrow> windows_frame_info option" where
  "CopyWFI mem raw =
     (if raw = 0 then None
      else
        let para_uint32 = raw + 2 * 4; boolean = para_uint32 + 6 * 4 in
        map_option (\<lambda>program.
          \<lparr>wfi_type = sint (load_word mem raw :: uint32), valid = VALID_ALL,
           prolog_size = load_word mem para_uint32,
           epilog_size = load_word mem (para_uint32 + 4),
           parameter_size = load_word mem (para_uint32 + 2 * 4),
           saved_register_size = load_word mem (para_uint32 + 3 * 4),
           local_size = load_word mem (para_uint32 + 4 * 4),
           max_stack_size = load_word mem (para_uint32 + 5 * 4),
           allocates_base_pointer = mem boolean \<noteq> 0,
           program_string = program\<rparr>) (load_string mem (boolean + 1)))"

section \<open>The fast module\<close>

record fast_module =
  fm_files :: static_map
  fm_functions :: static_map
  fm_public_symbols :: static_map
  fm_is_corrupt :: bool
  fm_windows_frame_info :: "mem_addr static_contained_range_map list"
  fm_cfi_initial_rules :: static_map
  fm_cfi_delta_rules :: static_map

text \<open>Offset \<open>i\<close> is the sum of the header size and the sizes before \<open>i\<close>, in 32 bits.\<close>

fun map_offsets :: "memory \<Rightarrow> nat \<Rightarrow> nat \<Rightarrow> uint32" where
  "map_offsets mem sizes 0 = word_of_nat (kNumberMaps * 4)"
| "map_offsets mem sizes (Suc i) = map_offsets mem sizes i + load_word mem (sizes + i * 4)"

definition fast_LoadMapFromMemory :: "memory \<Rightarrow> nat \<Rightarrow> fast_module \<Rightarrow> bool \<times> fast_module" where
  "fast_LoadMapFromMemory mem memory_buffer M =
     (if memory_buffer = 0 then (False, M)
      else
        case Read_bool mem memory_buffer of (mem_buffer, corrupt) \<Rightarrow>
        let at = (\<lambda>i. mem_buffer + unat (map_offsets mem mem_buffer i)); k = nat STACK_INFO_LAST in
        (True, \<lparr>fm_files = StaticMap mem (at 0), fm_functions = StaticMap mem (at 1),
           fm_public_symbols = StaticMap mem (at 2), fm_is_corrupt = corrupt,
           fm_windows_frame_info = map (\<lambda>i. StaticContainedRangeMap mem (at (3 + i))) [0..<k],
           fm_cfi_initial_rules = StaticMap mem (at (3 + k)),
           fm_cfi_delta_rules = StaticMap mem (at (4 + k))\<rparr>))"

text \<open>
  The public symbol the queries turn to when no function covers the address; \<open>bound\<close> is the base
  of the nearest function, if there is one.
\<close>

definition fast_public ::
  "memory \<Rightarrow> fast_module \<Rightarrow> mem_addr \<Rightarrow> mem_addr option \<Rightarrow> (public_symbol \<times> mem_addr) option option" where
  "fast_public mem M address bound =
     (case sam_Retrieve mem (fm_public_symbols M) address of
        None \<Rightarrow> None
      | Some None \<Rightarrow> Some None
      | Some (Some (public_symbol_ptr, public_address)) \<Rightarrow>
          if (case bound of None \<Rightarrow> True | Some fbase \<Rightarrow> public_address > fbase)
          then map_option (\<lambda>symbol. Some (symbol, public_address)) (PublicSymbol_CopyFrom mem public_symbol_ptr)
          else Some None)"

definition fast_name_public ::
  "memory \<Rightarrow> fast_module \<Rightarrow> mem_addr \<Rightarrow> mem_addr option \<Rightarrow> stack_frame \<Rightarrow> stack_frame option" where
  "fast_name_public mem M address bound frame =
     map_option (\<lambda>found. case found of None \<Rightarrow> frame
       | Some (symbol, public_address) \<Rightarrow> frame\<lparr>function_name := ps_name symbol,
           function_base := module_base frame + public_address\<rparr>) (fast_public mem M address bound)"

definition fast_line :: "memory \<Rightarrow> fast_module \<Rightarrow> static_map \<Rightarrow> mem_addr \<Rightarrow> stack_frame \<Rightarrow> stack_frame option" where
  "fast_line mem M lines_map address frame =
     (case srm_RetrieveRange mem lines_map address of
        None \<Rightarrow> None
      | Some None \<Rightarrow> Some frame
      | Some (Some (line_ptr, line_base, _)) \<Rightarrow>
          let line = Line_CopyFrom mem line_ptr;
              it = sm_find mem (sint :: uint32 \<Rightarrow> int) (fm_files M) (source_file_id line) in
          map_option (\<lambda>frame. frame\<lparr>source_line := ln_line line,
              source_line_base := module_base frame + line_base\<rparr>)
            (if it_not_equal it (sm_end mem (fm_files M))
             then Option.bind (GetValueRawPtr mem it) (\<lambda>p.
               map_option (\<lambda>name. frame\<lparr>source_file_name := name\<rparr>) (load_string mem p))
             else Some frame))"

definition fast_LookupAddress :: "memory \<Rightarrow> fast_module \<Rightarrow> stack_frame \<Rightarrow> stack_frame option" where
  "fast_LookupAddress mem M frame =
     (let address = instruction frame - module_base frame in
      case srm_RetrieveNearestRange mem (fm_functions M) address of
        None \<Rightarrow> None
      | Some None \<Rightarrow> fast_name_public mem M address None frame
      | Some (Some (func_ptr, base, sz)) \<Rightarrow>
          if base \<le> address \<and> address - base < sz then
            Option.bind (Function_CopyFrom mem func_ptr) (\<lambda>func.
              fast_line mem M (ff_lines func) address
                (frame\<lparr>function_name := ff_name func, function_base := module_base frame + base\<rparr>))
          else fast_name_public mem M address (Some base) frame)"

text \<open>As in the basic resolver, the public symbol is looked up and then dropped.\<close>

definition fast_FindWindowsFrameInfo ::
  "memory \<Rightarrow> fast_module \<Rightarrow> stack_frame \<Rightarrow> windows_frame_info option option" where
  "fast_FindWindowsFrameInfo mem M frame =
     (let address = instruction frame - module_base frame;
          result = WindowsFrameInfo_init;
          found = (\<lambda>frame_info_ptr. map_option (\<lambda>wfi. Some (wfi_CopyFrom wfi result)) (CopyWFI mem frame_info_ptr)) in
      case scrm_RetrieveRange mem (fm_windows_frame_info M ! nat STACK_INFO_FRAME_DATA) address of
        None \<Rightarrow> None
      | Some (Some frame_info_ptr) \<Rightarrow> found frame_info_ptr
      | Some None \<Rightarrow>
          (case scrm_RetrieveRange mem (fm_windows_frame_info M ! nat STACK_INFO_FPO) address of
             None \<Rightarrow> None
           | Some (Some frame_info_ptr) \<Rightarrow> found frame_info_ptr
           | Some None \<Rightarrow>
               (case srm_RetrieveNearestRange mem (fm_functions M) address of
                  None \<Rightarrow> None
                | Some (Some (function_ptr, base, sz)) \<Rightarrow>
                    if base \<le> address \<and> address - base < sz then
                      map_option (\<lambda>function. Some (result\<lparr>
                          parameter_size := word_of_int (ff_parameter_size function),
                          valid := valid result OR VALID_PARAMETER_SIZE\<rparr>))
                        (Function_CopyFrom mem function_ptr)
                    else map_option (\<lambda>_. None) (fast_public mem M address (Some base))
                | Some None \<Rightarrow> map_option (\<lambda>_. None) (fast_public mem M address None))))"

text \<open>The loop over the delta rules; \<open>delta++\<close> on an invalid iterator would not advance.\<close>

partial_function (option) fast_apply_deltas ::
  "memory \<Rightarrow> static_map \<Rightarrow> static_map_iterator \<Rightarrow> mem_addr \<Rightarrow> cfi_frame_info \<Rightarrow> cfi_frame_info option" where
  "fast_apply_deltas mem deltas delta address rules =
     (if it_not_equal delta (sm_end mem deltas) then
        Option.bind (GetKey mem (uint :: mem_addr \<Rightarrow> int) delta) (\<lambda>key.
          if key \<le> uint address then
            Option.bind (Option.bind (GetValueRawPtr mem delta) (load_string mem)) (\<lambda>rule_set.
              fast_apply_deltas mem deltas (snd (post_increment delta)) address
                (snd (ParseCFIRuleSet rule_set rules)))
          else Some rules)
      else Some rules)"

definition fast_FindCFIFrameInfo :: "memory \<Rightarrow> fast_module \<Rightarrow> stack_frame \<Rightarrow> cfi_frame_info option option" where
  "fast_FindCFIFrameInfo mem M frame =
     (let address = instruction frame - module_base frame in
      case srm_RetrieveRange mem (fm_cfi_initial_rules M) address of
        None \<Rightarrow> None
      | Some None \<Rightarrow> Some None
      | Some (Some (initial_rules, initial_base, _)) \<Rightarrow>
          Option.bind (load_string mem initial_rules) (\<lambda>initial_rules.
            case ParseCFIRuleSet initial_rules CFIFrameInfo_init of
              (False, _) \<Rightarrow> Some None
            | (True, rules) \<Rightarrow>
                map_option Some (fast_apply_deltas mem (fm_cfi_delta_rules M)
                  (sm_lower_bound mem (uint :: mem_addr \<Rightarrow> int) (fm_cfi_delta_rules M) (uint initial_base))
                  address rules)))"

end
