(* ===== verification/Fast_Resolver.thy ===== *)
theory Fast_Resolver
  imports Module_Serializer
begin

text \<open>
  The serialized module and the fast resolver against the basic one: the block that
  \<open>ModuleSerializer\<close> writes is the image of the module, and on any memory that holds this image
  the fast module answers every query as the basic module does.
\<close>

section \<open>Modules that can be serialized\<close>

definition in_int32 :: "int \<Rightarrow> bool" where
  "in_int32 i \<longleftrightarrow> - (2 ^ 31) \<le> i \<and> i < 2 ^ 31"

definition line_ok :: "sym_line \<Rightarrow> bool" where
  "line_ok l \<longleftrightarrow> in_int32 (source_file_id l) \<and> in_int32 (ln_line l)"

definition public_ok :: "public_symbol \<Rightarrow> bool" where
  "public_ok s \<longleftrightarrow> no_nul (ps_name s) \<and> in_int32 (ps_parameter_size s)"

definition frame_data_ok :: "windows_frame_info \<Rightarrow> bool" where
  "frame_data_ok w \<longleftrightarrow> no_nul (program_string w) \<and> in_int32 (wfi_type w) \<and> valid w = VALID_ALL"

definition symbol_function_ok :: "sym_function \<Rightarrow> bool" where
  "symbol_function_ok f \<longleftrightarrow> no_nul (fn_name f) \<and> in_int32 (fn_parameter_size f) \<and>
     (\<forall>(h, r) \<in> set (rm_map (fn_lines f)). line_ok (rng_entry r))"

text \<open>What every module loaded from a symbol file satisfies: strings without NUL and 32-bit ints.\<close>

definition module_ok :: "sym_module \<Rightarrow> bool" where
  "module_ok M \<longleftrightarrow>
     (\<forall>(i, s) \<in> set (files M). in_int32 i \<and> no_nul s) \<and>
     (\<forall>f \<in> set (store M). symbol_function_ok f) \<and>
     (\<forall>(a, s) \<in> set (am_map (public_symbols M)). public_ok s) \<and>
     (\<forall>n \<in> set (wfi_maps M). \<forall>(b, h, w) \<in> set (crm_ranges n). frame_data_ok w) \<and>
     (\<forall>(h, r) \<in> set (rm_map (cfi_initial_rules M)). no_nul (rng_entry r)) \<and>
     (\<forall>(a, s) \<in> set (cfi_delta_rules M). no_nul s)"

section \<open>The image of a module\<close>

definition wfi_tree_image :: "(mem_addr, windows_frame_info) crm \<Rightarrow> bytes" where
  "wfi_tree_image n = crm_image (linked_image wfi_image) (linked_crm n)"

definition module_parts :: "sym_module \<Rightarrow> bytes list" where
  "module_parts M =
     [nodes_image int32_bytes string_bytes (files M),
      range_map_image (\<lambda>r. function_image (store M ! r)) (functions_map M),
      nodes_image word_bytes public_image (am_map (public_symbols M))] @
     map wfi_tree_image (wfi_maps M) @
     [range_map_image string_bytes (cfi_initial_rules M),
      nodes_image word_bytes string_bytes (cfi_delta_rules M)]"

definition module_image :: "sym_module \<Rightarrow> bytes" where
  "module_image M = bool_bytes (is_corrupt M) @ concat (map (offset_bytes \<circ> length) (module_parts M)) @
     concat (module_parts M) @ [0]"

lemma length_module_image:
  "length (module_image M) = 2 + 4 * length (module_parts M) + length (concat (module_parts M))"
proof -
  have "length (concat (map (offset_bytes \<circ> length) ps)) = 4 * length ps" for ps
    using length_offset_table [of "map length ps"] by simp
  then show ?thesis by (simp add: module_image_def)
qed

section \<open>Trees of linked pointers\<close>

lemma kids_map_crm: "kids (map_crm id f n) = map (map_prod id (map_crm id f)) (kids n)"
  by (cases n) (auto simp: kids_def map_prod_def split: option.split)

lemma kids_linked: "kids (linked_crm n) = kids (map_crm id Some n)"
  by (cases n) (auto simp: linked_crm_def kids_def split: option.split)

lemma lower_bound_map_snd: "lower_bound (map (map_prod id g) m) a = lower_bound m a"
  by (simp add: lower_bound_def takeWhile_map o_def)

lemma crm_sel_map [simp]: "crm_base (map_crm id f n) = crm_base n" "crm_entry (map_crm id f n) = f (crm_entry n)"
  by (cases n; simp)+

lemma crm_RetrieveRange_map: "crm_RetrieveRange (map_crm id f n) a = map_option f (crm_RetrieveRange n a)"
proof (induction "size n" arbitrary: n rule: less_induct)
  case less
  let ?i = "lower_bound (kids n) a"
  show ?case
  proof (cases "?i = length (kids n)")
    case True
    then show ?thesis
      by (simp add: crm_RetrieveRange_kids [of n] crm_RetrieveRange_kids [of "map_crm id f n"] Let_def
          kids_map_crm lower_bound_map_snd)
  next
    case False
    then have i: "?i < length (kids n)" using lower_bound_le_length [of "kids n" a] by linarith
    have IH: "crm_RetrieveRange (map_crm id f (snd (kids n ! ?i))) a =
        map_option f (crm_RetrieveRange (snd (kids n ! ?i)) a)"
      using i by (intro less kids_size) simp
    show ?thesis
      using i IH
      by (simp add: crm_RetrieveRange_kids [of n] crm_RetrieveRange_kids [of "map_crm id f n"] Let_def
          kids_map_crm lower_bound_map_snd split: option.split)
  qed
qed

lemma crm_RetrieveRange_linked: "crm_RetrieveRange (linked_crm n) a = map_option Some (crm_RetrieveRange n a)"
  unfolding crm_RetrieveRange_map [symmetric]
  by (simp add: crm_RetrieveRange_kids [of "linked_crm n"] crm_RetrieveRange_kids [of "map_crm id Some n"] kids_linked)

lemma crm_ranges_map:
  "set (crm_ranges (map_crm id f n)) = (\<lambda>(b, h, e). (b, h, f e)) ` set (crm_ranges n)"
proof (induction "size n" arbitrary: n rule: less_induct)
  case less
  let ?g = "\<lambda>(b, h, e). (b, h, f e)"
  have own: "own (map_prod id (map_crm id f) x) = ?g ` own x" if "x \<in> set (kids n)" for x
    using less.hyps [OF kids_size [OF that]] by (simp add: own_def)
  have "set (crm_ranges (map_crm id f n)) = (\<Union>x \<in> set (kids n). own (map_prod id (map_crm id f) x))"
    by (simp add: set_crm_ranges [of "map_crm id f n"] kids_map_crm)
  also have "\<dots> = (\<Union>x \<in> set (kids n). ?g ` own x)" using own by simp
  finally show ?case by (simp add: set_crm_ranges [of n] image_UN)
qed

lemma kids_disjoint_map: "kids_disjoint (map (map_prod id (map_crm id f)) m) = kids_disjoint m"
  by (simp add: kids_disjoint_def sorted_wrt_map)

lemma crm_wf_map: "crm_wf n \<Longrightarrow> crm_wf (map_crm id f n)"
proof (induction "size n" arbitrary: n rule: less_induct)
  case less
  then have "\<forall>x \<in> set (kids n). crm_wf (map_crm id f (snd x))"
    using kids_size crm_wf_kids [of n] by blast
  then show ?case
    using less.prems crm_wf_kids [of n]
    by (simp add: crm_wf_kids [of "map_crm id f n"] kids_map_crm kids_disjoint_map)
qed

lemma crm_wf_linked: "crm_wf n \<Longrightarrow> crm_wf (linked_crm n)"
  using crm_wf_map [of n Some]
  by (simp add: crm_wf_kids [of "linked_crm n"] crm_wf_kids [of "map_crm id Some n"] kids_linked)

lemma crm_ranges_linked: "set (crm_ranges (linked_crm n)) = (\<lambda>(b, h, e). (b, h, Some e)) ` set (crm_ranges n)"
  using crm_ranges_map [of Some n]
  by (simp add: set_crm_ranges [of "linked_crm n"] set_crm_ranges [of "map_crm id Some n"] kids_linked)

lemma crm_entry_linked [simp]: "crm_entry (linked_crm n) = None"
  by (simp add: linked_crm_def)

section \<open>Sizes\<close>

lemma member_map_image: "(k, v) \<in> set m \<Longrightarrow> length (value_img v) \<le> length (nodes_image key_img value_img m)"
  using member_le_sum_list [of "length (key_img k) + length (value_img v)"
      "map (\<lambda>(k, v). length (key_img k) + length (value_img v)) m"]
  by (force simp: length_nodes_image)

lemma part_small: "p \<in> set (module_parts M) \<Longrightarrow> length (module_image M) < 2 ^ 32 \<Longrightarrow> length p < 2 ^ 32"
  using length_le_concat [of p "module_parts M"] by (simp add: length_module_image)

lemma range_entry_small:
  assumes "(h, r) \<in> set (rm_map rm)"
  shows "length (img (rng_entry r)) \<le> length (range_map_image img rm)"
proof -
  have "length (img (rng_entry r)) \<le> length (range_image img r)" by (simp add: range_image_def)
  also have "\<dots> \<le> length (range_map_image img rm)"
    unfolding range_map_image_def using assms by (rule member_map_image)
  finally show ?thesis .
qed

lemma crm_entry_small:
  "(b, h, e) \<in> set (crm_ranges n) \<Longrightarrow> length (img e) \<le> length (crm_image img n)"
proof (induction "size n" arbitrary: n rule: less_induct)
  case less
  then obtain x where x: "x \<in> set (kids n)" "(b, h, e) \<in> own x" by (auto simp: set_crm_ranges)
  then obtain i where i: "i < length (kids n)" "kids n ! i = x" by (auto simp: in_set_conv_nth)
  have "length (img e) \<le> length (crm_image img (snd x))"
  proof (cases "(b, h, e) \<in> set (crm_ranges (snd x))")
    case True
    then show ?thesis using less.hyps [OF kids_size [OF x(1)]] by blast
  next
    case False
    then show ?thesis using x(2) by (simp add: own_def crm_image.simps [of img "snd x"])
  qed
  then show ?case using child_image_le [OF i(1), of img] i(2) by simp
qed

text \<open>A module whose image is small can be serialized part by part.\<close>

lemma module_parts_ok:
  assumes "module_wf M" and "module_ok M" and "length (module_image M) < 2 ^ 32"
  shows "\<forall>(h, r) \<in> set (rm_map (functions_map M)). function_ok (store M ! rng_entry r)"
    and "\<forall>n \<in> set (wfi_maps M). \<forall>(b, h, w) \<in> set (crm_ranges n). wfi_ok w"
proof -
  show "\<forall>(h, r) \<in> set (rm_map (functions_map M)). function_ok (store M ! rng_entry r)"
  proof clarify
    fix h r assume r: "(h, r) \<in> set (rm_map (functions_map M))"
    then have "store M ! rng_entry r \<in> set (store M)"
      using assms(1) by (fastforce simp: module_wf_def function_ranges_ok_def)
    moreover have "length (range_map_image (\<lambda>r. function_image (store M ! r)) (functions_map M)) < 2 ^ 32"
      by (rule part_small [OF _ assms(3)]) (simp add: module_parts_def)
    ultimately show "function_ok (store M ! rng_entry r)"
      using range_entry_small [OF r, of "\<lambda>r. function_image (store M ! r)"] assms(2)
      by (auto simp: function_ok_def module_ok_def symbol_function_ok_def)
  qed
  show "\<forall>n \<in> set (wfi_maps M). \<forall>(b, h, w) \<in> set (crm_ranges n). wfi_ok w"
  proof clarify
    fix n b h w assume n: "n \<in> set (wfi_maps M)" and w: "(b, h, w) \<in> set (crm_ranges n)"
    then have "(b, h, Some w) \<in> set (crm_ranges (linked_crm n))" by (force simp: crm_ranges_linked)
    from crm_entry_small [OF this, of "linked_image wfi_image"]
    have "length (wfi_image w) \<le> length (wfi_tree_image n)" by (simp add: wfi_tree_image_def linked_image_def)
    moreover have "length (wfi_tree_image n) < 2 ^ 32"
      using n by (intro part_small [OF _ assms(3)]) (simp add: module_parts_def)
    ultimately show "wfi_ok w"
      using n w assms(2) by (fastforce simp: wfi_ok_def module_ok_def frame_data_ok_def)
  qed
qed

lemma wfi_tree_ok:
  assumes "module_wf M" and "module_ok M" and "length (module_image M) < 2 ^ 32" and "n \<in> set (wfi_maps M)"
  shows "(\<forall>x \<in> set_option (crm_entry (linked_crm n)). wfi_ok x) \<and>
    (\<forall>(b, h, e) \<in> set (crm_ranges (linked_crm n)). \<forall>x \<in> set_option e. wfi_ok x)"
  using module_parts_ok(2) [OF assms(1-3)] assms(4) by (fastforce simp: crm_ranges_linked)

lemma strings_ok:
  assumes "module_ok M"
  shows "\<forall>(i, s) \<in> set (files M). True \<and> no_nul s"
    and "\<forall>(a, s) \<in> set (am_map (public_symbols M)). True \<and> (no_nul \<circ> ps_name) s"
    and "\<forall>(h, r) \<in> set (rm_map (cfi_initial_rules M)). no_nul (rng_entry r)"
    and "\<forall>(a, s) \<in> set (cfi_delta_rules M). True \<and> no_nul s"
  using assms by (fastforce simp: module_ok_def public_ok_def)+

section \<open>What ModuleSerializer writes\<close>

lemma write_all_image:
  "stores wr img (set xs) \<Longrightarrow> dest \<noteq> 0 \<Longrightarrow>
     write_all wr xs dest mem = (store_bytes dest (concat (map img xs)) mem, dest + length (concat (map img xs)))"
proof (induction xs arbitrary: dest mem)
  case (Cons x xs)
  then show ?case by (simp add: stores_def store_bytes_append add.assoc)
qed simp

text \<open>The parts written by the member serializers, in order.\<close>

lemma module_writers:
  assumes "module_wf M" and "module_ok M" and "length (module_image M) < 2 ^ 32" and "dest \<noteq> 0"
  shows "StdMap_Write 4 Write_int32 Write_string (files M) dest mem =
      (store_bytes dest (nodes_image int32_bytes string_bytes (files M)) mem,
       dest + length (nodes_image int32_bytes string_bytes (files M)))"
    and "RangeMap_Write (\<lambda>r. Write_Function (store M ! r)) (functions_map M) dest mem =
      (store_bytes dest (range_map_image (\<lambda>r. function_image (store M ! r)) (functions_map M)) mem,
       dest + length (range_map_image (\<lambda>r. function_image (store M ! r)) (functions_map M)))"
    and "AddressMap_Write Write_PublicSymbol (public_symbols M) dest mem =
      (store_bytes dest (nodes_image word_bytes public_image (am_map (public_symbols M))) mem,
       dest + length (nodes_image word_bytes public_image (am_map (public_symbols M))))"
    and "write_all (\<lambda>n. ContainedRangeMap_Write (SizeOf_linked SizeOf_WindowsFrameInfo)
          (Write_linked Write_WindowsFrameInfo) (linked_crm n)) (wfi_maps M) dest mem =
      (store_bytes dest (concat (map wfi_tree_image (wfi_maps M))) mem,
       dest + length (concat (map wfi_tree_image (wfi_maps M))))"
    and "RangeMap_Write Write_string (cfi_initial_rules M) dest mem =
      (store_bytes dest (range_map_image string_bytes (cfi_initial_rules M)) mem,
       dest + length (range_map_image string_bytes (cfi_initial_rules M)))"
    and "StdMap_Write 8 Write_word Write_string (cfi_delta_rules M) dest mem =
      (store_bytes dest (nodes_image word_bytes string_bytes (cfi_delta_rules M)) mem,
       dest + length (nodes_image word_bytes string_bytes (cfi_delta_rules M)))"
proof -
  note ok = strings_ok [OF assms(2)]
  show "StdMap_Write 4 Write_int32 Write_string (files M) dest mem =
      (store_bytes dest (nodes_image int32_bytes string_bytes (files M)) mem,
       dest + length (nodes_image int32_bytes string_bytes (files M)))"
    by (rule files_serializer.std_map.write_image [OF ok(1) assms(4)])
  show "AddressMap_Write Write_PublicSymbol (public_symbols M) dest mem =
      (store_bytes dest (nodes_image word_bytes public_image (am_map (public_symbols M))) mem,
       dest + length (nodes_image word_bytes public_image (am_map (public_symbols M))))"
    using pubsym_serializer.std_map.write_image [OF ok(2) assms(4)] by (simp add: AddressMap_Write_def)
  show "RangeMap_Write Write_string (cfi_initial_rules M) dest mem =
      (store_bytes dest (range_map_image string_bytes (cfi_initial_rules M)) mem,
       dest + length (range_map_image string_bytes (cfi_initial_rules M)))"
    by (rule cfi_init_serializer.write_image [OF ok(3) assms(4)])
  show "StdMap_Write 8 Write_word Write_string (cfi_delta_rules M) dest mem =
      (store_bytes dest (nodes_image word_bytes string_bytes (cfi_delta_rules M)) mem,
       dest + length (nodes_image word_bytes string_bytes (cfi_delta_rules M)))"
    by (rule cfi_delta_serializer.std_map.write_image [OF ok(4) assms(4)])
  show "RangeMap_Write (\<lambda>r. Write_Function (store M ! r)) (functions_map M) dest mem =
      (store_bytes dest (range_map_image (\<lambda>r. function_image (store M ! r)) (functions_map M)) mem,
       dest + length (range_map_image (\<lambda>r. function_image (store M ! r)) (functions_map M)))"
    using module_parts_ok(1) [OF assms(1-3)]
    by (intro serializer.write_image [OF serializer.range_map_serializer
          [OF function_serializer.deref_serializer [of "\<lambda>r. store M ! r"]]] assms(4)) simp
  have "stores (\<lambda>n. ContainedRangeMap_Write (SizeOf_linked SizeOf_WindowsFrameInfo)
      (Write_linked Write_WindowsFrameInfo) (linked_crm n)) wfi_tree_image (set (wfi_maps M))"
    unfolding stores_def wfi_tree_image_def
    using wfi_tree_serializer.write_image [OF wfi_tree_ok [OF assms(1-3)]] by blast
  then show "write_all (\<lambda>n. ContainedRangeMap_Write (SizeOf_linked SizeOf_WindowsFrameInfo)
          (Write_linked Write_WindowsFrameInfo) (linked_crm n)) (wfi_maps M) dest mem =
      (store_bytes dest (concat (map wfi_tree_image (wfi_maps M))) mem,
       dest + length (concat (map wfi_tree_image (wfi_maps M))))"
    using assms(4) by (rule write_all_image)
qed

lemma map_sizes_image:
  assumes "module_wf M" and "module_ok M" and "length (module_image M) < 2 ^ 32"
  shows "map_sizes M = map length (module_parts M)"
proof -
  note ok = strings_ok [OF assms(2)]
  have "StdMap_SizeOf SizeOf_int32 SizeOf_string (files M) = length (nodes_image int32_bytes string_bytes (files M))"
    by (rule files_serializer.std_map.size_image [OF ok(1)])
  moreover have "AddressMap_SizeOf SizeOf_PublicSymbol (public_symbols M) =
      length (nodes_image word_bytes public_image (am_map (public_symbols M)))"
    using pubsym_serializer.std_map.size_image [OF ok(2)] by (simp add: AddressMap_SizeOf_def)
  moreover have "RangeMap_SizeOf SizeOf_string (cfi_initial_rules M) = length (range_map_image string_bytes (cfi_initial_rules M))"
    by (rule cfi_init_serializer.size_image [OF ok(3)])
  moreover have "StdMap_SizeOf SizeOf_word SizeOf_string (cfi_delta_rules M) =
      length (nodes_image word_bytes string_bytes (cfi_delta_rules M))"
    by (rule cfi_delta_serializer.std_map.size_image [OF ok(4)])
  moreover have "RangeMap_SizeOf (\<lambda>r. SizeOf_Function (store M ! r)) (functions_map M) =
      length (range_map_image (\<lambda>r. function_image (store M ! r)) (functions_map M))"
    using module_parts_ok(1) [OF assms]
    by (intro serializer.size_image [OF serializer.range_map_serializer
          [OF function_serializer.deref_serializer [of "\<lambda>r. store M ! r"]]]) simp
  moreover have "map (\<lambda>n. ContainedRangeMap_SizeOf (SizeOf_linked SizeOf_WindowsFrameInfo) (linked_crm n)) (wfi_maps M) =
      map (length \<circ> wfi_tree_image) (wfi_maps M)"
    using wfi_tree_serializer.size_image [OF wfi_tree_ok [OF assms]] by (simp add: wfi_tree_image_def)
  ultimately show ?thesis by (simp add: map_sizes_def module_parts_def)
qed

lemma length_module_parts: "module_wf M \<Longrightarrow> length (module_parts M) = 10"
  by (simp add: module_parts_def module_wf_def STACK_INFO_LAST_def)

lemma Module_SizeOf_image:
  assumes "module_wf M" and "module_ok M" and "length (module_image M) < 2 ^ 32"
  shows "Module_SizeOf M = (length (module_image M), map (word_of_nat \<circ> length) (module_parts M))"
proof -
  have "unat (word_of_nat (length p) :: uint32) = length p" if "p \<in> set (module_parts M)" for p
    using part_small [OF that assms(3)] by (simp add: unsigned_of_nat take_bit_eq_mod)
  then have "sum_list (map (unat \<circ> ((word_of_nat :: nat \<Rightarrow> uint32) \<circ> length)) (module_parts M)) =
      sum_list (map length (module_parts M))"
    by (intro arg_cong [where f = sum_list] map_cong) simp_all
  then show ?thesis
    using length_module_parts [OF assms(1)]
    by (simp add: Module_SizeOf_def map_sizes_image [OF assms] Let_def SizeOf_bool_def kNumberMaps_def
        STACK_INFO_LAST_def length_module_image length_concat)
qed

lemma Module_Write_image:
  assumes "module_wf M" and "module_ok M" and "length (module_image M) < 2 ^ 32" and "dest \<noteq> 0"
  shows "Module_Write (snd (Module_SizeOf M)) M dest mem =
    (store_bytes dest (module_image M) mem, dest + length (module_image M))"
proof -
  have sizes: "write_all Write_word (map (word_of_nat \<circ> length) ps :: uint32 list) d mem' =
      (store_bytes d (concat (map (offset_bytes \<circ> length) ps)) mem', d + length (concat (map (offset_bytes \<circ> length) ps)))"
    if "d \<noteq> 0" for ps :: "bytes list" and d mem'
    using that write_all_image [of Write_word word_bytes "map (word_of_nat \<circ> length) ps :: uint32 list" d mem']
    by (simp add: stores_def write_simps o_def offset_bytes_def)
  have null: "word_bytes (0 :: uint8) = [0]" by (simp add: word_bytes_def)
  show ?thesis
    using assms(4)
    by (simp add: Module_Write_def Module_SizeOf_image [OF assms(1-3)] write_simps sizes
        module_writers [OF assms(1-3)] module_image_def store_bytes_append add.assoc null)
      (simp add: module_parts_def store_bytes_append add.assoc)
qed

section \<open>The loaded fast module\<close>

definition scrm_of ::
  "memory \<Rightarrow> mem_addr static_contained_range_map \<Rightarrow> (mem_addr, windows_frame_info) crm \<Rightarrow> bool" where
  "scrm_of mem map_in_memory n \<longleftrightarrow> (\<exists>p. p \<noteq> 0 \<and> map_in_memory = StaticContainedRangeMap mem p \<and>
     holds mem p (wfi_tree_image n) \<and> length (wfi_tree_image n) < 2 ^ 32)"

text \<open>The static maps of the fast module represent the maps of the basic module.\<close>

definition fast_of :: "memory \<Rightarrow> fast_module \<Rightarrow> sym_module \<Rightarrow> bool" where
  "fast_of mem F M \<longleftrightarrow>
     static_of mem (sint :: uint32 \<Rightarrow> int) id string_bytes (fm_files F) (files M) \<and>
     srm_of mem (\<lambda>r. function_image (store M ! r)) (fm_functions F) (functions_map M) \<and>
     static_of mem (uint :: mem_addr \<Rightarrow> int) uint public_image (fm_public_symbols F) (am_map (public_symbols M)) \<and>
     (\<forall>i < nat STACK_INFO_LAST. scrm_of mem (fm_windows_frame_info F ! i) (wfi_maps M ! i)) \<and>
     srm_of mem string_bytes (fm_cfi_initial_rules F) (cfi_initial_rules M) \<and>
     static_of mem (uint :: mem_addr \<Rightarrow> int) uint string_bytes (fm_cfi_delta_rules F) (cfi_delta_rules M) \<and>
     fm_is_corrupt F = is_corrupt M"

lemma map_offsets_sum:
  assumes "holds mem q (concat (map (offset_bytes \<circ> length) ps))" and "i \<le> length ps"
  shows "map_offsets mem q i = word_of_nat (kNumberMaps * 4 + length (concat (take i ps)))"
  using assms(2)
proof (induction i)
  case (Suc i)
  then have i: "i < length ps" by simp
  have "holds mem (q + i * 4) (offset_bytes (length (ps ! i)))"
    using holds_table [of mem q "map length ps" i] assms(1) i by simp
  then have "(load_word mem (q + i * 4) :: uint32) = word_of_nat (length (ps ! i))"
    unfolding offset_bytes_def by (rule load_holds [rotated]) simp
  then show ?case
    using Suc i by (simp add: take_Suc_conv_app_nth)
qed simp

lemma load_int32:
  assumes "holds mem p (int32_bytes i)" and "in_int32 i"
  shows "sint (load_word mem p :: uint32) = i"
proof -
  have "sint (int32_word i) = i"
    using assms(2) by (simp add: int32_word_def in_int32_def signed_of_int signed_take_bit_int_eq_self_iff)
  moreover have "(load_word mem p :: uint32) = int32_word i"
    using assms(1) unfolding int32_bytes_def by (rule load_holds [rotated]) simp
  ultimately show ?thesis by simp
qed

lemma unat_of_small: "n < 2 ^ 32 \<Longrightarrow> unat (word_of_nat n :: uint32) = n"
  by (simp add: unsigned_of_nat take_bit_eq_mod)

lemma image_parts:
  assumes "holds mem p (module_image M)" and "module_wf M" and "length (module_image M) < 2 ^ 32"
    and "i < 10"
  shows "holds mem (p + 1 + unat (map_offsets mem (p + 1) i)) (module_parts M ! i)"
    and "length (module_parts M ! i) < 2 ^ 32"
proof -
  let ?ps = "module_parts M"
  have n: "length ?ps = 10" by (rule length_module_parts [OF assms(2)])
  have table: "holds mem (p + 1) (concat (map (offset_bytes \<circ> length) ?ps))"
    and parts: "holds mem (p + 1 + 4 * length ?ps) (concat ?ps)"
    using assms(1) length_offset_table [of "map length ?ps"] by (auto simp: module_image_def holds_append add.assoc)
  have "length (concat (take i ?ps)) \<le> length (concat ?ps)" by (rule length_concat_take)
  then have "kNumberMaps * 4 + length (concat (take i ?ps)) < 2 ^ 32"
    using assms(3) n by (simp add: length_module_image kNumberMaps_def STACK_INFO_LAST_def)
  then have "unat (map_offsets mem (p + 1) i) = kNumberMaps * 4 + length (concat (take i ?ps))"
    using map_offsets_sum [OF table, of i] assms(4) n unat_of_small by (metis order_less_imp_le)
  then have "unat (map_offsets mem (p + 1) i) = 40 + length (concat (take i ?ps))"
    by (simp add: kNumberMaps_def STACK_INFO_LAST_def)
  then have at: "p + 1 + unat (map_offsets mem (p + 1) i) = p + 1 + 4 * length ?ps + length (concat (take i ?ps))"
    unfolding n by linarith
  have i: "i < length ?ps" unfolding n by (rule assms(4))
  then show "holds mem (p + 1 + unat (map_offsets mem (p + 1) i)) (?ps ! i)"
    unfolding at by (rule holds_concat_nth [OF parts])
  show "length (?ps ! i) < 2 ^ 32"
    by (rule part_small [OF nth_mem [OF i] assms(3)])
qed

lemma srm_of_image:
  fixes rm :: "('a::len word, 'e) range_map"
  assumes "holds mem p (range_map_image img rm)" and "p \<noteq> 0" and "length (range_map_image img rm) < 2 ^ 32"
    and "strict_map rm" and "8 dvd LENGTH('a)"
  shows "srm_of mem img (StaticMap mem p) rm"
  unfolding srm_of_def
proof (rule static_of_image [OF assms(1,2) [unfolded range_map_image_def nodes_image_def] _ assms(5)])
  show "keys_sorted (rm_map rm)"
    using assms(4) by (simp add: strict_map_def rm_wf_def ranges_wf_keys_sorted)
qed (use assms in \<open>simp_all add: range_map_image_def nodes_image_def load_holds\<close>)

lemma fast_LoadMapFromMemory_of:
  assumes "holds mem p (module_image M)" and "p \<noteq> 0" and "module_wf M" and "module_ok M"
    and "length (module_image M) < 2 ^ 32"
  obtains F where "fast_LoadMapFromMemory mem p F0 = (True, F)" and "fast_of mem F M"
proof -
  define F where "F = snd (fast_LoadMapFromMemory mem p F0)"
  define at where "at i = p + 1 + unat (map_offsets mem (p + 1) i)" for i
  have res: "fast_LoadMapFromMemory mem p F0 = (True, F)"
    using assms(2) by (simp add: F_def fast_LoadMapFromMemory_def Read_bool_def Let_def)
  have sel: "fm_files F = StaticMap mem (at 0)" "fm_functions F = StaticMap mem (at 1)"
    "fm_public_symbols F = StaticMap mem (at 2)" "fm_is_corrupt F = (mem p \<noteq> 0)"
    "fm_windows_frame_info F = map (\<lambda>i. StaticContainedRangeMap mem (at (3 + i))) [0..<5]"
    "fm_cfi_initial_rules F = StaticMap mem (at 8)" "fm_cfi_delta_rules F = StaticMap mem (at 9)"
    using assms(2) by (simp_all add: F_def at_def fast_LoadMapFromMemory_def Read_bool_def Let_def STACK_INFO_LAST_def)
  have nz: "at i \<noteq> 0" for i by (simp add: at_def)
  note part = image_parts [OF assms(1,3,5), folded at_def]
  have n: "length (wfi_maps M) = 5" using assms(3) by (simp add: module_wf_def STACK_INFO_LAST_def)
  have ps: "module_parts M ! 0 = nodes_image int32_bytes string_bytes (files M)"
    "module_parts M ! 1 = range_map_image (\<lambda>r. function_image (store M ! r)) (functions_map M)"
    "module_parts M ! 2 = nodes_image word_bytes public_image (am_map (public_symbols M))"
    "module_parts M ! 8 = range_map_image string_bytes (cfi_initial_rules M)"
    "module_parts M ! 9 = nodes_image word_bytes string_bytes (cfi_delta_rules M)"
    using n by (simp_all add: module_parts_def nth_append)
  have trees: "module_parts M ! (3 + i) = wfi_tree_image (wfi_maps M ! i)" if "i < 5" for i
    using that n by (simp add: module_parts_def nth_append)
  have wf: "keys_sorted (files M)" "keys_sorted (am_map (public_symbols M))" "keys_sorted (cfi_delta_rules M)"
    "strict_map (functions_map M)" "strict_map (cfi_initial_rules M)"
    using assms(3) by (simp_all add: module_wf_def am_wf_def)
  have files: "static_of mem (sint :: uint32 \<Rightarrow> int) id string_bytes (fm_files F) (files M)"
    unfolding sel
  proof (rule static_of_image [where kimage = int32_bytes, OF _ nz])
    show "sint (load_word mem q :: uint32) = id k" if "k \<in> fst ` set (files M)" "holds mem q (int32_bytes k)" for q k
      using load_int32 [OF that(2)] that(1) assms(4) by (auto simp: module_ok_def)
  qed (use part [of 0] ps(1) wf(1) in \<open>simp_all add: nodes_image_def\<close>)
  moreover have "srm_of mem (\<lambda>r. function_image (store M ! r)) (fm_functions F) (functions_map M)"
    unfolding sel using part [of 1] ps(2) nz wf(4) by (intro srm_of_image) simp_all
  moreover have "static_of mem (uint :: mem_addr \<Rightarrow> int) uint public_image (fm_public_symbols F) (am_map (public_symbols M))"
    unfolding sel
    by (rule static_of_image [where kimage = word_bytes, OF _ nz])
      (use part [of 2] ps(3) wf(2) in \<open>simp_all add: nodes_image_def load_holds\<close>)
  moreover have "scrm_of mem (fm_windows_frame_info F ! i) (wfi_maps M ! i)" if "i < nat STACK_INFO_LAST" for i
    using that part [of "3 + i"] trees [of i] nz
    by (auto simp: scrm_of_def sel STACK_INFO_LAST_def intro!: exI [of _ "at (3 + i)"])
  moreover have "srm_of mem string_bytes (fm_cfi_initial_rules F) (cfi_initial_rules M)"
    unfolding sel using part [of 8] ps(4) nz wf(5) by (intro srm_of_image) simp_all
  moreover have "static_of mem (uint :: mem_addr \<Rightarrow> int) uint string_bytes (fm_cfi_delta_rules F) (cfi_delta_rules M)"
    unfolding sel
    by (rule static_of_image [where kimage = word_bytes, OF _ nz])
      (use part [of 9] ps(5) wf(3) in \<open>simp_all add: nodes_image_def load_holds\<close>)
  moreover have "fm_is_corrupt F = is_corrupt M"
    using assms(1) by (simp add: sel module_image_def bool_bytes_def holds_Cons split: if_splits)
  ultimately have "fast_of mem F M" by (simp add: fast_of_def)
  with res show ?thesis by (rule that)
qed

section \<open>Records read back\<close>

lemma load_fields:
  "holds mem p (word_bytes w) \<Longrightarrow> load_word mem p = (w :: uint32)"
  "holds mem p (word_bytes v) \<Longrightarrow> load_word mem p = (v :: uint64)"
  by (rule load_holds; simp)+

lemma Line_CopyFrom_image: "points_to mem line_image q l \<Longrightarrow> line_ok l \<Longrightarrow> Line_CopyFrom mem q = l"
  by (simp add: points_to_def line_image_def Line_CopyFrom_def line_ok_def holds_append load_holds load_int32 add.assoc)

lemma PublicSymbol_CopyFrom_image:
  assumes "points_to mem public_image q s" and "public_ok s"
  shows "PublicSymbol_CopyFrom mem q = Some s"
proof -
  have "load_string mem q = Some (ps_name s)"
    using assms by (intro load_string_holds) (simp_all add: points_to_def public_image_def holds_append public_ok_def no_nul_def)
  then show ?thesis
    using assms
    by (cases s) (auto simp: points_to_def public_image_def PublicSymbol_CopyFrom_def public_ok_def holds_append
      load_fields load_int32 ac_simps)
qed

lemma CopyWFI_image:
  assumes "points_to mem wfi_image q w" and "frame_data_ok w"
  shows "CopyWFI mem q = Some w"
proof -
  have "(255 :: uint8) \<noteq> 0" by simp
  then have "mem (q + 32) \<noteq> 0 \<longleftrightarrow> allocates_base_pointer w"
    using assms(1) by (simp add: points_to_def wfi_image_def holds_append bool_bytes_def holds_Cons ac_simps)
  moreover have "load_string mem (q + 33) = Some (program_string w)"
    using assms by (intro load_string_holds)
      (simp_all add: points_to_def wfi_image_def holds_append frame_data_ok_def no_nul_def ac_simps)
  ultimately show ?thesis
    using assms
    by (cases w) (auto simp: points_to_def wfi_image_def CopyWFI_def frame_data_ok_def holds_append load_fields
      load_int32 Let_def ac_simps)
qed

lemma Function_CopyFrom_image:
  assumes q: "points_to mem function_image q f" and ok: "symbol_function_ok f" "length (function_image f) < 2 ^ 32"
    and wf: "strict_map (fn_lines f)"
  obtains ff where "Function_CopyFrom mem q = Some ff" and "ff_name ff = fn_name f"
    and "ff_parameter_size ff = fn_parameter_size f" and "srm_of mem line_image (ff_lines ff) (fn_lines f)"
proof -
  let ?n = "q + (length (fn_name f) + 1)"
  have parts: "holds mem q (string_bytes (fn_name f))" "holds mem (?n + 16) (int32_bytes (fn_parameter_size f))"
    "holds mem (?n + 20) (range_map_image line_image (fn_lines f))"
    using q by (simp_all add: points_to_def function_image_def holds_append)
  have name: "load_string mem q = Some (fn_name f)"
    using load_string_holds [OF parts(1)] ok(1) by (simp add: symbol_function_ok_def no_nul_def)
  have "length (range_map_image line_image (fn_lines f)) < 2 ^ 32" using ok(2) by (simp add: function_image_def)
  then have lines: "srm_of mem line_image (StaticMap mem (?n + 20)) (fn_lines f)"
    using srm_of_image [OF parts(3)] wf by simp
  have "sint (load_word mem (?n + 16) :: uint32) = fn_parameter_size f"
    using load_int32 [OF parts(2)] ok(1) by (simp add: symbol_function_ok_def)
  then show ?thesis
    using name lines by (intro that [of "the (Function_CopyFrom mem q)"])
      (simp_all add: Function_CopyFrom_def Let_def ac_simps)
qed

section \<open>Queries\<close>

lemma module_functions:
  assumes "module_wf M" and "module_ok M" and "length (module_image M) < 2 ^ 32"
    and "RetrieveNearestRange (functions_map M) a = Some (r, base, delta, sz)"
  shows "strict_map (fn_lines (store M ! r))" and "symbol_function_ok (store M ! r)"
    and "length (function_image (store M ! r)) < 2 ^ 32"
proof -
  let ?m = "rm_map (functions_map M)"
  have "\<exists>h x. (h, x) \<in> set ?m \<and> rng_entry x = r"
  proof (cases "RetrieveRange (functions_map M) a")
    case None
    then have "upper_bound ?m a \<noteq> 0" "range_result (?m ! (upper_bound ?m a - 1)) = (r, base, delta, sz)"
      using assms(4) by (auto simp: RetrieveNearestRange_def Let_def split: if_splits)
    moreover from this(1) have "?m ! (upper_bound ?m a - 1) \<in> set ?m"
      using upper_bound_le_length [of ?m a] by (intro nth_mem) linarith
    ultimately show ?thesis by (cases "?m ! (upper_bound ?m a - 1)") (auto simp: range_result_def)
  next
    case (Some y)
    then have "lower_bound ?m a < length ?m" "range_result (?m ! lower_bound ?m a) = (r, base, delta, sz)"
      using assms(4) lower_bound_le_length [of ?m a]
      by (auto simp: RetrieveNearestRange_def RetrieveRange_def Let_def split: if_splits)
    then show ?thesis
      using nth_mem [of "lower_bound ?m a" ?m] by (cases "?m ! lower_bound ?m a") (auto simp: range_result_def)
  qed
  then obtain h x where x: "(h, x) \<in> set ?m" "rng_entry x = r" by blast
  then have "store M ! r \<in> set (store M)"
    using assms(1) by (fastforce simp: module_wf_def function_ranges_ok_def)
  then show "strict_map (fn_lines (store M ! r))" and "symbol_function_ok (store M ! r)"
    using assms(1,2) by (auto simp: module_wf_def module_ok_def)
  show "length (function_image (store M ! r)) < 2 ^ 32"
    using module_parts_ok(1) [OF assms(1-3)] x by (auto simp: function_ok_def)
qed

lemma fast_public_of:
  assumes "fast_of mem F M" and "module_wf M" and "module_ok M"
  shows "fast_public mem F a bound = Some
    (case am_Retrieve (public_symbols M) a of None \<Rightarrow> None
     | Some (s, k) \<Rightarrow> if (case bound of None \<Rightarrow> True | Some b \<Rightarrow> k > b) then Some (s, k) else None)"
proof -
  have st: "static_of mem (uint :: mem_addr \<Rightarrow> int) uint public_image (fm_public_symbols F) (am_map (public_symbols M))"
    using assms(1) by (simp add: fast_of_def)
  note r = sam_Retrieve_of [OF st, of a]
  show ?thesis
  proof (cases "am_Retrieve (public_symbols M) a")
    case None
    then show ?thesis using r by (simp add: fast_public_def)
  next
    case (Some sk)
    obtain s k where sk: "sk = (s, k)" by fastforce
    have "am_lookup (public_symbols M) k = Some s"
      using Some sk am_Retrieve_iff [of "public_symbols M" a s k] assms(2) by (simp add: module_wf_def)
    then have "public_ok s"
      using assms(3) unfolding am_lookup_def by (auto simp: module_ok_def dest!: map_of_SomeD)
    then show ?thesis
      using r Some sk PublicSymbol_CopyFrom_image by (auto simp: fast_public_def)
  qed
qed

lemma fast_line_of:
  assumes "fast_of mem F M" and "module_wf M"
    and lines: "srm_of mem line_image lm (fn_lines f)" "\<forall>(h, r) \<in> set (rm_map (fn_lines f)). line_ok (rng_entry r)"
    and "strict_map (fn_lines f)" and "\<forall>(i, s) \<in> set (files M). no_nul s"
  shows "fast_line mem F lm a frame = Some
    (case RetrieveRange (fn_lines f) a of
       None \<Rightarrow> frame
     | Some (line, line_base, _, _) \<Rightarrow>
         let it = map_find (files M) (source_file_id line);
             frame = (if it \<noteq> length (files M)
               then frame\<lparr>source_file_name := snd (files M ! it)\<rparr> else frame) in
         frame\<lparr>source_line := ln_line line, source_line_base := module_base frame + line_base\<rparr>)"
proof -
  have st: "static_of mem (sint :: uint32 \<Rightarrow> int) id string_bytes (fm_files F) (files M)"
    using assms(1) by (simp add: fast_of_def)
  have rng: "same_range mem line_image (srm_RetrieveRange mem lm a) (RetrieveRange (fn_lines f) a)"
    by (rule srm_RetrieveRange_of [OF lines(1)]) simp
  show ?thesis
  proof (cases "RetrieveRange (fn_lines f) a")
    case None
    then show ?thesis using rng by (simp add: same_range_def fast_line_def)
  next
    case (Some y)
    obtain l b d sz where y: "y = (l, b, d, sz)" using prod_cases4 by blast
    obtain q where q: "srm_RetrieveRange mem lm a = Some (Some (q, b, sz))" "points_to mem line_image q l"
      using rng Some y by (auto simp: same_range_def)
    have "\<exists>h r. (h, r) \<in> set (rm_map (fn_lines f)) \<and> rng_entry r = l"
    proof -
      have wf: "rm_wf (fn_lines f)" using assms(5) by (simp add: strict_map_def)
      have "map_option range_result (rm_lookup (fn_lines f) a) = Some (l, b, d, sz)"
        using Some y RetrieveRange_eq_lookup [OF wf, of a] by simp
      then show ?thesis by (auto simp: rm_lookup_iff [OF wf] range_result_def)
    qed
    then have "line_ok l" using lines(2) by blast
    then have line: "Line_CopyFrom mem q = l" using Line_CopyFrom_image [OF q(2)] by simp
    let ?i = "map_find (files M) (source_file_id l)"
    have find: "sm_find mem (sint :: uint32 \<Rightarrow> int) (fm_files F) (source_file_id l) = sm_IteratorAtIndex mem (fm_files F) (int ?i)"
      using sm_find_of [OF st, of "source_file_id l"] by (simp add: strict_mono_def)
    have n: "num_nodes (fm_files F) = int (length (files M))" using st by (simp add: static_of_def)
    have neq: "it_not_equal x y \<longleftrightarrow> \<not> it_equal x y" for x y by (auto simp: it_not_equal_def it_equal_def)
    show ?thesis
    proof (cases "?i = length (files M)")
      case True
      then show ?thesis
        using Some y q(1) line find n
        by (simp add: fast_line_def sm_end_def neq it_equal_at Let_def)
    next
      case False
      then have i: "?i < length (files M)" by (auto simp: map_find_def Let_def split: if_splits)
      then obtain v where v: "GetValueRawPtr mem (sm_IteratorAtIndex mem (fm_files F) (int ?i)) = Some v"
          "holds mem v (string_bytes (snd (files M ! ?i)))"
        using st by (auto simp: static_of_def)
      have "no_nul (snd (files M ! ?i))" using bspec [OF assms(6) nth_mem [OF i]] by (simp add: case_prod_beta)
      then have "load_string mem v = Some (snd (files M ! ?i))"
        using load_string_holds [OF v(2)] by (simp add: no_nul_def)
      then show ?thesis
        using False Some y q(1) line find n v(1)
        by (simp add: fast_line_def sm_end_def neq it_equal_at Let_def)
    qed
  qed
qed

lemma fast_LookupAddress_of:
  assumes "fast_of mem F M" and "module_wf M" and "module_ok M" and "length (module_image M) < 2 ^ 32"
  shows "fast_LookupAddress mem F frame = Some (LookupAddress M frame)"
proof -
  let ?a = "instruction frame - module_base frame"
  have srm: "srm_of mem (\<lambda>r. function_image (store M ! r)) (fm_functions F) (functions_map M)"
    using assms(1) by (simp add: fast_of_def)
  have near: "same_range mem (\<lambda>r. function_image (store M ! r))
      (srm_RetrieveNearestRange mem (fm_functions F) ?a) (RetrieveNearestRange (functions_map M) ?a)"
    by (rule srm_RetrieveNearestRange_of [OF srm]) simp
  note pub = fast_public_of [OF assms(1-3), of ?a]
  show ?thesis
  proof (cases "RetrieveNearestRange (functions_map M) ?a")
    case None
    then show ?thesis
      using near pub [of None]
      by (cases "am_Retrieve (public_symbols M) ?a")
        (auto simp: fast_LookupAddress_def LookupAddress_def same_range_def fast_name_public_def Let_def)
  next
    case (Some y)
    obtain r b d sz where y: "y = (r, b, d, sz)" using prod_cases4 by blast
    obtain q where q: "srm_RetrieveNearestRange mem (fm_functions F) ?a = Some (Some (q, b, sz))"
        "points_to mem (\<lambda>r. function_image (store M ! r)) q r"
      using near Some y by (auto simp: same_range_def)
    let ?f = "store M ! r"
    note f = module_functions [OF assms(2-4) Some [unfolded y]]
    show ?thesis
    proof (cases "b \<le> ?a \<and> ?a - b < sz")
      case True
      have "points_to mem function_image q ?f" using q(2) by (simp add: points_to_def)
      then obtain ff where ff: "Function_CopyFrom mem q = Some ff" "ff_name ff = fn_name ?f"
          "srm_of mem line_image (ff_lines ff) (fn_lines ?f)"
        using Function_CopyFrom_image [OF _ f(2,3,1)] by metis
      have lo: "\<forall>(h, r) \<in> set (rm_map (fn_lines ?f)). line_ok (rng_entry r)"
        using f(2) by (simp add: symbol_function_ok_def)
      have fo: "\<forall>(i, s) \<in> set (files M). no_nul s" using assms(3) by (auto simp: module_ok_def)
      note line = fast_line_of [OF assms(1,2) ff(3) lo f(1) fo]
      show ?thesis
        using Some y q(1) True ff(1,2)
        by (simp add: fast_LookupAddress_def LookupAddress_def line Let_def)
    next
      case False
      then show ?thesis
        using Some y q(1) pub [of "Some b"]
        by (cases "am_Retrieve (public_symbols M) ?a")
          (auto simp: fast_LookupAddress_def LookupAddress_def fast_name_public_def Let_def)
    qed
  qed
qed

lemma frame_data_of:
  assumes "scrm_of mem tree n" and "crm_wf n" and "\<forall>(b, h, w) \<in> set (crm_ranges n). frame_data_ok w"
  shows "case crm_RetrieveRange n a of
      None \<Rightarrow> scrm_RetrieveRange mem tree a = Some None
    | Some w \<Rightarrow> \<exists>q. scrm_RetrieveRange mem tree a = Some (Some q) \<and> CopyWFI mem q = Some w"
proof -
  obtain p where p: "p \<noteq> 0" "tree = StaticContainedRangeMap mem p" "holds mem p (wfi_tree_image n)"
      "length (wfi_tree_image n) < 2 ^ 32"
    using assms(1) by (auto simp: scrm_of_def)
  have "wfi_image w \<noteq> []" for w by (simp add: wfi_image_def string_bytes_def)
  then have "\<forall>(b, h, e) \<in> set (crm_ranges (linked_crm n)). linked_image wfi_image e \<noteq> []"
    by (auto simp: crm_ranges_linked linked_image_def)
  note r = scrm_RetrieveRange_of [OF crm_wf_linked [OF assms(2)] p(3,4) [unfolded wfi_tree_image_def] p(1) _ this, of a,
      folded p(2)]
  show ?thesis
  proof (cases "crm_RetrieveRange n a")
    case None
    then show ?thesis using r by (simp add: crm_RetrieveRange_linked)
  next
    case (Some w)
    then obtain b h where "(b, h, w) \<in> set (crm_ranges n)"
      using crm_Retrieve_spec [OF assms(2), of a] by (auto simp: smallest_containing_def)
    then have "frame_data_ok w" using assms(3) by blast
    moreover obtain q where "scrm_RetrieveRange mem tree a = Some (Some q)" "points_to mem wfi_image q w"
      using r Some by (auto simp: crm_RetrieveRange_linked points_to_def linked_image_def)
    ultimately show ?thesis using Some CopyWFI_image by auto
  qed
qed

lemma wfi_CopyFrom_init: "wfi_CopyFrom w WindowsFrameInfo_init = w"
  by (cases w) (simp add: wfi_CopyFrom_def WindowsFrameInfo_init_def)

lemma fast_FindWindowsFrameInfo_of:
  assumes "fast_of mem F M" and "module_wf M" and "module_ok M" and "length (module_image M) < 2 ^ 32"
  shows "fast_FindWindowsFrameInfo mem F frame = Some (FindWindowsFrameInfo M frame)"
proof -
  let ?a = "instruction frame - module_base frame"
  have tree: "case crm_RetrieveRange (wfi_maps M ! i) ?a of
      None \<Rightarrow> scrm_RetrieveRange mem (fm_windows_frame_info F ! i) ?a = Some None
    | Some w \<Rightarrow> \<exists>q. scrm_RetrieveRange mem (fm_windows_frame_info F ! i) ?a = Some (Some q) \<and> CopyWFI mem q = Some w"
    if "i < nat STACK_INFO_LAST" for i
  proof (rule frame_data_of)
    have "wfi_maps M ! i \<in> set (wfi_maps M)" using that assms(2) by (simp add: module_wf_def)
    then show "crm_wf (wfi_maps M ! i)" "\<forall>(b, h, w) \<in> set (crm_ranges (wfi_maps M ! i)). frame_data_ok w"
      using assms(2,3) by (auto simp: module_wf_def module_ok_def)
    show "scrm_of mem (fm_windows_frame_info F ! i) (wfi_maps M ! i)" using assms(1) that by (simp add: fast_of_def)
  qed
  have idx: "nat STACK_INFO_FRAME_DATA < nat STACK_INFO_LAST" "nat STACK_INFO_FPO < nat STACK_INFO_LAST"
    by (simp_all add: STACK_INFO_FRAME_DATA_def STACK_INFO_FPO_def STACK_INFO_LAST_def)
  note data = tree [OF idx(1)] and fpo = tree [OF idx(2)]
  have srm: "srm_of mem (\<lambda>r. function_image (store M ! r)) (fm_functions F) (functions_map M)"
    using assms(1) by (simp add: fast_of_def)
  have near: "same_range mem (\<lambda>r. function_image (store M ! r))
      (srm_RetrieveNearestRange mem (fm_functions F) ?a) (RetrieveNearestRange (functions_map M) ?a)"
    by (rule srm_RetrieveNearestRange_of [OF srm]) simp
  note pub = fast_public_of [OF assms(1-3), of ?a]
  show ?thesis
  proof (cases "crm_RetrieveRange (wfi_maps M ! nat STACK_INFO_FRAME_DATA) ?a")
    case (Some w)
    then show ?thesis using data
      by (auto simp: fast_FindWindowsFrameInfo_def FindWindowsFrameInfo_def Let_def)
  next
    case no_data: None
    then have d: "scrm_RetrieveRange mem (fm_windows_frame_info F ! nat STACK_INFO_FRAME_DATA) ?a = Some None"
      using data by simp
    show ?thesis
    proof (cases "crm_RetrieveRange (wfi_maps M ! nat STACK_INFO_FPO) ?a")
      case (Some w)
      then show ?thesis using fpo no_data d
        by (auto simp: fast_FindWindowsFrameInfo_def FindWindowsFrameInfo_def Let_def)
    next
      case no_fpo: None
      then have e: "scrm_RetrieveRange mem (fm_windows_frame_info F ! nat STACK_INFO_FPO) ?a = Some None"
        using fpo by simp
      show ?thesis
      proof (cases "RetrieveNearestRange (functions_map M) ?a")
        case None
        then show ?thesis
          using near d e no_data no_fpo pub [of None]
          by (simp add: same_range_def fast_FindWindowsFrameInfo_def FindWindowsFrameInfo_def Let_def)
      next
        case (Some y)
        obtain r b dl sz where y: "y = (r, b, dl, sz)" using prod_cases4 by blast
        obtain q where q: "srm_RetrieveNearestRange mem (fm_functions F) ?a = Some (Some (q, b, sz))"
            "points_to mem (\<lambda>r. function_image (store M ! r)) q r"
          using near Some y by (auto simp: same_range_def)
        note f = module_functions [OF assms(2-4) Some [unfolded y]]
        have "points_to mem function_image q (store M ! r)" using q(2) by (simp add: points_to_def)
        then obtain ff where ff: "Function_CopyFrom mem q = Some ff"
            "ff_parameter_size ff = fn_parameter_size (store M ! r)"
          using Function_CopyFrom_image [OF _ f(2,3,1)] by metis
        show ?thesis
          using Some y q(1) ff d e no_data no_fpo pub [of "Some b"]
          by (simp add: fast_FindWindowsFrameInfo_def FindWindowsFrameInfo_def Let_def)
      qed
    qed
  qed
qed

lemma fast_apply_deltas_of:
  assumes st: "static_of mem (uint :: mem_addr \<Rightarrow> int) uint string_bytes deltas std"
    and "\<forall>(a, s) \<in> set std. no_nul s" and "i \<le> length std"
  shows "fast_apply_deltas mem deltas (sm_IteratorAtIndex mem deltas (int i)) address rules =
    Some (apply_delta_rules (drop i std) address rules)"
  using assms(3)
proof (induction "length std - i" arbitrary: i rules)
  case 0
  then show ?case
    using st by (subst fast_apply_deltas.simps)
      (simp add: static_of_def sm_end_def it_not_equal_def)
next
  case (Suc n)
  then have i: "i < length std" by simp
  let ?it = "sm_IteratorAtIndex mem deltas (int i)"
  obtain a s where e: "std ! i = (a, s)" by fastforce
  obtain q where q: "GetValueRawPtr mem ?it = Some q" "holds mem q (string_bytes s)"
    using st i e by (auto simp: static_of_def)
  have "no_nul s" using assms(2) nth_mem [OF i] e by auto
  then have s: "load_string mem q = Some s" using load_string_holds [OF q(2)] by (simp add: no_nul_def)
  have key: "GetKey mem (uint :: mem_addr \<Rightarrow> int) ?it = Some (uint a)" using iterator_key [OF st i] e by simp
  have ne: "it_not_equal ?it (sm_end mem deltas)"
    using st i by (simp add: static_of_def it_not_equal_def sm_end_def sm_IteratorAtIndex_def StaticMapIterator_def Let_def)
  have next_it: "snd (post_increment ?it) = sm_IteratorAtIndex mem deltas (int (Suc i))"
    using iterator_valid [OF st, of "int i"] i
    by (simp add: post_increment_def sm_position Let_def)
      (simp add: sm_IteratorAtIndex_def StaticMapIterator_def Let_def)
  have "drop i std = (a, s) # drop (Suc i) std" using Cons_nth_drop_Suc [OF i] e by simp
  moreover have "fast_apply_deltas mem deltas (sm_IteratorAtIndex mem deltas (int (Suc i))) address
      (snd (ParseCFIRuleSet s rules)) = Some (apply_delta_rules (drop (Suc i) std) address (snd (ParseCFIRuleSet s rules)))"
    using Suc.hyps(2) i by (intro Suc.hyps(1)) simp_all
  ultimately show ?case
    using ne key q(1) s next_it
    by (subst fast_apply_deltas.simps) (simp add: word_le_def)
qed

lemma fast_FindCFIFrameInfo_of:
  assumes "fast_of mem F M" and "module_wf M" and "module_ok M"
  shows "fast_FindCFIFrameInfo mem F frame = Some (FindCFIFrameInfo M frame)"
proof -
  let ?a = "instruction frame - module_base frame" and ?deltas = "cfi_delta_rules M"
  have srm: "srm_of mem string_bytes (fm_cfi_initial_rules F) (cfi_initial_rules M)"
    and st: "static_of mem (uint :: mem_addr \<Rightarrow> int) uint string_bytes (fm_cfi_delta_rules F) ?deltas"
    using assms(1) by (simp_all add: fast_of_def)
  have rng: "same_range mem string_bytes (srm_RetrieveRange mem (fm_cfi_initial_rules F) ?a)
      (RetrieveRange (cfi_initial_rules M) ?a)"
    by (rule srm_RetrieveRange_of [OF srm]) simp
  show ?thesis
  proof (cases "RetrieveRange (cfi_initial_rules M) ?a")
    case None
    then show ?thesis using rng
      by (simp add: same_range_def fast_FindCFIFrameInfo_def FindCFIFrameInfo_def Let_def)
  next
    case (Some y)
    obtain s b d sz where y: "y = (s, b, d, sz)" using prod_cases4 by blast
    obtain q where q: "srm_RetrieveRange mem (fm_cfi_initial_rules F) ?a = Some (Some (q, b, sz))"
        "holds mem q (string_bytes s)"
      using rng Some y by (auto simp: same_range_def points_to_def)
    have wf: "rm_wf (cfi_initial_rules M)" using assms(2) by (simp add: module_wf_def strict_map_def)
    have "map_option range_result (rm_lookup (cfi_initial_rules M) ?a) = Some (s, b, d, sz)"
      using Some y RetrieveRange_eq_lookup [OF wf, of ?a] by simp
    then have "no_nul s"
      using assms(3) by (auto simp: rm_lookup_iff [OF wf] range_result_def module_ok_def)
    then have str: "load_string mem q = Some s" using load_string_holds [OF q(2)] by (simp add: no_nul_def)
    have "\<forall>(a, s) \<in> set ?deltas. no_nul s" using assms(3) by (simp add: module_ok_def)
    note loop = fast_apply_deltas_of [OF st this lower_bound_le_length]
    show ?thesis
      using Some y q(1) str sm_bounds_of(1) [OF st strict_mono_uint, of b] loop
      by (auto simp: fast_FindCFIFrameInfo_def FindCFIFrameInfo_def Let_def split: prod.split bool.split)
  qed
qed

end
