(* ===== verification/Loaded_Module.thy ===== *)
theory Loaded_Module
  imports Fast_Resolver
begin

text \<open>
  Every module that the parser loads can be serialized: its strings have no NUL, its numbers
  fit 32 bits. With it the equivalence of the two resolvers holds from the text of the symbol
  file on.
\<close>

section \<open>Tokens are parts of the line\<close>

lemma no_nul_subset: "no_nul s \<Longrightarrow> set t \<subseteq> set s \<Longrightarrow> no_nul t"
  by (auto simp: no_nul_def)

lemma no_nul_drop: "no_nul s \<Longrightarrow> no_nul (drop n s)"
  by (auto simp: no_nul_def dest: in_set_dropD)

lemma no_nul_strtok: "strtok_r P s = Some (t, r) \<Longrightarrow> no_nul s \<Longrightarrow> no_nul t \<and> no_nul r"
  using set_strtok_r [of P s t r] by (auto simp: no_nul_def)

lemma no_nul_next_token: "next_token P s = (t, r) \<Longrightarrow> no_nul s \<Longrightarrow> (\<forall>w \<in> set_option t. no_nul w) \<and> no_nul r"
  by (auto simp: next_token_def no_nul_def dest!: set_strtok_r split: option.splits)

lemma no_nul_Tokenize_loop:
  "Tokenize_loop P n tok save toks = (n', save', toks') \<Longrightarrow> \<forall>w \<in> set_option tok. no_nul w \<Longrightarrow> no_nul save \<Longrightarrow>
     \<forall>w \<in> set toks. no_nul w \<Longrightarrow> no_nul save' \<and> (\<forall>w \<in> set toks'. no_nul w)"
proof (induction P n tok save toks rule: Tokenize_loop.induct)
  case (2 P n t save toks)
  show ?case
  proof (cases "n - 1 > 0")
    case True
    note step = Tokenize_loop.simps(2) [of P n t save toks]
    show ?thesis
    proof (cases "n - 1 > 1")
      case far: True
      obtain tok' save1 where nt: "next_token P save = (tok', save1)" by fastforce
      have l: "Tokenize_loop P (n - 1) tok' save1 (toks @ [t]) = (n', save', toks')"
        using "2.prems"(1) step True far nt by (simp add: Let_def)
      show ?thesis
        using "2.IH"(1) [OF True refl refl far nt [symmetric] l] no_nul_next_token [OF nt] "2.prems" by auto
    next
      case False
      have l: "Tokenize_loop P (n - 1) (Some t) save (toks @ [t]) = (n', save', toks')"
        using "2.prems"(1) step True False by (simp add: Let_def)
      show ?thesis using "2.IH"(2) [OF True refl refl False l] "2.prems" by auto
    qed
  next
    case False
    then show ?thesis using "2.prems" Tokenize_loop.simps(2) [of P n t save toks] by auto
  qed
qed auto

lemma no_nul_Tokenize:
  assumes "Tokenize line P n = (True, toks)" and "no_nul line" and "i < nat n"
  shows "no_nul (toks ! i)"
proof -
  obtain tok save where t: "next_token P line = (tok, save)" by fastforce
  obtain n' save' toks' where l: "Tokenize_loop P n tok save [] = (n', save', toks')" using prod_cases3 by blast
  have ok: "no_nul save' \<and> (\<forall>w \<in> set toks'. no_nul w)"
    using no_nul_Tokenize_loop [OF l] no_nul_next_token [OF t assms(2)] by simp
  obtain tok2 save2 where t2: "next_token line_break save' = (tok2, save2)" by fastforce
  have "\<forall>w \<in> set toks. no_nul w"
    using assms(1) t l t2 ok no_nul_next_token [OF t2]
    by (auto simp: Tokenize_def Let_def split: option.splits if_splits)
  moreover have "int (length toks) = n"
    using assms(1) t l by (auto simp: Tokenize_def Let_def)
  then have "i < length toks" using assms(3) by linarith
  ultimately show ?thesis by simp
qed

section \<open>Each parser yields serializable values\<close>

lemma in_int32_to_int32: "in_int32 (to_int32 x)"
  by (simp add: in_int32_def to_int32_def)

lemma ParseFile_ok: "SymbolParseHelper_ParseFile l = Some (i, s) \<Longrightarrow> no_nul l \<Longrightarrow> no_nul s"
  unfolding SymbolParseHelper_ParseFile_def
  by (auto split: prod.splits bool.splits if_splits
      intro!: no_nul_Tokenize [of "drop 5 l"] no_nul_drop)

lemma ParseFunction_ok:
  assumes "ParseFunction l = Some f" and "no_nul l"
  shows "symbol_function_ok f"
proof -
  obtain a sz p n where h: "SymbolParseHelper_ParseFunction l = Some (a, sz, p, n)"
    using assms(1) by (auto simp: ParseFunction_def split: option.splits)
  have "no_nul n"
    using h assms(2) unfolding SymbolParseHelper_ParseFunction_def
    by (auto split: prod.splits bool.splits if_splits
        intro!: no_nul_Tokenize [of "drop 5 l"] no_nul_drop)
  then show ?thesis
    using assms(1) h
    by (auto simp: ParseFunction_def symbol_function_ok_def in_int32_to_int32 RangeMap_init_def)
qed

lemma ParsePublic_ok: "SymbolParseHelper_ParsePublicSymbol l = Some (a, p, n) \<Longrightarrow> no_nul l \<Longrightarrow> no_nul n"
  unfolding SymbolParseHelper_ParsePublicSymbol_def
  by (auto split: prod.splits bool.splits if_splits
      intro!: no_nul_Tokenize [of "drop 7 l"] no_nul_drop)

lemma ParseFromString_ok:
  assumes "ParseFromString l = Some (w, t, rva, sz)" and "no_nul l"
  shows "frame_data_ok w"
proof -
  obtain toks where t: "Tokenize l kWhitespace 11 = (True, toks)"
    using assms(1) by (auto simp: ParseFromString_def split: prod.splits bool.splits)
  have "no_nul (toks ! 10)" by (rule no_nul_Tokenize [OF t assms(2)]) simp
  then show ?thesis
    using assms(1) t in_int32_to_int32
    by (auto simp: ParseFromString_def frame_data_ok_def no_nul_def Let_def split: if_splits)
qed

section \<open>Each operation keeps the module serializable\<close>

lemma module_ok_init: "module_ok Module_init"
  by (simp add: module_ok_def Module_init_def RangeMap_init_def AddressMap_init_def crm_init_def)

lemma ParseFile_module_ok:
  assumes "module_ok M" and "no_nul l"
  shows "module_ok (snd (ParseFile l M))"
proof (cases "SymbolParseHelper_ParseFile l")
  case (Some x)
  obtain i s where x: "x = (i, s)" by fastforce
  have "no_nul s" using ParseFile_ok [OF Some [unfolded x] assms(2)] .
  then show ?thesis
    using assms(1) Some x set_map_insert_subset [of "to_int32 i" s "files M"] in_int32_to_int32
    by (fastforce simp: ParseFile_def module_ok_def)
qed (simp add: ParseFile_def assms(1))

lemma ParsePublicSymbol_module_ok:
  assumes "module_ok M" and "no_nul l"
  shows "module_ok (snd (ParsePublicSymbol l M))"
proof (cases "SymbolParseHelper_ParsePublicSymbol l")
  case (Some x)
  obtain a p n where x: "x = (a, p, n)" using prod_cases3 by blast
  let ?s = "\<lparr>ps_name = n, ps_address = a, ps_parameter_size = to_int32 p\<rparr>"
  have "public_ok ?s" using ParsePublic_ok [OF Some [unfolded x] assms(2)] in_int32_to_int32 by (simp add: public_ok_def)
  moreover have "set (am_map (snd (am_Store (public_symbols M) a ?s))) \<subseteq> insert (a, ?s) (set (am_map (public_symbols M)))"
    using set_map_insert_subset [of a ?s "am_map (public_symbols M)"] by (auto simp: am_Store_def)
  ultimately show ?thesis
    using assms(1) Some x by (fastforce simp: ParsePublicSymbol_def module_ok_def split: prod.splits)
qed (simp add: ParsePublicSymbol_def assms(1))

lemma ParseCFIFrameInfo_module_ok:
  assumes "module_ok M" and "module_wf M" and "no_nul l"
  shows "module_ok (snd (ParseCFIFrameInfo l M))"
proof -
  have wf: "strict_map (cfi_initial_rules M)" using assms(2) by (simp add: module_wf_def)
  have init: "module_ok (M\<lparr>cfi_initial_rules := snd (StoreRange (cfi_initial_rules M) a sz s)\<rparr>)" if "no_nul s" for a sz s
    using strict_map_store(2) [OF wf, of a sz s] assms(1) that by (fastforce simp: module_ok_def)
  have delta: "module_ok (M\<lparr>cfi_delta_rules := map_assign a s (cfi_delta_rules M)\<rparr>)" if "no_nul s" for a s
    using set_map_assign_subset [of a s "cfi_delta_rules M"] assms(1) that by (fastforce simp: module_ok_def)
  show ?thesis
    unfolding ParseCFIFrameInfo_def
    using assms(1,3) by (auto split: option.split intro!: init delta dest!: no_nul_strtok)
qed

lemma crm_StoreRange_subset:
  assumes "crm_wf n"
  shows "set (crm_ranges (snd (crm_StoreRange n base sz e))) \<subseteq> insert (base, base + sz - 1, e) (set (crm_ranges n))"
proof -
  obtain ok n' where st: "crm_StoreRange n base sz e = (ok, n')" by fastforce
  have "set (crm_ranges n') = (if ok then insert (base, base + sz - 1, e) (set (crm_ranges n)) else set (crm_ranges n))"
    using crm_StoreRange_spec [OF assms, where base = base and sz = sz and entry = e, unfolded st prod.case] by (elim conjE)
  then show ?thesis by (simp add: st subset_insertI)
qed

lemma ParseStackInfo_module_ok:
  assumes "module_ok M" and "module_wf M" and "no_nul l" and "ParseStackInfo l M = Ok M' \<or> ParseStackInfo l M = Fail M'"
  shows "module_ok M'"
proof -
  have rest: "no_nul s" if "dropWhile P (dropWhile Q (drop n l)) = c # s" for P Q n c s
  proof -
    have "set (c # s) \<subseteq> set l"
      unfolding that [symmetric] by (auto dest!: set_dropWhileD in_set_dropD)
    then show ?thesis using assms(3) by (auto simp: no_nul_def)
  qed
  have win: "module_ok (M\<lparr>wfi_maps := (wfi_maps M)[nat t := snd (crm_StoreRange (wfi_maps M ! nat t) rva sz w)]\<rparr>)"
    if p: "ParseFromString s = Some (w, t, rva, sz)" and s: "no_nul s" for s w t rva sz
  proof -
    let ?n = "wfi_maps M ! nat t"
    have i: "nat t < length (wfi_maps M)"
      using ParseFromString_type [OF p] assms(2) by (simp add: module_wf_def STACK_INFO_LAST_def nat_less_iff)
    then have n: "?n \<in> set (wfi_maps M)" by simp
    then have "crm_wf ?n" using assms(2) by (simp add: module_wf_def)
    then have "set (crm_ranges (snd (crm_StoreRange ?n rva sz w))) \<subseteq> insert (rva, rva + sz - 1, w) (set (crm_ranges ?n))"
      by (rule crm_StoreRange_subset)
    moreover have "\<forall>(b, h, w) \<in> set (crm_ranges ?n). frame_data_ok w"
      using n assms(1) by (simp add: module_ok_def)
    ultimately have "\<forall>(b, h, w) \<in> set (crm_ranges (snd (crm_StoreRange ?n rva sz w))). frame_data_ok w"
      using ParseFromString_ok [OF p s] by blast
    then have "\<forall>n \<in> set ((wfi_maps M)[nat t := snd (crm_StoreRange ?n rva sz w)]).
        \<forall>(b, h, w) \<in> set (crm_ranges n). frame_data_ok w"
      using assms(1) set_update_subset_insert [of "wfi_maps M"] unfolding module_ok_def by blast
    then show ?thesis using assms(1) by (simp add: module_ok_def)
  qed
  have cfi: "module_ok M'" if "ParseCFIFrameInfo s M = (ok, M')" "no_nul s" for s ok M'
    using ParseCFIFrameInfo_module_ok [OF assms(1,2) that(2)] that(1) by simp
  show ?thesis
    using assms(4,1) win cfi rest unfolding ParseStackInfo_def Let_def
    by (auto split: if_splits option.splits prod.splits list.splits)
qed

lemma line_added_ok:
  assumes "module_wf M" and "module_ok M" and "r < length (store M)" and "ParseLine l = Some line"
  shows "module_ok (M\<lparr>store := (store M)[r := (store M ! r)\<lparr>fn_lines :=
      snd (StoreRange (fn_lines (store M ! r)) a sz line)\<rparr>]\<rparr>)"
proof -
  have f: "store M ! r \<in> set (store M)" using assms(3) by simp
  then have "strict_map (fn_lines (store M ! r))" using assms(1) by (simp add: module_wf_def)
  note st = strict_map_store(2) [OF this, of a sz line]
  have "line_ok line"
    using assms(4) in_int32_to_int32 by (auto simp: ParseLine_def line_ok_def split: option.splits)
  then have "symbol_function_ok ((store M ! r)\<lparr>fn_lines := snd (StoreRange (fn_lines (store M ! r)) a sz line)\<rparr>)"
    using st f assms(2) by (fastforce simp: module_ok_def symbol_function_ok_def)
  then show ?thesis
    using assms(2) by (auto simp: module_ok_def dest!: subsetD [OF set_update_subset_insert])
qed

lemma process_line_ok:
  assumes "state_wf st" and "module_ok (fst st)" and "no_nul l" and "process_line l st = Ok st'"
  shows "module_ok (fst st')"
proof -
  obtain M cur n where st: "st = (M, cur, n)" by (cases st)
  have wf: "module_wf M" and ok: "module_ok M" using assms(1,2) st by (simp_all add: state_wf_def)
  have func: "module_ok (M\<lparr>store := store M @ [f], functions_map := fm\<rparr>)" if "ParseFunction l = Some f" for f fm
    using ParseFunction_ok [OF that assms(3)] ok by (auto simp: module_ok_def)
  have line: "module_ok (M\<lparr>store := (store M)[r := (store M ! r)\<lparr>fn_lines :=
      snd (StoreRange (fn_lines (store M ! r)) a sz ln)\<rparr>]\<rparr>)" if "cur = Some r" "ParseLine l = Some ln" for r a sz ln
    using line_added_ok [OF wf ok _ that(2)] assms(1) st that(1) by (simp add: state_wf_def)
  show ?thesis
    using assms(4) ok ParseFile_module_ok [OF ok assms(3)] ParsePublicSymbol_module_ok [OF ok assms(3)]
      ParseStackInfo_module_ok [OF ok wf assms(3)] func line
    unfolding process_line_def st
    by (auto simp: Let_def split: if_splits option.splits prod.splits outcome.splits)
qed

lemma process_lines_ok:
  "state_wf st \<Longrightarrow> module_ok (fst st) \<Longrightarrow> \<forall>l \<in> set ls. no_nul l \<Longrightarrow> process_lines ls st = Ok st' \<Longrightarrow> module_ok (fst st')"
proof (induction ls arbitrary: st)
  case (Cons l ls)
  obtain M cur n where p: "process_line l st = Ok (M, cur, n)"
    using Cons.prems(4) by (cases "process_line l st") auto
  have "state_wf (M, cur, n)" "module_ok M"
    using process_line_wf [OF Cons.prems(1) p] process_line_ok [OF Cons.prems(1,2) _ p] Cons.prems(3) by auto
  then show ?case using Cons.IH [of "(M, cur, n)"] Cons.prems(3,4) p by (auto split: if_splits)
qed simp

lemma LoadMapFromMemory_ok:
  assumes "LoadMapFromMemory buffer Module_init = Ok M"
  shows "module_ok M"
proof (cases "buffer = []")
  case False
  obtain data bad where data: "repair_buffer buffer = (data, bad)" by fastforce
  let ?n = "if bad then LogParseError 0 else 0"
  obtain M0 cur n where p: "process_lines (strtok_all line_break data) (Module_init, None, ?n) = Ok (M0, cur, n)"
    and M: "M = M0\<lparr>is_corrupt := n > 0\<rparr>"
    using assms False data by (auto simp: LoadMapFromMemory_def split: outcome.splits prod.splits)
  have "CHR 0x00 \<notin> set data" using data by (auto simp: repair_buffer_def Let_def)
  then have "\<forall>l \<in> set (strtok_all line_break data). no_nul l"
    using strtok_all_words [of _ line_break data] by (auto simp: no_nul_def)
  then have "module_ok M0"
    using process_lines_ok [OF _ _ _ p] by (simp add: state_wf_def module_wf_init module_ok_init)
  then show ?thesis by (simp add: M module_ok_def)
qed (use assms in \<open>auto simp: LoadMapFromMemory_def module_ok_init\<close>)

section \<open>The fast resolver answers like the basic one\<close>

text \<open>A small module and its image for the examples.\<close>

lemma example_module_ok: "module_ok example_module"
  by (rule LoadMapFromMemory_ok [OF example_text_loads])

lemma length_empty_tree: "length (wfi_tree_image (crm_init b e)) = 16"
  by (subst wfi_tree_image_def, subst crm_image.simps)
    (simp add: linked_crm_def crm_init_def kids_def linked_image_def length_map_image)

lemma example_image_small: "length (module_image example_module) < 2 ^ 32"
  by (simp add: length_module_image module_parts_def example_module_def Module_init_def length_nodes_image
      range_map_image_def range_image_def function_image_def line_image_def public_image_def RangeMap_init_def
      length_empty_tree STACK_INFO_LAST_def length_concat sum_list_replicate)

lemma Module_Serialize_image:
  assumes "module_wf M" and "module_ok M" and "length (module_image M) < 2 ^ 32"
    and "alloc (word_of_nat (length (module_image M))) = p" and "p \<noteq> 0"
  shows "Module_Serialize alloc M mem =
    (store_bytes p (module_image M) mem, p, word_of_nat (length (module_image M)))"
  using Module_SizeOf_image [OF assms(1-3)] Module_Write_image [OF assms(1-3,5)] assms(4,5)
  by (simp add: Module_Serialize_def Let_def)

lemma fast_queries:
  assumes "module_wf M" and "module_ok M" and "length (module_image M) < 2 ^ 32"
    and "holds mem p (module_image M)" and "p \<noteq> 0"
  shows "case fast_LoadMapFromMemory mem p prev of (ok, F) \<Rightarrow> ok \<and> fm_is_corrupt F = is_corrupt M \<and>
    fast_LookupAddress mem F frame = Some (LookupAddress M frame) \<and>
    fast_FindWindowsFrameInfo mem F frame = Some (FindWindowsFrameInfo M frame) \<and>
    fast_FindCFIFrameInfo mem F frame = Some (FindCFIFrameInfo M frame)"
proof -
  obtain F where F: "fast_LoadMapFromMemory mem p prev = (True, F)" "fast_of mem F M"
    using fast_LoadMapFromMemory_of [OF assms(4,5,1,2,3)] .
  note q = fast_LookupAddress_of [OF F(2) assms(1-3)] fast_FindWindowsFrameInfo_of [OF F(2) assms(1-3)]
    fast_FindCFIFrameInfo_of [OF F(2) assms(1,2)]
  show ?thesis using F by (simp add: q) (simp add: fast_of_def)
qed

text \<open>Serializing a well-formed module allocates exactly the bytes it needs and fills exactly
  these with the image of the module: the corruption flag, the sizes of the ten maps, the maps in
  order and the final terminator; no byte outside the block changes.\<close>

theorem Module_Serialize_correct:
  assumes "module_wf M" and "module_ok M" and "length (module_image M) < 2 ^ 32"
    and "alloc (word_of_nat (length (module_image M))) = p" and "p \<noteq> 0"
  shows "Module_Serialize alloc M mem =
    (store_bytes p (module_image M) mem, p, word_of_nat (length (module_image M)))"
  using assms by (rule Module_Serialize_image)

theorem Module_Serialize_correct_witness:
  "Module_Serialize (\<lambda>n. 4096) example_module (\<lambda>i. 0) =
    (store_bytes 4096 (module_image example_module) (\<lambda>i. 0), 4096, word_of_nat (length (module_image example_module)))"
  by (rule Module_Serialize_correct [OF example_module_wf example_module_ok example_image_small]) simp_all

text \<open>On any memory that holds the image of a module, the fast module reads no string that
  does not end, uses no null pointer, and answers every address, Windows frame and CFI query
  exactly as the basic module does.\<close>

theorem fast_resolver_equivalent:
  assumes "module_wf M" and "module_ok M" and "length (module_image M) < 2 ^ 32"
    and "holds mem p (module_image M)" and "p \<noteq> 0"
  shows "case fast_LoadMapFromMemory mem p prev of (ok, F) \<Rightarrow> ok \<and> fm_is_corrupt F = is_corrupt M \<and>
    fast_LookupAddress mem F frame = Some (LookupAddress M frame) \<and>
    fast_FindWindowsFrameInfo mem F frame = Some (FindWindowsFrameInfo M frame) \<and>
    fast_FindCFIFrameInfo mem F frame = Some (FindCFIFrameInfo M frame)"
  using assms by (rule fast_queries)

definition example_fast :: fast_module where
  "example_fast = \<lparr>fm_files = StaticMap_init, fm_functions = StaticMap_init, fm_public_symbols = StaticMap_init,
     fm_is_corrupt = False, fm_windows_frame_info = [], fm_cfi_initial_rules = StaticMap_init,
     fm_cfi_delta_rules = StaticMap_init\<rparr>"

definition example_block :: memory where
  "example_block = store_bytes 4096 (module_image example_module) (\<lambda>i. 0)"

theorem fast_resolver_equivalent_witness:
  "case fast_LoadMapFromMemory example_block 4096 example_fast of (ok, F) \<Rightarrow> ok \<and>
    fm_is_corrupt F = is_corrupt example_module \<and>
    fast_LookupAddress example_block F (example_frame 0x401004) = Some (LookupAddress example_module (example_frame 0x401004)) \<and>
    fast_FindWindowsFrameInfo example_block F (example_frame 0x401004) =
      Some (FindWindowsFrameInfo example_module (example_frame 0x401004)) \<and>
    fast_FindCFIFrameInfo example_block F (example_frame 0x401004) =
      Some (FindCFIFrameInfo example_module (example_frame 0x401004))"
  by (rule fast_resolver_equivalent [OF example_module_wf example_module_ok example_image_small])
    (simp_all add: example_block_def holds_store)

lemma loaded_module_wf: "LoadMapFromMemory buffer Module_init = Ok M \<Longrightarrow> module_wf M"
  using load_wf [of buffer] by simp

text \<open>C2: The conversion of the text of a symbol file and the parser agree: when the text loads
  as a module of less than 4 GB, the block that \<open>SerializeSymbolFileData\<close> returns loads into the
  fast resolver and answers every query about any frame as the loaded module does.\<close>

theorem SerializeSymbolFileData_correct:
  assumes "LoadMapFromMemory (symbol_data @ [CHR 0x00]) Module_init = Ok M"
    and "length (module_image M) < 2 ^ 32" and "alloc (word_of_nat (length (module_image M))) \<noteq> 0"
  shows "case SerializeSymbolFileData alloc symbol_data mem of
      None \<Rightarrow> False
    | Some (mem', data, sz) \<Rightarrow> unat sz = length (module_image M) \<and>
        (case fast_LoadMapFromMemory mem' data prev of (ok, F) \<Rightarrow> ok \<and>
          fm_is_corrupt F = is_corrupt M \<and>
          fast_LookupAddress mem' F frame = Some (LookupAddress M frame) \<and>
          fast_FindWindowsFrameInfo mem' F frame = Some (FindWindowsFrameInfo M frame) \<and>
          fast_FindCFIFrameInfo mem' F frame = Some (FindCFIFrameInfo M frame))"
proof -
  let ?p = "alloc (word_of_nat (length (module_image M)))"
  let ?mem = "store_bytes ?p (module_image M) mem"
  note wf = loaded_module_wf [OF assms(1)] and ok = LoadMapFromMemory_ok [OF assms(1)]
  have "SerializeSymbolFileData alloc symbol_data mem =
      Some (?mem, ?p, word_of_nat (length (module_image M)))"
    using Module_Serialize_image [where alloc = alloc and p = ?p and mem = mem, OF wf ok assms(2) refl assms(3)] assms(1)
    by (simp add: SerializeSymbolFileData_def)
  then show ?thesis
    using fast_queries [where mem = ?mem and p = ?p and prev = prev and frame = frame, OF wf ok assms(2) holds_store assms(3)]
      unat_of_small [OF assms(2)]
    by simp
qed

theorem SerializeSymbolFileData_correct_witness:
  "case SerializeSymbolFileData (\<lambda>n. 4096) example_text (\<lambda>i. 0) of
      None \<Rightarrow> False
    | Some (mem', data, sz) \<Rightarrow> unat sz = length (module_image example_module) \<and>
        (case fast_LoadMapFromMemory mem' data example_fast of (ok, F) \<Rightarrow> ok \<and>
          fm_is_corrupt F = is_corrupt example_module \<and>
          fast_LookupAddress mem' F (example_frame 0x401004) = Some (LookupAddress example_module (example_frame 0x401004)) \<and>
          fast_FindWindowsFrameInfo mem' F (example_frame 0x401004) =
            Some (FindWindowsFrameInfo example_module (example_frame 0x401004)) \<and>
          fast_FindCFIFrameInfo mem' F (example_frame 0x401004) =
            Some (FindCFIFrameInfo example_module (example_frame 0x401004)))"
  by (rule SerializeSymbolFileData_correct [OF example_text_loads example_image_small]) simp

end
