(* ===== verification/Code_Modules.thy ===== *)
theory Code_Modules
  imports Range_Map
begin

text \<open>
  \<open>CodeModule\<close> and \<open>CodeModules\<close> of google_breakpad/processor as processor/basic_code_module.h
  and basic_code_modules.cc implement them: the modules of a process, kept in a range map by
  address. A copied module is a new object with the same fields; the model compares modules by
  their fields, which tells the objects of one container apart (\<open>modules_distinct\<close> below). What
  the copy constructor asks of any other implementation is the record \<open>code_modules_view\<close>.
\<close>

section \<open>Data and operations\<close>

record CodeModule =
  base_address :: mem_addr
  module_size :: uint64
  shrink_down_delta :: uint64
  code_file :: string
  code_file_identifier :: string
  debug_file :: string
  debug_identifier :: string
  version :: string
  is_unloaded :: bool

definition BasicCodeModule_copy :: "CodeModule \<Rightarrow> CodeModule" where
  "BasicCodeModule_copy that =
     \<lparr>base_address = base_address that, module_size = module_size that,
      shrink_down_delta = shrink_down_delta that, code_file = code_file that,
      code_file_identifier = code_file_identifier that, debug_file = debug_file that,
      debug_identifier = debug_identifier that, version = version that, is_unloaded = is_unloaded that\<rparr>"

definition BasicCodeModule ::
  "uint64 \<Rightarrow> uint64 \<Rightarrow> string \<Rightarrow> string \<Rightarrow> string \<Rightarrow> string \<Rightarrow> string \<Rightarrow> bool \<Rightarrow> CodeModule" where
  "BasicCodeModule base sz file ident dfile dident ver unloaded =
     \<lparr>base_address = base, module_size = sz, shrink_down_delta = 0, code_file = file,
      code_file_identifier = ident, debug_file = dfile, debug_identifier = dident, version = ver,
      is_unloaded = unloaded\<rparr>"

definition SetShrinkDownDelta :: "uint64 \<Rightarrow> CodeModule \<Rightarrow> CodeModule" where
  "SetShrinkDownDelta delta m = m\<lparr>shrink_down_delta := delta\<rparr>"

record basic_code_modules =
  main_address :: uint64
  modules_map :: "(uint64, CodeModule) range_map"
  shrunk_range_modules :: "CodeModule list"

definition BasicCodeModules_init :: basic_code_modules where
  "BasicCodeModules_init = \<lparr>main_address = 0, modules_map = RangeMap_init, shrunk_range_modules = []\<rparr>"

definition module_count :: "basic_code_modules \<Rightarrow> uint32" where
  "module_count cms = word_of_nat (GetCount (modules_map cms))"

definition GetModuleForAddress :: "basic_code_modules \<Rightarrow> uint64 \<Rightarrow> CodeModule option" where
  "GetModuleForAddress cms address = map_option fst (RetrieveRange (modules_map cms) address)"

definition GetMainModule :: "basic_code_modules \<Rightarrow> CodeModule option" where
  "GetMainModule cms = GetModuleForAddress cms (main_address cms)"

text \<open>The range map takes the unsigned sequence number as an \<open>int\<close>.\<close>

definition GetModuleAtSequence :: "basic_code_modules \<Rightarrow> uint32 \<Rightarrow> CodeModule option" where
  "GetModuleAtSequence cms sequence =
     map_option fst (RetrieveRangeAtIndex (modules_map cms) (sint sequence))"

definition GetModuleAtIndex :: "basic_code_modules \<Rightarrow> uint32 \<Rightarrow> CodeModule option" where
  "GetModuleAtIndex cms index = GetModuleAtSequence cms index"

definition IsModuleShrinkEnabled :: "basic_code_modules \<Rightarrow> bool" where
  "IsModuleShrinkEnabled cms = IsShrinkDownEnabled (modules_map cms)"

definition GetShrunkRangeModules :: "basic_code_modules \<Rightarrow> CodeModule list" where
  "GetShrunkRangeModules cms = shrunk_range_modules cms"

text \<open>
  What the copy constructor reads of \<open>that\<close>: the main module, and \<open>GetModuleAtIndex\<close> for every
  index below \<open>module_count\<close>, where None is a null pointer.
\<close>

record code_modules_view =
  shrink_enabled :: bool
  main_module :: "CodeModule option"
  modules_by_index :: "CodeModule option list"

definition view_of :: "basic_code_modules \<Rightarrow> code_modules_view" where
  "view_of cms =
     \<lparr>shrink_enabled = IsModuleShrinkEnabled cms, main_module = GetMainModule cms,
      modules_by_index = map (\<lambda>i. GetModuleAtIndex cms (word_of_nat i)) [0..<unat (module_count cms)]\<rparr>"

fun store_modules ::
  "CodeModule list \<Rightarrow> (uint64, CodeModule) range_map \<Rightarrow> (uint64, CodeModule) range_map" where
  "store_modules [] m = m"
| "store_modules (module # modules) m =
     (let copy = BasicCodeModule_copy module in
      store_modules modules (snd (StoreRange m (base_address copy) (module_size copy) copy)))"

text \<open>The loop that reports shrunk modules; \<open>module\<close> is overwritten by the module found.\<close>

fun report_shrunk :: "(uint64, CodeModule) range_map \<Rightarrow> CodeModule list \<Rightarrow> CodeModule list" where
  "report_shrunk m [] = []"
| "report_shrunk m (module # modules) =
     (let copy = BasicCodeModule_copy module in
      (case RetrieveRange m (base_address copy + module_size copy - 1) of
         Some (found, _, delta, _) \<Rightarrow>
           if delta > 0 then [SetShrinkDownDelta delta (BasicCodeModule_copy found)] else []
       | None \<Rightarrow> []) @ report_shrunk m modules)"

text \<open>None: the constructor calls \<open>Copy\<close> on a null pointer.\<close>

definition BasicCodeModules :: "code_modules_view \<Rightarrow> basic_code_modules option" where
  "BasicCodeModules that =
     (if None \<in> set (modules_by_index that) then None
      else
        let modules = map the (modules_by_index that);
            m = store_modules modules (SetEnableShrinkDown RangeMap_init (shrink_enabled that)) in
        Some \<lparr>main_address = (case main_module that of None \<Rightarrow> 0 | Some m \<Rightarrow> base_address m),
              modules_map = m, shrunk_range_modules = report_shrunk m modules\<rparr>)"

definition Copy :: "basic_code_modules \<Rightarrow> basic_code_modules option" where
  "Copy cms = BasicCodeModules (view_of cms)"

lemma BasicCodeModule_copy_id [simp]: "BasicCodeModule_copy m = m"
  by (simp add: BasicCodeModule_copy_def)

section \<open>Where the modules are\<close>

text \<open>
  Every range of the map ends where its module ends. It begins where its module begins or,
  when shrinking is enabled, just above the range before it, and the delta records how much of
  the module is lost; \<open>prev\<close> is the end of the range before.
\<close>

definition module_end :: "CodeModule \<Rightarrow> uint64" where
  "module_end M = base_address M + (module_size M - 1)"

definition begin_after :: "uint64 option \<Rightarrow> uint64 \<Rightarrow> uint64" where
  "begin_after prev base = (case prev of None \<Rightarrow> base | Some p \<Rightarrow> if p < base then base else p + 1)"

fun placed :: "bool \<Rightarrow> uint64 option \<Rightarrow> (uint64, (uint64, CodeModule) rm_range) std_map \<Rightarrow> bool" where
  "placed shrink prev [] = True"
| "placed shrink prev ((high, r) # m) =
     (let M = rng_entry r in
      good_span (base_address M) (module_size M) \<and> high = module_end M \<and>
      (\<forall>p. prev = Some p \<longrightarrow> p < high) \<and> rng_base r = begin_after prev (base_address M) \<and>
      (\<not> shrink \<longrightarrow> rng_base r = base_address M) \<and> rng_delta r = rng_base r - base_address M \<and>
      placed shrink (Some high) m)"

definition last_end :: "uint64 option \<Rightarrow> (uint64, 'r) std_map \<Rightarrow> uint64 option" where
  "last_end prev m = (if m = [] then prev else Some (fst (last m)))"

lemma placed_append:
  "placed s p (xs @ ys) \<longleftrightarrow> placed s p xs \<and> placed s (last_end p xs) ys"
  by (induction s p xs rule: placed.induct) (auto simp: last_end_def Let_def)

lemma shrunk_base_begin_after:
  "shrunk_base m base high = begin_after (last_end None (takeWhile (\<lambda>e. fst e < high) m)) base"
  by (simp add: shrunk_base_def begin_after_def last_end_def Let_def)

definition modules_ok :: "(uint64, CodeModule) range_map \<Rightarrow> bool" where
  "modules_ok rm \<longleftrightarrow> rm_wf rm \<and> placed (enable_shrink_down rm) None (rm_map rm)"

lemma modules_ok_init: "modules_ok (SetEnableShrinkDown RangeMap_init s)"
  by (simp add: modules_ok_def SetEnableShrinkDown_def RangeMap_init_def rm_wf_def ranges_wf_def)

lemma begin_after_ge: "\<forall>p. prev = Some p \<longrightarrow> p < k \<Longrightarrow> base \<le> begin_after prev base"
  using word_less_add_one [where h = k] by (force simp: begin_after_def split: option.split)

lemma begin_after_between:
  "\<forall>p. prev = Some p \<longrightarrow> p < h \<Longrightarrow> h < begin_after prev base \<Longrightarrow> begin_after prev base = base"
  using word_less_imp_add_one_le [where h = h] by (force simp: begin_after_def split: option.splits)

lemma placed_store_shrink:
  assumes "placed True None m" and "ranges_wf m" and "good_span (base_address M) (module_size M)"
    and "store_shrink m (base_address M) 0 (module_end M) M = Some m'"
  shows "placed True None m'"
proof -
  let ?h = "module_end M"
  define L where "L = takeWhile (\<lambda>e. fst e < ?h) m"
  define R where "R = dropWhile (\<lambda>e. fst e < ?h) m"
  have m: "m = L @ R" by (simp add: L_def R_def)
  have ends: "\<forall>p. last_end None L = Some p \<longrightarrow> p < ?h"
    using last_takeWhile_less [where m = m] by (auto simp: last_end_def L_def)
  note st = assms(4) [unfolded store_shrink_def Let_def shrunk_base_begin_after, folded L_def R_def]
  show ?thesis
  proof (cases R)
    case Nil
    then show ?thesis using st assms(1,3) ends by (auto simp: m placed_append Let_def)
  next
    case (Cons e R')
    obtain k r where e: "e = (k, r)" by fastforce
    let ?M = "rng_entry r"
    have pl: "good_span (base_address ?M) (module_size ?M)" "k = module_end ?M"
      "\<forall>p. last_end None L = Some p \<longrightarrow> p < k" "rng_base r = begin_after (last_end None L) (base_address ?M)"
      "rng_delta r = rng_base r - base_address ?M" "placed True (Some k) R'" "placed True None L"
      using assms(1) by (auto simp: m Cons e placed_append Let_def)
    have "rng_base r \<le> k" using ranges_wf_base_le [OF assms(2), of e] by (simp add: m Cons e)
    moreover have "?h \<le> k" using keys_of_split(2) [of m e ?h] Cons e assms(2)
      by (simp add: R_def [symmetric] ranges_wf_keys_sorted)
    ultimately have "?h < k" using st Cons e by (auto split: if_splits)
    moreover have "base_address ?M \<le> rng_base r" using begin_after_ge [OF pl(3)] pl(4) by simp
    ultimately show ?thesis
      using st assms(3) ends pl Cons begin_after_between [OF ends, of "base_address ?M"]
      by (auto simp: e placed_append begin_after_def last_end_def Let_def split: if_splits option.splits)
  qed
qed

lemma placed_store_strict:
  assumes "placed False None m" and "good_span (base_address M) (module_size M)"
    and "ranges_wf m" and "store_strict m (base_address M) 0 (module_end M) M = Some m'"
  shows "placed False None m'"
proof -
  let ?h = "module_end M"
  define L where "L = takeWhile (\<lambda>e. fst e < ?h) m"
  define R where "R = dropWhile (\<lambda>e. fst e < ?h) m"
  have m: "m = L @ R" by (simp add: L_def R_def)
  have ends: "\<forall>p. last_end None L = Some p \<longrightarrow> p < ?h"
    using last_takeWhile_less [where m = m] by (auto simp: last_end_def L_def)
  note st = assms(4) [unfolded store_strict_def Let_def shrunk_base_begin_after, folded L_def R_def]
  show ?thesis
  proof (cases R)
    case Nil
    then show ?thesis using st assms(1,2) ends by (auto simp: m placed_append Let_def split: if_splits)
  next
    case (Cons e R')
    then show ?thesis
      using st assms(1,2) ends Cons ranges_wf_base_le [OF assms(3), of e]
      by (cases e) (auto simp: m placed_append begin_after_def last_end_def Let_def split: if_splits option.splits)
  qed
qed

lemma modules_ok_StoreRange:
  assumes "modules_ok rm"
  shows "modules_ok (snd (StoreRange rm (base_address M) (module_size M) M))"
proof (cases "good_span (base_address M) (module_size M)")
  case False
  then show ?thesis using assms by (simp add: StoreRange_bad_span)
next
  case good: True
  have wf: "rm_wf rm" and pl: "placed (enable_shrink_down rm) None (rm_map rm)"
    using assms by (simp_all add: modules_ok_def)
  then have m: "ranges_wf (rm_map rm)" "keys_sorted (rm_map rm)"
    by (simp_all add: rm_wf_def ranges_wf_keys_sorted)
  obtain ok rm' where st: "StoreRange rm (base_address M) (module_size M) M = (ok, rm')" by fastforce
  note frame = StoreRange_frame [OF wf st]
  have "placed (enable_shrink_down rm) None (rm_map rm')" if ok
  proof (cases "enable_shrink_down rm")
    case True
    show ?thesis
      using placed_store_shrink [OF _ m(1) good] pl True st \<open>ok\<close> StoreRange_shrink [OF wf True good, of M]
      by (auto simp: module_end_def split: option.splits)
  next
    case False
    show ?thesis
      using placed_store_strict [OF _ good m(1)] pl False st \<open>ok\<close> StoreRange_strict [OF wf False good, of M]
      by (auto simp: module_end_def split: option.splits)
  qed
  then have "modules_ok rm'"
    using frame assms by (cases ok) (simp_all add: modules_ok_def)
  then show ?thesis by (simp add: st)
qed

lemma store_modules_ok: "modules_ok rm \<Longrightarrow> modules_ok (store_modules modules rm)"
  by (induction modules rm rule: store_modules.induct) (simp_all add: Let_def modules_ok_StoreRange)

lemma store_modules_shrink:
  "rm_wf rm \<Longrightarrow> enable_shrink_down (store_modules modules rm) = enable_shrink_down rm"
proof (induction modules rm rule: store_modules.induct)
  case (2 module modules m)
  obtain ok m' where "StoreRange m (base_address module) (module_size module) module = (ok, m')" by fastforce
  with StoreRange_frame [OF "2.prems" this] "2.IH" show ?case by (simp add: Let_def)
qed simp

section \<open>Copies\<close>

text \<open>Storing the modules of a map in address order rebuilds the map.\<close>

lemma StoreRange_last:
  assumes "rm_wf rm" and "placed (enable_shrink_down rm) None (rm_map rm @ [(h, r)])"
  shows "StoreRange rm (base_address (rng_entry r)) (module_size (rng_entry r)) (rng_entry r) =
    (True, rm\<lparr>rm_map := rm_map rm @ [(h, r)]\<rparr>)"
proof -
  let ?M = "rng_entry r"
  have pl: "good_span (base_address ?M) (module_size ?M)" "h = module_end ?M"
    "\<forall>p. last_end None (rm_map rm) = Some p \<longrightarrow> p < h"
    "rng_base r = begin_after (last_end None (rm_map rm)) (base_address ?M)"
    "\<not> enable_shrink_down rm \<Longrightarrow> rng_base r = base_address ?M" "rng_delta r = rng_base r - base_address ?M"
    using assms(2) by (auto simp: placed_append Let_def)
  have ks: "keys_sorted (rm_map rm)" using assms(1) by (simp add: rm_wf_def ranges_wf_keys_sorted)
  have "fst e < h" if e: "e \<in> set (rm_map rm)" for e
  proof -
    obtain i where i: "i < length (rm_map rm)" "rm_map rm ! i = e" using e by (auto simp: in_set_conv_nth)
    have "fst e \<le> fst (last (rm_map rm))"
      using keys_sorted_nth_mono [OF ks, of i "length (rm_map rm) - 1"] i
      by (cases "rm_map rm = []") (auto simp: last_conv_nth)
    also have "\<dots> < h" using pl(3) e by (auto simp: last_end_def split: if_splits)
    finally show ?thesis .
  qed
  then have split: "takeWhile (\<lambda>e. fst e < h) (rm_map rm) = rm_map rm" "dropWhile (\<lambda>e. fst e < h) (rm_map rm) = []"
    by (auto simp: takeWhile_eq_all_conv dropWhile_eq_Nil_conv)
  have sb: "shrunk_base (rm_map rm) (base_address ?M) h = rng_base r"
    by (simp only: shrunk_base_begin_after split(1) pl(4))
  have h: "base_address ?M + (module_size ?M - 1) = h" using pl(2) by (simp add: module_end_def)
  have r: "\<lparr>rng_base = rng_base r, rng_delta = rng_delta r, rng_entry = ?M\<rparr> = r" by simp
  show ?thesis
  proof (cases "enable_shrink_down rm")
    case True
    show ?thesis
      using StoreRange_shrink [OF assms(1) True pl(1), of ?M] sb split r pl(6)
      by (simp add: h store_shrink_def Let_def)
  next
    case False
    show ?thesis
      using StoreRange_strict [OF assms(1) False pl(1), of ?M] sb split r pl(5) [OF False] pl(6)
      by (simp add: h store_strict_def Let_def)
  qed
qed

lemma store_modules_append:
  "store_modules (xs @ ys) rm = store_modules ys (store_modules xs rm)"
  by (induction xs rm rule: store_modules.induct) (simp_all add: Let_def)

lemma store_modules_rebuild:
  "ranges_wf m \<Longrightarrow> placed s None m \<Longrightarrow>
     store_modules (map (rng_entry \<circ> snd) m) \<lparr>enable_shrink_down = s, rm_map = []\<rparr> =
       \<lparr>enable_shrink_down = s, rm_map = m\<rparr>"
proof (induction m rule: rev_induct)
  case (snoc e m)
  obtain h r where e: "e = (h, r)" by fastforce
  have "ranges_wf m" "placed s None m" using snoc.prems by (simp_all add: ranges_wf_append placed_append)
  then show ?case
    using snoc StoreRange_last [of "\<lparr>enable_shrink_down = s, rm_map = m\<rparr>" h r]
    by (simp add: store_modules_append rm_wf_def e Let_def)
qed simp

lemma GetModuleAtSequence_nth:
  assumes "length (rm_map (modules_map cms)) < 2 ^ 31" and "i < length (rm_map (modules_map cms))"
  shows "GetModuleAtSequence cms (word_of_nat i) = Some (rng_entry (snd (rm_map (modules_map cms) ! i)))"
proof -
  have "sint (word_of_nat i :: uint32) = int i"
    using assms by (simp add: signed_of_nat signed_take_bit_int_eq_self)
  then show ?thesis
    using assms(2) by (auto simp: GetModuleAtSequence_def RetrieveRangeAtIndex_def GetCount_def range_result_def
        split: prod.split)
qed

lemma view_of_modules:
  assumes "GetCount (modules_map cms) < 2 ^ 31"
  shows "modules_by_index (view_of cms) = map (Some \<circ> rng_entry \<circ> snd) (rm_map (modules_map cms))"
proof (rule nth_equalityI)
  have n: "unat (module_count cms) = length (rm_map (modules_map cms))"
    using assms by (simp add: module_count_def GetCount_def unat_of_nat)
  then show "length (modules_by_index (view_of cms)) = length (map (Some \<circ> rng_entry \<circ> snd) (rm_map (modules_map cms)))"
    by (simp add: view_of_def)
  show "modules_by_index (view_of cms) ! i = map (Some \<circ> rng_entry \<circ> snd) (rm_map (modules_map cms)) ! i"
    if "i < length (modules_by_index (view_of cms))" for i
    using that assms n GetModuleAtSequence_nth [of cms i]
    by (simp add: view_of_def GetModuleAtIndex_def GetCount_def)
qed

lemma BasicCodeModules_ok:
  assumes "BasicCodeModules that = Some cms"
  shows "modules_ok (modules_map cms)" and "enable_shrink_down (modules_map cms) = shrink_enabled that"
proof -
  let ?rm = "SetEnableShrinkDown RangeMap_init (shrink_enabled that) :: (uint64, CodeModule) range_map"
  have m: "modules_map cms = store_modules (map the (modules_by_index that)) ?rm"
    using assms by (auto simp: BasicCodeModules_def Let_def split: if_splits)
  show "modules_ok (modules_map cms)"
    unfolding m by (rule store_modules_ok) (rule modules_ok_init)
  have "rm_wf ?rm" using modules_ok_init [of "shrink_enabled that"] by (simp add: modules_ok_def)
  then show "enable_shrink_down (modules_map cms) = shrink_enabled that"
    unfolding m by (simp add: store_modules_shrink) (simp add: SetEnableShrinkDown_def)
qed

lemma placed_entry:
  "placed s prev m \<Longrightarrow> (h, r) \<in> set m \<Longrightarrow>
     h = module_end (rng_entry r) \<and> (\<not> s \<longrightarrow> rng_base r = base_address (rng_entry r))"
  by (induction s prev m rule: placed.induct) (auto simp: Let_def)

text \<open>Two ranges never hold equal modules, so modules may be compared by their fields.\<close>

lemma modules_distinct:
  assumes "modules_ok rm"
  shows "distinct (map (rng_entry \<circ> snd) (rm_map rm))"
proof -
  have "sorted_wrt (<) (map fst (rm_map rm))"
    using assms by (simp add: modules_ok_def rm_wf_def ranges_wf_keys_sorted keys_sorted_def [symmetric])
  then have "distinct (map fst (rm_map rm))" by (simp add: strict_sorted_iff)
  moreover have "map fst (rm_map rm) = map module_end (map (rng_entry \<circ> snd) (rm_map rm))"
    using assms placed_entry by (fastforce simp: modules_ok_def)
  ultimately show ?thesis by (metis distinct_map)
qed

lemma GetModuleForAddress_iff:
  assumes "modules_ok (modules_map cms)"
  shows "GetModuleForAddress cms a = Some M \<longleftrightarrow>
    (\<exists>h r. (h, r) \<in> set (rm_map (modules_map cms)) \<and> rng_base r \<le> a \<and> a \<le> h \<and> rng_entry r = M)"
proof -
  have wf: "rm_wf (modules_map cms)" using assms by (simp add: modules_ok_def)
  show ?thesis
    using rm_lookup_iff [OF wf, of a]
    by (auto simp: GetModuleForAddress_def RetrieveRange_eq_lookup [OF wf] range_result_def covers_def
        split: prod.splits)
qed

lemma placed_unshrunk: "placed False prev m \<Longrightarrow> (h, r) \<in> set m \<Longrightarrow> rng_delta r = 0"
  by (induction "False" prev m rule: placed.induct) (auto simp: Let_def)

lemma report_shrunk_unshrunk:
  assumes "modules_ok rm" and "\<not> enable_shrink_down rm"
  shows "report_shrunk rm modules = []"
proof (induction modules)
  case (Cons module modules)
  have "rng_delta r = 0" if "rm_lookup rm a = Some (h, r)" for a h r
    using assms that by (auto simp: modules_ok_def rm_lookup_iff intro: placed_unshrunk)
  then show ?case
    using Cons assms(1)
    by (auto simp: modules_ok_def RetrieveRange_eq_lookup range_result_def Let_def split: option.split)
qed simp

text \<open>C35: A copy of a \<open>BasicCodeModules\<close>, shrunk or not, has as many modules as the original and finds the
  same one for every address, sequence number and index. When module ranges are not shrunk, the
  list of shrunk modules agrees as well, and so does the main module if the original has one.\<close>

theorem Copy_behaves_identically:
  assumes "BasicCodeModules that = Some cms" and "GetCount (modules_map cms) < 2 ^ 31"
  shows "case Copy cms of
      None \<Rightarrow> False
    | Some copy \<Rightarrow>
        module_count copy = module_count cms \<and> IsModuleShrinkEnabled copy = IsModuleShrinkEnabled cms \<and>
        GetModuleForAddress copy a = GetModuleForAddress cms a \<and>
        GetModuleAtSequence copy i = GetModuleAtSequence cms i \<and> GetModuleAtIndex copy i = GetModuleAtIndex cms i \<and>
        (\<not> IsModuleShrinkEnabled cms \<longrightarrow> GetShrunkRangeModules copy = GetShrunkRangeModules cms \<and>
          (GetMainModule cms = Some M \<longrightarrow> GetMainModule copy = Some M))"
proof -
  let ?rm = "modules_map cms"
  note ok = BasicCodeModules_ok(1) [OF assms(1)]
  note view = view_of_modules [OF assms(2)]
  have some: "None \<notin> set (modules_by_index (view_of cms))" by (auto simp: view)
  have mods: "map the (modules_by_index (view_of cms)) = map (rng_entry \<circ> snd) (rm_map ?rm)"
    by (simp add: view)
  obtain copy where copy: "Copy cms = Some copy"
    using some by (simp add: Copy_def BasicCodeModules_def Let_def)
  have main: "main_address copy = (case GetMainModule cms of None \<Rightarrow> 0 | Some m \<Rightarrow> base_address m)"
    using copy some by (auto simp: Copy_def BasicCodeModules_def Let_def view_of_def)
  have "modules_map copy = store_modules (map (rng_entry \<circ> snd) (rm_map ?rm))
      \<lparr>enable_shrink_down = enable_shrink_down ?rm, rm_map = []\<rparr>"
    using copy some mods
    by (auto simp: Copy_def BasicCodeModules_def Let_def SetEnableShrinkDown_def RangeMap_init_def)
      (simp_all add: view_of_def IsModuleShrinkEnabled_def IsShrinkDownEnabled_def)
  also have "\<dots> = ?rm"
    using ok store_modules_rebuild [of "rm_map ?rm" "enable_shrink_down ?rm"] by (simp add: modules_ok_def rm_wf_def)
  finally have map: "modules_map copy = ?rm" .
  have same: "GetMainModule copy = Some M" if m: "\<not> IsModuleShrinkEnabled cms" "GetMainModule cms = Some M"
  proof -
    obtain h r where e: "(h, r) \<in> set (rm_map ?rm)" "rng_base r \<le> main_address cms" "main_address cms \<le> h" "rng_entry r = M"
      using m(2) GetModuleForAddress_iff [OF ok] by (auto simp: GetMainModule_def)
    have b: "rng_base r = base_address M"
      using placed_entry [OF _ e(1)] ok m(1) e(4)
      by (auto simp: modules_ok_def IsModuleShrinkEnabled_def IsShrinkDownEnabled_def)
    then have "GetModuleForAddress copy (base_address M) = Some M"
      using e ok map order_trans [OF e(2,3)]
      by (subst GetModuleForAddress_iff) (auto intro!: exI [of _ h] exI [of _ r])
    then show ?thesis using m(2) main by (simp add: GetMainModule_def)
  qed
  have "GetShrunkRangeModules c = []"
    if "BasicCodeModules v = Some c" "modules_map c = ?rm" "\<not> IsModuleShrinkEnabled cms" for v c
    using that BasicCodeModules_ok(1) [OF that(1)] report_shrunk_unshrunk [of "modules_map c"]
    by (auto simp: BasicCodeModules_def Let_def GetShrunkRangeModules_def IsModuleShrinkEnabled_def IsShrinkDownEnabled_def
        split: if_splits)
  then have "\<not> IsModuleShrinkEnabled cms \<Longrightarrow> GetShrunkRangeModules copy = GetShrunkRangeModules cms"
    using assms(1) copy map by (simp add: Copy_def)
  with same show ?thesis
    using copy map
    by (simp add: module_count_def GetModuleForAddress_def GetModuleAtSequence_def GetModuleAtIndex_def
        IsModuleShrinkEnabled_def)
qed

definition example_module_at :: "uint64 \<Rightarrow> uint64 \<Rightarrow> string \<Rightarrow> CodeModule" where
  "example_module_at base sz name = BasicCodeModule base sz name [] name ''ID'' [] False"

definition example_view :: code_modules_view where
  "example_view =
     (let m = example_module_at 0x400000 0x1000 ''app''; lib = example_module_at 0x10000 0x2000 ''lib'' in
      \<lparr>shrink_enabled = False, main_module = Some m, modules_by_index = [Some m, Some lib]\<rparr>)"

definition example_modules :: basic_code_modules where
  "example_modules =
     \<lparr>main_address = 0x400000,
      modules_map = \<lparr>enable_shrink_down = False, rm_map =
        [(0x11FFF, \<lparr>rng_base = 0x10000, rng_delta = 0, rng_entry = example_module_at 0x10000 0x2000 ''lib''\<rparr>),
         (0x400FFF, \<lparr>rng_base = 0x400000, rng_delta = 0, rng_entry = example_module_at 0x400000 0x1000 ''app''\<rparr>)]\<rparr>,
      shrunk_range_modules = []\<rparr>"

lemma example_modules_view: "BasicCodeModules example_view = Some example_modules"
  by code_simp

theorem Copy_behaves_identically_witness:
  "case Copy example_modules of
      None \<Rightarrow> False
    | Some copy \<Rightarrow>
        module_count copy = 2 \<and> \<not> IsModuleShrinkEnabled copy \<and>
        GetModuleForAddress copy 0x10010 = Some (example_module_at 0x10000 0x2000 ''lib'') \<and>
        GetModuleAtSequence copy 1 = Some (example_module_at 0x400000 0x1000 ''app'') \<and>
        GetShrunkRangeModules copy = [] \<and> GetMainModule copy = Some (example_module_at 0x400000 0x1000 ''app'')"
proof -
  have "GetCount (modules_map example_modules) < 2 ^ 31" by (simp add: example_modules_def GetCount_def)
  note copies = Copy_behaves_identically [OF example_modules_view this, where a = "0x10010" and i = 1
      and M = "example_module_at 0x400000 0x1000 ''app''"]
  have "module_count example_modules = 2 \<and> \<not> IsModuleShrinkEnabled example_modules \<and>
      GetModuleForAddress example_modules 0x10010 = Some (example_module_at 0x10000 0x2000 ''lib'') \<and>
      GetModuleAtSequence example_modules 1 = Some (example_module_at 0x400000 0x1000 ''app'') \<and>
      GetShrunkRangeModules example_modules = [] \<and>
      GetMainModule example_modules = Some (example_module_at 0x400000 0x1000 ''app'')"
    by code_simp
  with copies show ?thesis by (simp split: option.splits)
qed

text \<open>
  With shrinking the main module of a copy can be another one: the copy takes the base address
  the module asks for, and another module may have that address.
\<close>

lemma Copy_main_module_differs:
  "let app = example_module_at 0x1000 0x3000 ''app''; lib = example_module_at 0x1000 0x800 ''lib'' in
   case BasicCodeModules \<lparr>shrink_enabled = True, main_module = Some (example_module_at 0x2000 0x100 ''main''),
        modules_by_index = [Some app, Some lib]\<rparr> of
     None \<Rightarrow> False
   | Some cms \<Rightarrow> GetMainModule cms = Some app \<and> map_option GetMainModule (Copy cms) = Some (Some lib)"
  by code_simp

section \<open>Lookups\<close>

definition contains :: "CodeModule \<Rightarrow> uint64 \<Rightarrow> bool" where
  "contains M a \<longleftrightarrow> base_address M \<le> a \<and> a \<le> module_end M"

definition overlap :: "CodeModule \<Rightarrow> CodeModule \<Rightarrow> bool" where
  "overlap M N \<longleftrightarrow> base_address M \<le> module_end N \<and> base_address N \<le> module_end M"

text \<open>The modules that are kept: those with a valid span that overlap no module kept before.\<close>

fun kept :: "CodeModule list \<Rightarrow> CodeModule list \<Rightarrow> CodeModule list" where
  "kept acc [] = acc"
| "kept acc (M # Ms) =
     (if good_span (base_address M) (module_size M) \<and> (\<forall>N \<in> set acc. \<not> overlap M N)
      then kept (acc @ [M]) Ms else kept acc Ms)"

lemma find_append:
  "List.find P (xs @ ys) = (case List.find P xs of None \<Rightarrow> List.find P ys | Some x \<Rightarrow> Some x)"
  by (induction xs) simp_all

lemma StoreRange_kept:
  fixes M :: CodeModule
  assumes "modules_ok rm" and "\<not> enable_shrink_down rm"
    and acc: "set acc = rng_entry ` snd ` set (rm_map rm)"
    and lk: "\<And>a. map_option (rng_entry \<circ> snd) (rm_lookup rm a) = List.find (\<lambda>M. contains M a) acc"
  defines "keep \<equiv> good_span (base_address M) (module_size M) \<and> (\<forall>N \<in> set acc. \<not> overlap M N)"
  defines "rm' \<equiv> snd (StoreRange rm (base_address M) (module_size M) M)"
  shows "set (if keep then acc @ [M] else acc) = rng_entry ` snd ` set (rm_map rm')"
    and "map_option (rng_entry \<circ> snd) (rm_lookup rm' a) =
      List.find (\<lambda>M. contains M a) (if keep then acc @ [M] else acc)"
proof -
  have wf: "rm_wf rm" and pl: "placed False None (rm_map rm)"
    using assms(1,2) by (simp_all add: modules_ok_def)
  obtain ok rm2 where st: "StoreRange rm (base_address M) (module_size M) M = (ok, rm2)" by fastforce
  have ap: "(\<forall>e \<in> set (rm_map rm). fst e < base_address M \<or> module_end M < rng_base (snd e)) \<longleftrightarrow>
      (\<forall>N \<in> set acc. \<not> overlap M N)"
    unfolding acc using placed_entry [OF pl] by (force simp: overlap_def not_le)
  have ok: "ok \<longleftrightarrow> keep"
  proof (cases "good_span (base_address M) (module_size M)")
    case True
    show ?thesis
      using StoreRange_strict [OF wf assms(2) True, of M] st True ap
        store_strict_Some_iff [where delta = 0 and entry = M and base = "base_address M" and high = "module_end M",
          OF wf [unfolded rm_wf_def]]
      by (auto simp: keep_def module_end_def good_span_def split: option.splits)
  qed (use st in \<open>simp add: StoreRange_bad_span keep_def\<close>)
  have cases: "\<not> ok \<and> rm2 = rm \<or> ok \<and> good_span (base_address M) (module_size M) \<and>
      set (rm_map rm2) = insert (module_end M, \<lparr>rng_base = base_address M, rng_delta = 0, rng_entry = M\<rparr>) (set (rm_map rm))"
    using StoreRange_strict_cases [OF wf assms(2) st] by (auto simp: module_end_def)
  show "set (if keep then acc @ [M] else acc) = rng_entry ` snd ` set (rm_map rm')"
    using cases ok by (elim disjE) (simp_all add: rm'_def st acc)
  show "map_option (rng_entry \<circ> snd) (rm_lookup rm' a) =
      List.find (\<lambda>M. contains M a) (if keep then acc @ [M] else acc)"
  proof (cases ok)
    case True
    have st1: "StoreRange rm (base_address M) (module_size M) M = (True, rm2)" using st True by simp
    have "List.find (\<lambda>M. contains M a) acc = None" if "contains M a"
      using that True ok by (auto simp: find_None_iff keep_def overlap_def contains_def)
    then show ?thesis
      using True ok StoreRange_strict_lookup [OF wf assms(2) st1, of a] lk [of a]
      by (auto simp: rm'_def st contains_def module_end_def find_append split: option.splits)
  next
    case False
    then show ?thesis using cases ok lk by (simp add: rm'_def st)
  qed
qed

lemma store_modules_kept:
  "modules_ok rm \<Longrightarrow> \<not> enable_shrink_down rm \<Longrightarrow> set acc = rng_entry ` snd ` set (rm_map rm) \<Longrightarrow>
   (\<And>a. map_option (rng_entry \<circ> snd) (rm_lookup rm a) = List.find (\<lambda>M. contains M a) acc) \<Longrightarrow>
   map_option (rng_entry \<circ> snd) (rm_lookup (store_modules Ms rm) a) = List.find (\<lambda>M. contains M a) (kept acc Ms)"
proof (induction Ms arbitrary: rm acc)
  case (Cons M Ms)
  note step = StoreRange_kept [OF Cons.prems(1,2,3) Cons.prems(4), of M]
  have "enable_shrink_down (snd (StoreRange rm (base_address M) (module_size M) M)) = enable_shrink_down rm"
    using store_modules_shrink [of rm "[M]"] Cons.prems(1) by (simp add: modules_ok_def)
  then show ?case
    using Cons.IH [OF modules_ok_StoreRange [OF Cons.prems(1), of M] _ step] Cons.prems(2)
    by (auto simp: Let_def split: if_splits)
qed simp

text \<open>C16: Without shrinking, a lookup by address finds the module that contains the address among
  the modules that were kept, which are those with a valid address range that overlap no module
  kept before them.\<close>

theorem GetModuleForAddress_correct:
  assumes "BasicCodeModules that = Some cms" and "\<not> shrink_enabled that"
  shows "GetModuleForAddress cms a = List.find (\<lambda>M. contains M a) (kept [] (map the (modules_by_index that)))"
proof -
  have wf: "rm_wf (modules_map cms)" using BasicCodeModules_ok(1) [OF assms(1)] by (simp add: modules_ok_def)
  have m: "modules_map cms = store_modules (map the (modules_by_index that)) (SetEnableShrinkDown RangeMap_init False)"
    using assms by (auto simp: BasicCodeModules_def Let_def split: if_splits)
  have "map_option (rng_entry \<circ> snd) (rm_lookup (modules_map cms) a) =
      List.find (\<lambda>M. contains M a) (kept [] (map the (modules_by_index that)))"
    unfolding m
    by (rule store_modules_kept) (simp_all add: modules_ok_init, simp_all add: SetEnableShrinkDown_def RangeMap_init_def rm_lookup_def)
  then show ?thesis
    by (simp add: GetModuleForAddress_def RetrieveRange_eq_lookup [OF wf] option.map_comp comp_def
        range_result_def case_prod_beta)
qed

theorem GetModuleForAddress_correct_witness:
  "GetModuleForAddress example_modules 0x10010 =
    List.find (\<lambda>M. contains M 0x10010) (kept [] (map the (modules_by_index example_view)))"
  by (rule GetModuleForAddress_correct [OF example_modules_view]) (simp add: example_view_def Let_def)

end
