(* ===== verification/Heap.thy ===== *)
theory Heap
  imports Memory "HOL-Library.Monad_Syntax"
begin

text \<open>
  The heap of the processor: the flat memory and the blocks that \<open>new char[]\<close> has handed out.
  The allocator is a parameter; what the code relies on is the hypothesis \<open>allocator\<close>: a block
  that is handed out overlaps no live block. Undefined behaviour is None: deleting a pointer
  that is no live block, and reading through null or unterminated data.
\<close>

record heap =
  heap_memory :: memory
  live :: "nat \<Rightarrow> nat option"

type_synonym allocation = "heap \<Rightarrow> nat \<Rightarrow> nat"

definition allocator :: "allocation \<Rightarrow> bool" where
  "allocator alloc \<longleftrightarrow> (\<forall>h n q m. alloc h n \<noteq> 0 \<longrightarrow> live h q = Some m \<longrightarrow>
     q \<noteq> alloc h n \<and> (alloc h n + n \<le> q \<or> q + m \<le> alloc h n))"

text \<open>An allocator that succeeds while finitely many blocks are live.\<close>

definition allocates :: "allocation \<Rightarrow> bool" where
  "allocates alloc \<longleftrightarrow> allocator alloc \<and> (\<forall>h n. finite (dom (live h)) \<longrightarrow> alloc h n \<noteq> 0)"

text \<open>\<open>new char[n]\<close>, 0 where it fails; \<open>delete []\<close>; \<open>memcpy\<close>.\<close>

definition new_chars :: "allocation \<Rightarrow> nat \<Rightarrow> heap \<Rightarrow> nat \<times> heap" where
  "new_chars alloc n h =
     (let p = alloc h n in (p, if p = 0 then h else h\<lparr>live := (live h)(p \<mapsto> n)\<rparr>))"

definition delete_chars :: "nat \<Rightarrow> heap \<Rightarrow> heap option" where
  "delete_chars p h =
     (if p = 0 then Some h
      else case live h p of None \<Rightarrow> None | Some _ \<Rightarrow> Some (h\<lparr>live := (live h)(p := None)\<rparr>))"

definition copy_chars :: "nat \<Rightarrow> bytes \<Rightarrow> heap \<Rightarrow> heap" where
  "copy_chars p bs h = h\<lparr>heap_memory := store_bytes p bs (heap_memory h)\<rparr>"

definition agree :: "memory \<Rightarrow> memory \<Rightarrow> nat \<Rightarrow> nat \<Rightarrow> bool" where
  "agree mem mem' p n \<longleftrightarrow> (\<forall>i. p \<le> i \<longrightarrow> i < p + n \<longrightarrow> mem' i = mem i)"

lemma agree_refl [simp]: "agree mem mem p n"
  by (simp add: agree_def)

lemma agree_trans: "agree a b p n \<Longrightarrow> agree b c p n \<Longrightarrow> agree a c p n"
  by (simp add: agree_def)

lemma agree_store:
  "q + length bs \<le> p \<or> p + n \<le> q \<Longrightarrow> agree mem (store_bytes q bs mem) p n"
  by (auto simp: agree_def store_bytes_def)

lemma holds_agree: "holds mem p bs \<Longrightarrow> agree mem mem' p n \<Longrightarrow> length bs \<le> n \<Longrightarrow> holds mem' p bs"
  by (auto simp: holds_iff agree_def)

lemma allocator_fresh:
  assumes "allocator alloc" and "alloc h n \<noteq> 0" and "live h q = Some m"
  shows "q \<noteq> alloc h n" and "alloc h n + n \<le> q \<or> q + m \<le> alloc h n"
  using assms unfolding allocator_def by blast+

end
