(* ===== verification/Resolver_Base.thy ===== *)
theory Resolver_Base
  imports Heap Code_Modules Basic_Resolver
begin

text \<open>
  \<open>SourceLineResolverBase\<close> of processor/source_line_resolver_base.cc: the registry of loaded
  symbol modules that both resolvers share. The virtual \<open>Module\<close> and the factory are the record
  \<open>module_class\<close>; the maps keyed by \<open>CompareString\<close> see a file name up to its first NUL, as
  \<open>strcmp\<close> does. The contract a kind of module keeps is the locale \<open>module_contract\<close>; in it every
  operation is proved to implement a partial map from file names to modules, with the life
  time of the buffers that the modules read.
\<close>

section \<open>Data\<close>

text \<open>
  What the resolver asks of a module: \<open>CreateModule\<close> followed by \<open>LoadMapFromMemory\<close> on a buffer
  and its size, and the queries, which may read that buffer. \<open>delete_after_load\<close> is
  \<open>ShouldDeleteMemoryBufferAfterLoadModule\<close>.
\<close>

record 'm module_class =
  load_map :: "memory \<Rightarrow> nat \<Rightarrow> nat \<Rightarrow> ('m, 'm) outcome"
  module_corrupt :: "'m \<Rightarrow> bool"
  lookup_address :: "memory \<Rightarrow> 'm \<Rightarrow> stack_frame \<Rightarrow> stack_frame option"
  find_windows :: "memory \<Rightarrow> 'm \<Rightarrow> stack_frame \<Rightarrow> windows_frame_info option option"
  find_cfi :: "memory \<Rightarrow> 'm \<Rightarrow> stack_frame \<Rightarrow> cfi_frame_info option option"
  delete_after_load :: bool

record 'm resolver =
  res_modules :: "(string, 'm) std_map"
  corrupt_modules :: "(string, unit) std_map"
  memory_buffers :: "(string, nat) std_map"

definition Resolver_init :: "'m resolver" where
  "Resolver_init = \<lparr>res_modules = [], corrupt_modules = [], memory_buffers = []\<rparr>"

text \<open>A stack frame as the resolver sees it; \<open>module_base\<close> of \<open>frame_info\<close> is read off the module.\<close>

record module_frame =
  frame_module :: "CodeModule option"
  frame_info :: stack_frame

definition module_key :: "CodeModule \<Rightarrow> string" where
  "module_key m = c_string (code_file m)"

lemma c_string_idem [simp]: "c_string (c_string s) = c_string s"
  by (simp add: c_string_def takeWhile_idem)

lemma module_key_idem: "c_string (module_key m) = module_key m"
  by (simp add: module_key_def)

definition has_key :: "(string, 'v) std_map \<Rightarrow> string \<Rightarrow> bool" where
  "has_key m k \<longleftrightarrow> map_find m k \<noteq> length m"

definition erase_key :: "string \<Rightarrow> (string, 'v) std_map \<Rightarrow> (string, 'v) std_map" where
  "erase_key k m = (if has_key m k then map_erase (map_find m k) m else m)"

section \<open>Loading\<close>

text \<open>None: the module crashed, or the assertion that a failed load leaves a corrupt module failed.\<close>

definition LoadModuleUsingMemoryBuffer ::
  "'m module_class \<Rightarrow> CodeModule option \<Rightarrow> nat \<Rightarrow> nat \<Rightarrow> memory \<Rightarrow> 'm resolver \<Rightarrow>
     (bool \<times> 'm resolver) option" where
  "LoadModuleUsingMemoryBuffer cls module memory_buffer memory_buffer_size mem R =
     (case module of
        None \<Rightarrow> Some (False, R)
      | Some module \<Rightarrow>
          let key = module_key module;
              add = (\<lambda>m. Some (True, R\<lparr>res_modules := map_insert key m (res_modules R),
                corrupt_modules := (if module_corrupt cls m then map_insert key () (corrupt_modules R)
                  else corrupt_modules R)\<rparr>)) in
          if has_key (res_modules R) key then Some (False, R)
          else case load_map cls mem memory_buffer memory_buffer_size of
              Ok m \<Rightarrow> add m
            | Fail m \<Rightarrow> if module_corrupt cls m then add m else None
            | Crash \<Rightarrow> None)"

text \<open>The buffer is kept or deleted in the same way by the two operations below.\<close>

definition keep_or_delete ::
  "'m module_class \<Rightarrow> string \<Rightarrow> nat \<Rightarrow> bool \<times> 'm resolver \<Rightarrow> heap \<Rightarrow> (bool \<times> 'm resolver \<times> heap) option" where
  "keep_or_delete cls key memory_buffer result h =
     (case result of (load_result, R) \<Rightarrow>
        if load_result \<and> \<not> delete_after_load cls
        then Some (load_result, R\<lparr>memory_buffers := map_insert key memory_buffer (memory_buffers R)\<rparr>, h)
        else do { h \<leftarrow> delete_chars memory_buffer h; Some (load_result, R, h) })"

definition LoadModuleUsingMapBuffer ::
  "'m module_class \<Rightarrow> allocation \<Rightarrow> CodeModule option \<Rightarrow> string \<Rightarrow> 'm resolver \<Rightarrow> heap \<Rightarrow>
     (bool \<times> 'm resolver \<times> heap) option" where
  "LoadModuleUsingMapBuffer cls alloc module map_buffer R h =
     (case module of
        None \<Rightarrow> Some (False, R, h)
      | Some m \<Rightarrow>
          if has_key (res_modules R) (module_key m) then Some (False, R, h)
          else
            let memory_buffer_size = length map_buffer + 1 in
            case new_chars alloc memory_buffer_size h of (memory_buffer, h) \<Rightarrow>
              if memory_buffer = 0 then Some (False, R, h)
              else
                let h = copy_chars memory_buffer (map char_byte map_buffer @ [0]) h in
                do { result \<leftarrow> LoadModuleUsingMemoryBuffer cls module memory_buffer memory_buffer_size (heap_memory h) R;
                     keep_or_delete cls (module_key m) memory_buffer result h })"

text \<open>
  The file system: for a path, the size that \<open>stat\<close> reports and what reading the file yields,
  None where it cannot be opened. The result is the buffer and its size.
\<close>

type_synonym file_system = "string \<Rightarrow> (nat \<times> string option) option"

definition ReadSymbolFile ::
  "file_system \<Rightarrow> allocation \<Rightarrow> string \<Rightarrow> heap \<Rightarrow> ((nat \<times> nat) option \<times> heap) option" where
  "ReadSymbolFile fs alloc map_file h =
     (case fs (c_string map_file) of
        None \<Rightarrow> Some (None, h)
      | Some (file_size, contents) \<Rightarrow>
          case new_chars alloc (file_size + 1) h of (symbol_data, h) \<Rightarrow>
            if symbol_data = 0 then Some (None, h)
            else
              case contents of
                None \<Rightarrow> do { h \<leftarrow> delete_chars symbol_data h; Some (None, h) }
              | Some data \<Rightarrow>
                  let items = take file_size data; items_read = to_int32 (int (length items));
                      h = copy_chars symbol_data (map char_byte items) h in
                  if items_read \<noteq> int file_size
                  then do { h \<leftarrow> delete_chars symbol_data h; Some (None, h) }
                  else Some (Some (symbol_data, file_size + 1), copy_chars (symbol_data + file_size) [0] h))"

definition LoadModule ::
  "'m module_class \<Rightarrow> file_system \<Rightarrow> allocation \<Rightarrow> CodeModule option \<Rightarrow> string \<Rightarrow> 'm resolver \<Rightarrow> heap \<Rightarrow>
     (bool \<times> 'm resolver \<times> heap) option" where
  "LoadModule cls fs alloc module map_file R h =
     (case module of
        None \<Rightarrow> Some (False, R, h)
      | Some m \<Rightarrow>
          if has_key (res_modules R) (module_key m) then Some (False, R, h)
          else do {
            read \<leftarrow> ReadSymbolFile fs alloc map_file h;
            case read of
              (None, h) \<Rightarrow> Some (False, R, h)
            | (Some (memory_buffer, memory_buffer_size), h) \<Rightarrow> do {
                result \<leftarrow> LoadModuleUsingMemoryBuffer cls module memory_buffer memory_buffer_size (heap_memory h) R;
                keep_or_delete cls (module_key m) memory_buffer result h } })"

section \<open>Unloading and queries\<close>

definition UnloadModule ::
  "'m module_class \<Rightarrow> CodeModule option \<Rightarrow> 'm resolver \<Rightarrow> heap \<Rightarrow> ('m resolver \<times> heap) option" where
  "UnloadModule cls code_mod R h =
     (case code_mod of
        None \<Rightarrow> Some (R, h)
      | Some m \<Rightarrow>
          let key = module_key m;
              R = (if has_key (res_modules R) key
                   then R\<lparr>corrupt_modules := erase_key key (corrupt_modules R),
                     res_modules := erase_key key (res_modules R)\<rparr> else R) in
          if delete_after_load cls then Some (R, h)
          else if has_key (memory_buffers R) key
          then do { h \<leftarrow> delete_chars (snd (memory_buffers R ! map_find (memory_buffers R) key)) h;
                    Some (R\<lparr>memory_buffers := erase_key key (memory_buffers R)\<rparr>, h) }
          else Some (R, h))"

text \<open>The destructor.\<close>

fun delete_buffers :: "(string, nat) std_map \<Rightarrow> heap \<Rightarrow> heap option" where
  "delete_buffers [] h = Some h"
| "delete_buffers ((k, p) # m) h = do { h \<leftarrow> delete_chars p h; delete_buffers m h }"

definition Resolver_destroy :: "'m resolver \<Rightarrow> heap \<Rightarrow> heap option" where
  "Resolver_destroy R h = delete_buffers (memory_buffers R) h"

definition HasModule :: "CodeModule option \<Rightarrow> 'm resolver \<Rightarrow> bool" where
  "HasModule module R = (case module of None \<Rightarrow> False | Some m \<Rightarrow> has_key (res_modules R) (module_key m))"

definition IsModuleCorrupt :: "CodeModule option \<Rightarrow> 'm resolver \<Rightarrow> bool" where
  "IsModuleCorrupt module R =
     (case module of None \<Rightarrow> False | Some m \<Rightarrow> has_key (corrupt_modules R) (module_key m))"

text \<open>The loaded module of a frame, and the frame as the module's queries see it.\<close>

definition loaded_module :: "'m resolver \<Rightarrow> CodeModule \<Rightarrow> 'm option" where
  "loaded_module R m =
     (let it = map_find (res_modules R) (module_key m) in
      if it \<noteq> length (res_modules R) then Some (snd (res_modules R ! it)) else None)"

definition query_frame :: "CodeModule \<Rightarrow> 'a module_frame_scheme \<Rightarrow> stack_frame" where
  "query_frame m frame = frame_info frame\<lparr>module_base := base_address m\<rparr>"

definition FillSourceLineInfo ::
  "'m module_class \<Rightarrow> memory \<Rightarrow> 'm resolver \<Rightarrow> 'a module_frame_scheme \<Rightarrow> 'a module_frame_scheme option" where
  "FillSourceLineInfo cls mem R frame =
     (case frame_module frame of
        None \<Rightarrow> Some frame
      | Some m \<Rightarrow>
          (case loaded_module R m of
             None \<Rightarrow> Some frame
           | Some md \<Rightarrow> map_option (\<lambda>info. frame\<lparr>frame_info := info\<rparr>)
               (lookup_address cls mem md (query_frame m frame))))"

definition ResolverFindWindowsFrameInfo ::
  "'m module_class \<Rightarrow> memory \<Rightarrow> 'm resolver \<Rightarrow> 'a module_frame_scheme \<Rightarrow> windows_frame_info option option" where
  "ResolverFindWindowsFrameInfo cls mem R frame =
     (case frame_module frame of
        None \<Rightarrow> Some None
      | Some m \<Rightarrow>
          (case loaded_module R m of
             None \<Rightarrow> Some None
           | Some md \<Rightarrow> find_windows cls mem md (query_frame m frame)))"

definition ResolverFindCFIFrameInfo ::
  "'m module_class \<Rightarrow> memory \<Rightarrow> 'm resolver \<Rightarrow> 'a module_frame_scheme \<Rightarrow> cfi_frame_info option option" where
  "ResolverFindCFIFrameInfo cls mem R frame =
     (case frame_module frame of
        None \<Rightarrow> Some None
      | Some m \<Rightarrow>
          (case loaded_module R m of
             None \<Rightarrow> Some None
           | Some md \<Rightarrow> find_cfi cls mem md (query_frame m frame)))"

section \<open>Keys\<close>

lemma has_key_iff: "keys_sorted m \<Longrightarrow> has_key m k \<longleftrightarrow> map_of m k \<noteq> None"
  by (simp add: has_key_def map_find_map_of)

lemma map_find_hit:
  assumes "has_key m k"
  shows "map_find m k < length m" and "fst (m ! map_find m k) = k"
  using assms by (auto simp: has_key_def map_find_def Let_def split: if_splits)

lemma keys_sorted_erase:
  assumes "keys_sorted m"
  shows "keys_sorted (erase_key k m)"
proof (cases "has_key m k")
  case True
  let ?i = "map_find m k"
  have "m = take ?i m @ m ! ?i # drop (Suc ?i) m" using map_find_hit [OF True] by (simp add: id_take_nth_drop)
  then have "keys_sorted (take ?i m @ m ! ?i # drop (Suc ?i) m)" using assms by simp
  then show ?thesis using True by (simp add: erase_key_def map_erase_def keys_sorted_def sorted_wrt_append)
qed (simp add: erase_key_def assms)

lemma map_of_erase:
  assumes "keys_sorted m"
  shows "map_of (erase_key k m) = (map_of m)(k := None)"
proof (cases "has_key m k")
  case True
  let ?i = "map_find m k"
  obtain v where e: "m ! ?i = (k, v)" using map_find_hit [OF True] by (cases "m ! ?i") simp
  have m: "m = take ?i m @ (k, v) # drop (Suc ?i) m" using map_find_hit [OF True] e by (metis id_take_nth_drop)
  have "keys_sorted (take ?i m @ (k, v) # drop (Suc ?i) m)" using assms m by simp
  then have "map_of (take ?i m) k = None" "map_of (drop (Suc ?i) m) k = None"
    by (fastforce simp: keys_sorted_def sorted_wrt_append map_of_eq_None_iff)+
  moreover have "map_of m = map_of (take ?i m @ (k, v) # drop (Suc ?i) m)" using m by simp
  ultimately show ?thesis
    using True by (auto simp: erase_key_def map_erase_def fun_eq_iff map_add_def split: option.split)
next
  case False
  then show ?thesis using assms by (auto simp: erase_key_def has_key_iff fun_eq_iff)
qed

lemma loaded_module_map_of:
  "keys_sorted (res_modules R) \<Longrightarrow> loaded_module R m = map_of (res_modules R) (module_key m)"
  by (simp add: loaded_module_def map_find_map_of Let_def)

lemma nth_map_find: "keys_sorted m \<Longrightarrow> map_of m k = Some v \<Longrightarrow> snd (m ! map_find m k) = v"
  by (simp add: map_find_map_of split: if_splits)

lemma map_of_insert_new:
  "keys_sorted m \<Longrightarrow> map_of m k = None \<Longrightarrow> map_of (map_insert k v m) = (map_of m)(k \<mapsto> v)"
  by (simp add: map_of_map_insert)

section \<open>Runs of a resolver\<close>

text \<open>
  What the resolver promises is said with a map from file names to the loaded modules, each with
  the buffer it was loaded from. \<open>encodes\<close> says which buffers a kind of module can load.
\<close>

type_synonym loaded = "string \<Rightarrow> (nat \<times> nat \<times> sym_module) option"

type_synonym encoding = "memory \<Rightarrow> nat \<Rightarrow> nat \<Rightarrow> sym_module \<Rightarrow> bool"

definition text_encodes :: "encoding \<Rightarrow> string \<Rightarrow> sym_module \<Rightarrow> bool" where
  "text_encodes encodes s M \<longleftrightarrow>
     (\<forall>mem p. p \<noteq> 0 \<longrightarrow> holds mem p (map char_byte s @ [0]) \<longrightarrow> encodes mem p (length s + 1) M)"

text \<open>
  The steps of a resolver and of the program around it. A buffer that the caller passes in stays
  live and unchanged while a module that needs it is loaded; everything else on the heap may be
  allocated, deleted and overwritten at any time.
\<close>

inductive resolver_step ::
  "'m module_class \<Rightarrow> encoding \<Rightarrow> allocation \<Rightarrow> file_system \<Rightarrow>
     'm resolver \<times> heap \<times> loaded \<Rightarrow> 'm resolver \<times> heap \<times> loaded \<Rightarrow> bool"
  for cls encodes alloc fs where
  load_memory: "encodes (heap_memory h) p n M \<Longrightarrow>
     delete_after_load cls \<or> live h p = Some n \<and> p \<notin> snd ` set (memory_buffers R) \<Longrightarrow>
     LoadModuleUsingMemoryBuffer cls (Some m) p n (heap_memory h) R = Some (True, R') \<Longrightarrow>
     resolver_step cls encodes alloc fs (R, h, A) (R', h, A(module_key m \<mapsto> (p, n, M)))"
| load_text: "text_encodes encodes s M \<Longrightarrow>
     LoadModuleUsingMapBuffer cls alloc (Some m) s R h = Some (True, R', h') \<Longrightarrow>
     resolver_step cls encodes alloc fs (R, h, A)
       (R', h', A(module_key m \<mapsto> (alloc h (length s + 1), length s + 1, M)))"
| load_file: "fs (c_string f) = Some (n, Some s) \<Longrightarrow> text_encodes encodes (take n s) M \<Longrightarrow>
     LoadModule cls fs alloc (Some m) f R h = Some (True, R', h') \<Longrightarrow>
     resolver_step cls encodes alloc fs (R, h, A) (R', h', A(module_key m \<mapsto> (alloc h (n + 1), n + 1, M)))"
| unload: "UnloadModule cls (Some m) R h = Some (R', h') \<Longrightarrow>
     resolver_step cls encodes alloc fs (R, h, A) (R', h', A(module_key m := None))"
| environment: "(\<And>k p n M. A k = Some (p, n, M) \<Longrightarrow>
       delete_after_load cls \<or> live h' p = Some n \<and> agree (heap_memory h) (heap_memory h') p n) \<Longrightarrow>
     resolver_step cls encodes alloc fs (R, h, A) (R, h', A)"

inductive resolver_reachable ::
  "'m module_class \<Rightarrow> encoding \<Rightarrow> allocation \<Rightarrow> file_system \<Rightarrow> 'm resolver \<times> heap \<times> loaded \<Rightarrow> bool"
  for cls encodes alloc fs where
  start: "resolver_reachable cls encodes alloc fs (Resolver_init, h, Map.empty)"
| step: "resolver_reachable cls encodes alloc fs s \<Longrightarrow> resolver_step cls encodes alloc fs s t \<Longrightarrow>
     resolver_reachable cls encodes alloc fs t"

text \<open>The invariant, entry by entry.\<close>

definition entry_ok ::
  "'m module_class \<Rightarrow> (memory \<Rightarrow> nat \<Rightarrow> nat \<Rightarrow> 'm \<Rightarrow> sym_module \<Rightarrow> bool) \<Rightarrow> 'm resolver \<Rightarrow> heap \<Rightarrow> string \<Rightarrow>
     (nat \<times> nat \<times> sym_module) option \<Rightarrow> bool" where
  "entry_ok cls denotes R h k a \<longleftrightarrow>
     (case a of
        None \<Rightarrow> map_of (res_modules R) k = None \<and> map_of (corrupt_modules R) k = None \<and>
          map_of (memory_buffers R) k = None
      | Some (p, n, M) \<Rightarrow>
          (\<exists>m. map_of (res_modules R) k = Some m \<and> denotes (heap_memory h) p n m M) \<and>
          (map_of (corrupt_modules R) k \<noteq> None \<longleftrightarrow> is_corrupt M) \<and>
          (\<forall>q. map_of (memory_buffers R) k = Some q \<longrightarrow> q = p \<and> p \<noteq> 0) \<and>
          (delete_after_load cls \<or> live h p = Some n) \<and> c_string k = k)"

definition resolver_inv ::
  "'m module_class \<Rightarrow> (memory \<Rightarrow> nat \<Rightarrow> nat \<Rightarrow> 'm \<Rightarrow> sym_module \<Rightarrow> bool) \<Rightarrow> 'm resolver \<times> heap \<times> loaded \<Rightarrow> bool" where
  "resolver_inv cls denotes s \<longleftrightarrow>
     (case s of (R, h, A) \<Rightarrow>
        keys_sorted (res_modules R) \<and> keys_sorted (corrupt_modules R) \<and> keys_sorted (memory_buffers R) \<and>
        (\<forall>k. entry_ok cls denotes R h k (A k)) \<and>
        (delete_after_load cls \<longrightarrow> memory_buffers R = []) \<and>
        (\<forall>k k' p n M. map_of (memory_buffers R) k = Some p \<longrightarrow> A k' = Some (p, n, M) \<longrightarrow> k = k'))"

lemma resolver_inv_init: "resolver_inv cls denotes (Resolver_init, h, Map.empty)"
  by (simp add: resolver_inv_def Resolver_init_def entry_ok_def)

text \<open>What the queries answer in terms of the loaded modules.\<close>

definition loaded_symbols :: "loaded \<Rightarrow> CodeModule option \<Rightarrow> sym_module option" where
  "loaded_symbols A module =
     (case module of None \<Rightarrow> None | Some m \<Rightarrow> map_option (\<lambda>(p, n, M). M) (A (module_key m)))"

definition filled_frame :: "loaded \<Rightarrow> 'a module_frame_scheme \<Rightarrow> 'a module_frame_scheme" where
  "filled_frame A frame =
     (case frame_module frame of
        None \<Rightarrow> frame
      | Some m \<Rightarrow>
          (case loaded_symbols A (Some m) of
             None \<Rightarrow> frame
           | Some M \<Rightarrow> frame\<lparr>frame_info := LookupAddress M (query_frame m frame)\<rparr>))"

definition frame_query :: "(sym_module \<Rightarrow> stack_frame \<Rightarrow> 'r option) \<Rightarrow> loaded \<Rightarrow> 'a module_frame_scheme \<Rightarrow> 'r option" where
  "frame_query query A frame =
     (case frame_module frame of
        None \<Rightarrow> None
      | Some m \<Rightarrow>
          (case loaded_symbols A (Some m) of None \<Rightarrow> None | Some M \<Rightarrow> query M (query_frame m frame)))"

section \<open>The contract of a kind of module\<close>

locale module_contract =
  fixes cls :: "'m module_class"
    and encodes :: encoding
    and denotes :: "memory \<Rightarrow> nat \<Rightarrow> nat \<Rightarrow> 'm \<Rightarrow> sym_module \<Rightarrow> bool"
  assumes loads: "encodes mem p n M \<Longrightarrow> \<exists>m. load_map cls mem p n = Ok m \<and> denotes mem p n m M"
    and unchanged: "denotes mem p n m M \<Longrightarrow> delete_after_load cls \<or> agree mem mem' p n \<Longrightarrow> denotes mem' p n m M"
    and corrupt: "denotes mem p n m M \<Longrightarrow> module_corrupt cls m = is_corrupt M"
    and answers: "denotes mem p n m M \<Longrightarrow> lookup_address cls mem m f = Some (LookupAddress M f)"
      "denotes mem p n m M \<Longrightarrow> find_windows cls mem m f = Some (FindWindowsFrameInfo M f)"
      "denotes mem p n m M \<Longrightarrow> find_cfi cls mem m f = Some (FindCFIFrameInfo M f)"
begin

lemma entry_heap:
  assumes "entry_ok cls denotes R h k a"
    and "\<And>p n M. a = Some (p, n, M) \<Longrightarrow>
       delete_after_load cls \<or> live h' p = Some n \<and> agree (heap_memory h) (heap_memory h') p n"
  shows "entry_ok cls denotes R h' k a"
proof (cases a)
  case (Some e)
  obtain p n M where e: "e = (p, n, M)" by (cases e)
  note keep = assms(2) [OF Some [unfolded e]]
  obtain m where m: "map_of (res_modules R) k = Some m" "denotes (heap_memory h) p n m M"
    using assms(1) by (auto simp: entry_ok_def Some e)
  have "denotes (heap_memory h') p n m M" using unchanged [OF m(2)] keep by blast
  then show ?thesis using assms(1) m(1) keep by (auto simp: entry_ok_def Some e)
qed (use assms(1) in \<open>simp add: entry_ok_def\<close>)

lemma inv_environment:
  assumes "resolver_inv cls denotes (R, h, A)"
    and "\<And>k p n M. A k = Some (p, n, M) \<Longrightarrow>
       delete_after_load cls \<or> live h' p = Some n \<and> agree (heap_memory h) (heap_memory h') p n"
  shows "resolver_inv cls denotes (R, h', A)"
proof -
  have "entry_ok cls denotes R h' k (A k)" for k
    using assms(1) by (intro entry_heap [OF _ assms(2)]) (simp_all add: resolver_inv_def)
  then show ?thesis using assms(1) by (simp add: resolver_inv_def)
qed

lemma loaded_key:
  assumes "resolver_inv cls denotes (R, h, A)"
  shows "has_key (res_modules R) k \<longleftrightarrow> A k \<noteq> None"
proof -
  have "entry_ok cls denotes R h k (A k)" "keys_sorted (res_modules R)"
    using assms by (simp_all add: resolver_inv_def)
  then show ?thesis by (auto simp: has_key_iff entry_ok_def split: option.splits)
qed

lemma load_buffer:
  assumes "resolver_inv cls denotes (R, h, A)" and "encodes mem p n M"
  obtains m where "denotes mem p n m M" and
    "LoadModuleUsingMemoryBuffer cls (Some cm) p n mem R =
      (if A (module_key cm) \<noteq> None then Some (False, R)
       else Some (True, R\<lparr>res_modules := map_insert (module_key cm) m (res_modules R),
         corrupt_modules := (if is_corrupt M then map_insert (module_key cm) () (corrupt_modules R)
           else corrupt_modules R)\<rparr>))"
proof -
  obtain m where m: "load_map cls mem p n = Ok m" "denotes mem p n m M" using loads [OF assms(2)] by blast
  show ?thesis
    using loaded_key [OF assms(1), of "module_key cm"] m corrupt [OF m(2)] by (intro that [OF m(2)]) (simp add: LoadModuleUsingMemoryBuffer_def Let_def)
qed

text \<open>A loaded module added, on a heap that keeps what the others need; \<open>keep\<close> is whether the
  resolver keeps the buffer.\<close>

lemma inv_add:
  assumes inv: "resolver_inv cls denotes (R, h, A)" and new: "A k = None"
    and den: "denotes (heap_memory h') p n m M"
    and key: "c_string k = k"
    and heap: "\<And>k p n M. A k = Some (p, n, M) \<Longrightarrow>
       delete_after_load cls \<or> live h' p = Some n \<and> agree (heap_memory h) (heap_memory h') p n"
    and live: "delete_after_load cls \<or> live h' p = Some n"
    and keep: "if keep then \<not> delete_after_load cls \<and> p \<noteq> 0 \<and> (\<forall>k n M. A k \<noteq> Some (p, n, M))
       else delete_after_load cls \<or> p \<notin> snd ` set (memory_buffers R)"
    and fresh: "p \<notin> snd ` set (memory_buffers R) \<or> delete_after_load cls"
  shows "resolver_inv cls denotes
    (R\<lparr>res_modules := map_insert k m (res_modules R),
       corrupt_modules := (if is_corrupt M then map_insert k () (corrupt_modules R) else corrupt_modules R),
       memory_buffers := (if keep then map_insert k p (memory_buffers R) else memory_buffers R)\<rparr>,
     h', A(k \<mapsto> (p, n, M)))"
proof -
  have ks: "keys_sorted (res_modules R)" "keys_sorted (corrupt_modules R)" "keys_sorted (memory_buffers R)"
    and ent: "\<And>j. entry_ok cls denotes R h j (A j)" and del: "delete_after_load cls \<longrightarrow> memory_buffers R = []"
    and own: "\<And>i j p n M. map_of (memory_buffers R) i = Some p \<Longrightarrow> A j = Some (p, n, M) \<Longrightarrow> i = j"
    using inv by (auto simp: resolver_inv_def)
  have none: "map_of (res_modules R) k = None" "map_of (corrupt_modules R) k = None" "map_of (memory_buffers R) k = None"
    using ent [of k] new by (simp_all add: entry_ok_def)
  define R' where "R' = R\<lparr>res_modules := map_insert k m (res_modules R),
       corrupt_modules := (if is_corrupt M then map_insert k () (corrupt_modules R) else corrupt_modules R),
       memory_buffers := (if keep then map_insert k p (memory_buffers R) else memory_buffers R)\<rparr>"
  have maps: "map_of (res_modules R') = (map_of (res_modules R))(k \<mapsto> m)"
    "map_of (corrupt_modules R') = (if is_corrupt M then (map_of (corrupt_modules R))(k \<mapsto> ()) else map_of (corrupt_modules R))"
    "map_of (memory_buffers R') = (if keep then (map_of (memory_buffers R))(k \<mapsto> p) else map_of (memory_buffers R))"
    using ks none by (simp_all add: R'_def map_of_insert_new)
  have old: "entry_ok cls denotes R' h' j (A j)" if "j \<noteq> k" for j
  proof -
    have "entry_ok cls denotes R h' j (A j)" by (rule entry_heap [OF ent]) (rule heap)
    then show ?thesis using that by (cases "A j") (auto simp: entry_ok_def maps)
  qed
  have "entry_ok cls denotes R' h' k (Some (p, n, M))"
    using den live none keep key by (auto simp: entry_ok_def maps)
  then have "entry_ok cls denotes R' h' j ((A(k \<mapsto> (p, n, M))) j)" for j
    using old [of j] by simp
  moreover have "i = j" if "map_of (memory_buffers R') i = Some q" "(A(k \<mapsto> (p, n, M))) j = Some (q, l, N)" for i j q l N
  proof (cases "i = k \<or> j = k")
    case True
    have "q \<noteq> p" if "map_of (memory_buffers R) i' = Some q" for i'
      using map_of_SomeD [OF that] fresh del that by force
    then show ?thesis using True that keep none(3) by (auto simp: maps split: if_splits)
  next
    case False
    then show ?thesis using that own [of i q j l N] by (simp add: maps split: if_splits)
  qed
  moreover have "keys_sorted (res_modules R')" "keys_sorted (corrupt_modules R')" "keys_sorted (memory_buffers R')"
    using ks by (simp_all add: R'_def keys_sorted_map_insert)
  moreover have "delete_after_load cls \<longrightarrow> memory_buffers R' = []" using del keep by (auto simp: R'_def)
  ultimately have "resolver_inv cls denotes (R', h', A(k \<mapsto> (p, n, M)))" unfolding resolver_inv_def by blast
  then show ?thesis by (simp add: R'_def)
qed

text \<open>A buffer that the resolver keeps is live, and belongs to one module.\<close>

lemma kept_buffer:
  assumes inv: "resolver_inv cls denotes (R, h, A)" and "(k, p) \<in> set (memory_buffers R)"
  shows "map_of (memory_buffers R) k = Some p" and "\<exists>n M. A k = Some (p, n, M) \<and> live h p = Some n"
proof -
  have ent: "entry_ok cls denotes R h k (A k)" and ks: "keys_sorted (memory_buffers R)"
    and "delete_after_load cls \<longrightarrow> memory_buffers R = []"
    using inv by (simp_all add: resolver_inv_def)
  then have del: "\<not> delete_after_load cls" using assms(2) by auto
  show m: "map_of (memory_buffers R) k = Some p"
    using ks assms(2) by (simp add: keys_sorted_def strict_sorted_iff)
  show "\<exists>n M. A k = Some (p, n, M) \<and> live h p = Some n"
    using ent m del by (cases "A k") (auto simp: entry_ok_def)
qed

text \<open>A module loaded from a buffer that was allocated for it.\<close>

lemma new_buffer:
  assumes inv: "resolver_inv cls denotes (R, h, A)" and al: "allocator alloc" "alloc h n \<noteq> 0"
    and new: "A (module_key cm) = None" and h1: "live h1 = (live h)(alloc h n \<mapsto> n)"
      "\<And>q m. alloc h n + n \<le> q \<or> q + m \<le> alloc h n \<Longrightarrow> agree (heap_memory h) (heap_memory h1) q m"
    and enc: "encodes (heap_memory h1) (alloc h n) n M"
  shows "\<exists>R' h'. do { result \<leftarrow> LoadModuleUsingMemoryBuffer cls (Some cm) (alloc h n) n (heap_memory h1) R;
      keep_or_delete cls (module_key cm) (alloc h n) result h1 } = Some (True, R', h') \<and>
    resolver_inv cls denotes (R', h', A(module_key cm \<mapsto> (alloc h n, n, M)))"
proof -
  let ?p = "alloc h n" and ?k = "module_key cm"
  obtain m where m: "denotes (heap_memory h1) ?p n m M" and
    ld: "LoadModuleUsingMemoryBuffer cls (Some cm) ?p n (heap_memory h1) R =
      Some (True, R\<lparr>res_modules := map_insert ?k m (res_modules R),
        corrupt_modules := (if is_corrupt M then map_insert ?k () (corrupt_modules R) else corrupt_modules R)\<rparr>)"
    using load_buffer [OF inv enc, of cm] new by (simp split: if_splits) metis
  have ent: "entry_ok cls denotes R h k (A k)" for k using inv by (simp add: resolver_inv_def)
  have old: "delete_after_load cls \<or> live h1 q = Some l \<and> q \<noteq> ?p \<and> agree (heap_memory h) (heap_memory h1) q l"
    if "A k = Some (q, l, N)" for k q l N
    using ent [of k] that allocator_fresh [OF al, of q l] h1 by (auto simp: entry_ok_def)
  show ?thesis
  proof (cases "delete_after_load cls")
    case True
    define h' where "h' = h1\<lparr>live := (live h1)(?p := None)\<rparr>"
    have del: "delete_chars ?p h1 = Some h'" using h1(1) al(2) by (simp add: delete_chars_def h'_def)
    have "denotes (heap_memory h') ?p n m M" using m by (simp add: h'_def)
    from inv_add [OF inv new this module_key_idem, where keep = False] True ld del show ?thesis
      by (simp add: keep_or_delete_def)
  next
    case False
    have fresh: "?p \<notin> snd ` set (memory_buffers R)"
      using kept_buffer(2) [OF inv] old False by fastforce
    have "resolver_inv cls denotes
      (R\<lparr>res_modules := map_insert ?k m (res_modules R),
        corrupt_modules := (if is_corrupt M then map_insert ?k () (corrupt_modules R) else corrupt_modules R),
        memory_buffers := (if True then map_insert ?k ?p (memory_buffers R) else memory_buffers R)\<rparr>,
        h1, A(?k \<mapsto> (?p, n, M)))"
    proof (rule inv_add [OF inv new m module_key_idem])
      show "delete_after_load cls \<or> live h1 q = Some l \<and> agree (heap_memory h) (heap_memory h1) q l"
        if "A k = Some (q, l, N)" for k q l N
        using old [OF that] by blast
      show "if True then \<not> delete_after_load cls \<and> ?p \<noteq> 0 \<and> (\<forall>k n M. A k \<noteq> Some (?p, n, M))
          else delete_after_load cls \<or> ?p \<notin> snd ` set (memory_buffers R)"
        using old False al(2) by fastforce
    qed (use fresh h1(1) in simp_all)
    then show ?thesis using ld False by (simp add: keep_or_delete_def)
  qed
qed

lemma memory_buffer_step:
  assumes inv: "resolver_inv cls denotes (R, h, A)" and enc: "encodes (heap_memory h) p n M"
    and own: "delete_after_load cls \<or> live h p = Some n \<and> p \<notin> snd ` set (memory_buffers R)"
    and ld: "LoadModuleUsingMemoryBuffer cls (Some cm) p n (heap_memory h) R = Some (True, R')"
  shows "resolver_inv cls denotes (R', h, A(module_key cm \<mapsto> (p, n, M)))"
proof -
  let ?k = "module_key cm"
  obtain m where m: "denotes (heap_memory h) p n m M" and
    eq: "LoadModuleUsingMemoryBuffer cls (Some cm) p n (heap_memory h) R =
      (if A ?k \<noteq> None then Some (False, R)
       else Some (True, R\<lparr>res_modules := map_insert ?k m (res_modules R),
         corrupt_modules := (if is_corrupt M then map_insert ?k () (corrupt_modules R) else corrupt_modules R)\<rparr>))"
    by (rule load_buffer [OF inv enc])
  have new: "A ?k = None" using ld unfolding eq by (cases "A ?k = None") simp_all
  have R': "R' = R\<lparr>res_modules := map_insert ?k m (res_modules R),
      corrupt_modules := (if is_corrupt M then map_insert ?k () (corrupt_modules R) else corrupt_modules R)\<rparr>"
    using ld unfolding eq by (simp add: new)
  have ent: "entry_ok cls denotes R h k (A k)" for k using inv by (simp add: resolver_inv_def)
  have "delete_after_load cls \<or> live h q = Some l \<and> agree (heap_memory h) (heap_memory h) q l"
    if "A k = Some (q, l, N)" for k q l N
    using ent [of k] that by (auto simp: entry_ok_def)
  note add = inv_add [OF inv new m module_key_idem this, where keep = False]
  show ?thesis unfolding R' using add own by auto
qed

text \<open>The text of a module: nothing crashes, and it is loaded unless the name is taken or memory is short.\<close>

lemma load_text_step:
  assumes inv: "resolver_inv cls denotes (R, h, A)" and al: "allocator alloc" and enc: "text_encodes encodes s M"
  shows "\<exists>b R' h'. LoadModuleUsingMapBuffer cls alloc (Some cm) s R h = Some (b, R', h') \<and>
    (b \<longleftrightarrow> A (module_key cm) = None \<and> alloc h (length s + 1) \<noteq> 0) \<and>
    (if b then resolver_inv cls denotes (R', h', A(module_key cm \<mapsto> (alloc h (length s + 1), length s + 1, M)))
     else R' = R \<and> h' = h)"
proof (cases "A (module_key cm) = None \<and> alloc h (length s + 1) \<noteq> 0")
  case True
  let ?p = "alloc h (length s + 1)" and ?bs = "map char_byte s @ [0]"
  define h1 where "h1 = copy_chars ?p ?bs (h\<lparr>live := (live h)(?p \<mapsto> length s + 1)\<rparr>)"
  have h1: "live h1 = (live h)(?p \<mapsto> length s + 1)" "heap_memory h1 = store_bytes ?p ?bs (heap_memory h)"
    by (simp_all add: h1_def copy_chars_def)
  have "encodes (heap_memory h1) ?p (length s + 1) M"
    using enc True holds_store [of ?p ?bs "heap_memory h"] unfolding text_encodes_def h1(2) by blast
  moreover have "agree (heap_memory h) (heap_memory h1) q m" if "?p + (length s + 1) \<le> q \<or> q + m \<le> ?p" for q m
    using that unfolding h1(2) by (intro agree_store) simp
  ultimately obtain R2 h2 where
    "do { result \<leftarrow> LoadModuleUsingMemoryBuffer cls (Some cm) ?p (length s + 1) (heap_memory h1) R;
      keep_or_delete cls (module_key cm) ?p result h1 } = Some (True, R2, h2)"
    and inv2: "resolver_inv cls denotes (R2, h2, A(module_key cm \<mapsto> (?p, length s + 1, M)))"
    using new_buffer [OF inv al _ _ h1(1)] True by blast
  then have "LoadModuleUsingMapBuffer cls alloc (Some cm) s R h = Some (True, R2, h2)"
    using loaded_key [OF inv, of "module_key cm"] True
    by (simp add: LoadModuleUsingMapBuffer_def new_chars_def Let_def h1_def)
  then show ?thesis using True inv2 by auto
next
  case False
  then have "LoadModuleUsingMapBuffer cls alloc (Some cm) s R h = Some (False, R, h)"
    using loaded_key [OF inv, of "module_key cm"]
    by (cases "A (module_key cm) = None") (simp_all add: LoadModuleUsingMapBuffer_def new_chars_def)
  then show ?thesis using False by auto
qed

lemma load_file_step:
  assumes inv: "resolver_inv cls denotes (R, h, A)" and al: "allocator alloc"
    and fs: "fs (c_string f) = Some (n, Some s)" and enc: "text_encodes encodes (take n s) M"
    and ld: "LoadModule cls fs alloc (Some cm) f R h = Some (True, R', h')"
  shows "resolver_inv cls denotes (R', h', A(module_key cm \<mapsto> (alloc h (n + 1), n + 1, M)))"
proof -
  let ?p = "alloc h (n + 1)" and ?t = "take n s"
  note key = loaded_key [OF inv, of "module_key cm"]
  have new: "A (module_key cm) = None"
    using ld key by (cases "A (module_key cm) = None") (simp_all add: LoadModule_def)
  have p: "?p \<noteq> 0"
    using ld key new fs by (cases "?p = 0") (simp_all add: LoadModule_def ReadSymbolFile_def new_chars_def)
  have len: "to_int32 (int (length ?t)) = int n"
    using ld key new fs p
    by (cases "to_int32 (int (length ?t)) = int n")
      (simp_all add: LoadModule_def ReadSymbolFile_def new_chars_def Let_def bind_eq_Some_conv)
  have "int n < 2 ^ 31" unfolding len [symmetric] to_int32_def by (simp add: pos_mod_bound)
  then have n: "length ?t = n" using len by (simp add: to_int32_def)
  define h1 where "h1 = copy_chars (?p + n) [0] (copy_chars ?p (map char_byte ?t) (h\<lparr>live := (live h)(?p \<mapsto> n + 1)\<rparr>))"
  have h1: "live h1 = (live h)(?p \<mapsto> n + 1)"
    "heap_memory h1 = store_bytes ?p (map char_byte ?t @ [0]) (heap_memory h)"
    using n by (simp_all add: h1_def copy_chars_def store_bytes_append)
  have "encodes (heap_memory h1) ?p (n + 1) M"
    using enc p holds_store [of ?p "map char_byte ?t @ [0]" "heap_memory h"] n
    unfolding text_encodes_def h1(2) by metis
  moreover have "agree (heap_memory h) (heap_memory h1) q m" if "?p + (n + 1) \<le> q \<or> q + m \<le> ?p" for q m
    using that n unfolding h1(2) by (intro agree_store) simp
  ultimately obtain R2 h2 where
    "do { result \<leftarrow> LoadModuleUsingMemoryBuffer cls (Some cm) ?p (n + 1) (heap_memory h1) R;
      keep_or_delete cls (module_key cm) ?p result h1 } = Some (True, R2, h2)"
    and "resolver_inv cls denotes (R2, h2, A(module_key cm \<mapsto> (?p, n + 1, M)))"
    using new_buffer [OF inv al p new h1(1)] by blast
  moreover have "LoadModule cls fs alloc (Some cm) f R h =
      do { result \<leftarrow> LoadModuleUsingMemoryBuffer cls (Some cm) ?p (n + 1) (heap_memory h1) R;
        keep_or_delete cls (module_key cm) ?p result h1 }"
    using key new fs p len
    by (simp add: LoadModule_def ReadSymbolFile_def new_chars_def Let_def h1_def)
  ultimately show ?thesis using ld by simp
qed

lemma unload_step:
  assumes inv: "resolver_inv cls denotes (R, h, A)"
  shows "\<exists>R' h'. UnloadModule cls (Some cm) R h = Some (R', h') \<and>
    resolver_inv cls denotes (R', h', A(module_key cm := None))"
proof -
  let ?k = "module_key cm"
  have ks: "keys_sorted (res_modules R)" "keys_sorted (corrupt_modules R)" "keys_sorted (memory_buffers R)"
    and ent: "\<And>j. entry_ok cls denotes R h j (A j)" and del: "delete_after_load cls \<Longrightarrow> memory_buffers R = []"
    and own: "\<And>i j p n M. map_of (memory_buffers R) i = Some p \<Longrightarrow> A j = Some (p, n, M) \<Longrightarrow> i = j"
    using inv by (auto simp: resolver_inv_def)
  define h' where "h' = (case map_of (memory_buffers R) ?k of None \<Rightarrow> h | Some p \<Rightarrow> h\<lparr>live := (live h)(p := None)\<rparr>)"
  define R' where "R' = R\<lparr>res_modules := erase_key ?k (res_modules R),
    corrupt_modules := (if A ?k = None then corrupt_modules R else erase_key ?k (corrupt_modules R)),
    memory_buffers := erase_key ?k (memory_buffers R)\<rparr>"
  have same: "erase_key k m = m" if "\<not> has_key m k" for k and m :: "(string, 'v) std_map"
    using that by (simp add: erase_key_def)
  have maps: "map_of (res_modules R') = (map_of (res_modules R))(?k := None)"
    "map_of (corrupt_modules R') = (map_of (corrupt_modules R))(?k := None)"
    "map_of (memory_buffers R') = (map_of (memory_buffers R))(?k := None)"
    using ks ent [of ?k] by (auto simp: R'_def map_of_erase entry_ok_def fun_eq_iff)
  have live: "live h p \<noteq> None" if "map_of (memory_buffers R) ?k = Some p" for p
    using ent [of ?k] that del by (auto simp: entry_ok_def split: option.splits)
  have delete: "delete_chars p h = Some h'" if "map_of (memory_buffers R) ?k = Some p" for p
  proof -
    have "p \<noteq> 0" using ent [of ?k] that by (cases "A ?k") (auto simp: entry_ok_def)
    then show ?thesis using live [OF that] that by (auto simp: delete_chars_def h'_def)
  qed
  have "entry_ok cls denotes R' h' j ((A(?k := None)) j)" for j
  proof (cases "j = ?k")
    case False
    have "p \<noteq> q" if "map_of (memory_buffers R) ?k = Some q" "A j = Some (p, n, M)" for p q n M
      using own [OF that(1), of j] that(2) False by blast
    then have "entry_ok cls denotes R h' j (A j)"
      by (intro entry_heap [OF ent]) (use ent [of j] in \<open>auto simp: entry_ok_def h'_def split: option.splits\<close>)
    then show ?thesis using False by (cases "A j") (auto simp: entry_ok_def maps)
  qed (simp add: entry_ok_def maps)
  moreover have "keys_sorted (res_modules R')" "keys_sorted (corrupt_modules R')" "keys_sorted (memory_buffers R')"
    using ks by (simp_all add: R'_def keys_sorted_erase)
  moreover have "i = j" if "map_of (memory_buffers R') i = Some p" "(A(?k := None)) j = Some (p, n, M)" for i j p n M
    using that own [of i p j n M] by (simp add: maps split: if_splits)
  moreover have "delete_after_load cls \<longrightarrow> memory_buffers R' = []"
    using del by (auto simp: R'_def erase_key_def has_key_def map_find_def)
  ultimately have inv': "resolver_inv cls denotes (R', h', A(?k := None))"
    unfolding resolver_inv_def by blast
  show ?thesis
  proof (cases "delete_after_load cls")
    case True
    then have "h' = h" "erase_key ?k (memory_buffers R) = memory_buffers R"
      using del by (simp_all add: h'_def erase_key_def has_key_def map_find_def)
    then have "UnloadModule cls (Some cm) R h = Some (R', h')"
      using True loaded_key [OF inv, of ?k]
      by (cases "A ?k") (auto simp: UnloadModule_def R'_def Let_def same)
    then show ?thesis using inv' by blast
  next
    case False
    have "UnloadModule cls (Some cm) R h = Some (R', h')"
    proof (cases "map_of (memory_buffers R) ?k")
      case None
      then show ?thesis
        using False loaded_key [OF inv, of ?k] ks
        by (cases "A ?k") (auto simp: UnloadModule_def R'_def h'_def Let_def same has_key_iff)
    next
      case (Some p)
      then have "A ?k \<noteq> None" using ent [of ?k] by (cases "A ?k") (auto simp: entry_ok_def)
      with delete [OF Some] show ?thesis
        using False loaded_key [OF inv, of ?k] ks Some nth_map_find [OF ks(3) Some]
        by (auto simp: UnloadModule_def R'_def Let_def has_key_iff)
    qed
    then show ?thesis using inv' by blast
  qed
qed

lemma destroy_ok:
  assumes inv: "resolver_inv cls denotes (R, h, A)"
  shows "Resolver_destroy R h \<noteq> None"
proof -
  have total: "delete_buffers m h \<noteq> None"
    if "\<forall>(k, p) \<in> set m. p = 0 \<or> live h p \<noteq> None" "distinct (map snd m)" for m :: "(string, nat) std_map" and h
    using that
  proof (induction m arbitrary: h)
    case (Cons e m)
    obtain k p where e: "e = (k, p)" by fastforce
    obtain h1 where h1: "delete_chars p h = Some h1" "live h1 = (if p = 0 then live h else (live h)(p := None))"
      using Cons.prems(1) by (cases "p = 0") (auto simp: delete_chars_def e)
    have "\<forall>(k', q) \<in> set m. q = 0 \<or> live h1 q \<noteq> None"
    proof (intro ballI, unfold case_prod_beta)
      fix kq
      assume kq: "kq \<in> set m"
      have "snd kq \<noteq> p" using kq Cons.prems(2) by (force simp: e)
      then show "snd kq = 0 \<or> live h1 (snd kq) \<noteq> None"
        using kq Cons.prems(1) by (cases kq) (auto simp: h1(2) e)
    qed
    then show ?case using Cons.IH [of h1] Cons.prems(2) by (simp add: e h1(1))
  qed simp
  show ?thesis
  proof (cases "delete_after_load cls")
    case True
    then show ?thesis using inv by (simp add: resolver_inv_def Resolver_destroy_def)
  next
    case False
    have ks: "keys_sorted (memory_buffers R)" using inv by (simp add: resolver_inv_def)
    then have dk: "distinct (map fst (memory_buffers R))" by (simp add: keys_sorted_def strict_sorted_iff)
    note lk = kept_buffer [OF inv]
    have "k = k'" if "(k, p) \<in> set (memory_buffers R)" "(k', p) \<in> set (memory_buffers R)" for k k' p
      using inv lk(2) [OF that(2)] lk(1) [OF that(1)] unfolding resolver_inv_def prod.case by blast
    then have "inj_on snd (set (memory_buffers R))" by (fastforce simp: inj_on_def)
    then have "distinct (map snd (memory_buffers R))"
      using dk by (simp add: distinct_map)
    then show ?thesis unfolding Resolver_destroy_def using lk(2) by (intro total) fastforce+
  qed
qed

lemma step_inv:
  "resolver_step cls encodes alloc fs s t \<Longrightarrow> allocator alloc \<Longrightarrow> resolver_inv cls denotes s \<Longrightarrow> resolver_inv cls denotes t"
proof (induction rule: resolver_step.induct)
  case (load_memory h p n M R m R' A)
  then show ?case by (intro memory_buffer_step)
next
  case (load_text s M m R h R' h' A)
  then show ?case using load_text_step [OF load_text.prems(2,1) load_text.hyps(1), of m]
    by (simp split: if_splits)
next
  case (load_file f n s M m R h R' h' A)
  then show ?case by (intro load_file_step)
next
  case (unload m R h R' h' A)
  then show ?case using unload_step [OF unload.prems(2), of m] by simp
next
  case (environment A h' h R)
  show ?case by (rule inv_environment [OF environment.prems(2)]) (rule environment.hyps)
qed

lemma reachable_inv:
  "resolver_reachable cls encodes alloc fs s \<Longrightarrow> allocator alloc \<Longrightarrow> resolver_inv cls denotes s"
  by (induction rule: resolver_reachable.induct) (auto intro: resolver_inv_init step_inv)

lemma loaded_entry:
  assumes "resolver_inv cls denotes (R, h, A)"
  shows "case loaded_symbols A (Some cm) of
      None \<Rightarrow> loaded_module R cm = None
    | Some M \<Rightarrow> \<exists>m p n. loaded_module R cm = Some m \<and> denotes (heap_memory h) p n m M"
proof -
  have "entry_ok cls denotes R h (module_key cm) (A (module_key cm))" "keys_sorted (res_modules R)"
    using assms by (simp_all add: resolver_inv_def)
  then show ?thesis
    by (cases "A (module_key cm)") (auto simp: loaded_symbols_def loaded_module_map_of entry_ok_def)
qed

lemma queries_ok:
  assumes inv: "resolver_inv cls denotes (R, h, A)"
  shows "HasModule module R \<longleftrightarrow> loaded_symbols A module \<noteq> None"
    and "IsModuleCorrupt module R \<longleftrightarrow> (\<exists>M. loaded_symbols A module = Some M \<and> is_corrupt M)"
    and "FillSourceLineInfo cls (heap_memory h) R frame = Some (filled_frame A frame)"
    and "ResolverFindWindowsFrameInfo cls (heap_memory h) R frame = Some (frame_query FindWindowsFrameInfo A frame)"
    and "ResolverFindCFIFrameInfo cls (heap_memory h) R frame = Some (frame_query FindCFIFrameInfo A frame)"
proof -
  show "HasModule module R \<longleftrightarrow> loaded_symbols A module \<noteq> None"
    using loaded_key [OF inv] by (cases module) (simp_all add: HasModule_def loaded_symbols_def)
  have ent: "entry_ok cls denotes R h k (A k)" and ks: "keys_sorted (corrupt_modules R)" for k
    using inv by (simp_all add: resolver_inv_def)
  show "IsModuleCorrupt module R \<longleftrightarrow> (\<exists>M. loaded_symbols A module = Some M \<and> is_corrupt M)"
  proof (cases module)
    case (Some m)
    show ?thesis using ent [of "module_key m"] ks
      by (cases "A (module_key m)") (auto simp: Some IsModuleCorrupt_def loaded_symbols_def has_key_iff entry_ok_def)
  qed (simp add: IsModuleCorrupt_def loaded_symbols_def)
  note entry = loaded_entry [OF inv]
  show "FillSourceLineInfo cls (heap_memory h) R frame = Some (filled_frame A frame)"
    using entry [of "the (frame_module frame)"]
    by (auto simp: FillSourceLineInfo_def filled_frame_def answers split: option.splits)
  show "ResolverFindWindowsFrameInfo cls (heap_memory h) R frame = Some (frame_query FindWindowsFrameInfo A frame)"
    using entry [of "the (frame_module frame)"]
    by (auto simp: ResolverFindWindowsFrameInfo_def frame_query_def answers split: option.splits)
  show "ResolverFindCFIFrameInfo cls (heap_memory h) R frame = Some (frame_query FindCFIFrameInfo A frame)"
    using entry [of "the (frame_module frame)"]
    by (auto simp: ResolverFindCFIFrameInfo_def frame_query_def answers split: option.splits)
qed

end

end
