(* ===== verification/Resolver_Classes.thy ===== *)
theory Resolver_Classes
  imports Resolver_Base Loaded_Module
begin

text \<open>
  The two kinds of modules: \<open>BasicSourceLineResolver\<close>, whose modules keep nothing of the buffer,
  and \<open>FastSourceLineResolver\<close>, whose modules point into it (processor/module_factory.h and the
  two resolvers). Each keeps the contract of \<open>Resolver_Base\<close>, so every fact about a run of a
  resolver holds for both; \<open>ModuleSerializer\<close>'s conversion of a basic resolver into a fast one
  follows.
\<close>

section \<open>The basic resolver\<close>

definition basic_class :: "sym_module module_class" where
  "basic_class =
     \<lparr>load_map = (\<lambda>mem p n. LoadMapFromMemory (map byte_char (peek mem p n)) Module_init),
      module_corrupt = is_corrupt,
      lookup_address = (\<lambda>mem M frame. Some (LookupAddress M frame)),
      find_windows = (\<lambda>mem M frame. Some (FindWindowsFrameInfo M frame)),
      find_cfi = (\<lambda>mem M frame. Some (FindCFIFrameInfo M frame)),
      delete_after_load = True\<rparr>"

definition basic_encodes :: encoding where
  "basic_encodes mem p n M \<longleftrightarrow> LoadMapFromMemory (map byte_char (peek mem p n)) Module_init = Ok M"

definition basic_denotes :: "memory \<Rightarrow> nat \<Rightarrow> nat \<Rightarrow> sym_module \<Rightarrow> sym_module \<Rightarrow> bool" where
  "basic_denotes mem p n m M \<longleftrightarrow> m = M \<and> module_wf M \<and> module_ok M"

interpretation basic: module_contract basic_class basic_encodes basic_denotes
  by unfold_locales
    (auto simp: basic_class_def basic_encodes_def basic_denotes_def intro: loaded_module_wf LoadMapFromMemory_ok)

lemma byte_char_byte [simp]: "byte_char (char_byte c) = c"
  by (simp add: byte_char_def char_byte_def unsigned_of_nat take_bit_eq_mod)

lemma byte_char_0: "byte_char 0 = CHR 0x00"
  unfolding byte_char_def by code_simp

lemma basic_text_encodes:
  assumes "LoadMapFromMemory (s @ [CHR 0x00]) Module_init = Ok M"
  shows "text_encodes basic_encodes s M"
proof -
  have "map byte_char (peek mem p (length s + 1)) = s @ [CHR 0x00]" if "holds mem p (map char_byte s @ [0])" for mem p
  proof -
    have "peek mem p (length s + 1) = map char_byte s @ [0]" using that by (simp add: holds_def)
    then show ?thesis by (simp add: comp_def byte_char_0)
  qed
  then show ?thesis using assms by (simp add: text_encodes_def basic_encodes_def)
qed

section \<open>The fast resolver\<close>

definition FastModule_init :: fast_module where
  "FastModule_init =
     \<lparr>fm_files = StaticMap_init, fm_functions = StaticMap_init, fm_public_symbols = StaticMap_init,
      fm_is_corrupt = False,
      fm_windows_frame_info = replicate (nat STACK_INFO_LAST)
        \<lparr>scrm_base = 0, scrm_entry_size = 0, scrm_entry_ptr = 0, scrm_map = StaticMap_init\<rparr>,
      fm_cfi_initial_rules = StaticMap_init, fm_cfi_delta_rules = StaticMap_init\<rparr>"

definition fast_class :: "fast_module module_class" where
  "fast_class =
     \<lparr>load_map = (\<lambda>mem p n. case fast_LoadMapFromMemory mem p FastModule_init of
        (ok, F) \<Rightarrow> if ok then Ok F else Fail F),
      module_corrupt = fm_is_corrupt, lookup_address = fast_LookupAddress,
      find_windows = fast_FindWindowsFrameInfo, find_cfi = fast_FindCFIFrameInfo,
      delete_after_load = False\<rparr>"

definition fast_encodes :: encoding where
  "fast_encodes mem p n M \<longleftrightarrow> p \<noteq> 0 \<and> module_wf M \<and> module_ok M \<and> holds mem p (module_image M) \<and>
     length (module_image M) \<le> n \<and> length (module_image M) < 2 ^ 32"

definition fast_denotes :: "memory \<Rightarrow> nat \<Rightarrow> nat \<Rightarrow> fast_module \<Rightarrow> sym_module \<Rightarrow> bool" where
  "fast_denotes mem p n F M \<longleftrightarrow> fast_encodes mem p n M \<and> fast_LoadMapFromMemory mem p FastModule_init = (True, F)"

text \<open>What a fast module keeps of its buffer is determined by the image it was loaded from.\<close>

lemma StaticMap_determined:
  assumes "holds mem q (map_image kvs)"
  shows "StaticMap mem q =
     (let n = sint (word_of_nat (length kvs) :: uint32) in
      \<lparr>raw_data = q, num_nodes = n, offsets = q + 4, keys_at = nat (int q + (1 + n) * 4)\<rparr>)"
proof -
  have "holds mem q (word_bytes (word_of_nat (length kvs) :: uint32))"
    using assms by (simp add: map_image_def holds_append offset_bytes_def)
  then have "(load_word mem q :: uint32) = word_of_nat (length kvs)" by (rule load_holds [rotated]) simp
  then show ?thesis by (simp add: StaticMap_def)
qed

lemma StaticContainedRangeMap_determined:
  fixes n :: "('a::len word, 'e) crm"
  assumes "holds mem q (crm_image img n)" and "length (crm_image img n) < 2 ^ 32" and "8 dvd LENGTH('a)"
    and "holds mem' q (crm_image img n)"
  shows "(StaticContainedRangeMap mem' q :: 'a word static_contained_range_map) = StaticContainedRangeMap mem q"
proof -
  let ?K = "LENGTH('a) div 8" and ?e = "img (crm_entry n)"
  have parts: "holds m q (word_bytes (crm_base n))" "holds m (q + ?K) (offset_bytes (length ?e))"
    "holds m (q + ?K + 4 + length ?e) (map_image (map (\<lambda>(k, c). (word_bytes k, crm_image img c)) (kids n)))"
    if "holds m q (crm_image img n)" for m
    using that by (subst (asm) crm_image.simps, simp add: holds_append add.assoc)+
  have "length ?e < 2 ^ 32" using assms(2) by (subst (asm) crm_image.simps) simp
  then have es: "unat (load_word m (q + ?K) :: uint32) = length ?e" if "holds m q (crm_image img n)" for m
    using load_offset [OF parts(2) [OF that]] by simp
  have eq: "(load_word mem' (q + ?K) :: uint32) = load_word mem (q + ?K)"
    using es [OF assms(1)] es [OF assms(4)] by (metis unsigned_word_eqI)
  show ?thesis
    using parts [OF assms(1)] parts [OF assms(4)] es [OF assms(1)] eq assms(3)
    by (simp add: StaticContainedRangeMap_def StaticMap_determined load_holds Let_def)
qed

lemma fast_load_determined:
  assumes wf: "module_wf M" and small: "length (module_image M) < 2 ^ 32"
    and "holds mem p (module_image M)" and "holds mem' p (module_image M)" and "p \<noteq> 0"
  shows "fast_LoadMapFromMemory mem' p F = fast_LoadMapFromMemory mem p F"
proof -
  let ?ps = "module_parts M"
  have n: "length ?ps = 10" by (rule length_module_parts [OF wf])
  have table: "holds m (p + 1) (concat (map (offset_bytes \<circ> length) ?ps))" if "holds m p (module_image M)" for m
    using that by (auto simp: module_image_def holds_append)
  have offs: "map_offsets mem' (p + 1) i = map_offsets mem (p + 1) i" if "i < 10" for i
    using map_offsets_sum [OF table [OF assms(3)], of i] map_offsets_sum [OF table [OF assms(4)], of i] that n by simp
  note part = image_parts [OF assms(3) wf small] image_parts [OF assms(4) wf small]
  define at where "at i = p + 1 + unat (map_offsets mem (p + 1) i)" for i
  have parts: "holds mem (at i) (?ps ! i)" "holds mem' (at i) (?ps ! i)" if "i < 10" for i
    using part [OF that] offs [OF that] by (simp_all add: at_def)
  have flat: "StaticMap mem' (at i) = StaticMap mem (at i)" if "i < 10" "?ps ! i = map_image kvs" for i kvs
    using parts [OF that(1)] unfolding that(2) by (simp add: StaticMap_determined)
  have k: "length (wfi_maps M) = 5" using wf by (simp add: module_wf_def STACK_INFO_LAST_def)
  have maps: "\<exists>kvs. ?ps ! i = map_image kvs" if "i \<in> {0, 1, 2, 8, 9}" for i
    using that k by (auto simp: module_parts_def nodes_image_def range_map_image_def nth_append)
  have flats: "StaticMap mem' (at i) = StaticMap mem (at i)" if i: "i \<in> {0, 1, 2, 8, 9}" for i
  proof -
    obtain kvs where "?ps ! i = map_image kvs" using maps [OF i] by blast
    then show ?thesis using i by (intro flat) auto
  qed
  have trees: "(StaticContainedRangeMap mem' (at (3 + i)) :: mem_addr static_contained_range_map) =
      StaticContainedRangeMap mem (at (3 + i))" if "i < 5" for i
  proof -
    have "?ps ! (3 + i) = crm_image (linked_image wfi_image) (linked_crm (wfi_maps M ! i))"
      using that k by (simp add: module_parts_def nth_append wfi_tree_image_def)
    then show ?thesis
      using parts [of "3 + i"] part(2) [of "3 + i"] that by (intro StaticContainedRangeMap_determined) simp_all
  qed
  have "mem' p = mem p"
    using assms(3,4) by (simp add: module_image_def bool_bytes_def holds_Cons)
  then show ?thesis
    using flats trees offs assms(5)
    by (simp add: fast_LoadMapFromMemory_def Read_bool_def Let_def at_def STACK_INFO_LAST_def
        del: map_offsets.simps One_nat_def)
qed

interpretation fast: module_contract fast_class fast_encodes fast_denotes
proof unfold_locales
  fix mem mem' p n M F f
  show "\<exists>m. load_map fast_class mem p n = Ok m \<and> fast_denotes mem p n m M" if enc: "fast_encodes mem p n M"
  proof -
    obtain F where "fast_LoadMapFromMemory mem p FastModule_init = (True, F)"
      using enc fast_LoadMapFromMemory_of [of mem p M FastModule_init] by (auto simp: fast_encodes_def)
    then show ?thesis using enc by (simp add: fast_class_def fast_denotes_def)
  qed
  show "fast_denotes mem' p n F M"
    if den: "fast_denotes mem p n F M" and ag: "delete_after_load fast_class \<or> agree mem mem' p n"
  proof -
    have enc: "fast_encodes mem p n M" using den by (simp add: fast_denotes_def)
    then have "holds mem' p (module_image M)"
      using ag holds_agree [of mem p "module_image M" mem' n] by (simp add: fast_class_def fast_encodes_def)
    then show ?thesis
      using den enc fast_load_determined [of M mem p mem' FastModule_init]
      by (simp add: fast_denotes_def fast_encodes_def)
  qed
  assume den: "fast_denotes mem p n F M"
  then have "module_wf M" "module_ok M" "length (module_image M) < 2 ^ 32" "holds mem p (module_image M)" "p \<noteq> 0"
    and F: "fast_LoadMapFromMemory mem p FastModule_init = (True, F)"
    by (simp_all add: fast_denotes_def fast_encodes_def)
  note q = fast_queries [OF this(1-5), where prev = FastModule_init and frame = f, unfolded F prod.case]
  show "module_corrupt fast_class F = is_corrupt M" "lookup_address fast_class mem F f = Some (LookupAddress M f)"
    "find_windows fast_class mem F f = Some (FindWindowsFrameInfo M f)"
    "find_cfi fast_class mem F f = Some (FindCFIFrameInfo M f)"
    using q by (simp_all add: fast_class_def)
qed

section \<open>Properties of both resolvers\<close>

text \<open>An allocator for the examples: it places every block above all live ones.\<close>

definition example_alloc :: allocation where
  "example_alloc h n =
     (if finite (dom (live h)) then Suc (\<Sum>q \<in> dom (live h). q + the (live h q)) else 0)"

lemma example_alloc_above:
  assumes "finite (dom (live h))" and "live h q = Some m"
  shows "q + m < example_alloc h n"
proof -
  have "q + the (live h q) \<le> (\<Sum>q \<in> dom (live h). q + the (live h q))"
    using assms by (intro member_le_sum) auto
  then show ?thesis using assms by (simp add: example_alloc_def)
qed

lemma example_allocator: "allocator example_alloc"
  unfolding allocator_def
proof (intro allI impI)
  fix h n q m
  assume nz: "example_alloc h n \<noteq> 0" and l: "live h q = Some m"
  have "finite (dom (live h))" using nz by (simp add: example_alloc_def split: if_splits)
  then have "q + m < example_alloc h n" using l by (rule example_alloc_above)
  then show "q \<noteq> example_alloc h n \<and> (example_alloc h n + n \<le> q \<or> q + m \<le> example_alloc h n)" by simp
qed

lemma example_allocates: "allocates example_alloc"
  using example_allocator by (simp add: allocates_def example_alloc_def)

definition example_code_module :: CodeModule where
  "example_code_module = BasicCodeModule 0x400000 0x10000 ''/lib/a.so'' [] ''a.so'' ''ID1'' [] False"

definition example_heap :: heap where
  "example_heap = \<lparr>heap_memory = example_block, live = [4096 \<mapsto> length (module_image example_module)]\<rparr>"

definition example_fast_resolver :: "fast_module resolver" where
  "example_fast_resolver = snd (the (LoadModuleUsingMemoryBuffer fast_class (Some example_code_module) 4096
     (length (module_image example_module)) example_block Resolver_init))"

definition example_loaded :: loaded where
  "example_loaded = [module_key example_code_module \<mapsto> (4096, length (module_image example_module), example_module)]"

lemma example_encodes: "fast_encodes example_block 4096 (length (module_image example_module)) example_module"
  unfolding fast_encodes_def using example_module_wf example_module_ok example_image_small
  by (simp add: example_block_def holds_store)

lemma example_fast_reachable:
  "resolver_reachable fast_class fast_encodes alloc fs (example_fast_resolver, example_heap, example_loaded)"
proof -
  let ?n = "length (module_image example_module)"
  have inv: "resolver_inv fast_class fast_denotes (Resolver_init, example_heap, Map.empty)"
    by (rule resolver_inv_init)
  have "LoadModuleUsingMemoryBuffer fast_class (Some example_code_module) 4096 ?n example_block Resolver_init =
      Some (True, example_fast_resolver)"
    by (rule fast.load_buffer [OF inv example_encodes, of example_code_module])
      (simp add: example_fast_resolver_def)
  then have "resolver_step fast_class fast_encodes alloc fs (Resolver_init, example_heap, Map.empty)
      (example_fast_resolver, example_heap, example_loaded)"
    unfolding example_loaded_def using example_encodes
    by (intro resolver_step.load_memory) (simp_all add: example_heap_def, simp add: Resolver_init_def)
  then show ?thesis by (rule resolver_reachable.step [OF resolver_reachable.start])
qed

text \<open>C5: In every state a fast resolver reaches, whatever the program around it does with the rest of
  the heap, the buffers it keeps are live, so no query reads a deleted buffer or a null pointer,
  unloading any module and destroying the resolver delete live blocks only, each once.\<close>

theorem fast_resolver_safe:
  assumes "resolver_reachable fast_class fast_encodes alloc fs (R, h, A)" and "allocator alloc"
  shows "UnloadModule fast_class module R h \<noteq> None \<and> Resolver_destroy R h \<noteq> None \<and>
    FillSourceLineInfo fast_class (heap_memory h) R frame \<noteq> None \<and>
    ResolverFindWindowsFrameInfo fast_class (heap_memory h) R frame \<noteq> None \<and>
    ResolverFindCFIFrameInfo fast_class (heap_memory h) R frame \<noteq> None"
proof -
  note inv = fast.reachable_inv [OF assms]
  have "UnloadModule fast_class module R h \<noteq> None"
  proof (cases module)
    case (Some m)
    show ?thesis using fast.unload_step [OF inv, of m] unfolding Some by auto
  qed (simp add: UnloadModule_def)
  then show ?thesis
    using fast.destroy_ok [OF inv] by (simp add: fast.queries_ok [OF inv])
qed

theorem fast_resolver_safe_witness:
  "UnloadModule fast_class (Some example_code_module) example_fast_resolver example_heap \<noteq> None \<and>
    Resolver_destroy example_fast_resolver example_heap \<noteq> None \<and>
    FillSourceLineInfo fast_class (heap_memory example_heap) example_fast_resolver
      \<lparr>frame_module = Some example_code_module, frame_info = example_frame 0x401004\<rparr> \<noteq> None \<and>
    ResolverFindWindowsFrameInfo fast_class (heap_memory example_heap) example_fast_resolver
      \<lparr>frame_module = Some example_code_module, frame_info = example_frame 0x401004\<rparr> \<noteq> None \<and>
    ResolverFindCFIFrameInfo fast_class (heap_memory example_heap) example_fast_resolver
      \<lparr>frame_module = Some example_code_module, frame_info = example_frame 0x401004\<rparr> \<noteq> None"
  by (rule fast_resolver_safe [OF example_fast_reachable [where fs = "\<lambda>f. None"] example_allocator])

text \<open>C36: A fast resolver implements a map from file names to symbol modules: which modules it has,
  which are corrupt and what it answers for a frame is given by that map, and loading the text of
  a module never crashes and succeeds unless the name is taken or there is no memory.\<close>

theorem fast_resolver_refines:
  assumes "resolver_reachable fast_class fast_encodes alloc fs (R, h, A)" and "allocator alloc"
    and "text_encodes fast_encodes s M"
  shows "(HasModule module R \<longleftrightarrow> loaded_symbols A module \<noteq> None) \<and>
    (IsModuleCorrupt module R \<longleftrightarrow> (\<exists>N. loaded_symbols A module = Some N \<and> is_corrupt N)) \<and>
    FillSourceLineInfo fast_class (heap_memory h) R frame = Some (filled_frame A frame) \<and>
    ResolverFindWindowsFrameInfo fast_class (heap_memory h) R frame = Some (frame_query FindWindowsFrameInfo A frame) \<and>
    ResolverFindCFIFrameInfo fast_class (heap_memory h) R frame = Some (frame_query FindCFIFrameInfo A frame) \<and>
    (\<exists>b R' h'. LoadModuleUsingMapBuffer fast_class alloc (Some cm) s R h = Some (b, R', h') \<and>
      (b \<longleftrightarrow> A (module_key cm) = None \<and> alloc h (length s + 1) \<noteq> 0))"
proof -
  note inv = fast.reachable_inv [OF assms(1,2)]
  show ?thesis
    using fast.load_text_step [OF inv assms(2,3), of cm] by (simp add: fast.queries_ok [OF inv]) blast
qed

lemma char_byte_char [simp]: "char_byte (byte_char b) = b"
  by (simp add: byte_char_def char_byte_def unsigned_less [of b, where 'a=nat, simplified])

lemma fast_text_encodes:
  assumes "module_wf M" and "module_ok M" and "length (module_image M) < 2 ^ 32"
  shows "text_encodes fast_encodes (map byte_char (module_image M)) M"
  using assms by (simp add: text_encodes_def fast_encodes_def holds_append comp_def)

theorem fast_resolver_refines_witness:
  "(HasModule (Some example_code_module) example_fast_resolver \<longleftrightarrow>
      loaded_symbols example_loaded (Some example_code_module) \<noteq> None) \<and>
    (IsModuleCorrupt (Some example_code_module) example_fast_resolver \<longleftrightarrow>
      (\<exists>N. loaded_symbols example_loaded (Some example_code_module) = Some N \<and> is_corrupt N)) \<and>
    FillSourceLineInfo fast_class (heap_memory example_heap) example_fast_resolver
      \<lparr>frame_module = Some example_code_module, frame_info = example_frame 0x401004\<rparr> =
      Some (filled_frame example_loaded \<lparr>frame_module = Some example_code_module, frame_info = example_frame 0x401004\<rparr>) \<and>
    ResolverFindWindowsFrameInfo fast_class (heap_memory example_heap) example_fast_resolver
      \<lparr>frame_module = Some example_code_module, frame_info = example_frame 0x401004\<rparr> =
      Some (frame_query FindWindowsFrameInfo example_loaded
        \<lparr>frame_module = Some example_code_module, frame_info = example_frame 0x401004\<rparr>) \<and>
    ResolverFindCFIFrameInfo fast_class (heap_memory example_heap) example_fast_resolver
      \<lparr>frame_module = Some example_code_module, frame_info = example_frame 0x401004\<rparr> =
      Some (frame_query FindCFIFrameInfo example_loaded
        \<lparr>frame_module = Some example_code_module, frame_info = example_frame 0x401004\<rparr>) \<and>
    (\<exists>b R' h'. LoadModuleUsingMapBuffer fast_class example_alloc (Some example_code_module)
        (map byte_char (module_image example_module)) example_fast_resolver example_heap = Some (b, R', h') \<and>
      (b \<longleftrightarrow> example_loaded (module_key example_code_module) = None \<and>
        example_alloc example_heap (length (map byte_char (module_image example_module)) + 1) \<noteq> 0))"
  by (rule fast_resolver_refines [OF example_fast_reachable [where fs = "\<lambda>f. None"] example_allocator
        fast_text_encodes [OF example_module_wf example_module_ok example_image_small]])

text \<open>A null buffer makes the load of a fast module fail without marking the module corrupt, so
  the assertion in \<open>LoadModuleUsingMemoryBuffer\<close> fails; the basic resolver takes an empty buffer as
  an empty module.\<close>

theorem load_null_buffer:
  "LoadModuleUsingMemoryBuffer fast_class (Some cm) 0 n mem Resolver_init = None \<and>
   LoadModuleUsingMemoryBuffer basic_class (Some cm) 0 0 mem Resolver_init =
     Some (True, Resolver_init\<lparr>res_modules := [(module_key cm, Module_init)]\<rparr>)"
  by (simp add: LoadModuleUsingMemoryBuffer_def fast_class_def basic_class_def fast_LoadMapFromMemory_def
      FastModule_init_def Resolver_init_def has_key_def map_find_def LoadMapFromMemory_def peek_def
      lower_bound_def Module_init_def)

end
