(* ===== verification/Resolver_Conversion.thy ===== *)
theory Resolver_Conversion
  imports Resolver_Classes
begin

text \<open>
  \<open>ModuleSerializer\<close> of processor/module_serializer.cc between resolvers: every module of a basic
  resolver is serialized, copied into a string and loaded into a fast resolver. A null resolver
  is None.
\<close>

definition SerializeModuleAndLoadIntoFastResolver ::
  "allocation \<Rightarrow> string \<times> sym_module \<Rightarrow> fast_module resolver \<Rightarrow> heap \<Rightarrow>
     (bool \<times> fast_module resolver \<times> heap) option" where
  "SerializeModuleAndLoadIntoFastResolver alloc iter R h =
     (case iter of (name, basic_module) \<Rightarrow>
        case Module_Serialize (\<lambda>n. alloc h (unat n)) basic_module (heap_memory h) of (mem, symbol_data, sz) \<Rightarrow>
          if symbol_data = 0 then Some (False, R, h)
          else
            let h = h\<lparr>heap_memory := mem, live := (live h)(symbol_data \<mapsto> unat sz)\<rparr>;
                symbol_data_string = map byte_char (peek mem symbol_data (unat sz)) in
            do { h \<leftarrow> delete_chars symbol_data h;
                 LoadModuleUsingMapBuffer fast_class alloc
                   (Some (BasicCodeModule 0 0 name [] [] [] [] False)) symbol_data_string R h })"

fun convert_modules ::
  "allocation \<Rightarrow> (string, sym_module) std_map \<Rightarrow> fast_module resolver \<Rightarrow> heap \<Rightarrow> (fast_module resolver \<times> heap) option" where
  "convert_modules alloc [] R h = Some (R, h)"
| "convert_modules alloc (iter # m) R h =
     do { (ok, R, h) \<leftarrow> SerializeModuleAndLoadIntoFastResolver alloc iter R h; convert_modules alloc m R h }"

definition ConvertAllModules ::
  "allocation \<Rightarrow> sym_module resolver option \<Rightarrow> fast_module resolver option \<Rightarrow> heap \<Rightarrow>
     (fast_module resolver option \<times> heap) option" where
  "ConvertAllModules alloc basic_resolver fast_resolver h =
     (case (basic_resolver, fast_resolver) of
        (Some B, Some R) \<Rightarrow> do { (R, h) \<leftarrow> convert_modules alloc (res_modules B) R h; Some (Some R, h) }
      | _ \<Rightarrow> Some (fast_resolver, h))"

definition ConvertOneModule ::
  "allocation \<Rightarrow> string \<Rightarrow> sym_module resolver option \<Rightarrow> fast_module resolver option \<Rightarrow> heap \<Rightarrow>
     (bool \<times> fast_module resolver option \<times> heap) option" where
  "ConvertOneModule alloc moduleid basic_resolver fast_resolver h =
     (case (basic_resolver, fast_resolver) of
        (Some B, Some R) \<Rightarrow>
          let iter = map_find (res_modules B) (c_string moduleid) in
          if iter = length (res_modules B) then Some (False, fast_resolver, h)
          else do { (ok, R, h) \<leftarrow> SerializeModuleAndLoadIntoFastResolver alloc (res_modules B ! iter) R h;
                    Some (ok, Some R, h) }
      | _ \<Rightarrow> Some (False, fast_resolver, h))"

section \<open>Conversion keeps every answer\<close>

definition converted :: "fast_module resolver \<times> heap \<Rightarrow> (string \<Rightarrow> sym_module option) \<Rightarrow> bool" where
  "converted s S \<longleftrightarrow> (case s of (R, h) \<Rightarrow> finite (dom (live h)) \<and>
     (\<exists>A. resolver_inv fast_class fast_denotes (R, h, A) \<and> (\<forall>k. map_option (\<lambda>(p, n, M). M) (A k) = S k)))"

lemma module_key_basic: "module_key (BasicCodeModule 0 0 k i d e v u) = c_string k"
  by (simp add: module_key_def BasicCodeModule_def)

lemma delete_new:
  assumes "p \<noteq> 0" and "live h p = None"
  shows "delete_chars p (h\<lparr>heap_memory := mem, live := (live h)(p \<mapsto> n)\<rparr>) = Some (h\<lparr>heap_memory := mem\<rparr>)"
proof -
  have "(live h)(p := None) = live h" using assms(2) by (simp add: fun_eq_iff)
  then show ?thesis using assms(1) by (simp add: delete_chars_def)
qed

lemma delete_chars_finite: "delete_chars p h = Some h' \<Longrightarrow> finite (dom (live h)) \<Longrightarrow> finite (dom (live h'))"
  by (auto simp: delete_chars_def split: if_splits option.splits)

lemma LoadModuleUsingMapBuffer_finite:
  "LoadModuleUsingMapBuffer cls alloc module s R h = Some (b, R', h') \<Longrightarrow> finite (dom (live h)) \<Longrightarrow>
     finite (dom (live h'))"
  by (auto simp: LoadModuleUsingMapBuffer_def keep_or_delete_def new_chars_def copy_chars_def Let_def bind_eq_Some_conv
      split: if_splits option.splits prod.splits dest!: delete_chars_finite)

lemma convert_one:
  assumes al: "allocates alloc" and cv: "converted (R, h) S" and new: "S k = None" and k: "c_string k = k"
    and M: "module_wf M" "module_ok M" "length (module_image M) < 2 ^ 32"
  shows "\<exists>R' h'. SerializeModuleAndLoadIntoFastResolver alloc (k, M) R h = Some (True, R', h') \<and>
    converted (R', h') (S(k \<mapsto> M))"
proof -
  obtain A where inv: "resolver_inv fast_class fast_denotes (R, h, A)"
    and S: "\<And>j. map_option (\<lambda>(p, n, M). M) (A j) = S j" and fin: "finite (dom (live h))"
    using cv by (auto simp: converted_def)
  let ?img = "module_image M" and ?cm = "BasicCodeModule 0 0 k [] [] [] [] False"
  let ?p = "alloc h (length ?img)"
  have p: "?p \<noteq> 0" and allocator: "allocator alloc" using al fin by (simp_all add: allocates_def)
  have sz: "unat (word_of_nat (length ?img) :: uint32) = length ?img" by (rule unat_of_small [OF M(3)])
  have ser: "Module_Serialize (\<lambda>n. alloc h (unat n)) M (heap_memory h) =
      (store_bytes ?p ?img (heap_memory h), ?p, word_of_nat (length ?img))"
    by (rule Module_Serialize_image [OF M _ p]) (simp only: sz)
  define h1 where "h1 = h\<lparr>heap_memory := store_bytes ?p ?img (heap_memory h)\<rparr>"
  have fresh: "live h ?p = None"
    using allocator_fresh(1) [OF allocator p] by fastforce
  have inv1: "resolver_inv fast_class fast_denotes (R, h1, A)"
  proof (rule fast.inv_environment [OF inv])
    fix j q n N assume j: "A j = Some (q, n, N)"
    have "entry_ok fast_class fast_denotes R h j (A j)" using inv by (simp add: resolver_inv_def)
    then have l: "live h q = Some n" using j by (simp add: entry_ok_def fast_class_def)
    have "agree (heap_memory h) (heap_memory h1) q n"
      using allocator_fresh(2) [OF allocator p l] by (auto simp: h1_def intro: agree_store)
    then show "delete_after_load fast_class \<or> live h1 q = Some n \<and> agree (heap_memory h) (heap_memory h1) q n"
      using l by (simp add: h1_def)
  qed
  have chars: "map byte_char (peek (store_bytes ?p ?img (heap_memory h)) ?p (length ?img)) = map byte_char ?img"
    using holds_store [of ?p ?img "heap_memory h"] by (simp add: holds_def)
  let ?s = "map byte_char ?img"
  have key: "module_key ?cm = k" using k by (simp add: module_key_basic)
  have "A k = None" using S [of k] new by simp
  moreover have "alloc h1 (length ?s + 1) \<noteq> 0" using al fin by (simp add: allocates_def h1_def)
  ultimately obtain R' h' where
    ld: "LoadModuleUsingMapBuffer fast_class alloc (Some ?cm) ?s R h1 = Some (True, R', h')"
    and inv': "resolver_inv fast_class fast_denotes (R', h', A(k \<mapsto> (alloc h1 (length ?s + 1), length ?s + 1, M)))"
    using fast.load_text_step [OF inv1 allocator fast_text_encodes [OF M], of ?cm] by (auto simp: key)
  have "finite (dom (live h'))" using LoadModuleUsingMapBuffer_finite [OF ld] fin by (simp add: h1_def)
  then have "converted (R', h') (S(k \<mapsto> M))"
    using inv' S by (auto simp: converted_def)
  moreover have "delete_chars ?p (h\<lparr>heap_memory := store_bytes ?p ?img (heap_memory h),
      live := (live h)(?p \<mapsto> length ?img)\<rparr>) = Some h1"
    unfolding h1_def by (rule delete_new [OF p fresh])
  then have "SerializeModuleAndLoadIntoFastResolver alloc (k, M) R h = Some (True, R', h')"
    using ld p by (simp add: SerializeModuleAndLoadIntoFastResolver_def ser sz chars)
  ultimately show ?thesis by blast
qed

lemma convert_modules_converted:
  assumes al: "allocates alloc"
  shows "converted (R, h) S \<Longrightarrow> distinct (map fst m) \<Longrightarrow> (\<forall>k \<in> fst ` set m. S k = None) \<Longrightarrow>
    (\<forall>(k, M) \<in> set m. c_string k = k \<and> module_wf M \<and> module_ok M \<and> length (module_image M) < 2 ^ 32) \<Longrightarrow>
    \<exists>R' h'. convert_modules alloc m R h = Some (R', h') \<and> converted (R', h') (S ++ map_of m)"
proof (induction m arbitrary: R h S)
  case (Cons e m)
  obtain k M where e: "e = (k, M)" by fastforce
  obtain R1 h1 where one: "SerializeModuleAndLoadIntoFastResolver alloc (k, M) R h = Some (True, R1, h1)"
    and cv: "converted (R1, h1) (S(k \<mapsto> M))"
    using convert_one [OF al Cons.prems(1), of k M] Cons.prems(3,4) by (auto simp: e)
  have "\<forall>k' \<in> fst ` set m. (S(k \<mapsto> M)) k' = None" using Cons.prems(2,3) by (auto simp: e)
  moreover have "distinct (map fst m)" using Cons.prems(2) by simp
  ultimately obtain R2 h2 where cm: "convert_modules alloc m R1 h1 = Some (R2, h2)"
    and cv2: "converted (R2, h2) (S(k \<mapsto> M) ++ map_of m)"
    using Cons.IH [OF cv] Cons.prems(4) by (meson list.set_intros(2))
  have "S(k \<mapsto> M) ++ map_of m = S ++ map_of (e # m)"
  proof (rule ext)
    fix j
    have "map_of m k = None" using Cons.prems(2) by (auto simp: e map_of_eq_None_iff)
    then show "(S(k \<mapsto> M) ++ map_of m) j = (S ++ map_of (e # m)) j" by (auto simp: e map_add_def split: option.split)
  qed
  with cv2 have "converted (R2, h2) (S ++ map_of (e # m))" by (simp only:)
  moreover have "convert_modules alloc (e # m) R h = Some (R2, h2)" by (simp add: e one cm)
  ultimately show ?case by blast
qed simp

text \<open>C13: Converting every module of a basic resolver into an empty fast resolver gives a fast resolver
  with the same modules and the same answers to every query, when each serialized module is below
  4 GB and memory can be allocated.\<close>

theorem ConvertAllModules_equivalent:
  assumes "resolver_reachable basic_class basic_encodes alloc0 fs (B, h0, A)" and "allocator alloc0"
    and "allocates alloc" and "finite (dom (live h))"
    and "\<forall>(k, M) \<in> set (res_modules B). length (module_image M) < 2 ^ 32"
  shows "case ConvertAllModules alloc (Some B) (Some Resolver_init) h of
      Some (Some R, h') \<Rightarrow> HasModule module R = HasModule module B \<and>
        IsModuleCorrupt module R = IsModuleCorrupt module B \<and>
        FillSourceLineInfo fast_class (heap_memory h') R frame = FillSourceLineInfo basic_class (heap_memory h0) B frame \<and>
        ResolverFindWindowsFrameInfo fast_class (heap_memory h') R frame =
          ResolverFindWindowsFrameInfo basic_class (heap_memory h0) B frame \<and>
        ResolverFindCFIFrameInfo fast_class (heap_memory h') R frame =
          ResolverFindCFIFrameInfo basic_class (heap_memory h0) B frame
    | _ \<Rightarrow> False"
proof -
  note inv = basic.reachable_inv [OF assms(1,2)]
  have ent: "entry_ok basic_class basic_denotes B h0 k (A k)" and ks: "keys_sorted (res_modules B)" for k
    using inv by (simp_all add: resolver_inv_def)
  have dist: "distinct (map fst (res_modules B))" using ks by (simp add: keys_sorted_def strict_sorted_iff)
  have A: "map_option (\<lambda>(p, n, M). M) (A k) = map_of (res_modules B) k" for k
    using ent [of k] by (cases "A k") (auto simp: entry_ok_def basic_denotes_def)
  have ok: "c_string k = k \<and> module_wf M \<and> module_ok M" if "(k, M) \<in> set (res_modules B)" for k M
    using ent [of k] map_of_is_SomeI [OF dist that] by (cases "A k") (auto simp: entry_ok_def basic_denotes_def)
  have "converted (Resolver_init, h) Map.empty"
    using assms(4) resolver_inv_init [of fast_class fast_denotes h] by (auto simp: converted_def)
  from convert_modules_converted [OF assms(3) this dist] ok assms(5)
  obtain R h' where cv: "convert_modules alloc (res_modules B) Resolver_init h = Some (R, h')"
    and "converted (R, h') (Map.empty ++ map_of (res_modules B))"
    by fastforce
  then obtain A' where inv': "resolver_inv fast_class fast_denotes (R, h', A')"
    and A': "\<And>k. map_option (\<lambda>(p, n, M). M) (A' k) = map_of (res_modules B) k"
    by (auto simp: converted_def)
  have same: "loaded_symbols A' = loaded_symbols A"
    using A A' by (auto simp: loaded_symbols_def fun_eq_iff split: option.split)
  show ?thesis
    by (simp add: ConvertAllModules_def cv basic.queries_ok [OF inv] fast.queries_ok [OF inv'])
      (simp only: filled_frame_def frame_query_def same simp_thms)
qed

definition example_basic_resolver :: "sym_module resolver" where
  "example_basic_resolver = Resolver_init\<lparr>res_modules := [(module_key example_code_module, example_module)]\<rparr>"

definition example_text_heap :: heap where
  "example_text_heap =
     \<lparr>heap_memory = store_bytes 4096 (map char_byte example_text @ [0]) (\<lambda>i. 0), live = Map.empty\<rparr>"

lemma example_basic_reachable:
  "resolver_reachable basic_class basic_encodes alloc fs (example_basic_resolver, example_text_heap,
     [module_key example_code_module \<mapsto> (4096, length example_text + 1, example_module)])"
proof -
  have enc: "basic_encodes (heap_memory example_text_heap) 4096 (length example_text + 1) example_module"
    using basic_text_encodes [OF example_text_loads]
      holds_store [of 4096 "map char_byte example_text @ [0]" "\<lambda>i. 0"]
    unfolding text_encodes_def example_text_heap_def by simp
  have "\<not> is_corrupt example_module"
    using arg_cong [OF example_not_corrupt, of is_corrupt] by simp
  then have "LoadModuleUsingMemoryBuffer basic_class (Some example_code_module) 4096 (length example_text + 1)
      (heap_memory example_text_heap) Resolver_init = Some (True, example_basic_resolver)"
    using enc by (simp add: LoadModuleUsingMemoryBuffer_def basic_class_def basic_encodes_def Resolver_init_def
        has_key_def map_find_def lower_bound_def example_basic_resolver_def)
  then have "resolver_step basic_class basic_encodes alloc fs (Resolver_init, example_text_heap, Map.empty)
      (example_basic_resolver, example_text_heap,
       Map.empty(module_key example_code_module \<mapsto> (4096, length example_text + 1, example_module)))"
    using enc by (intro resolver_step.load_memory) (simp_all add: basic_class_def)
  then show ?thesis by (rule resolver_reachable.step [OF resolver_reachable.start])
qed

theorem ConvertAllModules_equivalent_witness:
  "case ConvertAllModules example_alloc (Some example_basic_resolver) (Some Resolver_init) example_text_heap of
      Some (Some R, h') \<Rightarrow>
        HasModule (Some example_code_module) R = HasModule (Some example_code_module) example_basic_resolver \<and>
        IsModuleCorrupt (Some example_code_module) R = IsModuleCorrupt (Some example_code_module) example_basic_resolver \<and>
        FillSourceLineInfo fast_class (heap_memory h') R
            \<lparr>frame_module = Some example_code_module, frame_info = example_frame 0x401004\<rparr> =
          FillSourceLineInfo basic_class (heap_memory example_text_heap) example_basic_resolver
            \<lparr>frame_module = Some example_code_module, frame_info = example_frame 0x401004\<rparr> \<and>
        ResolverFindWindowsFrameInfo fast_class (heap_memory h') R
            \<lparr>frame_module = Some example_code_module, frame_info = example_frame 0x401004\<rparr> =
          ResolverFindWindowsFrameInfo basic_class (heap_memory example_text_heap) example_basic_resolver
            \<lparr>frame_module = Some example_code_module, frame_info = example_frame 0x401004\<rparr> \<and>
        ResolverFindCFIFrameInfo fast_class (heap_memory h') R
            \<lparr>frame_module = Some example_code_module, frame_info = example_frame 0x401004\<rparr> =
          ResolverFindCFIFrameInfo basic_class (heap_memory example_text_heap) example_basic_resolver
            \<lparr>frame_module = Some example_code_module, frame_info = example_frame 0x401004\<rparr>
    | _ \<Rightarrow> False"
  by (rule ConvertAllModules_equivalent [OF example_basic_reachable [where alloc = example_alloc and fs = "\<lambda>f. None"]
        example_allocator example_allocates])
    (use example_image_small in \<open>simp_all add: example_text_heap_def example_basic_resolver_def Resolver_init_def\<close>)

end
