(* ===== verification/Memory_Region.thy ===== *)
theory Memory_Region
  imports Memory
begin

text \<open>
  \<open>MemoryRegion\<close> of google_breakpad/processor/memory_region.h, the stack memory that the walkers
  read, and \<open>MinidumpMemoryRegion\<close> of processor/minidump.cc, the region of a minidump file. What
  the walkers rely on, that a read lies within the bounds of the region, is the locale
  \<open>bounded_memory\<close>.
\<close>

section \<open>The interface\<close>

text \<open>
  \<open>read_at n a\<close> is the \<open>n\<close>-byte value at an address, None where the read fails; the overloads of
  \<open>GetMemoryAtAddress\<close> differ in the width of the value only.
\<close>

record memory_region =
  GetBase :: uint64
  GetSize :: uint32
  read_at :: "nat \<Rightarrow> uint64 \<Rightarrow> nat option"

definition GetMemoryAtAddress :: "memory_region \<Rightarrow> uint64 \<Rightarrow> 'w::len word option" where
  "GetMemoryAtAddress memory address = map_option word_of_nat (read_at memory (LENGTH('w) div 8) address)"

locale bounded_memory =
  fixes regions :: "memory_region set"
  assumes read_bounds: "memory \<in> regions \<Longrightarrow> read_at memory n a = Some v \<Longrightarrow>
      unat (GetBase memory) \<le> unat a \<and> unat a + n \<le> unat (GetBase memory) + unat (GetSize memory)"
    and region_end: "memory \<in> regions \<Longrightarrow> unat (GetBase memory) + unat (GetSize memory) < 2 ^ 64"
begin

text \<open>A successful read leaves room for the next one: addresses do not wrap around.\<close>

lemma read_no_wrap:
  fixes v :: "'w::len word"
  assumes "memory \<in> regions" and "GetMemoryAtAddress memory a = Some v"
  shows "unat a + LENGTH('w) div 8 < 2 ^ 64"
  using assms read_bounds [of memory "LENGTH('w) div 8" a] region_end [of memory]
  by (auto simp: GetMemoryAtAddress_def)

end

section \<open>A region of a minidump\<close>

text \<open>
  The file is the byte sequence that \<open>SeekSet\<close> and \<open>ReadBytes\<close> see, None without a stream; \<open>swap\<close>
  tells that it was written in the other byte order. The region caches its bytes.
\<close>

record minidump =
  stream :: "bytes option"
  swap :: bool

record memory_descriptor =
  start_of_memory_range :: uint64
  data_size :: uint32
  rva :: uint32

record minidump_region =
  descriptor :: "memory_descriptor option"
  valid :: bool
  cached :: "bytes option"

definition max_bytes :: uint32 where
  "max_bytes = 2 * 1024 * 1024"

definition MinidumpMemoryRegion :: minidump_region where
  "MinidumpMemoryRegion = \<lparr>descriptor = None, valid = False, cached = None\<rparr>"

definition SetDescriptor :: "memory_descriptor option \<Rightarrow> minidump_region \<Rightarrow> minidump_region" where
  "SetDescriptor d R = R\<lparr>descriptor := d,
     valid := (case d of
        None \<Rightarrow> False
      | Some d \<Rightarrow> ucast (data_size d) \<le> (- 1 :: uint64) - start_of_memory_range d)\<rparr>"

text \<open>\<open>SeekSet\<close> followed by \<open>ReadBytes\<close>.\<close>

definition SeekRead :: "minidump \<Rightarrow> uint32 \<Rightarrow> uint32 \<Rightarrow> bytes option" where
  "SeekRead file offset count =
     (case stream file of
        None \<Rightarrow> None
      | Some contents \<Rightarrow>
          let bs = take (unat count) (drop (unat offset) contents) in
          if length bs \<noteq> unat count then None else Some bs)"

text \<open>Without a descriptor the region is not valid, so \<open>descriptor_\<close> is never followed when null.\<close>

definition GetMemory :: "minidump \<Rightarrow> minidump_region \<Rightarrow> bytes option \<times> minidump_region" where
  "GetMemory file R =
     (case descriptor R of
        Some d \<Rightarrow>
          if \<not> valid R then (None, R)
          else if cached R \<noteq> None then (cached R, R)
          else if data_size d = 0 then (None, R)
          else if data_size d > max_bytes then (None, R)
          else
            (case SeekRead file (rva d) (data_size d) of
               None \<Rightarrow> (None, R)
             | Some memory \<Rightarrow> (Some memory, R\<lparr>cached := Some memory\<rparr>))
      | None \<Rightarrow> (None, R))"

definition RegionGetBase :: "minidump_region \<Rightarrow> uint64" where
  "RegionGetBase R = (if \<not> valid R then - 1 else case descriptor R of None \<Rightarrow> - 1 | Some d \<Rightarrow> start_of_memory_range d)"

definition RegionGetSize :: "minidump_region \<Rightarrow> uint32" where
  "RegionGetSize R = (if \<not> valid R then 0 else case descriptor R of None \<Rightarrow> 0 | Some d \<Rightarrow> data_size d)"

definition FreeMemory :: "minidump_region \<Rightarrow> minidump_region" where
  "FreeMemory R = R\<lparr>cached := None\<rparr>"

definition GetMemoryAtAddressInternal ::
  "minidump \<Rightarrow> nat \<Rightarrow> uint64 \<Rightarrow> minidump_region \<Rightarrow> nat option \<times> minidump_region" where
  "GetMemoryAtAddressInternal file n address R =
     (case descriptor R of
        Some d \<Rightarrow>
          if \<not> valid R then (None, R)
          else if address < start_of_memory_range d \<or> word_of_nat n > - 1 - address \<or>
            address + word_of_nat n > start_of_memory_range d + ucast (data_size d)
          then (None, R)
          else
            (case GetMemory file R of
               (None, R) \<Rightarrow> (None, R)
             | (Some memory, R) \<Rightarrow>
                 let bs = take n (drop (unat (address - start_of_memory_range d)) memory) in
                 (Some (of_le_bytes (if swap file then rev bs else bs)), R))
      | None \<Rightarrow> (None, R))"

text \<open>The region as the walkers see it: reading changes nothing but the cache.\<close>

definition minidump_memory :: "minidump \<Rightarrow> minidump_region \<Rightarrow> memory_region" where
  "minidump_memory file R =
     \<lparr>GetBase = RegionGetBase R, GetSize = RegionGetSize R,
      read_at = (\<lambda>n a. if n \<le> 8 then fst (GetMemoryAtAddressInternal file n a R) else None)\<rparr>"

section \<open>What a region holds\<close>

text \<open>The bytes of the region in the file, if it can be read.\<close>

definition region_bytes :: "minidump \<Rightarrow> minidump_region \<Rightarrow> bytes option" where
  "region_bytes file R =
     (case descriptor R of
        Some d \<Rightarrow> if valid R \<and> data_size d \<noteq> 0 \<and> data_size d \<le> max_bytes then SeekRead file (rva d) (data_size d) else None
      | None \<Rightarrow> None)"

definition region_ok :: "minidump \<Rightarrow> minidump_region \<Rightarrow> bool" where
  "region_ok file R \<longleftrightarrow>
     (valid R \<longrightarrow> (\<exists>d. descriptor R = Some d \<and> unat (start_of_memory_range d) + unat (data_size d) < 2 ^ 64)) \<and>
     (\<forall>bs. cached R = Some bs \<longrightarrow> region_bytes file R = Some bs)"

lemma max_minus_word: "unat (- 1 - a :: 'a::len word) = 2 ^ LENGTH('a) - 1 - unat a"
proof -
  have "a \<le> - 1" by simp
  then show ?thesis by (simp add: unat_sub unsigned_minus_1_eq_mask mask_eq_exp_minus_1)
qed

lemma unat_ucast_64: "unat (ucast (w :: uint32) :: uint64) = unat w"
  using unsigned_less [of w, where 'a=nat] by (simp add: unsigned_ucast_eq take_bit_nat_eq_self_iff)

lemma region_ok_init: "region_ok file MinidumpMemoryRegion"
  by (simp add: region_ok_def MinidumpMemoryRegion_def)

lemma region_ok_SetDescriptor: "cached R = None \<Longrightarrow> region_ok file (SetDescriptor d R)"
proof (cases d)
  case (Some d)
  assume c: "cached R = None"
  have "unat (start_of_memory_range d) + unat (data_size d) < 2 ^ 64"
    if "ucast (data_size d) \<le> (- 1 :: uint64) - start_of_memory_range d"
  proof -
    have "unat (ucast (data_size d) :: uint64) \<le> unat ((- 1 :: uint64) - start_of_memory_range d)"
      using that by (simp add: word_le_nat_alt)
    then show ?thesis
      using unsigned_less [of "start_of_memory_range d", where 'a=nat] by (simp add: max_minus_word unat_ucast_64)
  qed
  with c Some show ?thesis by (simp add: region_ok_def SetDescriptor_def)
qed (simp add: region_ok_def SetDescriptor_def)

lemma region_ok_GetMemory:
  assumes "region_ok file R"
  shows "fst (GetMemory file R) = region_bytes file R" and "region_ok file (snd (GetMemory file R))"
    and "region_bytes file (snd (GetMemory file R)) = region_bytes file R"
  using assms
  by (auto simp: GetMemory_def region_ok_def region_bytes_def split: option.splits if_splits)

text \<open>The range check of the code, without the wrap-around it guards against.\<close>

lemma range_check:
  fixes a b e :: "'a::len word"
  assumes n: "n < 2 ^ LENGTH('a)" and e: "unat e = unat b + s"
  shows "(a < b \<or> word_of_nat n > - 1 - a \<or> a + word_of_nat n > e) \<longleftrightarrow> \<not> (unat b \<le> unat a \<and> unat a + n \<le> unat b + s)"
proof -
  have un: "unat (word_of_nat n :: 'a word) = n" using n by (simp add: unsigned_of_nat take_bit_nat_eq_self)
  have lt: "unat a < 2 ^ LENGTH('a)" "unat e < 2 ^ LENGTH('a)" by (rule unsigned_less)+
  have over: "word_of_nat n > - 1 - a \<longleftrightarrow> 2 ^ LENGTH('a) \<le> unat a + n"
    unfolding word_less_nat_alt max_minus_word un using lt(1) by linarith
  show ?thesis
  proof (cases "2 ^ LENGTH('a) \<le> unat a + n")
    case True
    then have "\<not> unat a + n \<le> unat b + s" using lt(2) e by linarith
    then show ?thesis using over True by simp
  next
    case False
    then have "unat (a + word_of_nat n) = unat a + n" by (simp add: unat_plus_if' un)
    then show ?thesis using over False e by (auto simp: word_less_nat_alt)
  qed
qed

lemma GetMemoryAtAddressInternal_value:
  assumes ok: "region_ok file R" and n: "n < 2 ^ 64"
  shows "fst (GetMemoryAtAddressInternal file n a R) =
    (case region_bytes file R of
       None \<Rightarrow> None
     | Some bs \<Rightarrow>
         if unat (RegionGetBase R) \<le> unat a \<and> unat a + n \<le> unat (RegionGetBase R) + unat (RegionGetSize R)
         then Some (let vs = take n (drop (unat a - unat (RegionGetBase R)) bs) in
           of_le_bytes (if swap file then rev vs else vs))
         else None)"
proof (cases "valid R")
  case False
  then show ?thesis by (simp add: GetMemoryAtAddressInternal_def region_bytes_def split: option.split)
next
  case True
  then obtain d where d: "descriptor R = Some d" and fit: "unat (start_of_memory_range d) + unat (data_size d) < 2 ^ 64"
    using ok by (auto simp: region_ok_def)
  let ?b = "start_of_memory_range d"
  have base: "RegionGetBase R = ?b" "RegionGetSize R = data_size d"
    using True d by (simp_all add: RegionGetBase_def RegionGetSize_def)
  have "unat (?b + ucast (data_size d)) = unat ?b + unat (data_size d)"
    using fit unat_ucast_64 [of "data_size d"] by (subst unat_plus_if') auto
  then have guard: "(a < ?b \<or> word_of_nat n > - 1 - a \<or> a + word_of_nat n > ?b + ucast (data_size d)) \<longleftrightarrow>
      \<not> (unat ?b \<le> unat a \<and> unat a + n \<le> unat ?b + unat (data_size d))"
    using n by (intro range_check) simp_all
  obtain m R' where get: "GetMemory file R = (m, R')" by fastforce
  have "m = region_bytes file R" using region_ok_GetMemory(1) [OF ok] get by simp
  moreover have "unat (a - ?b) = unat a - unat ?b" if "unat ?b \<le> unat a"
    using that by (simp add: unat_sub word_le_nat_alt)
  moreover have "GetMemoryAtAddressInternal file n a R =
      (if \<not> (unat ?b \<le> unat a \<and> unat a + n \<le> unat ?b + unat (data_size d)) then (None, R)
       else case GetMemory file R of
         (None, R) \<Rightarrow> (None, R)
       | (Some memory, R) \<Rightarrow>
           let bs = take n (drop (unat (a - ?b)) memory) in
           (Some (of_le_bytes (if swap file then rev bs else bs)), R))"
    by (simp only: GetMemoryAtAddressInternal_def d True guard option.case not_True_eq_False if_False)
  ultimately show ?thesis
    using get by (auto simp: base Let_def split: option.split)
qed

lemma GetMemoryAtAddressInternal_state:
  assumes "region_ok file R"
  shows "region_ok file (snd (GetMemoryAtAddressInternal file n a R))"
    and "region_bytes file (snd (GetMemoryAtAddressInternal file n a R)) = region_bytes file R"
  using assms region_ok_GetMemory(2,3) [OF assms]
  by (auto simp: GetMemoryAtAddressInternal_def Let_def split: option.splits prod.splits)

text \<open>The regions of minidumps, in any state of their caches.\<close>

definition minidump_memories :: "memory_region set" where
  "minidump_memories = {minidump_memory file R | file R. region_ok file R}"

lemma minidump_read:
  assumes "region_ok file R"
  shows "read_at (minidump_memory file R) n a =
    (case region_bytes file R of
       None \<Rightarrow> None
     | Some bs \<Rightarrow>
         if n \<le> 8 \<and> unat (RegionGetBase R) \<le> unat a \<and> unat a + n \<le> unat (RegionGetBase R) + unat (RegionGetSize R)
         then Some (let vs = take n (drop (unat a - unat (RegionGetBase R)) bs) in
           of_le_bytes (if swap file then rev vs else vs))
         else None)"
  using GetMemoryAtAddressInternal_value [OF assms, of n a]
  by (simp add: minidump_memory_def split: option.split)

interpretation minidump: bounded_memory minidump_memories
proof unfold_locales
  fix memory
  assume "memory \<in> minidump_memories"
  then obtain dump R where m: "memory = minidump_memory dump R" and ok: "region_ok dump R"
    by (auto simp: minidump_memories_def)
  show "unat (GetBase memory) \<le> unat a \<and> unat a + n \<le> unat (GetBase memory) + unat (GetSize memory)"
    if "read_at memory n a = Some v" for n a v
    using that by (auto simp: m minidump_read [OF ok] split: option.splits if_splits) (simp_all add: minidump_memory_def)
  show "unat (GetBase memory) + unat (GetSize memory) < 2 ^ 64"
    using ok unsigned_less [of "RegionGetBase R", where 'a=nat]
    by (auto simp: m minidump_memory_def RegionGetBase_def RegionGetSize_def region_ok_def)
qed

text \<open>C15: Reading a minidump region: an access of one to eight bytes succeeds exactly when it lies within
  the region and the region can be read from the file; the value is that of the bytes of the
  file there, in the byte order of the dump, whether they come from the cache or not, and the
  cache stays right. No address computation wraps around.\<close>

theorem region_read_correct:
  assumes "cached R = None" and "n \<le> 8"
  shows "(let R = SetDescriptor d R in
    case GetMemoryAtAddressInternal file n a R of (v, R') \<Rightarrow>
      v = (case region_bytes file R of
           None \<Rightarrow> None
         | Some bs \<Rightarrow>
             if unat (RegionGetBase R) \<le> unat a \<and> unat a + n \<le> unat (RegionGetBase R) + unat (RegionGetSize R)
             then Some (let vs = take n (drop (unat a - unat (RegionGetBase R)) bs) in
               of_le_bytes (if swap file then rev vs else vs))
             else None) \<and>
      fst (GetMemoryAtAddressInternal file n a R') = v)"
proof -
  define Q where "Q = SetDescriptor d R"
  have ok: "region_ok file Q" using assms(1) unfolding Q_def by (rule region_ok_SetDescriptor)
  obtain v Q' where run: "GetMemoryAtAddressInternal file n a Q = (v, Q')" by fastforce
  have n: "n < 2 ^ 64" using assms(2) by simp
  have ok': "region_ok file Q'" and bytes: "region_bytes file Q' = region_bytes file Q"
    using GetMemoryAtAddressInternal_state [OF ok, of n a] run by simp_all
  have same: "RegionGetBase Q' = RegionGetBase Q" "RegionGetSize Q' = RegionGetSize Q"
    using run by (auto simp: GetMemoryAtAddressInternal_def GetMemory_def RegionGetBase_def RegionGetSize_def Let_def
        split: option.splits if_splits)
  note v = GetMemoryAtAddressInternal_value [OF ok n, of a, unfolded run fst_conv]
  show ?thesis
    unfolding Q_def [symmetric] Let_def run prod.case
    using v GetMemoryAtAddressInternal_value [OF ok' n, of a] unfolding Let_def bytes same by simp
qed

theorem region_read_correct_witness:
  "(let R = SetDescriptor (Some \<lparr>start_of_memory_range = 0x1000, data_size = 4, rva = 2\<rparr>) MinidumpMemoryRegion in
    case GetMemoryAtAddressInternal \<lparr>stream = Some [9, 9, 1, 2, 3, 4], swap = True\<rparr> 2 0x1001 R of (v, R') \<Rightarrow>
      v = (case region_bytes \<lparr>stream = Some [9, 9, 1, 2, 3, 4], swap = True\<rparr> R of
           None \<Rightarrow> None
         | Some bs \<Rightarrow>
             if unat (RegionGetBase R) \<le> unat (0x1001 :: uint64) \<and>
               unat (0x1001 :: uint64) + 2 \<le> unat (RegionGetBase R) + unat (RegionGetSize R)
             then Some (let vs = take 2 (drop (unat (0x1001 :: uint64) - unat (RegionGetBase R)) bs) in
               of_le_bytes (if swap \<lparr>stream = Some [9, 9, 1, 2, 3, 4], swap = True\<rparr> then rev vs else vs))
             else None) \<and>
      fst (GetMemoryAtAddressInternal \<lparr>stream = Some [9, 9, 1, 2, 3, 4], swap = True\<rparr> 2 0x1001 R') = v)"
  by (rule region_read_correct) (simp_all add: MinidumpMemoryRegion_def)

end
