(* ===== verification/Symbol_Supplier.thy ===== *)
theory Symbol_Supplier
  imports Resolver_Base
begin

text \<open>
  \<open>SimpleSymbolSupplier\<close> of processor/simple_symbol_supplier.cc with \<open>PathnameStripper::File\<close> of
  processor/pathname_stripper.cc: where the symbol file of a module is looked for, how it is
  read, and the buffers the supplier owns. A search result is the path found, None for
  \<open>NOT_FOUND\<close>; the file system is the parameter of \<open>Resolver_Base\<close>.
\<close>

section \<open>Paths\<close>

text \<open>The part of a path behind its last slash or backslash; \<open>rfind\<close> gives None for \<open>npos\<close>.\<close>

fun rfind :: "char \<Rightarrow> string \<Rightarrow> nat option" where
  "rfind c [] = None"
| "rfind c (d # s) =
     (case rfind c s of Some i \<Rightarrow> Some (Suc i) | None \<Rightarrow> if c = d then Some 0 else None)"

definition PathnameStripper_File :: "string \<Rightarrow> string" where
  "PathnameStripper_File path =
     (let slash = rfind CHR ''/'' path; backslash = rfind CHR 0x5C path;
          file_start =
            (if slash \<noteq> None \<and> (backslash = None \<or> the slash > the backslash) then the slash + 1
             else if backslash \<noteq> None then the backslash + 1
             else 0) in
      drop file_start path)"

definition to_lower :: "char \<Rightarrow> char" where
  "to_lower c = (let n = of_char c :: nat in if 65 \<le> n \<and> n \<le> 90 then char_of (n + 32) else c)"

definition file_exists :: "file_system \<Rightarrow> string \<Rightarrow> bool" where
  "file_exists fs file_name \<longleftrightarrow> fs (c_string file_name) \<noteq> None"

definition GetSymbolFileAtPathFromRoot :: "file_system \<Rightarrow> CodeModule option \<Rightarrow> string \<Rightarrow> string option" where
  "GetSymbolFileAtPathFromRoot fs module root_path =
     (case module of
        None \<Rightarrow> None
      | Some m \<Rightarrow>
          let path = root_path @ ''/''; debug_file_name = PathnameStripper_File (debug_file m) in
          if debug_file_name = [] then None
          else
            let path = path @ debug_file_name @ ''/''; identifier = debug_identifier m in
            if identifier = [] then None
            else
              let path = path @ identifier @ ''/'';
                  debug_file_extension = (if length debug_file_name > 4
                    then map to_lower (drop (length debug_file_name - 4) debug_file_name) else []);
                  path = path @ (if debug_file_extension = ''.pdb''
                    then take (length debug_file_name - 4) debug_file_name else debug_file_name) @ ''.sym'' in
              if file_exists fs path then Some path else None)"

section \<open>The supplier\<close>

datatype symbol_result = NOT_FOUND | FOUND nat nat | INTERRUPT

record simple_supplier =
  sup_buffers :: "(string, nat) std_map"
  sup_paths :: "string list"

definition SimpleSymbolSupplier :: "string list \<Rightarrow> simple_supplier" where
  "SimpleSymbolSupplier paths = \<lparr>sup_buffers = [], sup_paths = paths\<rparr>"

fun search_paths :: "file_system \<Rightarrow> CodeModule option \<Rightarrow> string list \<Rightarrow> string option" where
  "search_paths fs module [] = None"
| "search_paths fs module (path # paths) =
     (case GetSymbolFileAtPathFromRoot fs module path of
        Some symbol_file \<Rightarrow> Some symbol_file
      | None \<Rightarrow> search_paths fs module paths)"

definition GetSymbolFile :: "file_system \<Rightarrow> simple_supplier \<Rightarrow> CodeModule option \<Rightarrow> string option" where
  "GetSymbolFile fs s module = search_paths fs module (sup_paths s)"

text \<open>
  The overload that reads the file: \<open>getline\<close> stops at the delimiter it is given, which is the
  character \<open>0xFF\<close> that \<open>to_char_type(eof())\<close> yields. A file that cannot be opened reads as empty.
\<close>

definition read_symbol_data :: "file_system \<Rightarrow> string \<Rightarrow> string" where
  "read_symbol_data fs symbol_file =
     (case fs (c_string symbol_file) of
        Some (_, Some contents) \<Rightarrow> takeWhile (\<lambda>c. c \<noteq> CHR 0xFF) contents
      | _ \<Rightarrow> [])"

definition GetSymbolFileData :: "file_system \<Rightarrow> simple_supplier \<Rightarrow> CodeModule option \<Rightarrow> string option" where
  "GetSymbolFileData fs s module = map_option (read_symbol_data fs) (GetSymbolFile fs s module)"

definition GetCStringSymbolData ::
  "file_system \<Rightarrow> allocation \<Rightarrow> simple_supplier \<Rightarrow> heap \<Rightarrow> CodeModule \<Rightarrow> (symbol_result \<times> simple_supplier \<times> heap) option" where
  "GetCStringSymbolData fs alloc s h module =
     (case GetSymbolFileData fs s (Some module) of
        None \<Rightarrow> Some (NOT_FOUND, s, h)
      | Some symbol_data_string \<Rightarrow>
          let symbol_data_size = length symbol_data_string + 1 in
          case new_chars alloc symbol_data_size h of (symbol_data, h) \<Rightarrow>
            if symbol_data = 0 then Some (INTERRUPT, s, h)
            else Some (FOUND symbol_data symbol_data_size,
              s\<lparr>sup_buffers := map_insert (code_file module) symbol_data (sup_buffers s)\<rparr>,
              copy_chars symbol_data (map char_byte symbol_data_string @ [0]) h))"

definition FreeSymbolData ::
  "simple_supplier \<Rightarrow> heap \<Rightarrow> CodeModule option \<Rightarrow> (simple_supplier \<times> heap) option" where
  "FreeSymbolData s h module =
     (case module of
        None \<Rightarrow> Some (s, h)
      | Some m \<Rightarrow>
          let it = map_find (sup_buffers s) (code_file m) in
          if it = length (sup_buffers s) then Some (s, h)
          else do { h \<leftarrow> delete_chars (snd (sup_buffers s ! it)) h;
                    Some (s\<lparr>sup_buffers := map_erase it (sup_buffers s)\<rparr>, h) })"

section \<open>The path stripper\<close>

lemma rfind_append: "c \<notin> set t \<Longrightarrow> rfind c (s @ c # t) = Some (length s)"
proof -
  have "c \<notin> set t \<Longrightarrow> rfind c t = None" for t by (induction t) auto
  then show "c \<notin> set t \<Longrightarrow> rfind c (s @ c # t) = Some (length s)" by (induction s) auto
qed

lemma rfind_None_iff: "rfind c s = None \<longleftrightarrow> c \<notin> set s"
  by (induction s) (auto split: option.splits)

lemma rfind_append_bound: "c \<notin> set t \<Longrightarrow> rfind c (s @ t) = rfind c s"
proof (induction s)
  case Nil
  then show ?case by (simp add: rfind_None_iff)
qed simp

lemma rfind_less: "rfind c s = Some i \<Longrightarrow> i < length s"
  by (induction s arbitrary: i) (auto split: option.splits if_splits)

definition path_sep :: "char \<Rightarrow> bool" where
  "path_sep c \<longleftrightarrow> c = CHR ''/'' \<or> c = CHR 0x5C"

lemma PathnameStripper_File_dir:
  assumes "path_sep c" and "\<forall>d \<in> set name. \<not> path_sep d"
  shows "PathnameStripper_File (dir @ c # name) = name"
proof -
  have n: "CHR ''/'' \<notin> set name" "CHR 0x5C \<notin> set name" using assms(2) by (auto simp: path_sep_def)
  have lt: "rfind d dir = Some i \<Longrightarrow> i < length dir" for d i by (rule rfind_less)
  have other: "rfind d (dir @ c # name) = rfind d dir" if "d \<notin> set (c # name)" for d
    by (rule rfind_append_bound [OF that])
  show ?thesis
  proof (cases "c = CHR ''/''")
    case True
    have "rfind CHR ''/'' (dir @ c # name) = Some (length dir)" using n(1) True rfind_append by simp
    moreover have "rfind CHR 0x5C (dir @ c # name) = rfind CHR 0x5C dir" using n True by (intro other) simp
    ultimately show ?thesis
      using lt [of "CHR 0x5C"] by (cases "rfind CHR 0x5C dir") (simp_all add: PathnameStripper_File_def Let_def)
  next
    case False
    then have c: "c = CHR 0x5C" using assms(1) by (simp add: path_sep_def)
    have "rfind CHR 0x5C (dir @ c # name) = Some (length dir)" using n(2) c rfind_append by simp
    moreover have "rfind CHR ''/'' (dir @ c # name) = rfind CHR ''/'' dir" using n c by (intro other) simp
    ultimately show ?thesis
      using lt [of "CHR ''/''"] by (cases "rfind CHR ''/'' dir") (simp_all add: PathnameStripper_File_def Let_def)
  qed
qed

lemma PathnameStripper_File_plain:
  "\<forall>d \<in> set name. \<not> path_sep d \<Longrightarrow> PathnameStripper_File name = name"
proof -
  assume n: "\<forall>d \<in> set name. \<not> path_sep d"
  have "rfind CHR ''/'' name = None" "rfind CHR 0x5C name = None"
    unfolding rfind_None_iff using n by (auto simp: path_sep_def)
  then show "PathnameStripper_File name = name" by (simp add: PathnameStripper_File_def)
qed

text \<open>
  The last component of a path is what follows its last separator, a slash or a backslash. The base
  of a symbol file is the name without its \<open>.pdb\<close> ending, in any case of letters, and the whole
  name when it does not end so. (The name \<open>.pdb\<close> alone, whose base would be empty, is left out.)
\<close>

definition last_component :: "string \<Rightarrow> string \<Rightarrow> bool" where
  "last_component path name \<longleftrightarrow>
     (\<forall>d \<in> set name. \<not> path_sep d) \<and> (path = name \<or> (\<exists>dir c. path_sep c \<and> path = dir @ c # name))"

definition pdb_ending :: "string \<Rightarrow> bool" where
  "pdb_ending ext \<longleftrightarrow> map to_lower ext = ''.pdb''"

definition symbol_base :: "string \<Rightarrow> string \<Rightarrow> bool" where
  "symbol_base name base \<longleftrightarrow>
     base \<noteq> [] \<and> (\<exists>ext. pdb_ending ext \<and> name = base @ ext) \<or>
     base = name \<and> (\<nexists>b ext. pdb_ending ext \<and> name = b @ ext)"

lemma PathnameStripper_File_last: "last_component path name \<Longrightarrow> PathnameStripper_File path = name"
  by (auto simp: last_component_def PathnameStripper_File_plain PathnameStripper_File_dir)

lemma last_component_exists: "\<exists>name. last_component path name"
proof (induction path rule: rev_induct)
  case Nil
  show ?case by (simp add: last_component_def)
next
  case (snoc d path)
  then obtain name where n: "last_component path name" by blast
  show ?case
  proof (cases "path_sep d")
    case True
    then have "last_component (path @ [d]) []" by (auto simp: last_component_def)
    then show ?thesis by blast
  next
    case False
    then have "last_component (path @ [d]) (name @ [d])" using n by (auto simp: last_component_def)
    then show ?thesis by blast
  qed
qed

lemma pdb_ending_length: "pdb_ending ext \<Longrightarrow> length ext = 4"
  unfolding pdb_ending_def by (drule arg_cong [of _ _ length]) simp

text \<open>The extension that the code takes decides between the two cases of \<open>symbol_base\<close>.\<close>

lemma symbol_base_code:
  assumes "symbol_base name base"
  shows "(if (if length name > 4 then map to_lower (drop (length name - 4) name) else []) = ''.pdb''
    then take (length name - 4) name else name) = base"
proof (cases "length name > 4 \<and> pdb_ending (drop (length name - 4) name)")
  case True
  then have "\<exists>b ext. pdb_ending ext \<and> name = b @ ext" by (metis append_take_drop_id)
  then obtain ext where "pdb_ending ext" "name = base @ ext" using assms by (auto simp: symbol_base_def)
  then show ?thesis using True pdb_ending_length [of ext] by (simp add: pdb_ending_def)
next
  case False
  have "base = name"
  proof (rule ccontr)
    assume "base \<noteq> name"
    then obtain ext where "base \<noteq> []" "pdb_ending ext" "name = base @ ext" using assms by (auto simp: symbol_base_def)
    then show False using False pdb_ending_length [of ext] by simp
  qed
  then show ?thesis using False by (auto simp: pdb_ending_def)
qed

text \<open>C17: The symbol file of a module is the first that exists, root by root, of
  \<open>root/name/identifier/base.sym\<close>, with \<open>name\<close> the last component of the debug file, whether its path
  uses slashes, backslashes or no directory at all, and \<open>base\<close> that name without a \<open>.pdb\<close> ending, in
  any case of letters; a name with another ending is kept whole (the name \<open>.pdb\<close> alone is left out). None is found without a module, for a
  debug file without a last component and for an empty identifier.\<close>

theorem symbol_file_location:
  assumes "last_component (debug_file m) name" and "symbol_base name base"
  shows "GetSymbolFile fs supplier None = None \<and>
    GetSymbolFile fs supplier (Some m) =
      (if name = [] \<or> debug_identifier m = [] then None
       else List.find (file_exists fs)
        (map (\<lambda>root. root @ ''/'' @ name @ ''/'' @ debug_identifier m @ ''/'' @ base @ ''.sym'') (sup_paths supplier)))"
proof (intro conjI)
  have "search_paths fs None roots = None" for roots
    by (induction roots) (simp_all add: GetSymbolFileAtPathFromRoot_def)
  then show "GetSymbolFile fs supplier None = None" by (simp add: GetSymbolFile_def)
  let ?path = "\<lambda>root. root @ ''/'' @ name @ ''/'' @ debug_identifier m @ ''/'' @ base @ ''.sym''"
  have "GetSymbolFileAtPathFromRoot fs (Some m) root =
      (if name = [] \<or> debug_identifier m = [] then None else if file_exists fs (?path root) then Some (?path root) else None)"
    for root
    using symbol_base_code [OF assms(2)]
    by (simp only: GetSymbolFileAtPathFromRoot_def PathnameStripper_File_last [OF assms(1)] Let_def option.case)
      (cases "name = []"; cases "debug_identifier m = []"; simp)
  then have "search_paths fs (Some m) roots =
      (if name = [] \<or> debug_identifier m = [] then None else List.find (file_exists fs) (map ?path roots))" for roots
    by (induction roots) auto
  then show "GetSymbolFile fs supplier (Some m) =
      (if name = [] \<or> debug_identifier m = [] then None else List.find (file_exists fs) (map ?path (sup_paths supplier)))"
    by (simp add: GetSymbolFile_def)
qed

definition example_windows_module :: CodeModule where
  "example_windows_module = BasicCodeModule 0x1000 0x1000 ''app.exe'' [] (''c:'' @ [CHR 0x5C] @ ''out/app.PDB'') ''AB1'' [] False"

lemma pdb_ending_PDB: "pdb_ending ''.PDB''"
  by code_simp

definition example_files :: file_system where
  "example_files = (\<lambda>f. if f = ''sym/app.PDB/AB1/app.sym'' then Some (0, Some []) else None)"

theorem symbol_file_location_witness:
  "GetSymbolFile example_files \<lparr>sup_buffers = [], sup_paths = [''old'', ''sym'']\<rparr> (Some example_windows_module) =
     Some ''sym/app.PDB/AB1/app.sym''"
proof -
  have path: "debug_file example_windows_module = (''c:'' @ [CHR 0x5C] @ ''out'') @ CHR ''/'' # ''app.PDB''"
    by (simp add: example_windows_module_def BasicCodeModule_def)
  have "last_component (debug_file example_windows_module) ''app.PDB''"
    unfolding last_component_def path
    by (intro conjI disjI2 exI [of _ "''c:'' @ [CHR 0x5C] @ ''out''"] exI [of _ "CHR ''/''"]) (simp_all add: path_sep_def)
  moreover have "symbol_base ''app.PDB'' ''app''"
    unfolding symbol_base_def using pdb_ending_PDB by (intro disjI1 conjI exI [of _ "''.PDB''"]) simp_all
  ultimately have "GetSymbolFile example_files \<lparr>sup_buffers = [], sup_paths = [''old'', ''sym'']\<rparr> (Some example_windows_module) =
      (if ''app.PDB'' = [] \<or> debug_identifier example_windows_module = [] then None
       else List.find (file_exists example_files)
        (map (\<lambda>root. root @ ''/'' @ ''app.PDB'' @ ''/'' @ debug_identifier example_windows_module @ ''/'' @ ''app'' @ ''.sym'')
          (sup_paths \<lparr>sup_buffers = [], sup_paths = [''old'', ''sym'']\<rparr>)))"
    by (rule symbol_file_location [THEN conjunct2])
  also have "\<dots> = Some ''sym/app.PDB/AB1/app.sym''"
    by code_simp
  finally show ?thesis .
qed

end
