(* ===== verification/Frame_Symbolizer.thy ===== *)
theory Frame_Symbolizer
  imports Symbol_Supplier Resolver_Classes
begin

text \<open>
  \<open>StackFrameSymbolizer\<close> of processor/stack_frame_symbolizer.cc: it finds the module of a frame,
  asks the supplier for symbols the first time a module is met, loads them into the resolver and
  remembers which modules have none. The virtual \<open>SymbolSupplier\<close> is the record
  \<open>supplier_class\<close>; the system information, constant during a walk, is part of it. In the locale
  \<open>symbol_supply\<close> the answers are shown not to depend on what was asked before.
\<close>

section \<open>Data and operations\<close>

record 's supplier_class =
  get_symbol_data :: "'s \<Rightarrow> heap \<Rightarrow> CodeModule \<Rightarrow> (symbol_result \<times> 's \<times> heap) option"
  free_symbol_data :: "'s \<Rightarrow> heap \<Rightarrow> CodeModule \<Rightarrow> ('s \<times> heap) option"

datatype symbolizer_result = kNoError | kError | kInterrupt | kWarningCorruptSymbols

record ('m, 's) symbolizer =
  supplier :: "'s option"
  resolver :: "'m resolver option"
  no_symbol_modules :: "(string, unit) std_map"

definition StackFrameSymbolizer :: "'s option \<Rightarrow> 'm resolver option \<Rightarrow> ('m, 's) symbolizer" where
  "StackFrameSymbolizer provider res = \<lparr>supplier = provider, resolver = res, no_symbol_modules = []\<rparr>"

definition Reset :: "('m, 's) symbolizer \<Rightarrow> ('m, 's) symbolizer" where
  "Reset S = S\<lparr>no_symbol_modules := []\<rparr>"

definition HasImplementation :: "('m, 's) symbolizer \<Rightarrow> bool" where
  "HasImplementation S \<longleftrightarrow> resolver S \<noteq> None \<and> supplier S \<noteq> None"

definition module_at :: "basic_code_modules option \<Rightarrow> basic_code_modules option \<Rightarrow> uint64 \<Rightarrow> CodeModule option" where
  "module_at modules unloaded_modules address =
     (let module = (case modules of None \<Rightarrow> None | Some ms \<Rightarrow> GetModuleForAddress ms address) in
      case module of
        Some m \<Rightarrow> Some m
      | None \<Rightarrow> (case unloaded_modules of None \<Rightarrow> None | Some ms \<Rightarrow> GetModuleForAddress ms address))"

text \<open>The resolver fills the frame in, and the result tells whether its module is corrupt.\<close>

definition fill_loaded ::
  "'m module_class \<Rightarrow> CodeModule \<Rightarrow> 'm resolver \<Rightarrow> heap \<Rightarrow> 'a module_frame_scheme \<Rightarrow>
     (symbolizer_result \<times> 'a module_frame_scheme) option" where
  "fill_loaded cls m R h frame =
     do { frame \<leftarrow> FillSourceLineInfo cls (heap_memory h) R frame;
          Some (if IsModuleCorrupt (Some m) R then kWarningCorruptSymbols else kNoError, frame) }"

definition SymbolizerFillSourceLineInfo ::
  "'m module_class \<Rightarrow> 's supplier_class \<Rightarrow> basic_code_modules option \<Rightarrow> basic_code_modules option \<Rightarrow>
     'a module_frame_scheme \<Rightarrow> ('m, 's) symbolizer \<Rightarrow> heap \<Rightarrow>
     (symbolizer_result \<times> 'a module_frame_scheme \<times> ('m, 's) symbolizer \<times> heap) option" where
  "SymbolizerFillSourceLineInfo cls provider modules unloaded_modules frame S h =
     (case module_at modules unloaded_modules (instruction (frame_info frame)) of
        None \<Rightarrow> Some (kError, frame, S, h)
      | Some m \<Rightarrow>
          let frame = frame\<lparr>frame_module := Some m\<rparr> in
          case resolver S of
            None \<Rightarrow> Some (kError, frame, S, h)
          | Some R \<Rightarrow>
              if has_key (no_symbol_modules S) (code_file m) then Some (kError, frame, S, h)
              else if HasModule (Some m) R then
                do { (result, frame) \<leftarrow> fill_loaded cls m R h frame; Some (result, frame, S, h) }
              else
                case supplier S of
                  None \<Rightarrow> Some (kError, frame, S, h)
                | Some s \<Rightarrow> do {
                    (symbol_result, s, h) \<leftarrow> get_symbol_data provider s h m;
                    let missing = S\<lparr>supplier := Some s,
                      no_symbol_modules := map_insert (code_file m) () (no_symbol_modules S)\<rparr>;
                    case symbol_result of
                      FOUND symbol_data symbol_data_size \<Rightarrow> do {
                        (load_success, R) \<leftarrow>
                          LoadModuleUsingMemoryBuffer cls (Some m) symbol_data symbol_data_size (heap_memory h) R;
                        (s, h) \<leftarrow> (if delete_after_load cls then free_symbol_data provider s h m else Some (s, h));
                        if load_success then do {
                          (result, frame) \<leftarrow> fill_loaded cls m R h frame;
                          Some (result, frame, S\<lparr>supplier := Some s, resolver := Some R\<rparr>, h) }
                        else Some (kError, frame, missing\<lparr>supplier := Some s, resolver := Some R\<rparr>, h) }
                    | NOT_FOUND \<Rightarrow> Some (kError, frame, missing, h)
                    | INTERRUPT \<Rightarrow> Some (kInterrupt, frame, S\<lparr>supplier := Some s\<rparr>, h) })"

definition SymbolizerFindWindowsFrameInfo ::
  "'m module_class \<Rightarrow> 'a module_frame_scheme \<Rightarrow> ('m, 's) symbolizer \<Rightarrow> heap \<Rightarrow> windows_frame_info option option" where
  "SymbolizerFindWindowsFrameInfo cls frame S h =
     (case resolver S of
        None \<Rightarrow> Some None
      | Some R \<Rightarrow> ResolverFindWindowsFrameInfo cls (heap_memory h) R frame)"

definition SymbolizerFindCFIFrameInfo ::
  "'m module_class \<Rightarrow> 'a module_frame_scheme \<Rightarrow> ('m, 's) symbolizer \<Rightarrow> heap \<Rightarrow> cfi_frame_info option option" where
  "SymbolizerFindCFIFrameInfo cls frame S h =
     (case resolver S of
        None \<Rightarrow> Some None
      | Some R \<Rightarrow> ResolverFindCFIFrameInfo cls (heap_memory h) R frame)"

section \<open>Answers do not depend on the history\<close>

text \<open>
  \<open>symbols\<close> says which symbols each known module has. A supplier may allocate but changes no live
  block; what it finds is a live buffer that encodes the symbols.
\<close>

definition heap_extends :: "heap \<Rightarrow> heap \<Rightarrow> bool" where
  "heap_extends h h' \<longleftrightarrow> (\<forall>q n. live h q = Some n \<longrightarrow>
     live h' q = Some n \<and> agree (heap_memory h) (heap_memory h') q n)"

text \<open>The frame of a module, filled in from its symbols.\<close>

definition symbolized ::
  "(CodeModule \<Rightarrow> sym_module option) \<Rightarrow> CodeModule \<Rightarrow> 'a module_frame_scheme \<Rightarrow>
     symbolizer_result \<times> 'a module_frame_scheme" where
  "symbolized symbols m frame =
     (case symbols m of
        None \<Rightarrow> (kError, frame\<lparr>frame_module := Some m\<rparr>)
      | Some M \<Rightarrow> (if is_corrupt M then kWarningCorruptSymbols else kNoError,
          frame\<lparr>frame_module := Some m, frame_info := LookupAddress M (query_frame m frame)\<rparr>))"

text \<open>
  The registry tells modules apart by their file name only: modules of one name must have the
  same symbols.
\<close>

definition same_names :: "CodeModule set \<Rightarrow> (CodeModule \<Rightarrow> sym_module option) \<Rightarrow> bool" where
  "same_names K symbols \<longleftrightarrow> (\<forall>m \<in> K. \<forall>m' \<in> K. module_key m = module_key m' \<longrightarrow> symbols m = symbols m')"

definition symbolizer_ok ::
  "'m module_class \<Rightarrow> (memory \<Rightarrow> nat \<Rightarrow> nat \<Rightarrow> 'm \<Rightarrow> sym_module \<Rightarrow> bool) \<Rightarrow> ('s \<Rightarrow> heap \<Rightarrow> bool) \<Rightarrow>
     CodeModule set \<Rightarrow> (CodeModule \<Rightarrow> sym_module option) \<Rightarrow> ('m, 's) symbolizer \<Rightarrow> heap \<Rightarrow> bool" where
  "symbolizer_ok cls denotes supplier_ok K symbols S h \<longleftrightarrow>
     keys_sorted (no_symbol_modules S) \<and> same_names K symbols \<and>
     (\<exists>R s A. resolver S = Some R \<and> supplier S = Some s \<and> supplier_ok s h \<and>
        resolver_inv cls denotes (R, h, A) \<and>
        (\<forall>m \<in> K. \<forall>M. loaded_symbols A (Some m) = Some M \<longrightarrow> symbols m = Some M) \<and>
        (\<forall>m \<in> K. map_of (no_symbol_modules S) (code_file m) \<noteq> None \<longrightarrow> symbols m = None))"

text \<open>Symbolizing loads modules and unloads none.\<close>

definition resolver_grows :: "('m, 's) symbolizer \<Rightarrow> ('m, 's) symbolizer \<Rightarrow> bool" where
  "resolver_grows S S' \<longleftrightarrow> (\<forall>R m. resolver S = Some R \<longrightarrow> HasModule (Some m) R \<longrightarrow>
     (\<exists>R'. resolver S' = Some R' \<and> HasModule (Some m) R'))"

lemma resolver_grows_same [simp]: "resolver S' = resolver S \<Longrightarrow> resolver_grows S S'"
  by (simp add: resolver_grows_def)

locale symbol_supply = module_contract cls encodes denotes
  for cls :: "'m module_class" and encodes denotes +
  fixes provider :: "'s supplier_class"
    and supplier_ok :: "'s \<Rightarrow> heap \<Rightarrow> bool"
    and known :: "CodeModule set"
    and symbols :: "CodeModule \<Rightarrow> sym_module option"
    and interrupts :: bool
  assumes supplies: "supplier_ok s h \<Longrightarrow> m \<in> known \<Longrightarrow>
      \<exists>result s' h'. get_symbol_data provider s h m = Some (result, s', h') \<and> supplier_ok s' h' \<and> heap_extends h h' \<and>
        (case result of
           NOT_FOUND \<Rightarrow> symbols m = None
         | FOUND p n \<Rightarrow> (\<exists>M. symbols m = Some M \<and> encodes (heap_memory h') p n M) \<and>
             live h p = None \<and> live h' p = Some n
         | INTERRUPT \<Rightarrow> interrupts)"
    and frees: "supplier_ok s h \<Longrightarrow> delete_after_load cls \<Longrightarrow>
      \<exists>s' h'. free_symbol_data provider s h m = Some (s', h') \<and> supplier_ok s' h'"
begin

lemma inv_extends:
  assumes "resolver_inv cls denotes (R, h, A)" and "heap_extends h h'"
  shows "resolver_inv cls denotes (R, h', A)"
proof (rule inv_environment [OF assms(1)])
  fix k p n M assume k: "A k = Some (p, n, M)"
  have "entry_ok cls denotes R h k (A k)" using assms(1) by (simp add: resolver_inv_def)
  then have "delete_after_load cls \<or> live h p = Some n" using k by (simp add: entry_ok_def)
  then show "delete_after_load cls \<or> live h' p = Some n \<and> agree (heap_memory h) (heap_memory h') p n"
    using assms(2) by (auto simp: heap_extends_def)
qed

lemma fill_loaded_symbols:
  assumes inv: "resolver_inv cls denotes (R, h, A)" and "loaded_symbols A (Some m) = Some M"
    and "frame_module frame = Some m"
  shows "fill_loaded cls m R h frame =
    Some (if is_corrupt M then kWarningCorruptSymbols else kNoError,
      frame\<lparr>frame_info := LookupAddress M (query_frame m frame)\<rparr>)"
  using assms(2,3) by (auto simp: fill_loaded_def queries_ok [OF inv] filled_frame_def)

lemma loaded_symbols_upd:
  "loaded_symbols (A(module_key m \<mapsto> (p, n, M))) (Some m') =
     (if module_key m' = module_key m then Some M else loaded_symbols A (Some m'))"
  by (simp add: loaded_symbols_def)

text \<open>
  The answer is that of the symbols of the module, unless the supplier interrupts; then the module
  is loaded if it has symbols.
\<close>

lemma FillSourceLineInfo_symbolized:
  assumes ok: "symbolizer_ok cls denotes supplier_ok K symbols S h"
    and m: "module_at modules unloaded (instruction (frame_info frame)) = Some m" "m \<in> K" and K: "K \<subseteq> known"
  shows "\<exists>result frame' S' h'.
    SymbolizerFillSourceLineInfo cls provider modules unloaded frame S h = Some (result, frame', S', h') \<and>
    symbolizer_ok cls denotes supplier_ok K symbols S' h' \<and> resolver_grows S S' \<and>
    (result = kInterrupt \<and> interrupts \<or> (result, frame') = symbolized symbols m frame \<and>
      (symbols m \<noteq> None \<longrightarrow> (\<exists>R'. resolver S' = Some R' \<and> HasModule (Some m) R')))"
proof -
  obtain R s A where S: "resolver S = Some R" "supplier S = Some s" "supplier_ok s h"
    and inv: "resolver_inv cls denotes (R, h, A)"
    and loaded: "\<And>m M. m \<in> K \<Longrightarrow> loaded_symbols A (Some m) = Some M \<Longrightarrow> symbols m = Some M"
    and missing: "\<And>m. m \<in> K \<Longrightarrow> map_of (no_symbol_modules S) (code_file m) \<noteq> None \<Longrightarrow> symbols m = None"
    and ks: "keys_sorted (no_symbol_modules S)" and names: "same_names K symbols"
    using ok unfolding symbolizer_ok_def by blast
  have same_name: "symbols m = symbols m'" if "m \<in> K" "m' \<in> K" "module_key m = module_key m'" for m m'
    using names that unfolding same_names_def by blast
  let ?f = "frame\<lparr>frame_module := Some m\<rparr>"
  have q: "query_frame m ?f = query_frame m frame" by (simp add: query_frame_def)
  show ?thesis
  proof (cases "has_key (no_symbol_modules S) (code_file m)")
    case True
    then have "symbols m = None" using missing m(2) ks by (simp add: has_key_iff)
    then show ?thesis
      using True m(1) S ok by (simp add: SymbolizerFillSourceLineInfo_def symbolized_def)
  next
    case new: False
    show ?thesis
    proof (cases "loaded_symbols A (Some m)")
      case (Some M)
      then have "symbols m = Some M" using loaded m(2) by blast
      moreover have "HasModule (Some m) R" using Some by (simp add: queries_ok [OF inv])
      ultimately show ?thesis
        using new m(1) S ok fill_loaded_symbols [OF inv Some, of ?f]
        by (simp add: SymbolizerFillSourceLineInfo_def symbolized_def q)
    next
      case None
      then have nh: "\<not> HasModule (Some m) R" and key: "A (module_key m) = None"
        by (simp_all add: queries_ok [OF inv] loaded_symbols_def)
      obtain res s1 h1 where get: "get_symbol_data provider s h m = Some (res, s1, h1)" "supplier_ok s1 h1"
          "heap_extends h h1"
        and res: "case res of
           NOT_FOUND \<Rightarrow> symbols m = None
         | FOUND p n \<Rightarrow> (\<exists>M. symbols m = Some M \<and> encodes (heap_memory h1) p n M) \<and>
             live h p = None \<and> live h1 p = Some n
         | INTERRUPT \<Rightarrow> interrupts"
        using supplies [OF S(3), of m] m(2) K by blast
      have inv1: "resolver_inv cls denotes (R, h1, A)" by (rule inv_extends [OF inv get(3)])
      show ?thesis
      proof (cases res)
        case NOT_FOUND
        have ks': "keys_sorted (map_insert (code_file m) () (no_symbol_modules S))"
          using ks by (rule keys_sorted_map_insert)
        have "symbols m' = None" if "m' \<in> K"
          "map_of (map_insert (code_file m) () (no_symbol_modules S)) (code_file m') \<noteq> None" for m'
        proof (cases "code_file m' = code_file m")
          case True
          then have "symbols m' = symbols m" using that(1) m(2) by (intro same_name) (simp_all add: module_key_def)
          then show ?thesis using res NOT_FOUND by simp
        next
          case False
          then show ?thesis using missing [OF that(1)] that(2) ks by (simp add: map_of_map_insert split: option.splits)
        qed
        then have "symbolizer_ok cls denotes supplier_ok K symbols (S\<lparr>supplier := Some s1, no_symbol_modules := map_insert (code_file m) () (no_symbol_modules S)\<rparr>) h1"
          using ks' S get(2) inv1 loaded names by (auto simp: symbolizer_ok_def)
        then show ?thesis
          using new nh m(1) S get(1) res NOT_FOUND
          by (simp add: SymbolizerFillSourceLineInfo_def symbolized_def Let_def)
      next
        case INTERRUPT
        have "symbolizer_ok cls denotes supplier_ok K symbols (S\<lparr>supplier := Some s1\<rparr>) h1"
          using ks S get(2) inv1 loaded missing names by (auto simp: symbolizer_ok_def)
        then show ?thesis
          using new nh m(1) S get(1) INTERRUPT res
          by (simp add: SymbolizerFillSourceLineInfo_def Let_def)
      next
        case (FOUND p n)
        obtain M where M: "symbols m = Some M" "encodes (heap_memory h1) p n M"
          and p: "live h p = None" "live h1 p = Some n"
          using res FOUND by auto
        obtain md R' where ld: "LoadModuleUsingMemoryBuffer cls (Some m) p n (heap_memory h1) R = Some (True, R')"
          using load_buffer [OF inv1 M(2), of m] key by metis
        have "delete_after_load cls \<or> live h1 p = Some n \<and> p \<notin> snd ` set (memory_buffers R)"
          using kept_buffer(2) [OF inv] p by fastforce
        then have inv2: "resolver_inv cls denotes (R', h1, A(module_key m \<mapsto> (p, n, M)))"
          using memory_buffer_step [OF inv1 M(2) _ ld] by blast
        obtain s2 h2 where free: "(if delete_after_load cls then free_symbol_data provider s1 h1 m else Some (s1, h1)) = Some (s2, h2)"
          and s2: "supplier_ok s2 h2" and h2: "delete_after_load cls \<or> h2 = h1"
          using frees [OF get(2), of m] get(2) by (cases "delete_after_load cls") auto
        have inv3: "resolver_inv cls denotes (R', h2, A(module_key m \<mapsto> (p, n, M)))"
        proof (cases "delete_after_load cls")
          case True
          then show ?thesis using inv_environment [OF inv2] by blast
        qed (use inv2 h2 in simp)
        let ?A = "A(module_key m \<mapsto> (p, n, M))"
        have now: "loaded_symbols ?A (Some m) = Some M" by (simp add: loaded_symbols_def)
        note fill = fill_loaded_symbols [OF inv3 now, of ?f]
        have "HasModule (Some m) R'" using now by (simp add: queries_ok [OF inv3])
        have "resolver_grows S (S\<lparr>supplier := Some s2, resolver := Some R'\<rparr>)"
          using S(1) by (auto simp: resolver_grows_def queries_ok(1) [OF inv] queries_ok(1) [OF inv3] loaded_symbols_upd)
        moreover have "symbols m' = Some N" if "m' \<in> K" "loaded_symbols ?A (Some m') = Some N" for m' N
          using that loaded [OF that(1)] same_name [OF that(1) m(2)] M(1)
          by (auto simp: loaded_symbols_upd split: if_splits)
        then have "symbolizer_ok cls denotes supplier_ok K symbols (S\<lparr>supplier := Some s2, resolver := Some R'\<rparr>) h2"
          using ks s2 inv3 missing names by (auto simp: symbolizer_ok_def)
        ultimately show ?thesis
          using \<open>HasModule (Some m) R'\<close> new nh m(1) S get(1) FOUND ld free fill M(1)
          by (simp add: SymbolizerFillSourceLineInfo_def symbolized_def Let_def q)
      qed
    qed
  qed
qed

end

section \<open>The simple supplier\<close>

definition simple_class :: "file_system \<Rightarrow> allocation \<Rightarrow> simple_supplier supplier_class" where
  "simple_class fs alloc =
     \<lparr>get_symbol_data = GetCStringSymbolData fs alloc,
      free_symbol_data = (\<lambda>s h m. FreeSymbolData s h (Some m))\<rparr>"

definition simple_ok :: "allocation \<Rightarrow> string list \<Rightarrow> simple_supplier \<Rightarrow> heap \<Rightarrow> bool" where
  "simple_ok alloc roots s h \<longleftrightarrow> allocator alloc \<and> sup_paths s = roots \<and> keys_sorted (sup_buffers s) \<and>
     distinct (map snd (sup_buffers s)) \<and> (allocates alloc \<longrightarrow> finite (dom (live h))) \<and> (\<forall>p \<in> snd ` set (sup_buffers s). p \<noteq> 0 \<and> live h p \<noteq> None)"

text \<open>The modules whose symbol files are what \<open>symbols\<close> says, read from the file system.\<close>

definition described ::
  "encoding \<Rightarrow> file_system \<Rightarrow> string list \<Rightarrow> (CodeModule \<Rightarrow> sym_module option) \<Rightarrow> CodeModule set" where
  "described encodes fs roots symbols =
     {m. case GetSymbolFileData fs \<lparr>sup_buffers = [], sup_paths = roots\<rparr> (Some m) of
        None \<Rightarrow> symbols m = None
      | Some t \<Rightarrow> \<exists>M. symbols m = Some M \<and> text_encodes encodes t M}"

lemma distinct_insert_middle:
  assumes "distinct (xs @ ys)" and "z \<notin> set (xs @ ys)"
  shows "distinct (xs @ z # ys)"
  using assms by auto

lemma map_insert_pointers:
  assumes "distinct (map snd m)" and "p \<notin> snd ` set m"
  shows "distinct (map snd (map_insert k p m))"
proof -
  have split: "map snd m = map snd (take i m) @ map snd (drop i m)" for i
    by (metis append_take_drop_id map_append)
  have "distinct (map snd (take i m) @ map snd (drop i m))" for i
    using assms(1) split [of i] by argo
  moreover have "p \<notin> set (map snd (take i m) @ map snd (drop i m))" for i
    using assms(2) split [of i] by (metis list.set_map)
  ultimately have "distinct (map snd (take i m) @ p # map snd (drop i m))" for i
    by (rule distinct_insert_middle)
  then show ?thesis
    using assms(1) by (simp add: map_insert_at_lower_bound)
qed

lemma simple_supplies:
  assumes ok: "simple_ok alloc roots s h" and m: "m \<in> described encodes fs roots symbols"
  shows "\<exists>result s' h'. GetCStringSymbolData fs alloc s h m = Some (result, s', h') \<and> simple_ok alloc roots s' h' \<and>
    heap_extends h h' \<and>
    (case result of
       NOT_FOUND \<Rightarrow> symbols m = None
     | FOUND p n \<Rightarrow> (\<exists>M. symbols m = Some M \<and> encodes (heap_memory h') p n M) \<and> live h p = None \<and> live h' p = Some n
     | INTERRUPT \<Rightarrow> \<not> allocates alloc)"
proof -
  have al: "allocator alloc" and roots: "sup_paths s = roots" using ok by (simp_all add: simple_ok_def)
  have data: "GetSymbolFileData fs s (Some m) = GetSymbolFileData fs \<lparr>sup_buffers = [], sup_paths = roots\<rparr> (Some m)"
    by (simp add: GetSymbolFileData_def GetSymbolFile_def roots)
  show ?thesis
  proof (cases "GetSymbolFileData fs s (Some m)")
    case None
    then show ?thesis
      using ok m data by (auto simp: GetCStringSymbolData_def described_def heap_extends_def)
  next
    case (Some t)
    let ?n = "length t + 1"
    let ?p = "alloc h ?n"
    have read: "GetSymbolFileData fs \<lparr>sup_buffers = [], sup_paths = roots\<rparr> (Some m) = Some t"
      using data Some by simp
    obtain M where M: "symbols m = Some M" "text_encodes encodes t M"
      using m read by (auto simp: described_def)
    show ?thesis
    proof (cases "?p = 0")
      case True
      then show ?thesis
        using Some ok by (auto simp: GetCStringSymbolData_def new_chars_def heap_extends_def simple_ok_def allocates_def)
    next
      case False
      let ?bs = "map char_byte t @ [0]"
      define h1 where "h1 = copy_chars ?p ?bs (h\<lparr>live := (live h)(?p \<mapsto> ?n)\<rparr>)"
      define s1 where "s1 = s\<lparr>sup_buffers := map_insert (code_file m) ?p (sup_buffers s)\<rparr>"
      have get: "GetCStringSymbolData fs alloc s h m = Some (FOUND ?p ?n, s1, h1)"
        using Some False by (simp add: GetCStringSymbolData_def new_chars_def h1_def s1_def Let_def)
      have h1: "live h1 = (live h)(?p \<mapsto> ?n)" "heap_memory h1 = store_bytes ?p ?bs (heap_memory h)"
        by (simp_all add: h1_def copy_chars_def)
      have fresh: "live h ?p = None" using allocator_fresh(1) [OF al False] by fastforce
      have "heap_extends h h1"
        unfolding heap_extends_def
      proof (intro allI impI)
        fix q l assume l: "live h q = Some l"
        note f = allocator_fresh [OF al False l]
        then show "live h1 q = Some l \<and> agree (heap_memory h) (heap_memory h1) q l"
          using l unfolding h1 by (auto intro!: agree_store)
      qed
      moreover have "simple_ok alloc roots s1 h1"
      proof -
        have p: "?p \<notin> snd ` set (sup_buffers s)" using ok fresh by (auto simp: simple_ok_def)
        then have "distinct (map snd (sup_buffers s1))"
          using ok map_insert_pointers [of "sup_buffers s" ?p] by (simp add: s1_def simple_ok_def)
        moreover have "snd ` set (sup_buffers s1) \<subseteq> insert ?p (snd ` set (sup_buffers s))"
          using set_map_insert_subset [of "code_file m" ?p "sup_buffers s"] by (auto simp: s1_def)
        moreover have "keys_sorted (sup_buffers s1)" "sup_paths s1 = roots" "allocates alloc \<longrightarrow> finite (dom (live h1))"
          using ok by (simp_all add: simple_ok_def s1_def h1(1) keys_sorted_map_insert)
        ultimately show ?thesis
          using ok False unfolding simple_ok_def h1(1) by (metis fun_upd_apply insertE option.distinct(1) subsetD)
      qed
      moreover have "encodes (heap_memory h1) ?p ?n M"
        using M(2) False holds_store [of ?p ?bs "heap_memory h"] unfolding text_encodes_def h1(2) by blast
      ultimately show ?thesis using get M(1) fresh h1(1) by auto
    qed
  qed
qed

lemma simple_frees:
  assumes "simple_ok alloc roots s h"
  shows "\<exists>s' h'. FreeSymbolData s h (Some m) = Some (s', h') \<and> simple_ok alloc roots s' h'"
proof (cases "has_key (sup_buffers s) (code_file m)")
  case False
  then show ?thesis using assms by (simp add: FreeSymbolData_def has_key_def)
next
  case True
  let ?i = "map_find (sup_buffers s) (code_file m)"
  let ?p = "snd (sup_buffers s ! ?i)"
  have i: "?i < length (sup_buffers s)" by (rule map_find_hit(1) [OF True])
  define s1 where "s1 = s\<lparr>sup_buffers := map_erase ?i (sup_buffers s)\<rparr>"
  define h1 where "h1 = h\<lparr>live := (live h)(?p := None)\<rparr>"
  have "?p \<in> snd ` set (sup_buffers s)" using i by simp
  then have p: "?p \<noteq> 0" "live h ?p \<noteq> None" using assms unfolding simple_ok_def by blast+
  then have "delete_chars ?p h = Some h1" by (auto simp: delete_chars_def h1_def)
  then have free: "FreeSymbolData s h (Some m) = Some (s1, h1)"
    using True by (simp add: FreeSymbolData_def has_key_def Let_def s1_def)
  have bs: "sup_buffers s = take ?i (sup_buffers s) @ sup_buffers s ! ?i # drop (Suc ?i) (sup_buffers s)"
    using i by (simp add: id_take_nth_drop)
  have "distinct (map snd (take ?i (sup_buffers s) @ sup_buffers s ! ?i # drop (Suc ?i) (sup_buffers s)))"
    using assms bs by (simp add: simple_ok_def)
  then have "distinct (map snd (sup_buffers s1))" "?p \<notin> snd ` set (sup_buffers s1)"
    by (auto simp: s1_def map_erase_def)
  moreover have "snd ` set (sup_buffers s1) \<subseteq> snd ` set (sup_buffers s)"
    by (auto simp: s1_def map_erase_def dest: in_set_takeD in_set_dropD)
  moreover have "keys_sorted (sup_buffers s1)"
    using assms keys_sorted_erase [of "sup_buffers s" "code_file m"] True by (simp add: s1_def simple_ok_def erase_key_def)
  moreover have "sup_paths s1 = sup_paths s" "live h1 = (live h)(?p := None)"
      "allocates alloc \<longrightarrow> finite (dom (live h1))"
    using assms by (simp_all add: s1_def h1_def simple_ok_def)
  ultimately have "simple_ok alloc roots s1 h1"
    using assms unfolding simple_ok_def by (metis fun_upd_other subsetD)
  then show ?thesis using free by blast
qed

interpretation simple_basic: symbol_supply basic_class basic_encodes basic_denotes "simple_class fs alloc"
  "simple_ok alloc roots" "described basic_encodes fs roots symbols" symbols "\<not> allocates alloc"
  for fs alloc roots symbols
  by unfold_locales (simp_all add: simple_class_def simple_supplies simple_frees)

interpretation simple_fast: symbol_supply fast_class fast_encodes fast_denotes "simple_class fs alloc"
  "simple_ok alloc roots" "described fast_encodes fs roots symbols" symbols "\<not> allocates alloc"
  for fs alloc roots symbols
  by unfold_locales (simp_all add: simple_class_def simple_supplies simple_frees)

section \<open>A run over many frames\<close>

text \<open>The frames of a run, symbolized one after the other.\<close>

fun symbolize_frames ::
  "'m module_class \<Rightarrow> 's supplier_class \<Rightarrow> basic_code_modules option \<Rightarrow> basic_code_modules option \<Rightarrow>
     'a module_frame_scheme list \<Rightarrow> ('m, 's) symbolizer \<Rightarrow> heap \<Rightarrow>
     ((symbolizer_result \<times> 'a module_frame_scheme) list \<times> ('m, 's) symbolizer \<times> heap) option" where
  "symbolize_frames cls provider modules unloaded [] S h = Some ([], S, h)"
| "symbolize_frames cls provider modules unloaded (frame # frames) S h =
     do { (result, frame, S, h) \<leftarrow> SymbolizerFillSourceLineInfo cls provider modules unloaded frame S h;
          (answers, S, h) \<leftarrow> symbolize_frames cls provider modules unloaded frames S h;
          Some ((result, frame) # answers, S, h) }"

text \<open>What a frame is answered, without any state.\<close>

definition frame_answer ::
  "(CodeModule \<Rightarrow> sym_module option) \<Rightarrow> basic_code_modules option \<Rightarrow> basic_code_modules option \<Rightarrow>
     'a module_frame_scheme \<Rightarrow> symbolizer_result \<times> 'a module_frame_scheme" where
  "frame_answer symbols modules unloaded frame =
     (case module_at modules unloaded (instruction (frame_info frame)) of
        None \<Rightarrow> (kError, frame)
      | Some m \<Rightarrow> symbolized symbols m frame)"

definition frame_modules ::
  "basic_code_modules option \<Rightarrow> basic_code_modules option \<Rightarrow> 'a module_frame_scheme list \<Rightarrow> CodeModule set" where
  "frame_modules modules unloaded frames =
     {m. \<exists>frame \<in> set frames. module_at modules unloaded (instruction (frame_info frame)) = Some m}"

text \<open>What the stack walker asks about an answered frame.\<close>

definition cfi_answer :: "(CodeModule \<Rightarrow> sym_module option) \<Rightarrow> 'a module_frame_scheme \<Rightarrow> cfi_frame_info option" where
  "cfi_answer symbols frame =
     (case frame_module frame of
        None \<Rightarrow> None
      | Some m \<Rightarrow> (case symbols m of None \<Rightarrow> None | Some M \<Rightarrow> FindCFIFrameInfo M (query_frame m frame)))"

definition windows_answer ::
  "(CodeModule \<Rightarrow> sym_module option) \<Rightarrow> 'a module_frame_scheme \<Rightarrow> windows_frame_info option" where
  "windows_answer symbols frame =
     (case frame_module frame of
        None \<Rightarrow> None
      | Some m \<Rightarrow> (case symbols m of None \<Rightarrow> None | Some M \<Rightarrow> FindWindowsFrameInfo M (query_frame m frame)))"

context symbol_supply
begin

lemma FillSourceLineInfo_answer:
  assumes ok: "symbolizer_ok cls denotes supplier_ok K symbols S h" and K: "K \<subseteq> known" and ni: "\<not> interrupts"
    and m: "\<And>m. module_at modules unloaded (instruction (frame_info frame)) = Some m \<Longrightarrow> m \<in> K"
    and fresh: "frame_module frame = None"
  shows "\<exists>S' h'. SymbolizerFillSourceLineInfo cls provider modules unloaded frame S h =
      Some (fst (frame_answer symbols modules unloaded frame), snd (frame_answer symbols modules unloaded frame), S', h') \<and>
    symbolizer_ok cls denotes supplier_ok K symbols S' h' \<and>
    SymbolizerFindCFIFrameInfo cls (snd (frame_answer symbols modules unloaded frame)) S' h' =
      Some (cfi_answer symbols (snd (frame_answer symbols modules unloaded frame))) \<and>
    SymbolizerFindWindowsFrameInfo cls (snd (frame_answer symbols modules unloaded frame)) S' h' =
      Some (windows_answer symbols (snd (frame_answer symbols modules unloaded frame))) \<and>
    resolver_grows S S'"
proof (cases "module_at modules unloaded (instruction (frame_info frame))")
  case None
  then show ?thesis
    using ok fresh
    by (auto simp: SymbolizerFillSourceLineInfo_def frame_answer_def symbolizer_ok_def SymbolizerFindCFIFrameInfo_def
        SymbolizerFindWindowsFrameInfo_def ResolverFindCFIFrameInfo_def ResolverFindWindowsFrameInfo_def
        cfi_answer_def windows_answer_def)
next
  case (Some m)
  let ?f = "snd (frame_answer symbols modules unloaded frame)"
  obtain S' h' where run: "SymbolizerFillSourceLineInfo cls provider modules unloaded frame S h =
      Some (fst (frame_answer symbols modules unloaded frame), ?f, S', h')"
    and ok': "symbolizer_ok cls denotes supplier_ok K symbols S' h'"
    and has: "symbols m \<noteq> None \<Longrightarrow> \<exists>R'. resolver S' = Some R' \<and> HasModule (Some m) R'"
    and grows: "resolver_grows S S'"
    using FillSourceLineInfo_symbolized [OF ok Some m [OF Some] K] ni Some
    by (cases "symbolized symbols m frame") (auto simp: frame_answer_def)
  obtain R' A where R': "resolver S' = Some R'" and inv: "resolver_inv cls denotes (R', h', A)"
    and loaded: "\<And>M. loaded_symbols A (Some m) = Some M \<Longrightarrow> symbols m = Some M"
    using ok' m [OF Some] unfolding symbolizer_ok_def by blast
  have "loaded_symbols A (Some m) = symbols m"
  proof (cases "symbols m")
    case None
    then show ?thesis using loaded by (cases "loaded_symbols A (Some m)") auto
  next
    case (Some M)
    then have "HasModule (Some m) R'" using has R' by simp
    then show ?thesis using loaded by (auto simp: queries_ok [OF inv])
  qed
  moreover have "frame_module ?f = Some m"
    using Some by (simp add: frame_answer_def symbolized_def split: option.split)
  ultimately have "SymbolizerFindCFIFrameInfo cls ?f S' h' = Some (cfi_answer symbols ?f)"
    "SymbolizerFindWindowsFrameInfo cls ?f S' h' = Some (windows_answer symbols ?f)"
    by (simp_all add: SymbolizerFindCFIFrameInfo_def SymbolizerFindWindowsFrameInfo_def R' queries_ok [OF inv]
        frame_query_def cfi_answer_def windows_answer_def)
  with run ok' grows show ?thesis by blast
qed

lemma frame_query_kept:
  assumes "frame_module b \<in> insert None (Some ` K)"
    and "\<forall>m \<in> K. loaded_symbols A (Some m) \<in> {None, symbols m}"
    and "\<forall>m \<in> K. loaded_symbols A' (Some m) \<in> {None, symbols m}"
    and "\<forall>m. loaded_symbols A (Some m) \<noteq> None \<longrightarrow> loaded_symbols A' (Some m) \<noteq> None"
    and "frame_query f A b = (case frame_module b of None \<Rightarrow> None
      | Some m \<Rightarrow> (case symbols m of None \<Rightarrow> None | Some M \<Rightarrow> f M (query_frame m b)))"
  shows "frame_query f A' b = (case frame_module b of None \<Rightarrow> None
    | Some m \<Rightarrow> (case symbols m of None \<Rightarrow> None | Some M \<Rightarrow> f M (query_frame m b)))"
proof (cases "frame_module b")
  case (Some m)
  then have "m \<in> K" using assms(1) by auto
  then have "loaded_symbols A (Some m) \<in> {None, symbols m}" "loaded_symbols A' (Some m) \<in> {None, symbols m}"
    using assms(2,3) by blast+
  then show ?thesis
    using assms(5) spec [OF assms(4), of m] Some by (auto simp: frame_query_def split: option.splits)
qed (simp add: frame_query_def)

text \<open>An answer about a frame stays right while the symbolizer loads more modules.\<close>

lemma answers_kept:
  assumes "symbolizer_ok cls denotes supplier_ok K symbols S h" and ok': "symbolizer_ok cls denotes supplier_ok K symbols S' h'"
    and "resolver_grows S S'" and K: "frame_module b \<in> insert None (Some ` K)"
    and "SymbolizerFindCFIFrameInfo cls b S h = Some (cfi_answer symbols b)"
    and "SymbolizerFindWindowsFrameInfo cls b S h = Some (windows_answer symbols b)"
  shows "SymbolizerFindCFIFrameInfo cls b S' h' = Some (cfi_answer symbols b) \<and>
    SymbolizerFindWindowsFrameInfo cls b S' h' = Some (windows_answer symbols b)"
proof -
  obtain R A where R: "resolver S = Some R" and inv: "resolver_inv cls denotes (R, h, A)"
    and "\<forall>m \<in> K. \<forall>M. loaded_symbols A (Some m) = Some M \<longrightarrow> symbols m = Some M"
    using assms(1) unfolding symbolizer_ok_def by blast
  then have loaded: "\<forall>m \<in> K. loaded_symbols A (Some m) \<in> {None, symbols m}" by (metis insertCI option.exhaust)
  obtain R' A' where R': "resolver S' = Some R'" and inv': "resolver_inv cls denotes (R', h', A')"
    and "\<forall>m \<in> K. \<forall>M. loaded_symbols A' (Some m) = Some M \<longrightarrow> symbols m = Some M"
    using ok' unfolding symbolizer_ok_def by blast
  then have loaded': "\<forall>m \<in> K. loaded_symbols A' (Some m) \<in> {None, symbols m}" by (metis insertCI option.exhaust)
  have more: "\<forall>m. loaded_symbols A (Some m) \<noteq> None \<longrightarrow> loaded_symbols A' (Some m) \<noteq> None"
    using assms(3) by (auto simp: resolver_grows_def R R' queries_ok(1) [OF inv] queries_ok(1) [OF inv'])
  have "frame_query FindCFIFrameInfo A b = cfi_answer symbols b" "frame_query FindWindowsFrameInfo A b = windows_answer symbols b"
    using assms(5,6)
    by (simp_all add: SymbolizerFindCFIFrameInfo_def SymbolizerFindWindowsFrameInfo_def R queries_ok [OF inv])
  note asked = this [unfolded cfi_answer_def windows_answer_def]
  have "frame_query FindCFIFrameInfo A' b = cfi_answer symbols b" "frame_query FindWindowsFrameInfo A' b = windows_answer symbols b"
    using frame_query_kept [OF K loaded loaded' more asked(1)] frame_query_kept [OF K loaded loaded' more asked(2)]
    by (simp_all only: cfi_answer_def windows_answer_def)
  then show ?thesis
    by (simp add: SymbolizerFindCFIFrameInfo_def SymbolizerFindWindowsFrameInfo_def R' queries_ok [OF inv'])
qed

lemma symbolize_frames_answers:
  assumes "symbolizer_ok cls denotes supplier_ok K symbols S h" and K: "K \<subseteq> known" and ni: "\<not> interrupts"
    and "frame_modules modules unloaded frames \<subseteq> K" and "\<forall>frame \<in> set frames. frame_module frame = None"
  shows "\<exists>S' h'. symbolize_frames cls provider modules unloaded frames S h =
      Some (map (frame_answer symbols modules unloaded) frames, S', h') \<and>
    symbolizer_ok cls denotes supplier_ok K symbols S' h'"
  using assms(1,4,5)
proof (induction frames arbitrary: S h)
  case (Cons frame frames)
  have rest: "frame_modules modules unloaded frames \<subseteq> K"
    using Cons.prems(2) by (auto simp: frame_modules_def)
  have inK: "m \<in> K" if "module_at modules unloaded (instruction (frame_info frame)) = Some m" for m
    using Cons.prems(2) that by (auto simp: frame_modules_def)
  have fresh: "frame_module frame = None" using Cons.prems(3) by simp
  from FillSourceLineInfo_answer [OF Cons.prems(1) K ni inK fresh] obtain S1 h1 where
    first: "SymbolizerFillSourceLineInfo cls provider modules unloaded frame S h =
      Some (fst (frame_answer symbols modules unloaded frame), snd (frame_answer symbols modules unloaded frame), S1, h1)"
    and ok: "symbolizer_ok cls denotes supplier_ok K symbols S1 h1"
    by blast
  show ?case using Cons.IH [OF ok rest] Cons.prems(3) first by auto
qed simp

end

lemma StackFrameSymbolizer_ok:
  assumes "supplier_ok s h" and "same_names K symbols"
  shows "symbolizer_ok cls denotes supplier_ok K symbols (StackFrameSymbolizer (Some s) (Some Resolver_init)) h"
proof -
  have "keys_sorted ([] :: (string, unit) std_map)" by (simp add: keys_sorted_def)
  then show ?thesis
    using assms resolver_inv_init [of cls denotes h]
    by (fastforce simp: symbolizer_ok_def StackFrameSymbolizer_def loaded_symbols_def)
qed

lemma SimpleSymbolSupplier_ok:
  "allocates alloc \<Longrightarrow> finite (dom (live h)) \<Longrightarrow> simple_ok alloc roots (SimpleSymbolSupplier roots) h"
  by (simp add: simple_ok_def SimpleSymbolSupplier_def keys_sorted_def allocates_def)

text \<open>C4: A symbolizer over a basic resolver and the simple supplier answers every frame of a run, in any
  order, from the symbol file of its module alone: what was asked before, which modules are
  loaded or known to have no symbols, and where the buffers lie make no difference. It fails no
  assertion and touches no deleted buffer. Memory can be allocated, and the modules of the run
  that share a file name have the same symbols.\<close>

theorem symbolizer_history_independent:
  assumes "allocates alloc" and "finite (dom (live h))"
    and "frame_modules modules unloaded frames \<subseteq> described basic_encodes fs roots symbols"
    and "same_names (frame_modules modules unloaded frames) symbols"
    and "\<forall>frame \<in> set frames. frame_module frame = None"
  shows "\<exists>S h'. symbolize_frames basic_class (simple_class fs alloc) modules unloaded frames
        (StackFrameSymbolizer (Some (SimpleSymbolSupplier roots)) (Some Resolver_init)) h =
      Some (map (frame_answer symbols modules unloaded) frames, S, h')"
proof -
  let ?K = "frame_modules modules unloaded frames"
  have "symbolizer_ok basic_class basic_denotes (simple_ok alloc roots) ?K symbols
      (StackFrameSymbolizer (Some (SimpleSymbolSupplier roots)) (Some Resolver_init)) h"
    using SimpleSymbolSupplier_ok [OF assms(1,2)] assms(4) by (rule StackFrameSymbolizer_ok)
  moreover have "\<not> \<not> allocates alloc" using assms(1) by simp
  ultimately show ?thesis
    using simple_basic.symbolize_frames_answers [OF _ assms(3) _ subset_refl assms(5)] by blast
qed

definition example_code_modules :: basic_code_modules where
  "example_code_modules = BasicCodeModules_init\<lparr>modules_map :=
     snd (StoreRange RangeMap_init 0x400000 0x10000 example_code_module)\<rparr>"

definition example_symbol_files :: file_system where
  "example_symbol_files f = (if f = ''sym/a.so/ID1/a.so.sym'' then Some (0, Some example_text) else None)"

definition example_module_frame :: "mem_addr \<Rightarrow> module_frame" where
  "example_module_frame a = \<lparr>frame_module = None, frame_info = example_frame a\<rparr>"

lemma example_module_at:
  "module_at (Some example_code_modules) None 0x401004 = Some example_code_module"
  "module_at (Some example_code_modules) None 0x10 = None"
  by code_simp+

lemma print_nat_no_delimiter: "CHR 0xFF \<notin> set (print_nat 10 n)" "CHR 0xFF \<notin> set (print_nat 16 n)"
  using print_nat_digits [of 10 n] print_nat_digits [of 16 n] by (auto simp: is_digit_def digit_value_def)

lemma example_text_read: "takeWhile (\<lambda>c. c \<noteq> CHR 0xFF) example_text = example_text"
proof -
  have "CHR 0xFF \<notin> set example_text"
    by (simp add: example_text_def example_records_def file_record_def function_record_def line_record_def
        public_record_def hex_def print_nat_no_delimiter)
  then show ?thesis by (auto simp: takeWhile_eq_all_conv)
qed

lemma example_symbol_path:
  "c_string ''sym/a.so/ID1/a.so.sym'' = ''sym/a.so/ID1/a.so.sym''"
  "GetSymbolFileAtPathFromRoot example_symbol_files (Some example_code_module) ''sym'' = Some ''sym/a.so/ID1/a.so.sym''"
  by (simp_all add: GetSymbolFileAtPathFromRoot_def example_code_module_def BasicCodeModule_def
      PathnameStripper_File_def file_exists_def example_symbol_files_def c_string_def)

lemma example_described:
  "example_code_module \<in> described basic_encodes example_symbol_files [''sym''] (\<lambda>_. Some example_module)"
  using basic_text_encodes [OF example_text_loads]
  by (simp add: described_def GetSymbolFileData_def GetSymbolFile_def example_symbol_path read_symbol_data_def
      example_symbol_files_def example_text_read)

theorem symbolizer_history_independent_witness:
  "\<exists>S h'. symbolize_frames basic_class (simple_class example_symbol_files example_alloc)
        (Some example_code_modules) None (map example_module_frame [0x10, 0x401004, 0x401004])
        (StackFrameSymbolizer (Some (SimpleSymbolSupplier [''sym''])) (Some Resolver_init))
        \<lparr>heap_memory = (\<lambda>i. 0), live = Map.empty\<rparr> =
      Some (map (frame_answer (\<lambda>_. Some example_module) (Some example_code_modules) None)
        (map example_module_frame [0x10, 0x401004, 0x401004]), S, h')"
proof -
  have "frame_modules (Some example_code_modules) None (map example_module_frame [0x10, 0x401004, 0x401004]) =
      {example_code_module}"
    by (auto simp: frame_modules_def example_module_frame_def example_frame_def example_module_at)
  then show ?thesis
    using example_described
    by (intro symbolizer_history_independent [OF example_allocates]) (simp_all add: same_names_def example_module_frame_def)
qed

end
