(* ===== verification/Stackwalker.thy ===== *)
theory Stackwalker
  imports Memory_Region Frame_Symbolizer
begin

text \<open>
  The part of the stack walker that all CPUs share, processor/stackwalker.cc and
  google_breakpad/processor/stackwalker.h: filling in a frame and asking for its caller until there
  is none, and scanning the stack for a plausible return address. The virtual calls are arguments:
  the CPU's \<open>GetCallerFrame\<close> is a function, the symbolizer a record of functions. In the locale
  \<open>walk_environment\<close> a walk is shown to end and to depend on the symbols only, not on what the
  symbolizer has been asked before.
\<close>

section \<open>Frames and the symbolizer interface\<close>

datatype frame_trust =
  FRAME_TRUST_NONE | FRAME_TRUST_SCAN | FRAME_TRUST_CFI_SCAN | FRAME_TRUST_FP | FRAME_TRUST_CFI |
  FRAME_TRUST_PREWALKED | FRAME_TRUST_CONTEXT

text \<open>The enumeration is in the order of trust; as a number a constant is its place in it.\<close>

fun trust_value :: "frame_trust \<Rightarrow> nat" where
  "trust_value FRAME_TRUST_NONE = 0" | "trust_value FRAME_TRUST_SCAN = 1" | "trust_value FRAME_TRUST_CFI_SCAN = 2"
| "trust_value FRAME_TRUST_FP = 3" | "trust_value FRAME_TRUST_CFI = 4" | "trust_value FRAME_TRUST_PREWALKED = 5"
| "trust_value FRAME_TRUST_CONTEXT = 6"

lemma trust_value_eq [simp]: "trust_value s = trust_value t \<longleftrightarrow> s = t"
  by (cases s; cases t) simp_all

instantiation frame_trust :: linorder
begin

definition less_eq_frame_trust :: "frame_trust \<Rightarrow> frame_trust \<Rightarrow> bool" where
  "less_eq_frame_trust s t \<longleftrightarrow> trust_value s \<le> trust_value t"

definition less_frame_trust :: "frame_trust \<Rightarrow> frame_trust \<Rightarrow> bool" where
  "less_frame_trust s t \<longleftrightarrow> trust_value s < trust_value t"

instance
  by standard (auto simp: less_eq_frame_trust_def less_frame_trust_def)

end

text \<open>
  \<open>StackFrame\<close>, the part of a frame that all CPUs share, and its subclasses, which add the registers and
  the flags that say which of them are valid.
\<close>

record walk_frame =
  base_frame :: module_frame
  trust :: frame_trust

record ('r, 'f) cpu_frame = walk_frame +
  cpu_context :: 'r
  context_validity :: 'f

definition StackFrame :: module_frame where
  "StackFrame = \<lparr>frame_module = None, frame_info =
     \<lparr>instruction = 0, module_base = 0, function_name = [], function_base = 0, source_file_name = [],
      source_line = 0, source_line_base = 0\<rparr>\<rparr>"

definition StackFrame_at :: "uint64 \<Rightarrow> module_frame" where
  "StackFrame_at address = StackFrame\<lparr>frame_info := frame_info StackFrame\<lparr>instruction := address\<rparr>\<rparr>"

definition StackFrame_cpu :: "'r \<Rightarrow> ('r, 'f::zero) cpu_frame" where
  "StackFrame_cpu blank =
     \<lparr>base_frame = StackFrame, trust = FRAME_TRUST_NONE, cpu_context = blank, context_validity = 0\<rparr>"

definition set_instruction :: "uint64 \<Rightarrow> 'c walk_frame_scheme \<Rightarrow> 'c walk_frame_scheme" where
  "set_instruction address frame =
     frame\<lparr>base_frame := base_frame frame\<lparr>frame_info := frame_info (base_frame frame)\<lparr>instruction := address\<rparr>\<rparr>\<rparr>"

record 'z frame_symbolizer =
  fill_source_line :: "basic_code_modules option \<Rightarrow> basic_code_modules option \<Rightarrow> module_frame \<Rightarrow> 'z \<Rightarrow>
    (symbolizer_result \<times> module_frame \<times> 'z) option"
  has_implementation :: "'z \<Rightarrow> bool"
  find_cfi_frame_info :: "module_frame \<Rightarrow> 'z \<Rightarrow> cfi_frame_info option option"
  find_windows_frame_info :: "module_frame \<Rightarrow> 'z \<Rightarrow> windows_frame_info option option"

text \<open>The symbolizer of the code, and one without a state that answers from the symbols.\<close>

definition real_symbolizer ::
  "'m module_class \<Rightarrow> 's supplier_class \<Rightarrow> (('m, 's) symbolizer \<times> heap) frame_symbolizer" where
  "real_symbolizer cls provider =
     \<lparr>fill_source_line = (\<lambda>modules unloaded frame (S, h).
        SymbolizerFillSourceLineInfo cls provider modules unloaded frame S h),
      has_implementation = (\<lambda>(S, h). HasImplementation S),
      find_cfi_frame_info = (\<lambda>frame (S, h). SymbolizerFindCFIFrameInfo cls frame S h),
      find_windows_frame_info = (\<lambda>frame (S, h). SymbolizerFindWindowsFrameInfo cls frame S h)\<rparr>"

definition ideal_symbolizer :: "(CodeModule \<Rightarrow> sym_module option) \<Rightarrow> unit frame_symbolizer" where
  "ideal_symbolizer symbols =
     \<lparr>fill_source_line = (\<lambda>modules unloaded frame _. case frame_answer symbols modules unloaded frame of
        (result, frame) \<Rightarrow> Some (result, frame, ())),
      has_implementation = (\<lambda>_. True),
      find_cfi_frame_info = (\<lambda>frame _. Some (cfi_answer symbols frame)),
      find_windows_frame_info = (\<lambda>frame _. Some (windows_answer symbols frame))\<rparr>"

record stackwalker =
  os_short :: string
  memory :: "memory_region option"
  modules :: "basic_code_modules option"
  unloaded_modules :: "basic_code_modules option"

section \<open>Scanning the stack\<close>

definition InstructionAddressSeemsValid ::
  "'z frame_symbolizer \<Rightarrow> stackwalker \<Rightarrow> uint64 \<Rightarrow> 'z \<Rightarrow> (bool \<times> 'z) option" where
  "InstructionAddressSeemsValid F W address z =
     do { (symbolizer_result, frame, z) \<leftarrow>
            fill_source_line F (modules W) (unloaded_modules W) (StackFrame_at address) z;
          Some
            (if frame_module frame = None then False
             else if \<not> has_implementation F z then True
             else if symbolizer_result \<noteq> kNoError \<and> symbolizer_result \<noteq> kWarningCorruptSymbols then True
             else function_name (frame_info frame) \<noteq> [], z) }"

definition kRASearchWords :: int where
  "kRASearchWords = 40"

text \<open>The loop: the bound is computed in 64 bits, the location has the width of an address.\<close>

partial_function (option) scan_loop ::
  "'z frame_symbolizer \<Rightarrow> stackwalker \<Rightarrow> memory_region \<Rightarrow> 'w::len word \<Rightarrow> uint64 \<Rightarrow> 'z \<Rightarrow>
     (('w word \<times> 'w word) option \<times> 'z) option" where
  "scan_loop F W mem location limit z =
     (if (ucast location :: uint64) \<le> limit then
        (case (GetMemoryAtAddress mem (ucast location) :: 'w word option) of
           None \<Rightarrow> Some (None, z)
         | Some ip \<Rightarrow>
             if (case modules W of None \<Rightarrow> False | Some ms \<Rightarrow> GetModuleForAddress ms (ucast ip) \<noteq> None) then
               do { (ok, z) \<leftarrow> InstructionAddressSeemsValid F W (ucast ip) z;
                    if ok then Some (Some (location, ip), z)
                    else scan_loop F W mem (location + word_of_nat (LENGTH('w) div 8)) limit z }
             else scan_loop F W mem (location + word_of_nat (LENGTH('w) div 8)) limit z)
      else Some (None, z))"

definition ScanForReturnAddress ::
  "'z frame_symbolizer \<Rightarrow> stackwalker \<Rightarrow> memory_region \<Rightarrow> 'w::len word \<Rightarrow> int \<Rightarrow> 'z \<Rightarrow>
     (('w word \<times> 'w word) option \<times> 'z) option" where
  "ScanForReturnAddress F W mem location_start searchwords z =
     scan_loop F W mem location_start
       (ucast location_start + word_of_int (searchwords * int (LENGTH('w) div 8))) z"

definition ScanForReturnAddress_default ::
  "'z frame_symbolizer \<Rightarrow> stackwalker \<Rightarrow> memory_region \<Rightarrow> 'w::len word \<Rightarrow> bool \<Rightarrow> 'z \<Rightarrow>
     (('w word \<times> 'w word) option \<times> 'z) option" where
  "ScanForReturnAddress_default F W mem location_start is_context_frame z =
     ScanForReturnAddress F W mem location_start
       (if is_context_frame then kRASearchWords * 4 else kRASearchWords) z"

section \<open>Walking\<close>

definition InsertSpecialAttentionModule :: "CodeModule option \<Rightarrow> CodeModule list \<Rightarrow> CodeModule list" where
  "InsertSpecialAttentionModule module ms =
     (case module of
        None \<Rightarrow> ms
      | Some m \<Rightarrow> if m \<in> set ms then ms else ms @ [m])"

record walk_limits =
  max_frames :: uint32
  max_frames_set :: bool
  max_frames_scanned :: uint32

definition default_limits :: walk_limits where
  "default_limits = \<lparr>max_frames = 1024, max_frames_set = False, max_frames_scanned = 1024\<rparr>"

definition set_max_frames :: "uint32 \<Rightarrow> walk_limits \<Rightarrow> walk_limits" where
  "set_max_frames n L = L\<lparr>max_frames := n, max_frames_set := True\<rparr>"

definition set_max_frames_scanned :: "uint32 \<Rightarrow> walk_limits \<Rightarrow> walk_limits" where
  "set_max_frames_scanned n L = L\<lparr>max_frames_scanned := n\<rparr>"

definition dubious :: "frame_trust \<Rightarrow> bool" where
  "dubious t \<longleftrightarrow> t \<in> {FRAME_TRUST_NONE, FRAME_TRUST_SCAN, FRAME_TRUST_CFI_SCAN}"

text \<open>
  \<open>GetCallerFrame\<close> of a CPU gets the stack and whether scanning is allowed. It may note something in
  the last frame of the stack, so it answers with that frame and the caller, if it found one.
\<close>

type_synonym ('c, 'z) get_caller =
  "'c walk_frame_scheme list \<Rightarrow> bool \<Rightarrow> 'z \<Rightarrow> (('c walk_frame_scheme \<times> 'c walk_frame_scheme option) \<times> 'z) option"

text \<open>
  The stack is the list of the frames walked so far, the context frame first. The result is that
  of \<open>Walk\<close> with the stack and the two vectors it leaves; None: a call crashed or does not return.
\<close>

type_synonym ('c, 'z) walk_result = "(bool \<times> 'c walk_frame_scheme list \<times> CodeModule list \<times> CodeModule list \<times> 'z) option"

partial_function (option) walk_loop ::
  "'z frame_symbolizer \<Rightarrow> stackwalker \<Rightarrow> walk_limits \<Rightarrow> ('c, 'z) get_caller \<Rightarrow> 'c walk_frame_scheme option \<Rightarrow>
     'c walk_frame_scheme list \<Rightarrow> uint32 \<Rightarrow> CodeModule list \<Rightarrow> CodeModule list \<Rightarrow> 'z \<Rightarrow> ('c, 'z) walk_result" where
  "walk_loop F W L get_caller frame frames scanned_frames without_symbols with_corrupt_symbols z =
     (case frame of
        None \<Rightarrow> Some (True, frames, without_symbols, with_corrupt_symbols, z)
      | Some frame \<Rightarrow>
          do { (symbolizer_result, base, z) \<leftarrow>
                 fill_source_line F (modules W) (unloaded_modules W) (base_frame frame) z;
               if symbolizer_result = kInterrupt
               then Some (False, frames, without_symbols, with_corrupt_symbols, z)
               else
                 let frame = frame\<lparr>base_frame := base\<rparr>;
                     without_symbols = (if symbolizer_result = kError
                       then InsertSpecialAttentionModule (frame_module base) without_symbols else without_symbols);
                     with_corrupt_symbols = (if symbolizer_result = kWarningCorruptSymbols
                       then InsertSpecialAttentionModule (frame_module base) with_corrupt_symbols
                       else with_corrupt_symbols);
                     scanned_frames = (if dubious (trust frame) then scanned_frames + 1 else scanned_frames);
                     frames = frames @ [frame] in
                 if length frames > unat (max_frames L)
                 then Some (True, frames, without_symbols, with_corrupt_symbols, z)
                 else do {
                   ((last_frame, caller), z) \<leftarrow> get_caller frames (scanned_frames < max_frames_scanned L) z;
                   walk_loop F W L get_caller caller (butlast frames @ [last_frame]) scanned_frames without_symbols with_corrupt_symbols z } })"

definition Walk ::
  "'z frame_symbolizer \<Rightarrow> stackwalker \<Rightarrow> walk_limits \<Rightarrow> 'c walk_frame_scheme option \<Rightarrow> ('c, 'z) get_caller \<Rightarrow>
     CodeModule list \<Rightarrow> CodeModule list \<Rightarrow> 'z \<Rightarrow> ('c, 'z) walk_result" where
  "Walk F W L context_frame get_caller without_symbols with_corrupt_symbols z =
     walk_loop F W L get_caller context_frame [] 0 without_symbols with_corrupt_symbols z"

text \<open>
  The shape that the \<open>GetCallerFrame\<close> of several CPUs share: without memory there is no caller; the
  ways of recovering it are tried one after the other, call frame information (None where a rule
  crashes), the frame pointer, the scan if it is allowed; the frame is finished or rejected.
\<close>

definition recover_caller ::
  "(memory_region \<Rightarrow> cfi_frame_info \<Rightarrow> 'c walk_frame_scheme option option) \<Rightarrow> (memory_region \<Rightarrow> 'c walk_frame_scheme option) \<Rightarrow>
     (memory_region \<Rightarrow> 'z \<Rightarrow> ('c walk_frame_scheme option \<times> 'z) option) \<Rightarrow> ('c walk_frame_scheme \<Rightarrow> 'c walk_frame_scheme option) \<Rightarrow>
     'z frame_symbolizer \<Rightarrow> stackwalker \<Rightarrow> ('c, 'z) get_caller" where
  "recover_caller by_cfi by_frame_pointer by_scan finish F W frames stack_scan_allowed z =
     (case memory W of
        None \<Rightarrow> Some ((last frames, None), z)
      | Some mem \<Rightarrow>
          do { cfi_frame_info \<leftarrow> find_cfi_frame_info F (base_frame (last frames)) z;
               new_frame \<leftarrow> (case cfi_frame_info of None \<Rightarrow> Some None | Some cfi \<Rightarrow> by_cfi mem cfi);
               (new_frame, z) \<leftarrow> (case new_frame of
                   Some f \<Rightarrow> Some (Some f, z)
                 | None \<Rightarrow>
                     (case by_frame_pointer mem of
                        Some f \<Rightarrow> Some (Some f, z)
                      | None \<Rightarrow> if stack_scan_allowed then by_scan mem z else Some (None, z)));
               Some ((last frames, Option.bind new_frame finish), z) })"

text \<open>A scan from the stack pointer, and the frame made of what it finds.\<close>

definition recover_by_scan ::
  "('w::len word \<Rightarrow> 'w word \<Rightarrow> 'c walk_frame_scheme) \<Rightarrow> 'w word \<Rightarrow> 'z frame_symbolizer \<Rightarrow> stackwalker \<Rightarrow>
     'c walk_frame_scheme list \<Rightarrow> memory_region \<Rightarrow> 'z \<Rightarrow> ('c walk_frame_scheme option \<times> 'z) option" where
  "recover_by_scan scanned_frame location_start F W frames mem z =
     do { (found, z) \<leftarrow> ScanForReturnAddress_default F W mem location_start (length frames = 1) z;
          Some (map_option (\<lambda>(location, ip). scanned_frame location ip) found, z) }"

lemma recover_by_scan_cases:
  assumes "recover_by_scan scanned_frame start F W frames mem z = Some (Some f, z')"
  obtains location ip where "f = scanned_frame location ip"
  using assms by (auto simp: recover_by_scan_def bind_eq_Some_conv)

lemma recover_caller_cases:
  assumes "recover_caller by_cfi by_frame_pointer by_scan finish F W frames allowed z = Some ((last_frame, Some f), z')"
  obtains mem g where "memory W = Some mem" and "finish g = Some f"
    and "(\<exists>cfi. by_cfi mem cfi = Some (Some g)) \<or> by_frame_pointer mem = Some g \<or>
      (\<exists>z1 z2. by_scan mem z1 = Some (Some g, z2))"
  using assms unfolding recover_caller_def
  by (fastforce simp: bind_eq_Some_conv split: option.splits if_splits)

lemma recover_caller_last:
  "recover_caller by_cfi by_frame_pointer by_scan finish F W frames allowed z = Some ((last_frame, f), z') \<Longrightarrow>
     last_frame = last frames"
  by (auto simp: recover_caller_def bind_eq_Some_conv split: option.splits)

section \<open>What the symbolizer promises\<close>

abbreviation walk_answer ::
  "(CodeModule \<Rightarrow> sym_module option) \<Rightarrow> stackwalker \<Rightarrow> module_frame \<Rightarrow> symbolizer_result \<times> module_frame" where
  "walk_answer symbols W \<equiv> frame_answer symbols (modules W) (unloaded_modules W)"

text \<open>An address that looks like a return address into code.\<close>

definition plausible :: "(CodeModule \<Rightarrow> sym_module option) \<Rightarrow> stackwalker \<Rightarrow> uint64 \<Rightarrow> bool" where
  "plausible symbols W a \<longleftrightarrow>
     (case module_at (modules W) (unloaded_modules W) a of
        None \<Rightarrow> False
      | Some m \<Rightarrow>
          (case symbols m of
             None \<Rightarrow> True
           | Some M \<Rightarrow> function_name (LookupAddress M (query_frame m (StackFrame_at a))) \<noteq> []))"

text \<open>All modules a walk can meet, and the frames that have one of them or none.\<close>

definition walk_modules :: "stackwalker \<Rightarrow> CodeModule set" where
  "walk_modules W = {m. \<exists>a. module_at (modules W) (unloaded_modules W) a = Some m}"

definition of_walk :: "stackwalker \<Rightarrow> module_frame \<Rightarrow> bool" where
  "of_walk W b \<longleftrightarrow> frame_module b \<in> insert None (Some ` walk_modules W)"

text \<open>The symbolizer answers both queries about a frame from the symbols.\<close>

definition answered ::
  "'z frame_symbolizer \<Rightarrow> (CodeModule \<Rightarrow> sym_module option) \<Rightarrow> module_frame \<Rightarrow> 'z \<Rightarrow> bool" where
  "answered F symbols b z \<longleftrightarrow> find_cfi_frame_info F b z = Some (cfi_answer symbols b) \<and>
     find_windows_frame_info F b z = Some (windows_answer symbols b)"

lemma of_walk_answer: "frame_module b = None \<Longrightarrow> of_walk W (snd (walk_answer symbols W b))"
  by (auto simp: of_walk_def walk_modules_def frame_answer_def symbolized_def split: option.split)

locale frame_answers =
  fixes F :: "'z frame_symbolizer"
    and inv :: "'z \<Rightarrow> bool"
    and symbols :: "CodeModule \<Rightarrow> sym_module option"
    and W :: stackwalker
  assumes fills: "inv z \<Longrightarrow> frame_module frame = None \<Longrightarrow>
      \<exists>z'. fill_source_line F (modules W) (unloaded_modules W) frame z =
          Some (fst (walk_answer symbols W frame), snd (walk_answer symbols W frame), z') \<and>
        inv z' \<and> has_implementation F z' \<and> answered F symbols (snd (walk_answer symbols W frame)) z' \<and>
        (\<forall>b. of_walk W b \<longrightarrow> answered F symbols b z \<longrightarrow> answered F symbols b z')"
begin

text \<open>The answers about one frame can be made part of the invariant.\<close>

lemma remembers:
  assumes "of_walk W b"
  shows "frame_answers F (\<lambda>z. inv z \<and> answered F symbols b z) symbols W"
proof (unfold_locales, goal_cases)
  case (1 z frame)
  then show ?case using fills [of z frame] assms by blast
qed

lemma seems_valid:
  assumes "inv z"
  shows "\<exists>z'. InstructionAddressSeemsValid F W a z = Some (plausible symbols W a, z') \<and> inv z'"
proof -
  have fresh: "frame_module (StackFrame_at a) = None" by (simp add: StackFrame_at_def StackFrame_def)
  have a: "instruction (frame_info (StackFrame_at a)) = a" by (simp add: StackFrame_at_def)
  have "(let (r, f) = walk_answer symbols W (StackFrame_at a) in
      frame_module f \<noteq> None \<and> (r \<noteq> kNoError \<and> r \<noteq> kWarningCorruptSymbols \<or> function_name (frame_info f) \<noteq> [])) =
    plausible symbols W a"
    using fresh by (auto simp: frame_answer_def a symbolized_def plausible_def split: option.split)
  then show ?thesis
    using fills [OF assms fresh] unfolding InstructionAddressSeemsValid_def by (auto simp: Let_def case_prod_beta)
qed

end

section \<open>The scan finds the first plausible return address\<close>

definition return_address ::
  "(CodeModule \<Rightarrow> sym_module option) \<Rightarrow> stackwalker \<Rightarrow> memory_region \<Rightarrow> 'w::len word \<Rightarrow> 'w word option" where
  "return_address symbols W mem location =
     (case GetMemoryAtAddress mem (ucast location) of
        None \<Rightarrow> None
      | Some ip \<Rightarrow>
          if (case modules W of None \<Rightarrow> False | Some ms \<Rightarrow> GetModuleForAddress ms (ucast ip) \<noteq> None) \<and>
            plausible symbols W (ucast ip)
          then Some ip else None)"

text \<open>The words of the window, as far as they can be read.\<close>

definition readable_words :: "memory_region \<Rightarrow> 'w::len word \<Rightarrow> nat \<Rightarrow> 'w word list" where
  "readable_words mem start n =
     takeWhile (\<lambda>location. (GetMemoryAtAddress mem (ucast location) :: 'w word option) \<noteq> None)
       (map (\<lambda>i. start + word_of_nat (i * (LENGTH('w) div 8))) [0..<n])"

definition first_return_address ::
  "(CodeModule \<Rightarrow> sym_module option) \<Rightarrow> stackwalker \<Rightarrow> memory_region \<Rightarrow> 'w::len word \<Rightarrow> nat \<Rightarrow>
     ('w word \<times> 'w word) option" where
  "first_return_address symbols W mem start n =
     Option.bind (List.find (\<lambda>location. return_address symbols W mem location \<noteq> None) (readable_words mem start n))
       (\<lambda>location. map_option (Pair location) (return_address symbols W mem location))"

lemma readable_words_0 [simp]: "readable_words mem start 0 = []"
  by (simp add: readable_words_def)

lemma readable_words_Suc:
  "readable_words mem (start :: 'w::len word) (Suc n) =
     (if (GetMemoryAtAddress mem (ucast start) :: 'w word option) = None then []
      else start # readable_words mem (start + word_of_nat (LENGTH('w) div 8)) n)"
proof -
  have "map (\<lambda>i. start + word_of_nat (i * (LENGTH('w) div 8))) [0..<Suc n] =
      start # map (\<lambda>i. start + word_of_nat (LENGTH('w) div 8) + word_of_nat (i * (LENGTH('w) div 8))) [0..<n]"
    by (simp only: upt_conv_Cons [of 0 "Suc n"] map_Suc_upt [symmetric]) (simp add: comp_def algebra_simps)
  then show ?thesis by (simp add: readable_words_def)
qed

lemma first_return_address_0 [simp]: "first_return_address symbols W mem start 0 = None"
  by (simp add: first_return_address_def)

lemma first_return_address_Suc:
  "first_return_address symbols W mem (start :: 'w::len word) (Suc n) =
     (if (GetMemoryAtAddress mem (ucast start) :: 'w word option) = None then None
      else case return_address symbols W mem start of
        Some ip \<Rightarrow> Some (start, ip)
      | None \<Rightarrow> first_return_address symbols W mem (start + word_of_nat (LENGTH('w) div 8)) n)"
  by (auto simp: first_return_address_def readable_words_Suc split: option.split)

lemma unat_ucast_le64:
  assumes "LENGTH('w::len) \<le> 64"
  shows "unat (ucast (w :: 'w word) :: uint64) = unat w"
proof -
  have "unat w < 2 ^ LENGTH('w)" by (rule unsigned_less)
  also have "\<dots> \<le> 2 ^ 64" using assms by (simp only: power_increasing_iff)
  finally show ?thesis by (simp add: unsigned_ucast_eq take_bit_nat_eq_self_iff)
qed

locale walk_environment = bounded_memory regions + frame_answers F inv symbols W
  for regions and F :: "'z frame_symbolizer" and inv symbols W
begin

text \<open>Behind the last readable word nothing can be read, even when the address wraps around.\<close>

lemma scan_wraps:
  fixes location :: "'w::len word"
  assumes "mem \<in> regions" and "32 \<le> LENGTH('w)" and "LENGTH('w) \<le> 64"
    and read: "(GetMemoryAtAddress mem (ucast location) :: 'w word option) \<noteq> None"
    and fits: "unat (GetBase mem) + unat (GetSize mem) \<le> 2 ^ LENGTH('w)"
  shows "unat (location + word_of_nat (LENGTH('w) div 8)) = unat location + LENGTH('w) div 8 \<or>
    (GetMemoryAtAddress mem (ucast (location + word_of_nat (LENGTH('w) div 8))) :: 'w word option) = None"
proof (cases "unat location + LENGTH('w) div 8 < 2 ^ LENGTH('w)")
  case True
  have "LENGTH('w) div 8 < 2 ^ LENGTH('w)"
    using less_exp [of "LENGTH('w)"] by (meson div_le_dividend le_less_trans)
  then have "unat (word_of_nat (LENGTH('w) div 8) :: 'w word) = LENGTH('w) div 8"
    by (simp add: unsigned_of_nat take_bit_nat_eq_self)
  then show ?thesis using True by (simp add: unat_plus_if')
next
  case False
  let ?s = "LENGTH('w) div 8"
  obtain v where "read_at mem ?s (ucast location) = Some v"
    using read by (auto simp: GetMemoryAtAddress_def)
  then have "unat location + ?s \<le> unat (GetBase mem) + unat (GetSize mem)"
    using read_bounds [OF assms(1), of ?s "ucast location"] unat_ucast_le64 [OF assms(3), of location] by simp
  then have "unat location + ?s = 2 ^ LENGTH('w)" and e: "unat (GetBase mem) + unat (GetSize mem) = 2 ^ LENGTH('w)"
    using False fits by linarith+
  then have "word_of_nat (unat location + ?s) = (0 :: 'w word)" by simp
  then have z: "location + word_of_nat ?s = 0" by simp
  have "unat (GetSize mem) < 2 ^ 32" using unsigned_less [of "GetSize mem", where 'a=nat] by simp
  also have "(2 :: nat) ^ 32 \<le> 2 ^ LENGTH('w)" using assms(2) by (simp only: power_increasing_iff)
  finally have "unat (GetBase mem) > 0" using e by linarith
  then have "read_at mem ?s 0 = None" using read_bounds [OF assms(1), of ?s 0] by fastforce
  then show ?thesis by (simp add: z GetMemoryAtAddress_def)
qed

lemma scan_step:
  fixes location :: "'w::len word"
  assumes "inv z" and "(ucast location :: uint64) \<le> limit"
    and "(GetMemoryAtAddress mem (ucast location) :: 'w word option) \<noteq> None"
  shows "\<exists>z'. inv z' \<and> scan_loop F W mem location limit z =
    (case return_address symbols W mem location of
       Some ip \<Rightarrow> Some (Some (location, ip), z')
     | None \<Rightarrow> scan_loop F W mem (location + word_of_nat (LENGTH('w) div 8)) limit z')"
proof -
  obtain ip where ip: "GetMemoryAtAddress mem (ucast location) = Some (ip :: 'w word)" using assms(3) by blast
  let ?known = "case modules W of None \<Rightarrow> False | Some ms \<Rightarrow> GetModuleForAddress ms (ucast ip) \<noteq> None"
  show ?thesis
  proof (cases ?known)
    case True
    obtain z' where z': "InstructionAddressSeemsValid F W (ucast ip) z = Some (plausible symbols W (ucast ip), z')" "inv z'"
      using seems_valid [OF assms(1)] by blast
    have "return_address symbols W mem location = (if plausible symbols W (ucast ip) then Some ip else None)"
      using True by (simp add: return_address_def ip)
    then show ?thesis
      using True z' assms(2) by (subst scan_loop.simps) (auto simp: ip)
  next
    case False
    then have "return_address symbols W mem location = None" by (simp add: return_address_def ip)
    then show ?thesis
      using False assms(1,2) by (subst scan_loop.simps) (auto simp: ip)
  qed
qed

lemma scan_unreadable:
  fixes location :: "'w::len word"
  assumes "(GetMemoryAtAddress mem (ucast location) :: 'w word option) = None"
  shows "scan_loop F W mem location limit z = Some (None, z)" and "first_return_address symbols W mem location n = None"
proof -
  show "scan_loop F W mem location limit z = Some (None, z)"
    using assms by (subst scan_loop.simps) simp
  show "first_return_address symbols W mem location n = None"
    using assms by (cases n) (simp_all add: first_return_address_Suc)
qed

lemma scan_loop_finds:
  fixes location :: "'w::len word"
  assumes mem: "mem \<in> regions" and w: "32 \<le> LENGTH('w)" "LENGTH('w) \<le> 64"
    and fits: "unat (GetBase mem) + unat (GetSize mem) \<le> 2 ^ LENGTH('w)"
    and "inv z" and "unat limit = unat location + n * (LENGTH('w) div 8)"
  shows "\<exists>z'. scan_loop F W mem location limit z = Some (first_return_address symbols W mem location (Suc n), z') \<and> inv z'"
  using assms(5,6)
proof (induction n arbitrary: location z)
  case (0 location z)
  let ?s = "LENGTH('w) div 8"
  show ?case
  proof (cases "(GetMemoryAtAddress mem (ucast location) :: 'w word option) = None")
    case True
    then show ?thesis using scan_unreadable [OF True] 0 by auto
  next
    case False
    have le: "(ucast location :: uint64) \<le> limit"
      using 0(2) w(2) by (simp add: word_le_nat_alt unat_ucast_le64)
    obtain z' where z': "inv z'" and step: "scan_loop F W mem location limit z =
        (case return_address symbols W mem location of
           Some ip \<Rightarrow> Some (Some (location, ip), z')
         | None \<Rightarrow> scan_loop F W mem (location + word_of_nat ?s) limit z')"
      using scan_step [OF 0(1) le False] by blast
    have "scan_loop F W mem (location + word_of_nat ?s) limit z' = Some (None, z')"
      using scan_wraps [OF mem w False fits]
    proof (elim disjE)
      assume "unat (location + word_of_nat ?s) = unat location + ?s"
      moreover have "?s > 0" using w(1) by auto
      ultimately have "\<not> (ucast (location + word_of_nat ?s) :: uint64) \<le> limit"
        using 0(2) w(2) by (simp add: word_le_nat_alt unat_ucast_le64)
      then show ?thesis by (subst scan_loop.simps) simp
    qed (simp_all add: scan_unreadable(1))
    then show ?thesis
      using step z' False by (auto simp: first_return_address_Suc split: option.split)
  qed
next
  case (Suc n location z)
  let ?s = "LENGTH('w) div 8"
  let ?next = "location + word_of_nat ?s"
  show ?case
  proof (cases "(GetMemoryAtAddress mem (ucast location) :: 'w word option) = None")
    case True
    then show ?thesis using scan_unreadable [OF True] Suc.prems by auto
  next
    case False
    have le: "(ucast location :: uint64) \<le> limit"
      using Suc.prems(2) w(2) by (simp add: word_le_nat_alt unat_ucast_le64)
    obtain z' where z': "inv z'" and step: "scan_loop F W mem location limit z =
        (case return_address symbols W mem location of
           Some ip \<Rightarrow> Some (Some (location, ip), z')
         | None \<Rightarrow> scan_loop F W mem ?next limit z')"
      using scan_step [OF Suc.prems(1) le False] by blast
    have "\<exists>z''. scan_loop F W mem ?next limit z' = Some (first_return_address symbols W mem ?next (Suc n), z'') \<and> inv z''"
      using scan_wraps [OF mem w False fits]
    proof (elim disjE)
      assume "unat ?next = unat location + ?s"
      then have "unat limit = unat ?next + n * ?s" using Suc.prems(2) by simp
      then show ?thesis using Suc.IH [OF z'] by blast
    qed (simp_all add: scan_unreadable z')
    then show ?thesis
      using step z' False by (auto simp: first_return_address_Suc [of _ _ _ location] split: option.split)
  qed
qed

lemma scan_finds:
  fixes start :: "'w::len word"
  assumes mem: "mem \<in> regions" and w: "32 \<le> LENGTH('w)" "LENGTH('w) \<le> 64"
    and fits: "unat (GetBase mem) + unat (GetSize mem) \<le> 2 ^ LENGTH('w)"
    and "inv z" and n: "n * (LENGTH('w) div 8) < 2 ^ 64"
  shows "\<exists>z'. ScanForReturnAddress F W mem start (int n) z =
    Some (if unat start + n * (LENGTH('w) div 8) < 2 ^ 64 then first_return_address symbols W mem start (Suc n) else None, z') \<and>
    inv z'"
proof -
  let ?k = "n * (LENGTH('w) div 8)"
  let ?limit = "ucast start + word_of_int (int n * int (LENGTH('w) div 8)) :: uint64"
  have un: "unat (word_of_int (int n * int (LENGTH('w) div 8)) :: uint64) = ?k"
    using n by (simp add: unsigned_of_nat take_bit_nat_eq_self flip: of_nat_mult)
  note us = unat_ucast_le64 [OF w(2), of start]
  show ?thesis
  proof (cases "unat start + ?k < 2 ^ 64")
    case True
    then have "unat ?limit = unat start + ?k" by (simp add: unat_plus_if' us un del: of_int_mult)
    then show ?thesis
      using scan_loop_finds [OF mem w fits assms(5)] True by (simp add: ScanForReturnAddress_def)
  next
    case False
    then have "unat ?limit = unat start + ?k - 2 ^ 64" by (simp add: unat_plus_if' us un del: of_int_mult)
    then have "unat ?limit < unat start"
      using n False unsigned_less [of "ucast start :: uint64", where 'a=nat] us by simp
    then have "\<not> (ucast start :: uint64) \<le> ?limit" by (simp add: word_le_nat_alt us)
    then show ?thesis
      using False assms(5) by (simp add: ScanForReturnAddress_def) (subst scan_loop.simps, simp)
  qed
qed

text \<open>What is found is a word of the stack at or above the start.\<close>

lemma found_above:
  fixes start :: "'w::len word"
  assumes mem: "mem \<in> regions" and w: "32 \<le> LENGTH('w)" "LENGTH('w) \<le> 64"
    and fits: "unat (GetBase mem) + unat (GetSize mem) \<le> 2 ^ LENGTH('w)"
    and "first_return_address symbols W mem start n = Some (location, ip)"
  shows "start \<le> location \<and> GetMemoryAtAddress mem (ucast location) = Some ip \<and>
    unat location + LENGTH('w) div 8 \<le> unat (GetBase mem) + unat (GetSize mem)"
  using assms(5)
proof (induction n arbitrary: start)
  case (Suc n start)
  let ?next = "start + word_of_nat (LENGTH('w) div 8)"
  obtain v where v: "GetMemoryAtAddress mem (ucast start) = Some (v :: 'w word)"
    using Suc.prems by (auto simp: first_return_address_Suc split: if_splits)
  have bound: "unat start + LENGTH('w) div 8 \<le> unat (GetBase mem) + unat (GetSize mem)"
    using v read_bounds [OF mem, of "LENGTH('w) div 8" "ucast start"] unat_ucast_le64 [OF w(2), of start]
    by (auto simp: GetMemoryAtAddress_def)
  show ?case
  proof (cases "return_address symbols W mem start")
    case (Some w')
    then have "w' = v" by (simp add: return_address_def v split: if_splits)
    then show ?thesis using Suc.prems Some v bound by (simp add: first_return_address_Suc)
  next
    case None
    then have next': "first_return_address symbols W mem ?next n = Some (location, ip)"
      using Suc.prems v by (simp add: first_return_address_Suc)
    have "unat ?next = unat start + LENGTH('w) div 8"
      using scan_wraps [OF mem w, of start] v fits next' scan_unreadable(2) [of mem ?next n] by auto
    then have "start \<le> ?next" by (simp add: word_le_nat_alt)
    then show ?thesis using Suc.IH [OF next'] by auto
  qed
qed simp

end

lemma LookupAddress_instruction: "instruction (LookupAddress M frame) = instruction frame"
  by (auto simp: LookupAddress_def Let_def split: option.split)

lemma frame_answer_instruction:
  "instruction (frame_info (snd (frame_answer symbols ms us frame))) = instruction (frame_info frame)"
  by (simp add: frame_answer_def symbolized_def LookupAddress_instruction query_frame_def split: option.split)

section \<open>What a walk leaves\<close>

text \<open>The modules of the frames of a stack whose symbols satisfy a predicate.\<close>

definition modules_where ::
  "(CodeModule \<Rightarrow> sym_module option) \<Rightarrow> (sym_module option \<Rightarrow> bool) \<Rightarrow> 'c walk_frame_scheme list \<Rightarrow> CodeModule set" where
  "modules_where symbols P stk =
     {m. P (symbols m) \<and> (\<exists>frame \<in> set stk. frame_module (base_frame frame) = Some m)}"

definition corrupt :: "sym_module option \<Rightarrow> bool" where
  "corrupt s \<longleftrightarrow> (case s of None \<Rightarrow> False | Some M \<Rightarrow> is_corrupt M)"

text \<open>
  \<open>linked\<close> relates a frame to its caller. A walk from the vectors \<open>ns0\<close> and \<open>cs0\<close> has left a linked
  stack of symbolized frames and added each module without, or with corrupt, symbols once.
\<close>

definition walked ::
  "(CodeModule \<Rightarrow> sym_module option) \<Rightarrow> stackwalker \<Rightarrow> ('c walk_frame_scheme \<Rightarrow> 'c walk_frame_scheme \<Rightarrow> bool) \<Rightarrow>
     CodeModule list \<Rightarrow> CodeModule list \<Rightarrow> 'c walk_frame_scheme list \<Rightarrow> CodeModule list \<Rightarrow> CodeModule list \<Rightarrow> bool" where
  "walked symbols W linked ns0 cs0 stk ns cs \<longleftrightarrow>
     successively linked stk \<and>
     (\<forall>frame \<in> set stk. \<exists>b. frame_module b = None \<and> base_frame frame = snd (walk_answer symbols W b)) \<and>
     set ns = set ns0 \<union> modules_where symbols (\<lambda>s. s = None) stk \<and> (distinct ns0 \<longrightarrow> distinct ns) \<and>
     set cs = set cs0 \<union> modules_where symbols corrupt stk \<and> (distinct cs0 \<longrightarrow> distinct cs)"

text \<open>A linked stack that begins with the context frame, if there is one, at its instruction.\<close>

definition frame_start :: "('c walk_frame_scheme \<Rightarrow> 'k) \<Rightarrow> 'c walk_frame_scheme \<Rightarrow> 'k \<times> uint64" where
  "frame_start core frame = (core frame, instruction (frame_info (base_frame frame)))"

definition stack_from ::
  "('c walk_frame_scheme \<Rightarrow> 'k) \<Rightarrow> ('c walk_frame_scheme \<Rightarrow> 'c walk_frame_scheme \<Rightarrow> bool) \<Rightarrow>
     'c walk_frame_scheme option \<Rightarrow> 'c walk_frame_scheme list \<Rightarrow> bool" where
  "stack_from core linked context_frame stk \<longleftrightarrow>
     successively linked stk \<and>
     (case context_frame of None \<Rightarrow> stk = [] | Some f \<Rightarrow> stk \<noteq> [] \<and> frame_start core (hd stk) = frame_start core f)"

lemma walked_Nil [simp]: "walked symbols W linked ns cs [] ns cs"
  by (simp add: walked_def modules_where_def)

lemma set_InsertSpecialAttentionModule:
  "set (InsertSpecialAttentionModule m ms) = set ms \<union> set_option m"
  "distinct ms \<Longrightarrow> distinct (InsertSpecialAttentionModule m ms)"
  by (auto simp: InsertSpecialAttentionModule_def split: option.split)

lemma modules_where_snoc:
  "modules_where symbols P (stk @ [frame]) =
     modules_where symbols P stk \<union> {m. frame_module (base_frame frame) = Some m \<and> P (symbols m)}"
  by (auto simp: modules_where_def)

lemma answer_result:
  assumes "frame_module b = None" and "frame_module (snd (frame_answer symbols ms us b)) = Some m"
  shows "(fst (frame_answer symbols ms us b) = kError \<longleftrightarrow> symbols m = None) \<and>
    (fst (frame_answer symbols ms us b) = kWarningCorruptSymbols \<longleftrightarrow> corrupt (symbols m))"
  using assms by (auto simp: frame_answer_def symbolized_def corrupt_def split: option.splits if_splits)

lemma walked_snoc:
  assumes "walked symbols W linked ns0 cs0 stk ns cs" and "stk \<noteq> [] \<longrightarrow> linked (last stk) frame"
    and fresh: "frame_module b = None" and answer: "walk_answer symbols W b = (result, base_frame frame)"
  shows "walked symbols W linked ns0 cs0 (stk @ [frame])
    (if result = kError then InsertSpecialAttentionModule (frame_module (base_frame frame)) ns else ns)
    (if result = kWarningCorruptSymbols
      then InsertSpecialAttentionModule (frame_module (base_frame frame)) cs else cs)"
proof -
  have m: "frame_module (base_frame frame) = Some m \<Longrightarrow>
      (result = kError \<longleftrightarrow> symbols m = None) \<and> (result = kWarningCorruptSymbols \<longleftrightarrow> corrupt (symbols m))" for m
    using answer_result [OF fresh, of symbols "modules W" "unloaded_modules W" m] by (simp add: answer)
  have "successively linked (stk @ [frame])"
    using assms(1,2) by (auto simp: walked_def successively_append_iff)
  moreover have "set_option (frame_module (base_frame frame)) =
      (if result = kError then {m. frame_module (base_frame frame) = Some m \<and> symbols m = None}
       else if result = kWarningCorruptSymbols
         then {m. frame_module (base_frame frame) = Some m \<and> corrupt (symbols m)}
       else set_option (frame_module (base_frame frame)))"
    using m by (cases "frame_module (base_frame frame)") auto
  ultimately show ?thesis
    using assms(1) fresh answer m
    unfolding walked_def modules_where_snoc
    by (cases "frame_module (base_frame frame)") (auto simp: set_InsertSpecialAttentionModule)
qed

lemma walk_loop_None: "walk_loop F W L get_caller None frames n ns cs z = Some (True, frames, ns, cs, z)"
  by (subst walk_loop.simps) simp

section \<open>Every walk ends\<close>

text \<open>The context frame, if there is one, has not been symbolized.\<close>

definition fresh_frame :: "'c walk_frame_scheme option \<Rightarrow> bool" where
  "fresh_frame frame \<longleftrightarrow> pred_option (\<lambda>f. frame_module (base_frame f) = None) frame"

text \<open>
  \<open>core\<close> is what a frame keeps from its recovery on: neither symbolizing it nor the notes that
  \<open>GetCallerFrame\<close> makes change it.
\<close>

locale cpu_walk = frame_answers F inv symbols W
  for F :: "'z frame_symbolizer" and inv symbols W +
  fixes get_caller :: "('c, 'z) get_caller"
    and ideal_get_caller :: "('c, unit) get_caller"
    and core :: "'c walk_frame_scheme \<Rightarrow> 'k"
    and linked :: "'c walk_frame_scheme \<Rightarrow> 'c walk_frame_scheme \<Rightarrow> bool"
  assumes caller: "frames \<noteq> [] \<Longrightarrow> inv z \<Longrightarrow> of_walk W (base_frame (last frames)) \<Longrightarrow>
      answered F symbols (base_frame (last frames)) z \<Longrightarrow>
      \<exists>r z'. get_caller frames allowed z = Some (r, z') \<and> inv z' \<and> ideal_get_caller frames allowed () = Some (r, ())"
    and caller_linked: "frames \<noteq> [] \<Longrightarrow> ideal_get_caller frames allowed () = Some ((last_frame, Some frame), ()) \<Longrightarrow>
      frame_module (base_frame frame) = None \<and>
      linked last_frame (frame\<lparr>base_frame := snd (walk_answer symbols W (base_frame frame))\<rparr>)"
    and noted: "frames \<noteq> [] \<Longrightarrow> ideal_get_caller frames allowed () = Some ((last_frame, result), ()) \<Longrightarrow>
      core last_frame = core (last frames) \<and> base_frame last_frame = base_frame (last frames)"
    and linked_core: "core frame = core frame' \<Longrightarrow> base_frame frame = base_frame frame' \<Longrightarrow>
      linked callee frame \<longleftrightarrow> linked callee frame'"
    and symbolized_core: "core (frame\<lparr>base_frame := b\<rparr>) = core frame"
begin

lemma walked_noted:
  assumes "walked symbols W linked ns0 cs0 (frames @ [f]) ns cs" and "core f' = core f" and "base_frame f' = base_frame f"
  shows "walked symbols W linked ns0 cs0 (frames @ [f']) ns cs"
proof -
  have "linked a f' \<longleftrightarrow> linked a f" for a using linked_core assms(2,3) by blast
  then show ?thesis
    using assms(1,3) by (simp add: walked_def modules_where_snoc successively_append_iff)
qed

lemma walk_loop_ends:
  assumes "inv z" and "length frames \<le> unat (max_frames L)" and "walked symbols W linked ns0 cs0 frames ns cs"
    and "\<And>f. frame = Some f \<Longrightarrow> frame_module (base_frame f) = None \<and>
      (frames \<noteq> [] \<longrightarrow> linked (last frames) (f\<lparr>base_frame := snd (walk_answer symbols W (base_frame f))\<rparr>))"
  shows "\<exists>stk ns' cs' z'. walk_loop F W L get_caller frame frames scanned ns cs z = Some (True, stk, ns', cs', z') \<and>
    inv z' \<and>
    walk_loop (ideal_symbolizer symbols) W L ideal_get_caller frame frames scanned ns cs () =
      Some (True, stk, ns', cs', ()) \<and>
    length stk \<le> unat (max_frames L) + 1 \<and> walked symbols W linked ns0 cs0 stk ns' cs' \<and>
    (\<exists>rest. map (frame_start core) stk = map (frame_start core) frames @ rest \<and>
      (case frame of None \<Rightarrow> rest = [] | Some f \<Rightarrow> rest \<noteq> [] \<and> hd rest = frame_start core f))"
  using assms
proof (induction "Suc (unat (max_frames L)) - length frames" arbitrary: frame frames scanned ns cs z)
  case 0
  then show ?case by simp
next
  case (Suc k)
  show ?case
  proof (cases frame)
    case None
    then show ?thesis using Suc.prems(1-3) by (simp add: walk_loop_None)
  next
    case (Some f)
    define b where "b = snd (walk_answer symbols W (base_frame f))"
    define r where "r = fst (walk_answer symbols W (base_frame f))"
    have ans: "walk_answer symbols W (base_frame f) = (r, b)" by (simp add: r_def b_def)
    have same_ip: "instruction (frame_info b) = instruction (frame_info (base_frame f))"
      by (simp add: b_def frame_answer_instruction)
    have fresh: "frame_module (base_frame f) = None"
      and link: "frames \<noteq> [] \<longrightarrow> linked (last frames) (f\<lparr>base_frame := b\<rparr>)"
      using Suc.prems(4) Some by (auto simp: b_def)
    obtain z1 where fill: "fill_source_line F (modules W) (unloaded_modules W) (base_frame f) z = Some (r, b, z1)"
      and inv1: "inv z1"
      and info: "answered F symbols b z1" "of_walk W b"
      using fills [OF Suc.prems(1) fresh] of_walk_answer [OF fresh, of W symbols] unfolding ans by auto
    have nk: "r \<noteq> kInterrupt"
      using ans by (auto simp: frame_answer_def symbolized_def split: option.splits if_splits)
    let ?f = "f\<lparr>base_frame := b\<rparr>"
    let ?frames = "frames @ [?f]"
    define ns1 where "ns1 = (if r = kError then InsertSpecialAttentionModule (frame_module b) ns else ns)"
    define cs1 where "cs1 = (if r = kWarningCorruptSymbols then InsertSpecialAttentionModule (frame_module b) cs else cs)"
    define sc where "sc = (if dubious (trust f) then scanned + 1 else scanned)"
    have w1: "walked symbols W linked ns0 cs0 ?frames ns1 cs1"
    proof -
      have "walk_answer symbols W (base_frame f) = (r, base_frame ?f)" using ans by simp
      from walked_snoc [OF Suc.prems(3) link fresh this] show ?thesis
        unfolding ns1_def cs1_def by (simp cong: if_cong)
    qed
    have ideal_fill: "fill_source_line (ideal_symbolizer symbols) (modules W) (unloaded_modules W) (base_frame f) () = Some (r, b, ())"
      by (simp add: ideal_symbolizer_def ans)
    show ?thesis
    proof (cases "length ?frames > unat (max_frames L)")
      case True
      have "walk_loop F W L get_caller frame frames scanned ns cs z = Some (True, ?frames, ns1, cs1, z1)"
        using True nk by (subst walk_loop.simps) (simp add: Some fill ns1_def cs1_def Let_def)
      moreover have "walk_loop (ideal_symbolizer symbols) W L ideal_get_caller frame frames scanned ns cs () =
          Some (True, ?frames, ns1, cs1, ())"
        using True nk by (subst walk_loop.simps) (simp add: Some ideal_fill ns1_def cs1_def Let_def)
      ultimately show ?thesis
        using w1 inv1 Suc.prems(2) Some by (simp add: frame_start_def symbolized_core same_ip)
    next
      case False
      let ?ok = "sc < max_frames_scanned L"
      obtain last_frame result z2 where get: "get_caller ?frames ?ok z1 = Some ((last_frame, result), z2)" "inv z2"
        and ideal_call: "ideal_get_caller ?frames ?ok () = Some ((last_frame, result), ())"
        using caller [of ?frames z1 ?ok] inv1 info by auto
      let ?noted = "frames @ [last_frame]"
      have kept: "core last_frame = core f" "base_frame last_frame = b"
        using noted [OF _ ideal_call] by (simp_all add: symbolized_core)
      have w2: "walked symbols W linked ns0 cs0 ?noted ns1 cs1"
        by (rule walked_noted [OF w1]) (simp_all add: kept symbolized_core)
      have real: "walk_loop F W L get_caller frame frames scanned ns cs z =
          walk_loop F W L get_caller result ?noted sc ns1 cs1 z2"
        using False nk get by (subst walk_loop.simps) (simp add: Some fill ns1_def cs1_def sc_def Let_def)
      have ideal: "walk_loop (ideal_symbolizer symbols) W L ideal_get_caller frame frames scanned ns cs () =
          walk_loop (ideal_symbolizer symbols) W L ideal_get_caller result ?noted sc ns1 cs1 ()"
        using False nk ideal_call by (subst walk_loop.simps) (simp add: Some ideal_fill ns1_def cs1_def sc_def Let_def)
      have k: "k = Suc (unat (max_frames L)) - length ?noted" using Suc.hyps(2) by simp
      have le: "length ?noted \<le> unat (max_frames L)" using False by simp
      have next_ok: "frame_module (base_frame g) = None \<and>
          (?noted \<noteq> [] \<longrightarrow> linked (last ?noted) (g\<lparr>base_frame := snd (walk_answer symbols W (base_frame g))\<rparr>))"
        if "result = Some g" for g
        using caller_linked [of ?frames ?ok] ideal_call that by simp
      from Suc.hyps(1) [OF k get(2) le w2 next_ok] obtain stk ns' cs' z' rest where
        IH: "walk_loop F W L get_caller result ?noted sc ns1 cs1 z2 = Some (True, stk, ns', cs', z')" "inv z'"
          "walk_loop (ideal_symbolizer symbols) W L ideal_get_caller result ?noted sc ns1 cs1 () = Some (True, stk, ns', cs', ())"
          "length stk \<le> unat (max_frames L) + 1" "walked symbols W linked ns0 cs0 stk ns' cs'"
          "map (frame_start core) stk = map (frame_start core) ?noted @ rest"
        by blast
      show ?thesis
        using IH by (simp add: real [unfolded Some] ideal [unfolded Some] Some kept frame_start_def same_ip)
    qed
  qed
qed

text \<open>A whole walk from the context frame, if there is one.\<close>

lemma Walk_ends:
  assumes "inv z" and "fresh_frame context_frame"
  shows "\<exists>stk ns' cs' z'. Walk F W L context_frame get_caller ns cs z = Some (True, stk, ns', cs', z') \<and> inv z' \<and>
    Walk (ideal_symbolizer symbols) W L context_frame ideal_get_caller ns cs () = Some (True, stk, ns', cs', ()) \<and>
    length stk \<le> unat (max_frames L) + 1 \<and> walked symbols W linked ns cs stk ns' cs' \<and>
    stack_from core linked context_frame stk"
proof -
  have "length [] \<le> unat (max_frames L)" by simp
  from walk_loop_ends [OF assms(1) this walked_Nil [of symbols W linked ns cs], of context_frame 0] assms(2) [unfolded fresh_frame_def pred_option_def]
  obtain stk ns' cs' z' where
    "Walk F W L context_frame get_caller ns cs z = Some (True, stk, ns', cs', z')" "inv z'"
    "Walk (ideal_symbolizer symbols) W L context_frame ideal_get_caller ns cs () = Some (True, stk, ns', cs', ())"
    "length stk \<le> unat (max_frames L) + 1" "walked symbols W linked ns cs stk ns' cs'"
    "case context_frame of None \<Rightarrow> map (frame_start core) stk = [] |
      Some f \<Rightarrow> map (frame_start core) stk \<noteq> [] \<and> hd (map (frame_start core) stk) = frame_start core f"
    unfolding Walk_def by auto
  then show ?thesis by (auto simp: hd_map stack_from_def walked_def split: option.splits)
qed

end

section \<open>What the frames of all CPUs have in common\<close>

definition frame_core :: "('r, 'f, 'm) cpu_frame_scheme \<Rightarrow> frame_trust \<times> 'r \<times> 'f" where
  "frame_core frame = (trust frame, cpu_context frame, context_validity frame)"

text \<open>
  A frame and its caller: \<open>ip\<close> reads the return address, \<open>sp\<close> the stack pointer, \<open>below\<close> compares the
  stack pointers, the instruction lies \<open>behind\<close> bytes before the return address, and the registers
  flagged in \<open>essential\<close> are valid.
\<close>

definition linked_by ::
  "('r \<Rightarrow> 'w::len word) \<Rightarrow> ('r \<Rightarrow> 'w word) \<Rightarrow> ('w word \<Rightarrow> 'w word \<Rightarrow> bool) \<Rightarrow> 'w word \<Rightarrow> 'f::len word \<Rightarrow>
     ('r, 'f word, 'm) cpu_frame_scheme \<Rightarrow> ('r, 'f word, 'm) cpu_frame_scheme \<Rightarrow> bool" where
  "linked_by ip sp below behind essential callee frame \<longleftrightarrow>
     ip (cpu_context frame) \<noteq> 0 \<and> below (sp (cpu_context callee)) (sp (cpu_context frame)) \<and>
     instruction (frame_info (base_frame frame)) = ucast (ip (cpu_context frame) - behind) \<and>
     context_validity frame AND essential = essential \<and>
     trust frame \<notin> {FRAME_TRUST_NONE, FRAME_TRUST_PREWALKED, FRAME_TRUST_CONTEXT}"

lemma linked_by_core:
  "frame_core frame = frame_core frame' \<Longrightarrow> base_frame frame = base_frame frame' \<Longrightarrow>
     linked_by ip sp below behind essential callee frame \<longleftrightarrow> linked_by ip sp below behind essential callee frame'"
  by (simp add: linked_by_def frame_core_def)

lemma frame_core_symbolized: "frame_core (frame\<lparr>base_frame := b\<rparr>) = frame_core frame"
  by (simp add: frame_core_def)

lemma linked_by_symbolized:
  "linked_by ip sp below behind essential callee frame \<Longrightarrow>
     linked_by ip sp below behind essential callee (frame\<lparr>base_frame := snd (walk_answer symbols W (base_frame frame))\<rparr>)"
  by (simp add: linked_by_def frame_answer_instruction)

text \<open>The walkers whose callers are linked in this way; \<open>GetCallerFrame\<close> keeps the core of the last frame.\<close>

locale register_walk = frame_answers F inv symbols W
  for F :: "'z frame_symbolizer" and inv symbols W +
  fixes get_caller :: "(('r, 'f::len word, 'm) cpu_frame_ext, 'z) get_caller"
    and ideal_get_caller :: "(('r, 'f word, 'm) cpu_frame_ext, unit) get_caller"
    and ip sp :: "'r \<Rightarrow> 'w::len word"
    and below :: "'w word \<Rightarrow> 'w word \<Rightarrow> bool"
    and behind :: "'w word"
    and essential :: "'f word"
  assumes runs: "frames \<noteq> [] \<Longrightarrow> inv z \<Longrightarrow> of_walk W (base_frame (last frames)) \<Longrightarrow>
      answered F symbols (base_frame (last frames)) z \<Longrightarrow>
      \<exists>r z'. get_caller frames allowed z = Some (r, z') \<and> inv z' \<and> ideal_get_caller frames allowed () = Some (r, ())"
    and links: "frames \<noteq> [] \<Longrightarrow> ideal_get_caller frames allowed () = Some ((last_frame, Some frame), ()) \<Longrightarrow>
      frame_module (base_frame frame) = None \<and> linked_by ip sp below behind essential (last frames) frame"
    and keeps: "frames \<noteq> [] \<Longrightarrow> ideal_get_caller frames allowed () = Some ((last_frame, result), ()) \<Longrightarrow>
      frame_core last_frame = frame_core (last frames) \<and> base_frame last_frame = base_frame (last frames)"
begin

sublocale cpu_walk F inv symbols W get_caller ideal_get_caller frame_core "linked_by ip sp below behind essential"
proof (unfold_locales, goal_cases)
  case (2 frames allowed last_frame frame)
  note linked = links [OF 2] and kept = keeps [OF 2]
  have "linked_by ip sp below behind essential last_frame frame"
    using linked kept by (simp add: linked_by_def frame_core_def)
  then show ?case using linked linked_by_symbolized by blast
next
  case (4 frame frame' callee)
  then show ?case by (rule linked_by_core)
qed (rule runs, assumption+, rule keeps, assumption+, rule frame_core_symbolized)

end

section \<open>The symbolizers that keep the promise\<close>

interpretation ideal: frame_answers "ideal_symbolizer symbols" "\<lambda>_. True" symbols W
  for symbols W
  by unfold_locales (auto simp: ideal_symbolizer_def answered_def split: prod.split)

text \<open>The symbol files of the modules a walk can meet are readable and say what \<open>symbols\<close> says.\<close>

definition ready ::
  "'m module_class \<Rightarrow> encoding \<Rightarrow> (memory \<Rightarrow> nat \<Rightarrow> nat \<Rightarrow> 'm \<Rightarrow> sym_module \<Rightarrow> bool) \<Rightarrow> file_system \<Rightarrow>
     allocation \<Rightarrow> string list \<Rightarrow> (CodeModule \<Rightarrow> sym_module option) \<Rightarrow> stackwalker \<Rightarrow>
     ('m, simple_supplier) symbolizer \<times> heap \<Rightarrow> bool" where
  "ready cls encodes denotes fs alloc roots symbols W z \<longleftrightarrow>
     (case z of (S, h) \<Rightarrow> allocates alloc \<and> walk_modules W \<subseteq> described encodes fs roots symbols \<and>
        symbolizer_ok cls denotes (simple_ok alloc roots) (walk_modules W) symbols S h)"

lemma symbolizer_ok_implementation:
  "symbolizer_ok cls denotes supplier_ok K symbols S h \<Longrightarrow> HasImplementation S"
  by (auto simp: symbolizer_ok_def HasImplementation_def)

context symbol_supply
begin

lemma real_fills:
  assumes "symbolizer_ok cls denotes supplier_ok (walk_modules W) symbols (fst z) (snd z)"
    and "walk_modules W \<subseteq> known" and "\<not> interrupts" and "frame_module frame = None"
  shows "\<exists>z'. fill_source_line (real_symbolizer cls provider) (modules W) (unloaded_modules W) frame z =
      Some (fst (walk_answer symbols W frame), snd (walk_answer symbols W frame), z') \<and>
    symbolizer_ok cls denotes supplier_ok (walk_modules W) symbols (fst z') (snd z') \<and>
    has_implementation (real_symbolizer cls provider) z' \<and>
    answered (real_symbolizer cls provider) symbols (snd (walk_answer symbols W frame)) z' \<and>
    (\<forall>b. of_walk W b \<longrightarrow> answered (real_symbolizer cls provider) symbols b z \<longrightarrow>
       answered (real_symbolizer cls provider) symbols b z')"
proof -
  have "m \<in> walk_modules W" if "module_at (modules W) (unloaded_modules W) (instruction (frame_info frame)) = Some m" for m
    using that by (auto simp: walk_modules_def)
  from FillSourceLineInfo_answer [OF assms(1-3) this assms(4)] obtain S' h' where
    "SymbolizerFillSourceLineInfo cls provider (modules W) (unloaded_modules W) frame (fst z) (snd z) =
      Some (fst (walk_answer symbols W frame), snd (walk_answer symbols W frame), S', h')"
    "symbolizer_ok cls denotes supplier_ok (walk_modules W) symbols S' h'"
    "SymbolizerFindCFIFrameInfo cls (snd (walk_answer symbols W frame)) S' h' =
      Some (cfi_answer symbols (snd (walk_answer symbols W frame)))"
    "SymbolizerFindWindowsFrameInfo cls (snd (walk_answer symbols W frame)) S' h' =
      Some (windows_answer symbols (snd (walk_answer symbols W frame)))"
    "resolver_grows (fst z) S'"
    by blast
  note run = this
  have "answered (real_symbolizer cls provider) symbols b (S', h')"
    if "of_walk W b" "answered (real_symbolizer cls provider) symbols b z" for b
    using answers_kept [OF assms(1) run(2,5), of b] that
    by (simp add: answered_def of_walk_def real_symbolizer_def case_prod_beta)
  moreover have "answered (real_symbolizer cls provider) symbols (snd (walk_answer symbols W frame)) (S', h')"
    using run(3,4) by (simp add: answered_def real_symbolizer_def)
  ultimately show ?thesis
    using run(1,2)
    by (intro exI [of _ "(S', h')"]) (simp add: real_symbolizer_def case_prod_beta symbolizer_ok_implementation)
qed

end

interpretation basic_walk: frame_answers "real_symbolizer basic_class (simple_class fs alloc)"
  "ready basic_class basic_encodes basic_denotes fs alloc roots symbols W" symbols W
  for fs alloc roots symbols W
  using simple_basic.real_fills by unfold_locales (simp add: ready_def case_prod_beta)

interpretation fast_walk: frame_answers "real_symbolizer fast_class (simple_class fs alloc)"
  "ready fast_class fast_encodes fast_denotes fs alloc roots symbols W" symbols W
  for fs alloc roots symbols W
  using simple_fast.real_fills by unfold_locales (simp add: ready_def case_prod_beta)

sublocale walk_environment \<subseteq> stateless: walk_environment regions "ideal_symbolizer symbols" "\<lambda>_. True" symbols W
  by unfold_locales

interpretation ideal_env: walk_environment minidump_memories "ideal_symbolizer symbols" "\<lambda>_. True" symbols W
  for symbols W
  by unfold_locales

interpretation basic_scan: walk_environment minidump_memories "real_symbolizer basic_class (simple_class fs alloc)"
  "ready basic_class basic_encodes basic_denotes fs alloc roots symbols W" symbols W
  for fs alloc roots symbols W
  by unfold_locales

interpretation fast_scan: walk_environment minidump_memories "real_symbolizer fast_class (simple_class fs alloc)"
  "ready fast_class fast_encodes fast_denotes fs alloc roots symbols W" symbols W
  for fs alloc roots symbols W
  by unfold_locales

text \<open>Rule sets that crash no evaluation, whatever the registers and the stack hold.\<close>

definition cfi_safe :: "'w::len itself \<Rightarrow> (CodeModule \<Rightarrow> sym_module option) \<Rightarrow> bool" where
  "cfi_safe w symbols \<longleftrightarrow> (\<forall>frame fi registers mem. cfi_answer symbols (frame :: module_frame) = Some fi \<longrightarrow>
     FindCallerRegs fi (registers :: 'w word registers) mem Map.empty \<noteq> Crash)"

lemma FindCallerRegisters_safe:
  assumes "cfi_safe TYPE('w::len) symbols" and "cfi_answer symbols (frame :: module_frame) = Some fi"
  shows "FindCallerRegisters rm mem fi (callee :: 'm \<Rightarrow> 'w word) flags \<noteq> Crash"
proof -
  have "FindCallerRegs fi (callee_registers rm callee flags) mem Map.empty \<noteq> Crash"
    using assms by (simp add: cfi_safe_def)
  then show ?thesis by (simp add: FindCallerRegisters_def split: outcome.split)
qed

definition scan_result ::
  "(CodeModule \<Rightarrow> sym_module option) \<Rightarrow> stackwalker \<Rightarrow> memory_region \<Rightarrow> 'w::len word \<Rightarrow> bool \<Rightarrow>
     ('w word \<times> 'w word) option" where
  "scan_result symbols W mem start is_context_frame =
     (let n = (if is_context_frame then 160 else 40) in
      if unat start + n * (LENGTH('w) div 8) < 2 ^ 64 then first_return_address symbols W mem start (Suc n) else None)"

text \<open>
  A walker whose stack is a region of a minidump within the address space of the CPU, and whose
  symbols have safe rules.
\<close>

definition stack_ok :: "'w::len itself \<Rightarrow> (CodeModule \<Rightarrow> sym_module option) \<Rightarrow> stackwalker \<Rightarrow> bool" where
  "stack_ok w symbols W \<longleftrightarrow> cfi_safe w symbols \<and>
     (\<forall>mem. memory W = Some mem \<longrightarrow>
        mem \<in> minidump_memories \<and> unat (GetBase mem) + unat (GetSize mem) \<le> 2 ^ LENGTH('w))"

definition basic_ready ::
  "'w::len itself \<Rightarrow> file_system \<Rightarrow> allocation \<Rightarrow> string list \<Rightarrow> (CodeModule \<Rightarrow> sym_module option) \<Rightarrow> stackwalker \<Rightarrow>
     (sym_module, simple_supplier) symbolizer \<times> heap \<Rightarrow> bool" where
  "basic_ready w fs alloc roots symbols W z \<longleftrightarrow>
     ready basic_class basic_encodes basic_denotes fs alloc roots symbols W z \<and> stack_ok w symbols W"

interpretation basic_env: walk_environment minidump_memories "real_symbolizer basic_class (simple_class fs alloc)"
  "basic_ready w fs alloc roots symbols W" symbols W
  for w :: "'w::len itself" and fs alloc roots symbols W
  using basic_walk.fills by unfold_locales (fastforce simp: basic_ready_def)

context walk_environment
begin

lemma scan_default:
  fixes start :: "'w::len word"
  assumes "mem \<in> regions" and "32 \<le> LENGTH('w)" and "LENGTH('w) \<le> 64"
    and "unat (GetBase mem) + unat (GetSize mem) \<le> 2 ^ LENGTH('w)" and "inv z"
  shows "\<exists>z'. ScanForReturnAddress_default F W mem start is_context_frame z =
    Some (scan_result symbols W mem start is_context_frame, z') \<and> inv z'"
proof -
  let ?n = "if is_context_frame then 160 else 40 :: nat"
  have "?n * (LENGTH('w) div 8) \<le> 160 * 8"
    using assms(3) by (intro mult_le_mono) (simp_all add: div_le_mono [of "LENGTH('w)" 64 8, simplified])
  then have n: "?n * (LENGTH('w) div 8) < 2 ^ 64" by (rule le_less_trans) simp
  have k: "(if is_context_frame then kRASearchWords * 4 else kRASearchWords) = int ?n" by (simp add: kRASearchWords_def)
  show ?thesis
    using scan_finds [OF assms n, of start]
    unfolding ScanForReturnAddress_default_def k by (simp only: scan_result_def Let_def)
qed

end

text \<open>
  Two runs that give the same result, one on a state that satisfies the invariant, one without a
  state. A function of the walker is shown to be alike piece by piece.
\<close>

definition alike ::
  "('z \<Rightarrow> bool) \<Rightarrow> ('z \<Rightarrow> ('a \<times> 'z) option) \<Rightarrow> (unit \<Rightarrow> ('a \<times> unit) option) \<Rightarrow> bool" where
  "alike ok f g \<longleftrightarrow> (\<forall>z. ok z \<longrightarrow> (\<exists>r z'. f z = Some (r, z') \<and> ok z' \<and> g () = Some (r, ())))"

lemma alike_return: "alike ok (\<lambda>z. Some (r, z)) (\<lambda>z. Some (r, z))"
  by (simp add: alike_def)

lemma alike_bind:
  assumes "alike ok f g" and "\<And>r. alike ok (h r) (k r)"
  shows "alike ok (\<lambda>z. Option.bind (f z) (\<lambda>(r, z). h r z)) (\<lambda>z. Option.bind (g z) (\<lambda>(r, z). k r z))"
  unfolding alike_def
proof (intro allI impI)
  fix z assume "ok z"
  then obtain r z1 where f: "f z = Some (r, z1)" "ok z1" "g () = Some (r, ())" using assms(1) unfolding alike_def by blast
  with assms(2) [of r] show "\<exists>r z'. Option.bind (f z) (\<lambda>(r, z). h r z) = Some (r, z') \<and> ok z' \<and>
      Option.bind (g ()) (\<lambda>(r, z). k r z) = Some (r, ())"
    unfolding alike_def by auto
qed

lemma alike_value:
  assumes "f \<noteq> None" and "\<And>v. f = Some v \<Longrightarrow> alike ok (h v) (k v)"
  shows "alike ok (\<lambda>z. Option.bind f (\<lambda>v. h v z)) (\<lambda>z. Option.bind f (\<lambda>v. k v z))"
  using assms by auto

lemma alike_if:
  "(b \<Longrightarrow> alike ok f g) \<Longrightarrow> (\<not> b \<Longrightarrow> alike ok f' g') \<Longrightarrow>
     alike ok (\<lambda>z. if b then f z else f' z) (\<lambda>z. if b then g z else g' z)"
  by (cases b) simp_all

lemma alike_option:
  "alike ok f g \<Longrightarrow> (\<And>v. alike ok (f' v) (g' v)) \<Longrightarrow>
     alike ok (\<lambda>z. case x of None \<Rightarrow> f z | Some v \<Rightarrow> f' v z) (\<lambda>z. case x of None \<Rightarrow> g z | Some v \<Rightarrow> g' v z)"
  by (cases x) simp_all

lemma alike_pair:
  "(\<And>a b. p = (a, b) \<Longrightarrow> alike ok (f a b) (g a b)) \<Longrightarrow>
     alike ok (\<lambda>z. case p of (a, b) \<Rightarrow> f a b z) (\<lambda>z. case p of (a, b) \<Rightarrow> g a b z)"
  by (cases p) simp

lemma alike_pair_state:
  "(\<And>a b. alike ok (f a b) (g a b)) \<Longrightarrow> alike ok (case p of (a, b) \<Rightarrow> f a b) (case p of (a, b) \<Rightarrow> g a b)"
  by (cases p) simp

lemmas alike_intros = alike_return alike_if alike_option alike_pair alike_pair_state alike_value alike_bind

context walk_environment
begin

lemma recover_by_scan_ideal:
  assumes "mem \<in> regions" and "inv z" and "32 \<le> LENGTH('w)" and "LENGTH('w) \<le> 64"
    and "unat (GetBase mem) + unat (GetSize mem) \<le> 2 ^ LENGTH('w)"
  shows "\<exists>r z'. recover_by_scan scanned_frame (start :: 'w::len word) F W frames mem z = Some (r, z') \<and> inv z' \<and>
    recover_by_scan scanned_frame start (ideal_symbolizer symbols) W frames mem () = Some (r, ())"
  using scan_default [OF assms(1,3,4,5,2), of start "length frames = 1"]
    stateless.scan_default [OF assms(1,3,4,5), of start "length frames = 1" "()"]
  by (auto simp: recover_by_scan_def)

lemma scan_alike:
  fixes start :: "'w::len word"
  assumes "mem \<in> regions" and "32 \<le> LENGTH('w)" and "LENGTH('w) \<le> 64"
    and "unat (GetBase mem) + unat (GetSize mem) \<le> 2 ^ LENGTH('w)" and "n * (LENGTH('w) div 8) < 2 ^ 64"
  shows "alike inv (ScanForReturnAddress F W mem start (int n)) (ScanForReturnAddress (ideal_symbolizer symbols) W mem start (int n))"
  using scan_finds [OF assms(1-4) _ assms(5), where start = start] stateless.scan_finds [OF assms(1-4) _ assms(5), where start = start]
  by (auto simp: alike_def)

lemma scan_default_alike:
  fixes start :: "'w::len word"
  assumes "mem \<in> regions" and "32 \<le> LENGTH('w)" and "LENGTH('w) \<le> 64"
    and "unat (GetBase mem) + unat (GetSize mem) \<le> 2 ^ LENGTH('w)"
  shows "alike inv (ScanForReturnAddress_default F W mem start b) (ScanForReturnAddress_default (ideal_symbolizer symbols) W mem start b)"
  using scan_default [OF assms, where start = start and is_context_frame = b]
    stateless.scan_default [OF assms, where start = start and is_context_frame = b]
  by (auto simp: alike_def)

text \<open>Recovering a caller gives the same frame with any symbolizer that keeps the promise.\<close>

lemma recover_caller_ideal:
  assumes "inv z" and "answered F symbols (base_frame (last frames)) z"
    and cfi: "\<And>mem cfi. cfi_answer symbols (base_frame (last frames)) = Some cfi \<Longrightarrow> by_cfi mem cfi \<noteq> None"
    and scan: "\<And>mem z. memory W = Some mem \<Longrightarrow> inv z \<Longrightarrow>
      \<exists>r z'. by_scan mem z = Some (r, z') \<and> inv z' \<and> ideal_scan mem () = Some (r, ())"
  shows "\<exists>r z'. recover_caller by_cfi by_frame_pointer by_scan finish F W frames allowed z = Some ((last frames, r), z') \<and>
    inv z' \<and>
    recover_caller by_cfi by_frame_pointer ideal_scan finish (ideal_symbolizer symbols) W frames allowed () =
      Some ((last frames, r), ())"
proof (cases "memory W")
  case None
  then show ?thesis using assms(1) by (simp add: recover_caller_def)
next
  case (Some mem)
  let ?cfi = "cfi_answer symbols (base_frame (last frames))"
  obtain nf where nf: "(case ?cfi of None \<Rightarrow> Some None | Some cfi \<Rightarrow> by_cfi mem cfi) = Some nf"
    using cfi [of _ mem] by (cases ?cfi) auto
  have ideal: "find_cfi_frame_info (ideal_symbolizer symbols) (base_frame (last frames)) () = Some ?cfi"
    by (simp add: ideal_symbolizer_def)
  obtain r z1 where "by_scan mem z = Some (r, z1)" "inv z1" "ideal_scan mem () = Some (r, ())"
    using scan [OF Some assms(1)] by blast
  then show ?thesis
    using assms(1) assms(2) [unfolded answered_def] Some nf ideal
    by (cases nf; cases "by_frame_pointer mem"; cases allowed) (simp_all add: recover_caller_def)
qed

end

text \<open>
  What a scan of \<open>n\<close> words may answer: the first return address among these words if there is one and
  the window does not pass the end of the 64-bit addresses; and nothing but the first return
  address from the start on, at most one word behind the window.
\<close>

definition scan_answer ::
  "(CodeModule \<Rightarrow> sym_module option) \<Rightarrow> stackwalker \<Rightarrow> memory_region \<Rightarrow> nat \<Rightarrow> 'w::len word \<Rightarrow>
     ('w word \<times> 'w word) option \<Rightarrow> bool" where
  "scan_answer symbols W mem n start r \<longleftrightarrow>
     (\<forall>found. first_return_address symbols W mem start n = Some found \<and> unat start + n * (LENGTH('w) div 8) < 2 ^ 64 \<longrightarrow>
        r = Some found) \<and>
     (\<forall>found. r = Some found \<longrightarrow> (\<exists>k \<le> n + 1. first_return_address symbols W mem start k = Some found))"

lemma first_return_address_more:
  "first_return_address symbols W mem start n = Some found \<Longrightarrow>
     first_return_address symbols W mem start (Suc n) = Some found"
proof (induction n arbitrary: start)
  case (Suc n)
  then show ?case
    by (auto simp: first_return_address_Suc [of _ _ _ _ "Suc n"] first_return_address_Suc [of _ _ _ start n]
        split: if_splits option.splits)
qed simp

lemma scan_result_answer:
  "scan_answer symbols W mem (if is_context_frame then 160 else 40) start
     (scan_result symbols W mem (start :: 'w::len word) is_context_frame)"
  unfolding scan_answer_def scan_result_def Let_def
  by (auto simp: first_return_address_more split: if_splits intro: exI [of _ "161 :: nat"] exI [of _ "41 :: nat"])

lemma ScanForReturnAddress_answers:
  fixes start :: "'w::len word"
  assumes "mem \<in> minidump_memories" and "32 \<le> LENGTH('w)" and "LENGTH('w) \<le> 64"
    and "unat (GetBase mem) + unat (GetSize mem) \<le> 2 ^ LENGTH('w)"
  shows "\<exists>r. scan_answer symbols W mem (if is_context_frame then 160 else 40) start r \<and>
    (\<forall>z. ready basic_class basic_encodes basic_denotes fs alloc roots symbols W z \<longrightarrow>
      (\<exists>z'. ScanForReturnAddress_default (real_symbolizer basic_class (simple_class fs alloc)) W mem start is_context_frame z =
          Some (r, z') \<and> ready basic_class basic_encodes basic_denotes fs alloc roots symbols W z'))"
  using basic_scan.scan_default [OF assms] scan_result_answer by blast

text \<open>C37: The scan for a return address on the stack of a minidump, of 64-bit words or of 32-bit words, ends
  with an answer that does not depend on the state of the symbolizer, which stays in order. A
  return address is an address in a loaded module which, if the module has symbols, lies in a
  named function. If there is one among the 40 words from the start (160 for the context
  frame), as far as they can be read without a gap, the scan finds the first; this takes
  a window that ends before the last 64-bit address. Whatever the scan finds is the first
  return address from the start on and at most one word behind the window.\<close>

theorem ScanForReturnAddress_correct:
  assumes "mem \<in> minidump_memories" and "n = (if is_context_frame then 160 else 40)"
  shows "(\<exists>r. scan_answer symbols W mem n (start :: uint64) r \<and>
      (\<forall>z. ready basic_class basic_encodes basic_denotes fs alloc roots symbols W z \<longrightarrow>
        (\<exists>z'. ScanForReturnAddress_default (real_symbolizer basic_class (simple_class fs alloc)) W mem start is_context_frame z =
            Some (r, z') \<and> ready basic_class basic_encodes basic_denotes fs alloc roots symbols W z'))) \<and>
    (unat (GetBase mem) + unat (GetSize mem) \<le> 2 ^ 32 \<longrightarrow>
      (\<exists>r. scan_answer symbols W mem n (start32 :: uint32) r \<and>
      (\<forall>z. ready basic_class basic_encodes basic_denotes fs alloc roots symbols W z \<longrightarrow>
        (\<exists>z'. ScanForReturnAddress_default (real_symbolizer basic_class (simple_class fs alloc)) W mem start32 is_context_frame z =
            Some (r, z') \<and> ready basic_class basic_encodes basic_denotes fs alloc roots symbols W z'))))"
proof (intro conjI impI)
  have "unat (GetBase mem) + unat (GetSize mem) \<le> 2 ^ LENGTH(64)"
    using minidump.region_end [OF assms(1)] by simp
  with ScanForReturnAddress_answers [OF assms(1) _ _ this] show "\<exists>r. scan_answer symbols W mem n start r \<and>
      (\<forall>z. ready basic_class basic_encodes basic_denotes fs alloc roots symbols W z \<longrightarrow>
        (\<exists>z'. ScanForReturnAddress_default (real_symbolizer basic_class (simple_class fs alloc)) W mem start is_context_frame z =
            Some (r, z') \<and> ready basic_class basic_encodes basic_denotes fs alloc roots symbols W z'))"
    unfolding assms(2) by simp
  assume "unat (GetBase mem) + unat (GetSize mem) \<le> 2 ^ 32"
  then have "unat (GetBase mem) + unat (GetSize mem) \<le> 2 ^ LENGTH(32)" by simp
  with ScanForReturnAddress_answers [OF assms(1) _ _ this] show "\<exists>r. scan_answer symbols W mem n start32 r \<and>
      (\<forall>z. ready basic_class basic_encodes basic_denotes fs alloc roots symbols W z \<longrightarrow>
        (\<exists>z'. ScanForReturnAddress_default (real_symbolizer basic_class (simple_class fs alloc)) W mem start32 is_context_frame z =
            Some (r, z') \<and> ready basic_class basic_encodes basic_denotes fs alloc roots symbols W z'))"
    unfolding assms(2) by simp
qed

text \<open>A walker for the examples: one module with symbols, and a stack that holds one address in it.\<close>

definition example_dump :: minidump where
  "example_dump = \<lparr>stream = Some (concat (map word_bytes [0, 0x401004, 0, 0x7010 :: uint64])), swap = False\<rparr>"

definition example_region :: minidump_region where
  "example_region = SetDescriptor (Some \<lparr>start_of_memory_range = 0x7000, data_size = 32, rva = 0\<rparr>) MinidumpMemoryRegion"

definition example_stack :: memory_region where
  "example_stack = minidump_memory example_dump example_region"

definition example_walker :: stackwalker where
  "example_walker = \<lparr>os_short = ''linux'', memory = Some example_stack, modules = Some example_code_modules,
     unloaded_modules = None\<rparr>"

definition example_state :: "(sym_module, simple_supplier) symbolizer \<times> heap" where
  "example_state = (StackFrameSymbolizer (Some (SimpleSymbolSupplier [''sym''])) (Some Resolver_init),
     \<lparr>heap_memory = (\<lambda>i. 0), live = Map.empty\<rparr>)"

lemma example_stack_memory: "example_stack \<in> minidump_memories"
  unfolding example_stack_def minidump_memories_def example_region_def
  using region_ok_SetDescriptor [of MinidumpMemoryRegion] by (auto simp: MinidumpMemoryRegion_def)

lemma example_only_module: "module_at (Some example_code_modules) None a = Some m \<Longrightarrow> m = example_code_module"
  by (auto simp: module_at_def GetModuleForAddress_def RetrieveRange_def example_code_modules_def StoreRange_def
      StoreRangeInternal.simps Let_def lower_bound_def map_find_def RangeMap_init_def BasicCodeModules_init_def range_result_def
      split: if_splits option.splits)

lemma example_ready:
  "ready basic_class basic_encodes basic_denotes example_symbol_files example_alloc [''sym''] (\<lambda>_. Some example_module)
     example_walker example_state"
proof -
  have "walk_modules example_walker \<subseteq> {example_code_module}"
    using example_only_module by (auto simp: walk_modules_def example_walker_def)
  moreover have "simple_ok example_alloc [''sym''] (SimpleSymbolSupplier [''sym'']) (snd example_state)"
    by (rule SimpleSymbolSupplier_ok [OF example_allocates]) (simp add: example_state_def)
  ultimately show ?thesis
    using example_allocates example_described
    by (auto simp: ready_def example_state_def intro!: StackFrameSymbolizer_ok) (simp add: same_names_def)
qed

lemma example_cfi_safe: "cfi_safe w (\<lambda>_. Some example_module)"
proof -
  have "FindCFIFrameInfo example_module f = None" for f
    by (simp add: FindCFIFrameInfo_def example_module_def Module_init_def RangeMap_init_def RetrieveRange_def
        lower_bound_def)
  then show ?thesis by (simp add: cfi_safe_def cfi_answer_def split: option.split)
qed

lemma le_bytes_numeral: "le_bytes (numeral k) v = word_of_nat v # le_bytes (pred_numeral k) (v div 256)"
  by (subst numeral_eq_Suc) (rule le_bytes.simps)

lemma example_word_bytes:
  "word_bytes (0 :: uint64) = [0, 0, 0, 0, 0, 0, 0, 0]"
  "word_bytes (0x401004 :: uint64) = [4, 0x10, 0x40, 0, 0, 0, 0, 0]"
  "word_bytes (0x7010 :: uint64) = [0x10, 0x70, 0, 0, 0, 0, 0, 0]"
  by (simp_all add: word_bytes_def le_bytes_numeral)

lemmas example_stack_defs = example_stack_def example_region_def minidump_memory_def SetDescriptor_def
  MinidumpMemoryRegion_def RegionGetBase_def RegionGetSize_def max_bytes_def

lemma example_lookup:
  "GetModuleForAddress example_code_modules 0 = None"
  "GetModuleForAddress example_code_modules 0x401004 = Some example_code_module"
  "function_name (LookupAddress example_module (query_frame example_code_module (StackFrame_at 0x401004))) = ''main''"
  by code_simp+

lemma example_words:
  "GetMemoryAtAddress example_stack 0x7000 = Some (0 :: uint64)"
  "GetMemoryAtAddress example_stack 0x7008 = Some (0x401004 :: uint64)"
  by (simp_all add: GetMemoryAtAddress_def GetMemoryAtAddressInternal_def GetMemory_def SeekRead_def Let_def
      example_dump_def example_word_bytes example_stack_defs)

lemma example_scan:
  "first_return_address (\<lambda>_. Some example_module) example_walker example_stack (0x7000 :: uint64) 40 = Some (0x7008, 0x401004)"
proof -
  note step = first_return_address_Suc [of "\<lambda>_. Some example_module" example_walker example_stack]
  have "40 = Suc (Suc 38)" by simp
  then show ?thesis
    using example_words example_lookup example_module_at
    by (simp only: step) (simp add: return_address_def plausible_def example_walker_def)
qed

theorem ScanForReturnAddress_correct_witness:
  "\<exists>z'. ScanForReturnAddress_default (real_symbolizer basic_class (simple_class example_symbol_files example_alloc))
      example_walker example_stack (0x7000 :: uint64) False example_state = Some (Some (0x7008, 0x401004), z')"
proof -
  obtain r where r: "scan_answer (\<lambda>_. Some example_module) example_walker example_stack 40 (0x7000 :: uint64) r"
    and ends: "\<exists>z'. ScanForReturnAddress_default (real_symbolizer basic_class (simple_class example_symbol_files example_alloc))
      example_walker example_stack (0x7000 :: uint64) False example_state = Some (r, z')"
    using ScanForReturnAddress_correct [OF example_stack_memory, where n = 40 and is_context_frame = False] example_ready
    by fastforce
  have "r = Some (0x7008, 0x401004)" using r example_scan by (simp add: scan_answer_def)
  with ends show ?thesis by simp
qed

end
