(* ===== verification/Stackwalker_AMD64.thy ===== *)
theory Stackwalker_AMD64
  imports Stackwalker
begin

text \<open>
  The walker of processor/stackwalker_amd64.cc. A raw context gives each register its value; the
  other members of \<open>MDRawContextAMD64\<close> play no role in walking.
\<close>

section \<open>Registers\<close>

datatype amd64_register =
  RAX | RDX | RCX | RBX | RSI | RDI | RBP | RSP | R8 | R9 | R10 | R11 | R12 | R13 | R14 | R15 | RIP

type_synonym amd64_context = "amd64_register \<Rightarrow> uint64"
type_synonym amd64_frame = "(amd64_context, uint32) cpu_frame"

fun CONTEXT_VALID :: "amd64_register \<Rightarrow> uint32" where
  "CONTEXT_VALID RAX = 0x1" | "CONTEXT_VALID RDX = 0x2" | "CONTEXT_VALID RCX = 0x4" | "CONTEXT_VALID RBX = 0x8"
| "CONTEXT_VALID RSI = 0x10" | "CONTEXT_VALID RDI = 0x20" | "CONTEXT_VALID RBP = 0x40" | "CONTEXT_VALID RSP = 0x80"
| "CONTEXT_VALID R8 = 0x100" | "CONTEXT_VALID R9 = 0x200" | "CONTEXT_VALID R10 = 0x400" | "CONTEXT_VALID R11 = 0x800"
| "CONTEXT_VALID R12 = 0x1000" | "CONTEXT_VALID R13 = 0x2000" | "CONTEXT_VALID R14 = 0x4000"
| "CONTEXT_VALID R15 = 0x8000" | "CONTEXT_VALID RIP = 0x10000"

definition amd64_entry :: "string \<Rightarrow> string option \<Rightarrow> bool \<Rightarrow> amd64_register \<Rightarrow> amd64_register register_set" where
  "amd64_entry name alternate saved r =
     \<lparr>reg_name = name, alternate_name = alternate, callee_saves = saved, validity_flag = CONTEXT_VALID r,
      context_member = r\<rparr>"

definition cfi_register_map :: "amd64_register register_set list" where
  "cfi_register_map =
     [amd64_entry ''$rax'' None False RAX, amd64_entry ''$rdx'' None False RDX, amd64_entry ''$rcx'' None False RCX,
      amd64_entry ''$rbx'' None True RBX, amd64_entry ''$rsi'' None False RSI, amd64_entry ''$rdi'' None False RDI,
      amd64_entry ''$rbp'' None True RBP, amd64_entry ''$rsp'' (Some ''.cfa'') False RSP, amd64_entry ''$r8'' None False R8,
      amd64_entry ''$r9'' None False R9, amd64_entry ''$r10'' None False R10, amd64_entry ''$r11'' None False R11,
      amd64_entry ''$r12'' None True R12, amd64_entry ''$r13'' None True R13, amd64_entry ''$r14'' None True R14,
      amd64_entry ''$r15'' None True R15, amd64_entry ''$rip'' (Some ''.ra'') False RIP]"

section \<open>Recovering the caller\<close>

definition AMD64_GetContextFrame :: "amd64_context option \<Rightarrow> amd64_frame option" where
  "AMD64_GetContextFrame raw_context =
     (case raw_context of
        None \<Rightarrow> None
      | Some c \<Rightarrow> Some (set_instruction (c RIP) ((StackFrame_cpu (\<lambda>_. 0))
          \<lparr>cpu_context := c, context_validity := - 1, trust := FRAME_TRUST_CONTEXT\<rparr>)))"

text \<open>The outer option is None where the evaluation of a rule crashes.\<close>

definition AMD64_GetCallerByCFIFrameInfo ::
  "memory_region \<Rightarrow> amd64_frame list \<Rightarrow> cfi_frame_info \<Rightarrow> amd64_frame option option" where
  "AMD64_GetCallerByCFIFrameInfo mem frames cfi_frame_info =
     (let last_frame = last frames in
      case FindCallerRegisters cfi_register_map (GetMemoryAtAddress mem) cfi_frame_info
             (cpu_context last_frame) (context_validity last_frame) of
        Crash \<Rightarrow> None
      | Fail _ \<Rightarrow> Some None
      | Ok (ctx, flags) \<Rightarrow>
          let essentials = CONTEXT_VALID RIP OR CONTEXT_VALID RSP in
          if flags AND essentials \<noteq> essentials then Some None
          else Some (Some ((StackFrame_cpu (\<lambda>_. 0))
            \<lparr>cpu_context := ctx, context_validity := flags, trust := FRAME_TRUST_CFI\<rparr>)))"

definition AMD64_IsEndOfStack :: "uint64 \<Rightarrow> uint64 \<Rightarrow> uint64 \<Rightarrow> bool" where
  "AMD64_IsEndOfStack caller_rip caller_rsp callee_rsp \<longleftrightarrow> caller_rip = 0 \<or> caller_rsp < callee_rsp"

definition is_non_canonical :: "uint64 \<Rightarrow> bool" where
  "is_non_canonical ptr \<longleftrightarrow> ptr > 0x7FFFFFFFFFFF \<and> ptr < 0xFFFF800000000000"

definition AMD64_GetCallerByFramePointerRecovery :: "memory_region \<Rightarrow> amd64_frame list \<Rightarrow> amd64_frame option" where
  "AMD64_GetCallerByFramePointerRecovery mem frames =
     (let last_frame = last frames; last_rsp = cpu_context last_frame RSP; last_rbp = cpu_context last_frame RBP in
      if last_rbp mod 8 \<noteq> 0 then None
      else
        case GetMemoryAtAddress mem (last_rbp + 8) of
          None \<Rightarrow> None
        | Some caller_rip \<Rightarrow>
            (case GetMemoryAtAddress mem last_rbp of
               None \<Rightarrow> None
             | Some caller_rbp \<Rightarrow>
                 let caller_rsp = last_rbp + 16 in
                 if is_non_canonical caller_rip then None
                 else if AMD64_IsEndOfStack caller_rip caller_rsp last_rsp \<or> caller_rbp < last_rbp then None
                 else if (GetMemoryAtAddress mem caller_rbp :: uint64 option) = None then None
                 else Some ((StackFrame_cpu (\<lambda>_. 0))
                   \<lparr>trust := FRAME_TRUST_FP,
                    cpu_context := (cpu_context last_frame)(RIP := caller_rip, RSP := caller_rsp, RBP := caller_rbp),
                    context_validity := CONTEXT_VALID RIP OR CONTEXT_VALID RSP OR CONTEXT_VALID RBP\<rparr>)))"

text \<open>The frame of a return address found on the stack; a plausible \<open>rbp\<close> is passed on.\<close>

definition AMD64_scanned_frame :: "memory_region \<Rightarrow> amd64_frame \<Rightarrow> uint64 \<Rightarrow> uint64 \<Rightarrow> amd64_frame" where
  "AMD64_scanned_frame mem last_frame caller_rip_address caller_rip =
     (let frame = (StackFrame_cpu (\<lambda>_. 0))
            \<lparr>trust := FRAME_TRUST_SCAN,
             cpu_context := (cpu_context last_frame)(RIP := caller_rip, RSP := caller_rip_address + 8),
             context_validity := CONTEXT_VALID RIP OR CONTEXT_VALID RSP\<rparr>;
          last_rbp = cpu_context last_frame RBP;
          with_rbp = (\<lambda>rbp. frame\<lparr>cpu_context := (cpu_context frame)(RBP := rbp),
            context_validity := context_validity frame OR CONTEXT_VALID RBP\<rparr>) in
      if context_validity last_frame AND CONTEXT_VALID RBP \<noteq> 0 then
        if caller_rip_address - 8 = last_rbp then
          (case GetMemoryAtAddress mem last_rbp of
             None \<Rightarrow> frame
           | Some caller_rbp \<Rightarrow> if caller_rbp > caller_rip_address then with_rbp caller_rbp else frame)
        else if last_rbp \<ge> caller_rip_address + 8 then with_rbp last_rbp
        else frame
      else frame)"

definition AMD64_GetCallerByStackScan ::
  "'z frame_symbolizer \<Rightarrow> stackwalker \<Rightarrow> memory_region \<Rightarrow> amd64_frame list \<Rightarrow> 'z \<Rightarrow> (amd64_frame option \<times> 'z) option" where
  "AMD64_GetCallerByStackScan F W mem frames =
     recover_by_scan (AMD64_scanned_frame mem (last frames)) (cpu_context (last frames) RSP) F W frames mem"

text \<open>The registers of a Native Client frame are cut to 32 bits.\<close>

definition AMD64_sandboxed :: "stackwalker \<Rightarrow> amd64_frame \<Rightarrow> amd64_frame" where
  "AMD64_sandboxed W frame =
     (let c = cpu_context frame; cut = (\<lambda>v. ucast (ucast v :: uint32) :: uint64) in
      if os_short W = ''nacl'' then frame\<lparr>cpu_context := c(RIP := cut (c RIP), RSP := cut (c RSP), RBP := cut (c RBP))\<rparr>
      else frame)"

definition AMD64_finish :: "stackwalker \<Rightarrow> amd64_frame \<Rightarrow> amd64_frame \<Rightarrow> amd64_frame option" where
  "AMD64_finish W last_frame new_frame =
     (let f = AMD64_sandboxed W new_frame; c = cpu_context f in
      if AMD64_IsEndOfStack (c RIP) (c RSP) (cpu_context last_frame RSP) then None
      else Some (set_instruction (c RIP - 1) f))"

definition AMD64_GetCallerFrame :: "'z frame_symbolizer \<Rightarrow> stackwalker \<Rightarrow> amd64_frame list \<Rightarrow> bool \<Rightarrow> 'z \<Rightarrow>
     ((amd64_frame \<times> amd64_frame option) \<times> 'z) option" where
  "AMD64_GetCallerFrame F W frames =
     recover_caller (\<lambda>mem. AMD64_GetCallerByCFIFrameInfo mem frames)
       (\<lambda>mem. AMD64_GetCallerByFramePointerRecovery mem frames)
       (\<lambda>mem. AMD64_GetCallerByStackScan F W mem frames)
       (AMD64_finish W (last frames)) F W frames"

section \<open>No stack pointer falls\<close>

abbreviation amd64_essentials :: uint32 where
  "amd64_essentials \<equiv> CONTEXT_VALID RIP OR CONTEXT_VALID RSP"

abbreviation amd64_linked :: "amd64_frame \<Rightarrow> amd64_frame \<Rightarrow> bool" where
  "amd64_linked \<equiv> linked_by (\<lambda>c. c RIP) (\<lambda>c. c RSP) (\<le>) 1 amd64_essentials"

definition amd64_recovered :: "amd64_frame \<Rightarrow> bool" where
  "amd64_recovered frame \<longleftrightarrow> base_frame frame = StackFrame \<and>
     context_validity frame AND amd64_essentials = amd64_essentials \<and>
     trust frame \<in> {FRAME_TRUST_CFI, FRAME_TRUST_FP, FRAME_TRUST_SCAN}"

lemma amd64_recovered_cfi:
  "AMD64_GetCallerByCFIFrameInfo mem frames cfi = Some (Some f) \<Longrightarrow> amd64_recovered f"
  by (auto simp: AMD64_GetCallerByCFIFrameInfo_def Let_def amd64_recovered_def StackFrame_cpu_def
      split: outcome.splits if_splits)

lemma amd64_recovered_fp:
  "AMD64_GetCallerByFramePointerRecovery mem frames = Some f \<Longrightarrow> amd64_recovered f"
  by (auto simp: AMD64_GetCallerByFramePointerRecovery_def Let_def amd64_recovered_def StackFrame_cpu_def
      split: if_splits option.splits)

lemma amd64_recovered_scan: "amd64_recovered (AMD64_scanned_frame mem last_frame a ip)"
  by (auto simp: AMD64_scanned_frame_def Let_def amd64_recovered_def StackFrame_cpu_def split: option.split)

lemma amd64_recovered_sandboxed [simp]: "amd64_recovered (AMD64_sandboxed W f) \<longleftrightarrow> amd64_recovered f"
  by (simp add: AMD64_sandboxed_def amd64_recovered_def Let_def)

lemma AMD64_GetCallerFrame_linked:
  assumes "AMD64_GetCallerFrame F W frames allowed z = Some ((last_frame, Some f), z')"
  shows "frame_module (base_frame f) = None \<and> amd64_linked (last frames) f"
proof -
  obtain mem g where f: "AMD64_finish W (last frames) g = Some f"
    and g: "(\<exists>cfi. AMD64_GetCallerByCFIFrameInfo mem frames cfi = Some (Some g)) \<or>
      AMD64_GetCallerByFramePointerRecovery mem frames = Some g \<or>
      (\<exists>z1 z2. AMD64_GetCallerByStackScan F W mem frames z1 = Some (Some g, z2))"
    using assms unfolding AMD64_GetCallerFrame_def by (elim recover_caller_cases)
  have "amd64_recovered g"
    using g unfolding AMD64_GetCallerByStackScan_def
    by (auto elim!: recover_by_scan_cases intro: amd64_recovered_cfi amd64_recovered_fp amd64_recovered_scan)
  then have "amd64_recovered (AMD64_sandboxed W g)" by simp
  then show ?thesis
    using f
    by (auto simp: AMD64_finish_def Let_def linked_by_def amd64_recovered_def AMD64_IsEndOfStack_def
        set_instruction_def StackFrame_def split: if_splits)
qed

text \<open>
  A caller that was found by scanning has a stack pointer above that of its callee: it points behind
  the return address, which was found at or above the stack pointer of the callee. (The sandboxed
  registers of Native Client are cut afterwards.)
\<close>

definition amd64_progress :: "stackwalker \<Rightarrow> amd64_frame \<Rightarrow> amd64_frame \<Rightarrow> bool" where
  "amd64_progress W callee frame \<longleftrightarrow> amd64_linked callee frame \<and>
     (trust frame = FRAME_TRUST_SCAN \<and> os_short W \<noteq> ''nacl'' \<longrightarrow> cpu_context callee RSP < cpu_context frame RSP)"

lemma trust_AMD64_scanned_frame: "trust (AMD64_scanned_frame mem last_frame a ip) = FRAME_TRUST_SCAN"
  by (auto simp: AMD64_scanned_frame_def Let_def split: option.split)

lemma RSP_AMD64_scanned_frame: "cpu_context (AMD64_scanned_frame mem last_frame a ip) RSP = a + 8"
  by (auto simp: AMD64_scanned_frame_def Let_def split: option.split)

lemma AMD64_GetCallerByStackScan_above:
  assumes "mem \<in> minidump_memories" and "unat (GetBase mem) + unat (GetSize mem) \<le> 2 ^ LENGTH(64)"
    and "AMD64_GetCallerByStackScan (ideal_symbolizer symbols) W mem frames z = Some (Some g, z')"
  shows "cpu_context (last frames) RSP < cpu_context g RSP"
proof -
  let ?rsp = "cpu_context (last frames) RSP"
  obtain a ip where g: "g = AMD64_scanned_frame mem (last frames) a ip"
    and "\<exists>b. ScanForReturnAddress_default (ideal_symbolizer symbols) W mem ?rsp b z = Some (Some (a, ip), z')"
    using assms(3) by (auto simp: AMD64_GetCallerByStackScan_def recover_by_scan_def bind_eq_Some_conv)
  then obtain b where "ScanForReturnAddress_default (ideal_symbolizer symbols) W mem ?rsp b z = Some (Some (a, ip), z')"
    by blast
  then have "scan_result symbols W mem ?rsp b = Some (a, ip)"
    using ideal_env.scan_default [OF assms(1) _ _ assms(2) TrueI, where start = ?rsp and is_context_frame = b and z = z] by simp
  then obtain n where "first_return_address symbols W mem ?rsp n = Some (a, ip)"
    unfolding scan_result_def Let_def by (meson option.distinct(1))
  from ideal_env.found_above [OF assms(1) _ _ assms(2) this]
  have a: "?rsp \<le> a" "unat a + 8 \<le> unat (GetBase mem) + unat (GetSize mem)" by simp_all
  have "unat a + 8 < 2 ^ 64" using a(2) minidump.region_end [OF assms(1)] by linarith
  then have "unat (a + 8) = unat a + 8" by (simp add: unat_plus_if')
  then show ?thesis using a(1) by (simp add: g RSP_AMD64_scanned_frame word_less_nat_alt word_le_nat_alt)
qed

lemma AMD64_GetCallerFrame_progress:
  assumes "stack_ok TYPE(64) symbols W"
    and "AMD64_GetCallerFrame (ideal_symbolizer symbols) W frames allowed z = Some ((last_frame, Some f), z')"
  shows "amd64_progress W (last frames) f"
proof -
  obtain mem g where mem: "memory W = Some mem" and f: "AMD64_finish W (last frames) g = Some f"
    and g: "(\<exists>cfi. AMD64_GetCallerByCFIFrameInfo mem frames cfi = Some (Some g)) \<or>
      AMD64_GetCallerByFramePointerRecovery mem frames = Some g \<or>
      (\<exists>z1 z2. AMD64_GetCallerByStackScan (ideal_symbolizer symbols) W mem frames z1 = Some (Some g, z2))"
    using assms(2) unfolding AMD64_GetCallerFrame_def by (elim recover_caller_cases)
  have not_scan: "AMD64_GetCallerByCFIFrameInfo mem frames cfi = Some (Some g) \<Longrightarrow> trust g \<noteq> FRAME_TRUST_SCAN"
    "AMD64_GetCallerByFramePointerRecovery mem frames = Some g \<Longrightarrow> trust g \<noteq> FRAME_TRUST_SCAN" for cfi
    by (auto simp: AMD64_GetCallerByCFIFrameInfo_def AMD64_GetCallerByFramePointerRecovery_def Let_def
        split: outcome.splits option.splits if_splits)
  have "cpu_context (last frames) RSP < cpu_context f RSP" if "trust f = FRAME_TRUST_SCAN" "os_short W \<noteq> ''nacl''"
  proof -
    have same: "trust f = trust g" "cpu_context f = cpu_context g"
      using f that(2) by (auto simp: AMD64_finish_def AMD64_sandboxed_def Let_def set_instruction_def split: if_splits)
    then show ?thesis
      using g not_scan that(1) assms(1) mem AMD64_GetCallerByStackScan_above by (auto simp: stack_ok_def)
  qed
  then show ?thesis
    using AMD64_GetCallerFrame_linked [OF assms(2)] by (simp add: amd64_progress_def)
qed

section \<open>Walking\<close>

context walk_environment
begin

lemma amd64_caller:
  assumes "inv z" and "answered F symbols (base_frame (last frames)) z"
    and "cfi_safe TYPE(64) symbols" and "\<And>mem. memory W = Some mem \<Longrightarrow> mem \<in> regions"
  shows "\<exists>r z'. AMD64_GetCallerFrame F W frames allowed z = Some ((last frames, r), z') \<and> inv z' \<and>
    AMD64_GetCallerFrame (ideal_symbolizer symbols) W frames allowed () = Some ((last frames, r), ())"
  unfolding AMD64_GetCallerFrame_def
proof (rule recover_caller_ideal [OF assms(1,2)])
  show "AMD64_GetCallerByCFIFrameInfo mem frames cfi \<noteq> None"
    if "cfi_answer symbols (base_frame (last frames)) = Some cfi" for mem cfi
    using FindCallerRegisters_safe [OF assms(3) that]
    by (auto simp: AMD64_GetCallerByCFIFrameInfo_def Let_def split: outcome.split)
  show "\<exists>r z'. AMD64_GetCallerByStackScan F W mem frames z = Some (r, z') \<and> inv z' \<and>
      AMD64_GetCallerByStackScan (ideal_symbolizer symbols) W mem frames () = Some (r, ())"
    if "memory W = Some mem" "inv z" for mem z
    unfolding AMD64_GetCallerByStackScan_def
    using region_end [OF assms(4) [OF that(1)]] by (intro recover_by_scan_ideal assms(4) that) simp_all
qed

end

interpretation amd64: register_walk "real_symbolizer basic_class (simple_class fs alloc)"
  "basic_ready TYPE(64) fs alloc roots symbols W" symbols W
  "AMD64_GetCallerFrame (real_symbolizer basic_class (simple_class fs alloc)) W"
  "AMD64_GetCallerFrame (ideal_symbolizer symbols) W" "\<lambda>c. c RIP" "\<lambda>c. c RSP" "(\<le>)" 1 amd64_essentials
  for fs alloc roots symbols W
proof (unfold_locales, goal_cases)
  case (1 frames z allowed)
  then have "stack_ok TYPE(64) symbols W" by (simp add: basic_ready_def)
  then show ?case
    using basic_env.amd64_caller [OF 1(2,4), of allowed] by (fastforce simp: stack_ok_def)
qed (erule AMD64_GetCallerFrame_linked, auto simp: AMD64_GetCallerFrame_def dest: recover_caller_last)

lemma AMD64_GetContextFrame_fresh: "fresh_frame (AMD64_GetContextFrame c)"
  by (simp add: fresh_frame_def AMD64_GetContextFrame_def set_instruction_def StackFrame_cpu_def StackFrame_def
      split: option.split)

text \<open>The same walker, with what links its frames on a stack that the environment describes.\<close>

interpretation amd64_scanned: cpu_walk "real_symbolizer basic_class (simple_class fs alloc)"
  "basic_ready TYPE(64) fs alloc roots symbols W" symbols W
  "AMD64_GetCallerFrame (real_symbolizer basic_class (simple_class fs alloc)) W"
  "AMD64_GetCallerFrame (ideal_symbolizer symbols) W" frame_core
  "\<lambda>callee frame. stack_ok TYPE(64) symbols W \<longrightarrow> amd64_progress W callee frame"
  for fs alloc roots symbols W
proof (unfold_locales, goal_cases)
  case (2 frames allowed last_frame frame)
  have "last_frame = last frames" using 2(2) by (auto simp: AMD64_GetCallerFrame_def dest: recover_caller_last)
  then show ?case
    using AMD64_GetCallerFrame_progress [OF _ 2(2)] AMD64_GetCallerFrame_linked [OF 2(2)] linked_by_symbolized
    by (fastforce simp: amd64_progress_def)
next
  case (4 frame frame' callee)
  then have "amd64_linked callee frame \<longleftrightarrow> amd64_linked callee frame'" by (rule linked_by_core)
  then show ?case using 4(1) by (simp add: amd64_progress_def frame_core_def)
qed (rule amd64.caller, assumption+, rule amd64.noted, assumption+, rule frame_core_symbolized)

text \<open>C38: A walk over a 64-bit stack of a minidump ends, for any contents of the stack and any symbols whose
  rules do not crash the evaluator, with at most one frame more than the limit. The first frame
  is the context frame; every caller has a nonzero, valid \<open>rip\<close> and a valid \<open>rsp\<close>, and its instruction
  lies one byte before the return address. The stack pointer of a caller is not below that of its
  callee, and above it when the caller was found by scanning and the registers are not those of
  Native Client.\<close>

theorem AMD64_Walk_ends:
  assumes "basic_ready TYPE(64) fs alloc roots symbols W z"
  shows "\<exists>stk ns' cs' z'. Walk (real_symbolizer basic_class (simple_class fs alloc)) W L (AMD64_GetContextFrame c)
        (AMD64_GetCallerFrame (real_symbolizer basic_class (simple_class fs alloc)) W) ns cs z =
      Some (True, stk, ns', cs', z') \<and>
    length stk \<le> unat (max_frames L) + 1 \<and> stack_from frame_core (amd64_progress W) (AMD64_GetContextFrame c) stk"
proof -
  have "stack_ok TYPE(64) symbols W" using assms by (simp add: basic_ready_def)
  then show ?thesis
    using amd64_scanned.Walk_ends [OF assms AMD64_GetContextFrame_fresh] by simp blast
qed

text \<open>C7: What a walk finds depends on the registers, the stack and the symbols of the modules only: it is the
  stack that the walker finds with a symbolizer that keeps no state and answers from the symbols,
  whatever was symbolized before. Each frame is symbolized from the symbol file of its module,
  and the two vectors gain each module of the stack without symbols, or with corrupt ones, once.\<close>

theorem AMD64_Walk_history_independent:
  assumes "basic_ready TYPE(64) fs alloc roots symbols W z"
  shows "\<exists>stk ns' cs' z'. Walk (real_symbolizer basic_class (simple_class fs alloc)) W L (AMD64_GetContextFrame c)
        (AMD64_GetCallerFrame (real_symbolizer basic_class (simple_class fs alloc)) W) ns cs z =
      Some (True, stk, ns', cs', z') \<and>
    basic_ready TYPE(64) fs alloc roots symbols W z' \<and>
    Walk (ideal_symbolizer symbols) W L (AMD64_GetContextFrame c) (AMD64_GetCallerFrame (ideal_symbolizer symbols) W) ns cs () =
      Some (True, stk, ns', cs', ()) \<and>
    (\<forall>frame \<in> set stk. \<exists>b. frame_module b = None \<and> base_frame frame = snd (walk_answer symbols W b)) \<and>
    set ns' = set ns \<union> modules_where symbols (\<lambda>s. s = None) stk \<and> (distinct ns \<longrightarrow> distinct ns') \<and>
    set cs' = set cs \<union> modules_where symbols corrupt stk \<and> (distinct cs \<longrightarrow> distinct cs')"
  using amd64.Walk_ends [OF assms AMD64_GetContextFrame_fresh] unfolding walked_def by blast

lemma example_basic_ready:
  "basic_ready TYPE(64) example_symbol_files example_alloc [''sym''] (\<lambda>_. Some example_module) example_walker example_state"
  using example_ready example_cfi_safe example_stack_memory minidump.region_end [OF example_stack_memory]
  by (simp add: basic_ready_def stack_ok_def example_walker_def)

definition example_context :: amd64_context where
  "example_context = (\<lambda>_. 0)(RIP := 0x401000, RSP := 0x7000, RBP := 0x7000)"

theorem AMD64_Walk_ends_witness:
  "\<exists>stk ns' cs' z'. Walk (real_symbolizer basic_class (simple_class example_symbol_files example_alloc)) example_walker
        default_limits (AMD64_GetContextFrame (Some example_context))
        (AMD64_GetCallerFrame (real_symbolizer basic_class (simple_class example_symbol_files example_alloc)) example_walker)
        [] [] example_state = Some (True, stk, ns', cs', z') \<and>
    length stk \<le> unat (max_frames default_limits) + 1 \<and> stack_from frame_core (amd64_progress example_walker) (AMD64_GetContextFrame (Some example_context)) stk"
  by (rule AMD64_Walk_ends [OF example_basic_ready])

theorem AMD64_Walk_history_independent_witness:
  "\<exists>stk ns' cs' z'. Walk (real_symbolizer basic_class (simple_class example_symbol_files example_alloc)) example_walker
        default_limits (AMD64_GetContextFrame (Some example_context))
        (AMD64_GetCallerFrame (real_symbolizer basic_class (simple_class example_symbol_files example_alloc)) example_walker)
        [] [] example_state = Some (True, stk, ns', cs', z') \<and>
    basic_ready TYPE(64) example_symbol_files example_alloc [''sym''] (\<lambda>_. Some example_module) example_walker z' \<and>
    Walk (ideal_symbolizer (\<lambda>_. Some example_module)) example_walker default_limits
        (AMD64_GetContextFrame (Some example_context))
        (AMD64_GetCallerFrame (ideal_symbolizer (\<lambda>_. Some example_module)) example_walker) [] [] () =
      Some (True, stk, ns', cs', ()) \<and>
    (\<forall>frame \<in> set stk. \<exists>b. frame_module b = None \<and>
      base_frame frame = snd (walk_answer (\<lambda>_. Some example_module) example_walker b)) \<and>
    set ns' = set [] \<union> modules_where (\<lambda>_. Some example_module) (\<lambda>s. s = None) stk \<and> (distinct ([] :: CodeModule list) \<longrightarrow> distinct ns') \<and>
    set cs' = set [] \<union> modules_where (\<lambda>_. Some example_module) corrupt stk \<and> (distinct ([] :: CodeModule list) \<longrightarrow> distinct cs')"
  by (rule AMD64_Walk_history_independent [OF example_basic_ready])

end
