(* ===== verification/Stackwalker_PPC.thy ===== *)
theory Stackwalker_PPC
  imports Stackwalker
begin

text \<open>
  The walkers that follow a chain of frames on the stack: processor/stackwalker_ppc.cc,
  processor/stackwalker_ppc64.cc and processor/stackwalker_sparc.cc. They use neither call frame
  information nor a scan. The registers that walking does not touch are left out of the contexts of
  PowerPC and SPARC, except for the general purpose ones.
\<close>

section \<open>What the three have in common\<close>

text \<open>A 32-bit walker drops a stack that does not lie in the first four gigabytes.\<close>

definition address_space_32 :: "stackwalker \<Rightarrow> stackwalker" where
  "address_space_32 W =
     W\<lparr>memory := (case memory W of
        None \<Rightarrow> None
      | Some mem \<Rightarrow> if GetBase mem + ucast (GetSize mem) - 1 > 0xffffffff then None else Some mem)\<rparr>"

definition chain_caller ::
  "(memory_region \<Rightarrow> 'c walk_frame_scheme \<Rightarrow> 'c walk_frame_scheme option) \<Rightarrow> stackwalker \<Rightarrow> ('c, 'z) get_caller" where
  "chain_caller recover W frames stack_scan_allowed z =
     Some ((last frames, Option.bind (memory W) (\<lambda>mem. recover mem (last frames))), z)"

lemma address_space_32_simps [simp]:
  "modules (address_space_32 W) = modules W" "unloaded_modules (address_space_32 W) = unloaded_modules W"
  "os_short (address_space_32 W) = os_short W" "walk_modules (address_space_32 W) = walk_modules W"
  by (simp_all add: address_space_32_def walk_modules_def)

lemma ready_address_space_32 [simp]:
  "ready cls encodes denotes fs alloc roots symbols (address_space_32 W) z \<longleftrightarrow>
     ready cls encodes denotes fs alloc roots symbols W z"
  by (simp add: ready_def case_prod_beta)

text \<open>The check does its work: what is left of a stack of a minidump fits.\<close>

lemma address_space_32_fits:
  assumes "memory (address_space_32 W) = Some mem" and "\<And>mem. memory W = Some mem \<Longrightarrow> mem \<in> minidump_memories"
  shows "mem \<in> minidump_memories \<and> unat (GetBase mem) + unat (GetSize mem) \<le> 2 ^ LENGTH(32)"
proof -
  have mem: "mem \<in> minidump_memories" and low: "\<not> GetBase mem + ucast (GetSize mem) - 1 > 0xffffffff"
    using assms by (auto simp: address_space_32_def split: option.splits if_splits)
  have sum: "unat (GetBase mem + ucast (GetSize mem)) = unat (GetBase mem) + unat (GetSize mem)"
    using minidump.region_end [OF mem] unat_ucast_le64 [of "GetSize mem"] by (simp add: unat_plus_if')
  have "unat (GetBase mem + ucast (GetSize mem)) \<le> 2 ^ 32"
  proof (cases "GetBase mem + ucast (GetSize mem) = 0")
    case False
    then have "unat (GetBase mem + ucast (GetSize mem)) = Suc (unat (GetBase mem + ucast (GetSize mem) - 1))"
      by (simp add: unat_minus_one unat_gt_0)
    then show ?thesis using low by (simp add: word_less_nat_alt)
  qed simp
  then show ?thesis using mem sum by simp
qed

text \<open>A locale for the walkers of this kind: the frames they recover are linked.\<close>

locale chain_walk = frame_answers F inv symbols W
  for F :: "'z frame_symbolizer" and inv symbols W +
  fixes recover :: "memory_region \<Rightarrow> ('r, 'f, 'm) cpu_frame_scheme \<Rightarrow> ('r, 'f, 'm) cpu_frame_scheme option"
    and linked :: "('r, 'f, 'm) cpu_frame_scheme \<Rightarrow> ('r, 'f, 'm) cpu_frame_scheme \<Rightarrow> bool"
  assumes recovered: "recover mem callee = Some frame \<Longrightarrow> frame_module (base_frame frame) = None \<and>
      linked callee (frame\<lparr>base_frame := snd (walk_answer symbols W (base_frame frame))\<rparr>)"
    and linked_frame_core: "frame_core frame = frame_core frame' \<Longrightarrow> base_frame frame = base_frame frame' \<Longrightarrow>
      linked callee frame \<longleftrightarrow> linked callee frame'"
begin

sublocale cpu_walk F inv symbols W "chain_caller recover W" "chain_caller recover W" frame_core linked
proof (unfold_locales, goal_cases)
  case (2 frames allowed last_frame frame)
  then show ?case using recovered by (auto simp: chain_caller_def bind_eq_Some_conv)
next
  case (4 frame frame' callee)
  then show ?case by (rule linked_frame_core)
qed (auto simp: chain_caller_def frame_core_def)

end

section \<open>PowerPC\<close>

record 'w ppc_context =
  gpr :: "nat \<Rightarrow> 'w"
  srr0 :: 'w

definition ppc_blank :: "'w::zero ppc_context" where
  "ppc_blank = \<lparr>gpr = (\<lambda>_. 0), srr0 = 0\<rparr>"

type_synonym 'w ppc_frame = "('w ppc_context, uint32) cpu_frame"

definition PPC_CONTEXT_VALID_SRR0 :: uint32 where "PPC_CONTEXT_VALID_SRR0 = 1"
definition PPC_CONTEXT_VALID_GPR1 :: uint32 where "PPC_CONTEXT_VALID_GPR1 = 2"

definition StackwalkerPPC :: "stackwalker \<Rightarrow> stackwalker" where
  "StackwalkerPPC W = address_space_32 W"

definition PPC_GetContextFrame :: "uint32 ppc_context option \<Rightarrow> uint32 ppc_frame option" where
  "PPC_GetContextFrame raw_context =
     map_option (\<lambda>c. set_instruction (ucast (srr0 c)) ((StackFrame_cpu ppc_blank)
       \<lparr>cpu_context := c, context_validity := - 1, trust := FRAME_TRUST_CONTEXT\<rparr>)) raw_context"

definition PPC_recover :: "memory_region \<Rightarrow> uint32 ppc_frame \<Rightarrow> uint32 ppc_frame option" where
  "PPC_recover mem last_frame =
     (let c = cpu_context last_frame in
      case GetMemoryAtAddress mem (ucast (gpr c 1)) of
        None \<Rightarrow> None
      | Some stack_pointer \<Rightarrow>
          if stack_pointer \<le> gpr c 1 then None
          else
            (case GetMemoryAtAddress mem (ucast (stack_pointer + 8)) of
               None \<Rightarrow> None
             | Some saved_ip \<Rightarrow>
                 if saved_ip \<le> 1 then None
                 else Some (set_instruction (ucast (saved_ip - 4)) ((StackFrame_cpu ppc_blank)
                   \<lparr>cpu_context := c\<lparr>srr0 := saved_ip, gpr := (gpr c)(1 := stack_pointer)\<rparr>,
                    context_validity := PPC_CONTEXT_VALID_SRR0 OR PPC_CONTEXT_VALID_GPR1,
                    trust := FRAME_TRUST_FP\<rparr>))))"

definition PPC_GetCallerFrame ::
  "stackwalker \<Rightarrow> uint32 ppc_frame list \<Rightarrow> bool \<Rightarrow> 'z \<Rightarrow> ((uint32 ppc_frame \<times> uint32 ppc_frame option) \<times> 'z) option" where
  "PPC_GetCallerFrame = chain_caller PPC_recover"

definition PPC64_GetContextFrame :: "uint64 ppc_context option \<Rightarrow> uint64 ppc_frame option" where
  "PPC64_GetContextFrame raw_context =
     map_option (\<lambda>c. set_instruction (srr0 c) ((StackFrame_cpu ppc_blank)
       \<lparr>cpu_context := c, context_validity := - 1, trust := FRAME_TRUST_CONTEXT\<rparr>)) raw_context"

definition PPC64_recover :: "memory_region \<Rightarrow> uint64 ppc_frame \<Rightarrow> uint64 ppc_frame option" where
  "PPC64_recover mem last_frame =
     (let c = cpu_context last_frame in
      case GetMemoryAtAddress mem (gpr c 1) of
        None \<Rightarrow> None
      | Some stack_pointer \<Rightarrow>
          if stack_pointer \<le> gpr c 1 then None
          else
            (case GetMemoryAtAddress mem (stack_pointer + 16) of
               None \<Rightarrow> None
             | Some saved_ip \<Rightarrow>
                 if saved_ip \<le> 1 then None
                 else Some (set_instruction (saved_ip - 8) ((StackFrame_cpu ppc_blank)
                   \<lparr>cpu_context := c\<lparr>srr0 := saved_ip, gpr := (gpr c)(1 := stack_pointer)\<rparr>,
                    context_validity := PPC_CONTEXT_VALID_SRR0 OR PPC_CONTEXT_VALID_GPR1,
                    trust := FRAME_TRUST_FP\<rparr>))))"

definition PPC64_GetCallerFrame ::
  "stackwalker \<Rightarrow> uint64 ppc_frame list \<Rightarrow> bool \<Rightarrow> 'z \<Rightarrow> ((uint64 ppc_frame \<times> uint64 ppc_frame option) \<times> 'z) option" where
  "PPC64_GetCallerFrame = chain_caller PPC64_recover"

abbreviation ppc_linked :: "'w::len word \<Rightarrow> 'w word ppc_frame \<Rightarrow> 'w word ppc_frame \<Rightarrow> bool" where
  "ppc_linked behind \<equiv> linked_by srr0 (\<lambda>c. gpr c 1) (<) behind (PPC_CONTEXT_VALID_SRR0 OR PPC_CONTEXT_VALID_GPR1)"

lemma PPC_recover_linked:
  "PPC_recover mem callee = Some frame \<Longrightarrow> frame_module (base_frame frame) = None \<and> ppc_linked 4 callee frame"
  by (auto simp: PPC_recover_def Let_def linked_by_def set_instruction_def StackFrame_cpu_def StackFrame_def
      split: option.splits if_splits)

lemma PPC64_recover_linked:
  "PPC64_recover mem callee = Some frame \<Longrightarrow> frame_module (base_frame frame) = None \<and> ppc_linked 8 callee frame"
  by (auto simp: PPC64_recover_def Let_def linked_by_def set_instruction_def StackFrame_cpu_def StackFrame_def
      split: option.splits if_splits)

section \<open>SPARC\<close>

record sparc_context =
  g_r :: "nat \<Rightarrow> uint64"
  sparc_pc :: uint64

type_synonym sparc_frame = "(sparc_context, uint32) cpu_frame"

definition sparc_blank :: sparc_context where
  "sparc_blank = \<lparr>g_r = (\<lambda>_. 0), sparc_pc = 0\<rparr>"

definition SPARC_CONTEXT_VALID_PC :: uint32 where "SPARC_CONTEXT_VALID_PC = 1"
definition SPARC_CONTEXT_VALID_SP :: uint32 where "SPARC_CONTEXT_VALID_SP = 2"
definition SPARC_CONTEXT_VALID_FP :: uint32 where "SPARC_CONTEXT_VALID_FP = 4"

abbreviation sparc_essentials :: uint32 where
  "sparc_essentials \<equiv> SPARC_CONTEXT_VALID_PC OR SPARC_CONTEXT_VALID_SP OR SPARC_CONTEXT_VALID_FP"

definition SPARC_GetContextFrame :: "sparc_context option \<Rightarrow> sparc_frame option" where
  "SPARC_GetContextFrame raw_context =
     map_option (\<lambda>c. set_instruction (sparc_pc c) ((StackFrame_cpu sparc_blank)
       \<lparr>cpu_context := c, context_validity := - 1, trust := FRAME_TRUST_CONTEXT\<rparr>)) raw_context"

text \<open>The two words are read at 32 bits and added up there; the registers have 64 bits.\<close>

definition SPARC_recover :: "memory_region \<Rightarrow> sparc_frame \<Rightarrow> sparc_frame option" where
  "SPARC_recover mem last_frame =
     (let c = cpu_context last_frame; stack_pointer = g_r c 30 in
      if stack_pointer \<le> g_r c 14 then None
      else
        case GetMemoryAtAddress mem (stack_pointer + 60) of
          None \<Rightarrow> None
        | Some (ins :: uint32) \<Rightarrow>
            if ins \<le> 1 then None
            else
              (case GetMemoryAtAddress mem (stack_pointer + 56) of
                 None \<Rightarrow> None
               | Some (stack_base :: uint32) \<Rightarrow>
                   if stack_base \<le> 1 then None
                   else Some (set_instruction (ucast ins) ((StackFrame_cpu sparc_blank)
                     \<lparr>cpu_context := c\<lparr>g_r := (g_r c)(14 := stack_pointer, 30 := ucast stack_base),
                        sparc_pc := ucast (ins + 8)\<rparr>,
                      context_validity := sparc_essentials, trust := FRAME_TRUST_FP\<rparr>))))"

definition SPARC_GetCallerFrame ::
  "stackwalker \<Rightarrow> sparc_frame list \<Rightarrow> bool \<Rightarrow> 'z \<Rightarrow> ((sparc_frame \<times> sparc_frame option) \<times> 'z) option" where
  "SPARC_GetCallerFrame = chain_caller SPARC_recover"

definition sparc_linked :: "sparc_frame \<Rightarrow> sparc_frame \<Rightarrow> bool" where
  "sparc_linked callee frame \<longleftrightarrow>
     g_r (cpu_context callee) 14 < g_r (cpu_context frame) 14 \<and>
     g_r (cpu_context frame) 14 = g_r (cpu_context callee) 30 \<and>
     (\<exists>ins :: uint32. 1 < ins \<and> instruction (frame_info (base_frame frame)) = ucast ins \<and>
        sparc_pc (cpu_context frame) = ucast (ins + 8)) \<and>
     context_validity frame = sparc_essentials \<and> trust frame = FRAME_TRUST_FP"

lemma SPARC_recover_linked:
  "SPARC_recover mem callee = Some frame \<Longrightarrow> frame_module (base_frame frame) = None \<and> sparc_linked callee frame"
  by (auto simp: SPARC_recover_def Let_def sparc_linked_def set_instruction_def StackFrame_cpu_def StackFrame_def not_le
      intro!: exI conjI [OF _ conjI [OF refl refl]] split: option.splits if_splits)

lemma sparc_linked_symbolized:
  "sparc_linked callee frame \<Longrightarrow>
     sparc_linked callee (frame\<lparr>base_frame := snd (walk_answer symbols W (base_frame frame))\<rparr>)"
  by (auto simp: sparc_linked_def frame_answer_instruction)

lemma sparc_linked_core:
  "frame_core frame = frame_core frame' \<Longrightarrow> base_frame frame = base_frame frame' \<Longrightarrow>
     sparc_linked callee frame \<longleftrightarrow> sparc_linked callee frame'"
  by (simp add: sparc_linked_def frame_core_def)

section \<open>Walking\<close>

interpretation ppc: chain_walk "real_symbolizer basic_class (simple_class fs alloc)"
  "ready basic_class basic_encodes basic_denotes fs alloc roots symbols W" symbols W PPC_recover "ppc_linked 4"
  for fs alloc roots symbols W
  using PPC_recover_linked linked_by_symbolized linked_by_core by unfold_locales blast+

interpretation ppc64: chain_walk "real_symbolizer basic_class (simple_class fs alloc)"
  "ready basic_class basic_encodes basic_denotes fs alloc roots symbols W" symbols W PPC64_recover "ppc_linked 8"
  for fs alloc roots symbols W
  using PPC64_recover_linked linked_by_symbolized linked_by_core by unfold_locales blast+

interpretation sparc: chain_walk "real_symbolizer basic_class (simple_class fs alloc)"
  "ready basic_class basic_encodes basic_denotes fs alloc roots symbols W" symbols W SPARC_recover sparc_linked
  for fs alloc roots symbols W
  using SPARC_recover_linked sparc_linked_symbolized sparc_linked_core by unfold_locales blast+

end
