(* ===== verification/Stackwalker_ARM.thy ===== *)
theory Stackwalker_ARM
  imports Stackwalker
begin

text \<open>
  The walkers of processor/stackwalker_arm.cc and processor/stackwalker_arm64.cc. Both number the
  registers and name them in a list, which is longer than the array of the registers in the context
  for 32-bit ARM: the loops go on over the words that follow the array, which are the registers 16
  to 25 of the context here.
\<close>

section \<open>Registers by number and name\<close>

definition RegisterValidFlag :: "nat \<Rightarrow> 'f::len word" where
  "RegisterValidFlag n = push_bit n 1"

text \<open>The dictionary of the valid registers of the callee.\<close>

definition numbered_registers :: "string list \<Rightarrow> 'f::len word \<Rightarrow> (nat \<Rightarrow> 'v) \<Rightarrow> 'v registers" where
  "numbered_registers register_names flags iregs =
     foldl (\<lambda>regs i. if flags AND RegisterValidFlag i \<noteq> 0 then regs(register_names ! i \<mapsto> iregs i) else regs)
       Map.empty [0..<length register_names]"

text \<open>One round of the loop that fills in the caller's registers.\<close>

definition fill_register ::
  "(nat \<Rightarrow> 'f::len word) \<Rightarrow> string list \<Rightarrow> (nat \<Rightarrow> bool) \<Rightarrow> 'v registers \<Rightarrow> 'f word \<Rightarrow> (nat \<Rightarrow> 'v) \<Rightarrow> nat \<Rightarrow>
     (nat \<Rightarrow> 'v) \<times> 'f word \<Rightarrow> (nat \<Rightarrow> 'v) \<times> 'f word" where
  "fill_register valid_flag register_names saved caller_registers callee_validity callee_iregs i state =
     (case state of (iregs, flags) \<Rightarrow>
        case caller_registers (register_names ! i) of
          Some v \<Rightarrow> (iregs(i := v), flags OR valid_flag i)
        | None \<Rightarrow>
            if saved i \<and> callee_validity AND valid_flag i \<noteq> 0
            then (iregs(i := callee_iregs i), flags OR valid_flag i)
            else (iregs, flags))"

definition fill_registers ::
  "(nat \<Rightarrow> 'f::len word) \<Rightarrow> string list \<Rightarrow> (nat \<Rightarrow> bool) \<Rightarrow> 'v::zero registers \<Rightarrow> 'f word \<Rightarrow> (nat \<Rightarrow> 'v) \<Rightarrow>
     (nat \<Rightarrow> 'v) \<times> 'f word" where
  "fill_registers valid_flag register_names saved caller_registers callee_validity callee_iregs =
     fold (fill_register valid_flag register_names saved caller_registers callee_validity callee_iregs)
       [0..<length register_names] (\<lambda>_. 0, 0)"

text \<open>A register that the rules give a value becomes valid and stays so.\<close>

lemma fold_fill_register_flags:
  fixes valid_flag :: "nat \<Rightarrow> 'f::len word"
  assumes "flags AND f = f \<or> (\<exists>i \<in> set is. caller_registers (register_names ! i) \<noteq> None \<and> valid_flag i AND f = f)"
  shows "snd (fold (fill_register valid_flag register_names saved caller_registers validity callee) is (iregs, flags)) AND f = f"
  using assms
proof (induction "is" arbitrary: iregs flags)
  case (Cons i "is")
  have keeps: "(flags OR g) AND f = f" if "flags AND f = f \<or> g AND f = f" for g
    using that by (auto simp: bit_eq_iff bit_simps)
  obtain iregs' flags' where
    step: "fill_register valid_flag register_names saved caller_registers validity callee i (iregs, flags) = (iregs', flags')"
    by (rule prod.exhaust)
  have "flags' = flags \<and> caller_registers (register_names ! i) = None \<or> flags' = flags OR valid_flag i"
    using step by (auto simp: fill_register_def split: option.splits if_splits)
  then have "flags' AND f = f \<or> (\<exists>i \<in> set is. caller_registers (register_names ! i) \<noteq> None \<and> valid_flag i AND f = f)"
    using Cons.prems keeps [of "valid_flag i"] by auto
  then show ?case using Cons.IH step by simp
qed simp

lemma fill_registers_flags:
  assumes "i < length register_names" and "caller_registers (register_names ! i) \<noteq> None"
  shows "snd (fill_registers valid_flag register_names saved caller_registers validity callee) AND valid_flag i = valid_flag i"
  unfolding fill_registers_def using assms by (intro fold_fill_register_flags disjI2 bexI [of _ i]) simp_all

text \<open>A register that the rules do not name is taken from a pseudo register.\<close>

definition fall_back ::
  "string \<Rightarrow> nat \<Rightarrow> 'v registers \<Rightarrow> (nat \<Rightarrow> 'v) \<times> 'f::len word \<Rightarrow> (nat \<Rightarrow> 'v) \<times> 'f word" where
  "fall_back pseudo i caller_registers state =
     (case state of (iregs, flags) \<Rightarrow>
        if flags AND RegisterValidFlag i \<noteq> 0 then (iregs, flags)
        else
          (case caller_registers pseudo of
             None \<Rightarrow> (iregs, flags)
           | Some v \<Rightarrow> (iregs(i := v), flags OR RegisterValidFlag i)))"

section \<open>ARM\<close>

type_synonym arm_context = "nat \<Rightarrow> uint32"
type_synonym arm_frame = "(arm_context, uint32) cpu_frame"

definition MD_CONTEXT_ARM_REG_IOS_FP :: int where "MD_CONTEXT_ARM_REG_IOS_FP = 7"
definition MD_CONTEXT_ARM_REG_SP :: nat where "MD_CONTEXT_ARM_REG_SP = 13"
definition MD_CONTEXT_ARM_REG_LR :: nat where "MD_CONTEXT_ARM_REG_LR = 14"
definition MD_CONTEXT_ARM_REG_PC :: nat where "MD_CONTEXT_ARM_REG_PC = 15"

lemmas arm_register_numbers = MD_CONTEXT_ARM_REG_SP_def MD_CONTEXT_ARM_REG_LR_def MD_CONTEXT_ARM_REG_PC_def

definition arm_register_names :: "string list" where
  "arm_register_names =
     [''r0'', ''r1'', ''r2'', ''r3'', ''r4'', ''r5'', ''r6'', ''r7'',
      ''r8'', ''r9'', ''r10'', ''r11'', ''r12'', ''sp'', ''lr'', ''pc'',
      ''f0'', ''f1'', ''f2'', ''f3'', ''f4'', ''f5'', ''f6'', ''f7'',
      ''fps'', ''cpsr'']"

definition ARM_GetContextFrame :: "uint32 \<Rightarrow> arm_context option \<Rightarrow> arm_frame option" where
  "ARM_GetContextFrame context_frame_validity raw_context =
     map_option (\<lambda>c. set_instruction (ucast (c MD_CONTEXT_ARM_REG_PC)) ((StackFrame_cpu (\<lambda>_. 0))
       \<lparr>cpu_context := c, context_validity := context_frame_validity, trust := FRAME_TRUST_CONTEXT\<rparr>)) raw_context"

text \<open>The program counter: on iOS the rules give the link register, and the callee's is returned to.\<close>

definition arm_return_address ::
  "int \<Rightarrow> arm_context \<Rightarrow> uint32 registers \<Rightarrow> arm_context \<times> uint32 \<Rightarrow> arm_context \<times> uint32" where
  "arm_return_address fp_register callee_iregs caller_registers state =
     (if fp_register = -1 then fall_back ''.ra'' MD_CONTEXT_ARM_REG_PC caller_registers state
      else
        case state of (iregs, flags) \<Rightarrow>
          if flags AND RegisterValidFlag MD_CONTEXT_ARM_REG_PC \<noteq> 0 then (iregs, flags)
          else
            (case caller_registers ''.ra'' of
               None \<Rightarrow> (iregs, flags)
             | Some ra \<Rightarrow>
                 (iregs(MD_CONTEXT_ARM_REG_LR := ra, MD_CONTEXT_ARM_REG_PC := callee_iregs MD_CONTEXT_ARM_REG_LR),
                  flags OR RegisterValidFlag MD_CONTEXT_ARM_REG_PC OR RegisterValidFlag MD_CONTEXT_ARM_REG_LR)))"

definition arm_essentials :: uint32 where
  "arm_essentials = RegisterValidFlag MD_CONTEXT_ARM_REG_SP OR RegisterValidFlag MD_CONTEXT_ARM_REG_PC"

definition ARM_GetCallerByCFIFrameInfo ::
  "int \<Rightarrow> memory_region \<Rightarrow> arm_frame list \<Rightarrow> cfi_frame_info \<Rightarrow> arm_frame option option" where
  "ARM_GetCallerByCFIFrameInfo fp_register mem frames cfi_frame_info =
     (let callee = cpu_context (last frames); callee_validity = context_validity (last frames) in
      case FindCallerRegs cfi_frame_info (numbered_registers arm_register_names callee_validity callee)
             (\<lambda>a. GetMemoryAtAddress mem (ucast a)) Map.empty of
        Crash \<Rightarrow> None
      | Fail _ \<Rightarrow> Some None
      | Ok caller_registers \<Rightarrow>
          let (iregs, flags) =
            fall_back ''.cfa'' MD_CONTEXT_ARM_REG_SP caller_registers
              (arm_return_address fp_register callee caller_registers
                (fill_registers RegisterValidFlag arm_register_names (\<lambda>i. 4 \<le> i \<and> i \<le> 11) caller_registers callee_validity callee)) in
          if flags AND arm_essentials \<noteq> arm_essentials then Some None
          else Some (Some ((StackFrame_cpu (\<lambda>_. 0))
            \<lparr>cpu_context := iregs, context_validity := flags, trust := FRAME_TRUST_CFI\<rparr>)))"

definition ARM_GetCallerByFramePointer :: "int \<Rightarrow> memory_region \<Rightarrow> arm_frame list \<Rightarrow> arm_frame option" where
  "ARM_GetCallerByFramePointer fp_register mem frames =
     (let last_frame = last frames; c = cpu_context last_frame; fp = nat fp_register;
          last_fp = c fp; read_word = (\<lambda>a. GetMemoryAtAddress mem (ucast (a :: uint32))) in
      if context_validity last_frame AND RegisterValidFlag fp = 0 then None
      else
        case (if last_fp = 0 then Some 0 else read_word last_fp) of
          None \<Rightarrow> None
        | Some caller_fp \<Rightarrow>
            (case (if last_fp = 0 then Some 0 else read_word (last_fp + 4)) of
               None \<Rightarrow> None
             | Some caller_lr \<Rightarrow>
                 let caller_sp = (if last_fp \<noteq> 0 then last_fp + 8 else c MD_CONTEXT_ARM_REG_SP) in
                 Some ((StackFrame_cpu (\<lambda>_. 0))
                   \<lparr>trust := FRAME_TRUST_FP,
                    cpu_context := c(fp := caller_fp, MD_CONTEXT_ARM_REG_SP := caller_sp,
                      MD_CONTEXT_ARM_REG_PC := c MD_CONTEXT_ARM_REG_LR, MD_CONTEXT_ARM_REG_LR := caller_lr),
                    context_validity := RegisterValidFlag MD_CONTEXT_ARM_REG_PC OR
                      RegisterValidFlag MD_CONTEXT_ARM_REG_LR OR RegisterValidFlag fp OR
                      RegisterValidFlag MD_CONTEXT_ARM_REG_SP\<rparr>)))"

definition arm_scanned_frame :: "arm_frame \<Rightarrow> uint32 \<Rightarrow> uint32 \<Rightarrow> arm_frame" where
  "arm_scanned_frame last_frame caller_sp caller_pc =
     (StackFrame_cpu (\<lambda>_. 0))
       \<lparr>trust := FRAME_TRUST_SCAN,
        cpu_context := (cpu_context last_frame)
          (MD_CONTEXT_ARM_REG_PC := caller_pc, MD_CONTEXT_ARM_REG_SP := caller_sp + 4),
        context_validity := RegisterValidFlag MD_CONTEXT_ARM_REG_PC OR RegisterValidFlag MD_CONTEXT_ARM_REG_SP\<rparr>"

definition ARM_GetCallerByStackScan ::
  "'z frame_symbolizer \<Rightarrow> stackwalker \<Rightarrow> memory_region \<Rightarrow> arm_frame list \<Rightarrow> 'z \<Rightarrow> (arm_frame option \<times> 'z) option" where
  "ARM_GetCallerByStackScan F W mem frames =
     recover_by_scan (arm_scanned_frame (last frames)) (cpu_context (last frames) MD_CONTEXT_ARM_REG_SP) F W frames mem"

definition ARM_finish :: "arm_frame \<Rightarrow> arm_frame \<Rightarrow> arm_frame option" where
  "ARM_finish last_frame frame =
     (let c = cpu_context frame in
      if c MD_CONTEXT_ARM_REG_PC = 0 then None
      else if c MD_CONTEXT_ARM_REG_SP < cpu_context last_frame MD_CONTEXT_ARM_REG_SP then None
      else Some (set_instruction (ucast (c MD_CONTEXT_ARM_REG_PC - 2)) frame))"

definition ARM_GetCallerFrame ::
  "int \<Rightarrow> 'z frame_symbolizer \<Rightarrow> stackwalker \<Rightarrow> arm_frame list \<Rightarrow> bool \<Rightarrow> 'z \<Rightarrow>
     ((arm_frame \<times> arm_frame option) \<times> 'z) option" where
  "ARM_GetCallerFrame fp_register F W frames =
     recover_caller (\<lambda>mem. ARM_GetCallerByCFIFrameInfo fp_register mem frames)
       (\<lambda>mem. if fp_register \<ge> 0 then ARM_GetCallerByFramePointer fp_register mem frames else None)
       (\<lambda>mem. ARM_GetCallerByStackScan F W mem frames)
       (ARM_finish (last frames)) F W frames"

section \<open>ARM64\<close>

type_synonym arm64_context = "nat \<Rightarrow> uint64"
type_synonym arm64_frame = "(arm64_context, uint64) cpu_frame"

definition MD_CONTEXT_ARM64_REG_FP :: nat where "MD_CONTEXT_ARM64_REG_FP = 29"
definition MD_CONTEXT_ARM64_REG_LR :: nat where "MD_CONTEXT_ARM64_REG_LR = 30"
definition MD_CONTEXT_ARM64_REG_SP :: nat where "MD_CONTEXT_ARM64_REG_SP = 31"
definition MD_CONTEXT_ARM64_REG_PC :: nat where "MD_CONTEXT_ARM64_REG_PC = 32"

lemmas arm64_register_numbers = MD_CONTEXT_ARM64_REG_FP_def MD_CONTEXT_ARM64_REG_LR_def
  MD_CONTEXT_ARM64_REG_SP_def MD_CONTEXT_ARM64_REG_PC_def

definition arm64_register_names :: "string list" where
  "arm64_register_names =
     [''x0'', ''x1'', ''x2'', ''x3'', ''x4'', ''x5'', ''x6'', ''x7'',
      ''x8'', ''x9'', ''x10'', ''x11'', ''x12'', ''x13'', ''x14'', ''x15'',
      ''x16'', ''x17'', ''x18'', ''x19'', ''x20'', ''x21'', ''x22'', ''x23'',
      ''x24'', ''x25'', ''x26'', ''x27'', ''x28'', ''x29'', ''x30'', ''sp'',
      ''pc'']"

definition ARM64_GetContextFrame :: "uint64 \<Rightarrow> arm64_context option \<Rightarrow> arm64_frame option" where
  "ARM64_GetContextFrame context_frame_validity raw_context =
     map_option (\<lambda>c. set_instruction (c MD_CONTEXT_ARM64_REG_PC) ((StackFrame_cpu (\<lambda>_. 0))
       \<lparr>cpu_context := c, context_validity := context_frame_validity, trust := FRAME_TRUST_CONTEXT\<rparr>)) raw_context"

definition arm64_essentials :: uint64 where
  "arm64_essentials = RegisterValidFlag MD_CONTEXT_ARM64_REG_SP OR RegisterValidFlag MD_CONTEXT_ARM64_REG_PC"

definition ARM64_GetCallerByCFIFrameInfo ::
  "memory_region \<Rightarrow> arm64_frame list \<Rightarrow> cfi_frame_info \<Rightarrow> arm64_frame option option" where
  "ARM64_GetCallerByCFIFrameInfo mem frames cfi_frame_info =
     (let callee = cpu_context (last frames); callee_validity = context_validity (last frames) in
      case FindCallerRegs cfi_frame_info (numbered_registers arm64_register_names callee_validity callee)
             (GetMemoryAtAddress mem) Map.empty of
        Crash \<Rightarrow> None
      | Fail _ \<Rightarrow> Some None
      | Ok caller_registers \<Rightarrow>
          let (iregs, flags) =
            fall_back ''.cfa'' MD_CONTEXT_ARM64_REG_SP caller_registers
              (fall_back ''.ra'' MD_CONTEXT_ARM64_REG_PC caller_registers
                (fill_registers RegisterValidFlag arm64_register_names (\<lambda>i. 19 \<le> i \<and> i \<le> 29) caller_registers callee_validity callee)) in
          if flags AND arm64_essentials \<noteq> arm64_essentials then Some None
          else Some (Some ((StackFrame_cpu (\<lambda>_. 0))
            \<lparr>cpu_context := iregs, context_validity := flags, trust := FRAME_TRUST_CFI\<rparr>)))"

definition ARM64_GetCallerByFramePointer :: "memory_region \<Rightarrow> arm64_frame list \<Rightarrow> arm64_frame option" where
  "ARM64_GetCallerByFramePointer mem frames =
     (let c = cpu_context (last frames); last_fp = c MD_CONTEXT_ARM64_REG_FP in
      case (if last_fp = 0 then Some 0 else GetMemoryAtAddress mem last_fp) of
        None \<Rightarrow> None
      | Some caller_fp \<Rightarrow>
          (case (if last_fp = 0 then Some 0 else GetMemoryAtAddress mem (last_fp + 8)) of
             None \<Rightarrow> None
           | Some caller_lr \<Rightarrow>
               let caller_sp = (if last_fp \<noteq> 0 then last_fp + 16 else c MD_CONTEXT_ARM64_REG_SP) in
               Some ((StackFrame_cpu (\<lambda>_. 0))
                 \<lparr>trust := FRAME_TRUST_FP,
                  cpu_context := c(MD_CONTEXT_ARM64_REG_FP := caller_fp, MD_CONTEXT_ARM64_REG_SP := caller_sp,
                    MD_CONTEXT_ARM64_REG_PC := c MD_CONTEXT_ARM64_REG_LR, MD_CONTEXT_ARM64_REG_LR := caller_lr),
                  context_validity := RegisterValidFlag MD_CONTEXT_ARM64_REG_PC OR
                    RegisterValidFlag MD_CONTEXT_ARM64_REG_LR OR RegisterValidFlag MD_CONTEXT_ARM64_REG_FP OR
                    RegisterValidFlag MD_CONTEXT_ARM64_REG_SP\<rparr>)))"

definition arm64_scanned_frame :: "arm64_frame \<Rightarrow> uint64 \<Rightarrow> uint64 \<Rightarrow> arm64_frame" where
  "arm64_scanned_frame last_frame caller_sp caller_pc =
     (StackFrame_cpu (\<lambda>_. 0))
       \<lparr>trust := FRAME_TRUST_SCAN,
        cpu_context := (cpu_context last_frame)
          (MD_CONTEXT_ARM64_REG_PC := caller_pc, MD_CONTEXT_ARM64_REG_SP := caller_sp + 8),
        context_validity := RegisterValidFlag MD_CONTEXT_ARM64_REG_PC OR RegisterValidFlag MD_CONTEXT_ARM64_REG_SP\<rparr>"

definition ARM64_GetCallerByStackScan ::
  "'z frame_symbolizer \<Rightarrow> stackwalker \<Rightarrow> memory_region \<Rightarrow> arm64_frame list \<Rightarrow> 'z \<Rightarrow> (arm64_frame option \<times> 'z) option" where
  "ARM64_GetCallerByStackScan F W mem frames =
     recover_by_scan (arm64_scanned_frame (last frames)) (cpu_context (last frames) MD_CONTEXT_ARM64_REG_SP) F W frames mem"

definition ARM64_finish :: "arm64_frame \<Rightarrow> arm64_frame \<Rightarrow> arm64_frame option" where
  "ARM64_finish last_frame frame =
     (let c = cpu_context frame in
      if c MD_CONTEXT_ARM64_REG_PC = 0 then None
      else if c MD_CONTEXT_ARM64_REG_SP < cpu_context last_frame MD_CONTEXT_ARM64_REG_SP then None
      else Some (set_instruction (c MD_CONTEXT_ARM64_REG_PC - 4) frame))"

definition ARM64_GetCallerFrame ::
  "'z frame_symbolizer \<Rightarrow> stackwalker \<Rightarrow> arm64_frame list \<Rightarrow> bool \<Rightarrow> 'z \<Rightarrow>
     ((arm64_frame \<times> arm64_frame option) \<times> 'z) option" where
  "ARM64_GetCallerFrame F W frames =
     recover_caller (\<lambda>mem. ARM64_GetCallerByCFIFrameInfo mem frames)
       (\<lambda>mem. ARM64_GetCallerByFramePointer mem frames)
       (\<lambda>mem. ARM64_GetCallerByStackScan F W mem frames)
       (ARM64_finish (last frames)) F W frames"

section \<open>No stack pointer falls\<close>

abbreviation arm_linked :: "arm_frame \<Rightarrow> arm_frame \<Rightarrow> bool" where
  "arm_linked \<equiv> linked_by (\<lambda>c. c MD_CONTEXT_ARM_REG_PC) (\<lambda>c. c MD_CONTEXT_ARM_REG_SP) (\<le>) 2 arm_essentials"

abbreviation arm64_linked :: "arm64_frame \<Rightarrow> arm64_frame \<Rightarrow> bool" where
  "arm64_linked \<equiv> linked_by (\<lambda>c. c MD_CONTEXT_ARM64_REG_PC) (\<lambda>c. c MD_CONTEXT_ARM64_REG_SP) (\<le>) 4 arm64_essentials"

text \<open>What a frame has when it comes out of one of the ways of recovering it.\<close>

definition recovered_with :: "'f::len word \<Rightarrow> ('r, 'f word, 'm) cpu_frame_scheme \<Rightarrow> bool" where
  "recovered_with essentials frame \<longleftrightarrow> base_frame frame = StackFrame \<and>
     context_validity frame AND essentials = essentials \<and>
     trust frame \<in> {FRAME_TRUST_CFI, FRAME_TRUST_FP, FRAME_TRUST_SCAN}"

lemma ARM_recovered:
  assumes "(\<exists>cfi. ARM_GetCallerByCFIFrameInfo fp_register mem frames cfi = Some (Some g)) \<or>
      (if fp_register \<ge> 0 then ARM_GetCallerByFramePointer fp_register mem frames else None) = Some g \<or>
      (\<exists>z1 z2. ARM_GetCallerByStackScan F W mem frames z1 = Some (Some g, z2))"
  shows "recovered_with arm_essentials g"
  using assms
proof (elim disjE exE)
  show ?thesis if "ARM_GetCallerByCFIFrameInfo fp_register mem frames cfi = Some (Some g)" for cfi
    using that
    by (auto simp: ARM_GetCallerByCFIFrameInfo_def Let_def recovered_with_def StackFrame_cpu_def
        split: outcome.splits prod.splits if_splits)
next
  assume "(if fp_register \<ge> 0 then ARM_GetCallerByFramePointer fp_register mem frames else None) = Some g"
  then show ?thesis
    by (auto simp: ARM_GetCallerByFramePointer_def Let_def recovered_with_def StackFrame_cpu_def arm_essentials_def
        bit_eq_iff bit_simps split: if_splits option.splits)
next
  show ?thesis if "ARM_GetCallerByStackScan F W mem frames z1 = Some (Some g, z2)" for z1 z2
    using that unfolding ARM_GetCallerByStackScan_def
    by (elim recover_by_scan_cases)
      (auto simp: arm_scanned_frame_def recovered_with_def StackFrame_cpu_def arm_essentials_def bit_eq_iff bit_simps)
qed

lemma ARM64_recovered:
  assumes "(\<exists>cfi. ARM64_GetCallerByCFIFrameInfo mem frames cfi = Some (Some g)) \<or>
      ARM64_GetCallerByFramePointer mem frames = Some g \<or>
      (\<exists>z1 z2. ARM64_GetCallerByStackScan F W mem frames z1 = Some (Some g, z2))"
  shows "recovered_with arm64_essentials g"
  using assms
proof (elim disjE exE)
  show ?thesis if "ARM64_GetCallerByCFIFrameInfo mem frames cfi = Some (Some g)" for cfi
    using that
    by (auto simp: ARM64_GetCallerByCFIFrameInfo_def Let_def recovered_with_def StackFrame_cpu_def
        split: outcome.splits prod.splits if_splits)
next
  assume "ARM64_GetCallerByFramePointer mem frames = Some g"
  then show ?thesis
    by (auto simp: ARM64_GetCallerByFramePointer_def Let_def recovered_with_def StackFrame_cpu_def arm64_essentials_def
        bit_eq_iff bit_simps split: if_splits option.splits)
next
  show ?thesis if "ARM64_GetCallerByStackScan F W mem frames z1 = Some (Some g, z2)" for z1 z2
    using that unfolding ARM64_GetCallerByStackScan_def
    by (elim recover_by_scan_cases)
      (auto simp: arm64_scanned_frame_def recovered_with_def StackFrame_cpu_def arm64_essentials_def bit_eq_iff bit_simps)
qed

lemma ARM_GetCallerFrame_linked:
  assumes "ARM_GetCallerFrame fp_register F W frames allowed z = Some ((last_frame, Some f), z')"
  shows "frame_module (base_frame f) = None \<and> arm_linked (last frames) f"
proof -
  obtain mem g where f: "ARM_finish (last frames) g = Some f"
    and g: "(\<exists>cfi. ARM_GetCallerByCFIFrameInfo fp_register mem frames cfi = Some (Some g)) \<or> (if fp_register \<ge> 0 then ARM_GetCallerByFramePointer fp_register mem frames else None) = Some g \<or>
      (\<exists>z1 z2. ARM_GetCallerByStackScan F W mem frames z1 = Some (Some g, z2))"
    using assms unfolding ARM_GetCallerFrame_def by (elim recover_caller_cases)
  have "recovered_with arm_essentials g" using g by (rule ARM_recovered)
  then show ?thesis
    using f by (auto simp: ARM_finish_def Let_def linked_by_def recovered_with_def set_instruction_def StackFrame_def
        split: if_splits)
qed

lemma ARM64_GetCallerFrame_linked:
  assumes "ARM64_GetCallerFrame F W frames allowed z = Some ((last_frame, Some f), z')"
  shows "frame_module (base_frame f) = None \<and> arm64_linked (last frames) f"
proof -
  obtain mem g where f: "ARM64_finish (last frames) g = Some f"
    and g: "(\<exists>cfi. ARM64_GetCallerByCFIFrameInfo mem frames cfi = Some (Some g)) \<or> ARM64_GetCallerByFramePointer mem frames = Some g \<or>
      (\<exists>z1 z2. ARM64_GetCallerByStackScan F W mem frames z1 = Some (Some g, z2))"
    using assms unfolding ARM64_GetCallerFrame_def by (elim recover_caller_cases)
  have "recovered_with arm64_essentials g" using g by (rule ARM64_recovered)
  then show ?thesis
    using f by (auto simp: ARM64_finish_def Let_def linked_by_def recovered_with_def set_instruction_def StackFrame_def
        split: if_splits)
qed

section \<open>Walking\<close>

context walk_environment
begin

lemma arm_caller:
  assumes "inv z" and "answered F symbols (base_frame (last frames)) z"
    and "cfi_safe TYPE(32) symbols"
    and "\<And>mem. memory W = Some mem \<Longrightarrow> mem \<in> regions \<and> unat (GetBase mem) + unat (GetSize mem) \<le> 2 ^ LENGTH(32)"
  shows "\<exists>r z'. ARM_GetCallerFrame fp_register F W frames allowed z = Some ((last frames, r), z') \<and> inv z' \<and>
    ARM_GetCallerFrame fp_register (ideal_symbolizer symbols) W frames allowed () = Some ((last frames, r), ())"
  unfolding ARM_GetCallerFrame_def
proof (rule recover_caller_ideal [OF assms(1,2)])
  show "ARM_GetCallerByCFIFrameInfo fp_register mem frames cfi \<noteq> None"
    if "cfi_answer symbols (base_frame (last frames)) = Some cfi" for mem cfi
    using assms(3) that by (auto simp: cfi_safe_def ARM_GetCallerByCFIFrameInfo_def Let_def split: outcome.split prod.split)
  show "\<exists>r z'. ARM_GetCallerByStackScan F W mem frames z = Some (r, z') \<and> inv z' \<and>
      ARM_GetCallerByStackScan (ideal_symbolizer symbols) W mem frames () = Some (r, ())"
    if "memory W = Some mem" "inv z" for mem z
    unfolding ARM_GetCallerByStackScan_def using assms(4) [OF that(1)] that(2) by (intro recover_by_scan_ideal) simp_all
qed

lemma arm64_caller:
  assumes "inv z" and "answered F symbols (base_frame (last frames)) z"
    and "cfi_safe TYPE(64) symbols" and "\<And>mem. memory W = Some mem \<Longrightarrow> mem \<in> regions"
  shows "\<exists>r z'. ARM64_GetCallerFrame F W frames allowed z = Some ((last frames, r), z') \<and> inv z' \<and>
    ARM64_GetCallerFrame (ideal_symbolizer symbols) W frames allowed () = Some ((last frames, r), ())"
  unfolding ARM64_GetCallerFrame_def
proof (rule recover_caller_ideal [OF assms(1,2)])
  show "ARM64_GetCallerByCFIFrameInfo mem frames cfi \<noteq> None"
    if "cfi_answer symbols (base_frame (last frames)) = Some cfi" for mem cfi
    using assms(3) that by (auto simp: cfi_safe_def ARM64_GetCallerByCFIFrameInfo_def Let_def split: outcome.split prod.split)
  show "\<exists>r z'. ARM64_GetCallerByStackScan F W mem frames z = Some (r, z') \<and> inv z' \<and>
      ARM64_GetCallerByStackScan (ideal_symbolizer symbols) W mem frames () = Some (r, ())"
    if "memory W = Some mem" "inv z" for mem z
    unfolding ARM64_GetCallerByStackScan_def
    using region_end [OF assms(4) [OF that(1)]] by (intro recover_by_scan_ideal assms(4) that) simp_all
qed

end

interpretation arm: register_walk "real_symbolizer basic_class (simple_class fs alloc)"
  "basic_ready TYPE(32) fs alloc roots symbols W" symbols W
  "ARM_GetCallerFrame fp_register (real_symbolizer basic_class (simple_class fs alloc)) W"
  "ARM_GetCallerFrame fp_register (ideal_symbolizer symbols) W" "\<lambda>c. c MD_CONTEXT_ARM_REG_PC" "\<lambda>c. c MD_CONTEXT_ARM_REG_SP" "(\<le>)" 2 arm_essentials
  for fp_register fs alloc roots symbols W
proof (unfold_locales, goal_cases)
  case (1 frames z allowed)
  then have "stack_ok TYPE(32) symbols W" by (simp add: basic_ready_def)
  then show ?case
    using basic_env.arm_caller [OF 1(2,4), of fp_register allowed] by (fastforce simp: stack_ok_def)
qed (erule ARM_GetCallerFrame_linked, auto simp: ARM_GetCallerFrame_def dest: recover_caller_last)

interpretation arm64: register_walk "real_symbolizer basic_class (simple_class fs alloc)"
  "basic_ready TYPE(64) fs alloc roots symbols W" symbols W
  "ARM64_GetCallerFrame (real_symbolizer basic_class (simple_class fs alloc)) W"
  "ARM64_GetCallerFrame (ideal_symbolizer symbols) W" "\<lambda>c. c MD_CONTEXT_ARM64_REG_PC" "\<lambda>c. c MD_CONTEXT_ARM64_REG_SP" "(\<le>)" 4 arm64_essentials
  for fs alloc roots symbols W
proof (unfold_locales, goal_cases)
  case (1 frames z allowed)
  then have "stack_ok TYPE(64) symbols W" by (simp add: basic_ready_def)
  then show ?case
    using basic_env.arm64_caller [OF 1(2,4), of allowed] by (fastforce simp: stack_ok_def)
qed (erule ARM64_GetCallerFrame_linked, auto simp: ARM64_GetCallerFrame_def dest: recover_caller_last)

end
