(* ===== verification/Stackwalker_X86.thy ===== *)
theory Stackwalker_X86
  imports Stackwalker_PPC
begin

text \<open>
  The walker of processor/stackwalker_x86.cc. A caller is recovered from Windows frame information,
  which is a program for the postfix evaluator, from call frame information, or from the chain of
  frame pointers; where the first or the last fails the stack is scanned. The walker notes the
  information it found in the last frame and looks at it again one frame later.
\<close>

section \<open>Registers and frames\<close>

datatype x86_register = EIP | ESP | EBP | EAX | EBX | ECX | EDX | ESI | EDI

type_synonym x86_context = "x86_register \<Rightarrow> uint32"

fun X86_CONTEXT_VALID :: "x86_register \<Rightarrow> uint32" where
  "X86_CONTEXT_VALID EIP = 0x1" | "X86_CONTEXT_VALID ESP = 0x2" | "X86_CONTEXT_VALID EBP = 0x4"
| "X86_CONTEXT_VALID EAX = 0x8" | "X86_CONTEXT_VALID EBX = 0x10" | "X86_CONTEXT_VALID ECX = 0x20"
| "X86_CONTEXT_VALID EDX = 0x40" | "X86_CONTEXT_VALID ESI = 0x80" | "X86_CONTEXT_VALID EDI = 0x100"

definition x86_entry :: "string \<Rightarrow> string option \<Rightarrow> bool \<Rightarrow> x86_register \<Rightarrow> x86_register register_set" where
  "x86_entry name alternate saved r =
     \<lparr>reg_name = name, alternate_name = alternate, callee_saves = saved, validity_flag = X86_CONTEXT_VALID r,
      context_member = r\<rparr>"

definition x86_cfi_register_map :: "x86_register register_set list" where
  "x86_cfi_register_map =
     [x86_entry ''$eip'' (Some ''.ra'') False EIP, x86_entry ''$esp'' (Some ''.cfa'') False ESP,
      x86_entry ''$ebp'' None True EBP, x86_entry ''$eax'' None False EAX, x86_entry ''$ebx'' None True EBX,
      x86_entry ''$ecx'' None False ECX, x86_entry ''$edx'' None False EDX, x86_entry ''$esi'' None True ESI,
      x86_entry ''$edi'' None True EDI]"

record x86_frame = "(x86_context, uint32) cpu_frame" +
  win_info :: "windows_frame_info option"
  cfi_info :: "cfi_frame_info option"

definition StackFrameX86 :: x86_frame where
  "StackFrameX86 =
     \<lparr>base_frame = StackFrame, trust = FRAME_TRUST_NONE, cpu_context = (\<lambda>_. 0), context_validity = 0,
      win_info = None, cfi_info = None\<rparr>"

definition StackwalkerX86 :: "stackwalker \<Rightarrow> stackwalker" where
  "StackwalkerX86 W = address_space_32 W"

definition X86_GetContextFrame :: "x86_context option \<Rightarrow> x86_frame option" where
  "X86_GetContextFrame raw_context =
     map_option (\<lambda>c. set_instruction (ucast (c EIP)) (StackFrameX86
       \<lparr>cpu_context := c, context_validity := - 1, trust := FRAME_TRUST_CONTEXT\<rparr>)) raw_context"

abbreviation read_word :: "memory_region \<Rightarrow> uint32 \<Rightarrow> uint32 option" where
  "read_word mem a \<equiv> GetMemoryAtAddress mem (ucast a)"

section \<open>Windows frame information\<close>

text \<open>The size of the arguments that the last frame has pushed for its callee.\<close>

definition callee_parameter_size :: "x86_frame list \<Rightarrow> uint32" where
  "callee_parameter_size frames =
     (if length frames \<ge> 2 then
        (case win_info (frames ! (length frames - 2)) of
           None \<Rightarrow> 0
         | Some info \<Rightarrow> if valid info AND VALID_PARAMETER_SIZE \<noteq> 0 then parameter_size info else 0)
      else 0)"

definition windows_dictionary :: "x86_frame \<Rightarrow> windows_frame_info \<Rightarrow> uint32 \<Rightarrow> uint32 registers" where
  "windows_dictionary last_frame info callee_params =
     (let c = cpu_context last_frame;
          d = [''$ebp'' \<mapsto> c EBP, ''$esp'' \<mapsto> c ESP];
          d = (if context_validity last_frame AND X86_CONTEXT_VALID EBX \<noteq> 0 then d(''$ebx'' \<mapsto> c EBX) else d) in
      d(''.cbCalleeParams'' \<mapsto> callee_params, ''.cbSavedRegs'' \<mapsto> saved_register_size info,
        ''.cbLocals'' \<mapsto> local_size info, ''.cbParams'' \<mapsto> parameter_size info))"

text \<open>Where the return address should lie, moved by up to three words to the first plausible one.\<close>

definition ra_search_start ::
  "'z frame_symbolizer \<Rightarrow> stackwalker \<Rightarrow> memory_region \<Rightarrow> x86_frame \<Rightarrow> windows_frame_info \<Rightarrow> uint32 \<Rightarrow> 'z \<Rightarrow>
     (uint32 \<times> 'z) option" where
  "ra_search_start F W mem last_frame info callee_params z =
     (let start = cpu_context last_frame ESP + callee_params + local_size info + saved_register_size info in
      do { (found, z) \<leftarrow> ScanForReturnAddress F W mem start 3 z;
           case found of
             None \<Rightarrow> Some (start, z)
           | Some (location, ip) \<Rightarrow>
               if trust last_frame = FRAME_TRUST_CONTEXT \<and> wfi_type info = STACK_INFO_FPO \<and>
                 start = location \<and> ip = cpu_context last_frame EIP
               then
                 do { (found, z) \<leftarrow> ScanForReturnAddress F W mem (location + 4) 3 z;
                      Some (case found of None \<Rightarrow> location + 4 | Some (location, _) \<Rightarrow> location, z) }
               else Some (location, z) })"

text \<open>The program to run, and whether the frame pointer has to be recovered afterwards.\<close>

definition windows_program :: "x86_frame \<Rightarrow> windows_frame_info \<Rightarrow> string \<times> bool" where
  "windows_program last_frame info =
     (if program_string info \<noteq> [] then (program_string info, True)
      else if allocates_base_pointer info then
        (''$eip .raSearchStart ^ = '' @ ''$ebp $esp .cbCalleeParams + .cbSavedRegs + 8 - ^ = '' @
           ''$esp .raSearchStart 4 + ='', True)
      else
        (''$eip .raSearchStart ^ = '' @ ''$esp .raSearchStart 4 + ='' @
           (if context_validity last_frame AND X86_CONTEXT_VALID EBX \<noteq> 0 then '' $ebx $ebx ='' else []), False))"

text \<open>With an alignment operator in the program only the frame pointer can be relied on.\<close>

definition aligned_search_start :: "x86_frame \<Rightarrow> string \<Rightarrow> uint32 \<Rightarrow> uint32" where
  "aligned_search_start last_frame program start =
     (if X86_CONTEXT_VALID EBP AND context_validity last_frame \<noteq> 0 \<and> CHR ''@'' \<in> set program
      then cpu_context last_frame EBP + 4 else start)"

text \<open>Indexing a \<open>map\<close> gives zero where there is no entry.\<close>

definition subscript :: "uint32 registers \<Rightarrow> string \<Rightarrow> uint32" where
  "subscript d k = (case d k of None \<Rightarrow> 0 | Some v \<Rightarrow> v)"

definition was_set :: "uint32 evaluator \<Rightarrow> string \<Rightarrow> bool" where
  "was_set ev k = (case assigned ev of None \<Rightarrow> False | Some m \<Rightarrow> m k \<noteq> None)"

text \<open>
  Running the program: whether it set the two registers that are needed, and what it left behind,
  also when it failed half way. None: the evaluator crashed.
\<close>

definition run_windows_program ::
  "memory_region \<Rightarrow> string \<Rightarrow> uint32 registers \<Rightarrow> (bool \<times> uint32 evaluator) option" where
  "run_windows_program mem program d =
     (case Evaluate (Some (read_word mem)) program \<lparr>dictionary = d, assigned = Some Map.empty, stack = []\<rparr> of
        Crash \<Rightarrow> None
      | Fail ev \<Rightarrow> Some (False, ev)
      | Ok ev \<Rightarrow> Some (was_set ev ''$eip'' \<and> was_set ev ''$esp'', ev))"

definition scan_when_failed ::
  "'z frame_symbolizer \<Rightarrow> stackwalker \<Rightarrow> memory_region \<Rightarrow> x86_frame list \<Rightarrow> bool \<Rightarrow> bool \<Rightarrow> uint32 registers \<Rightarrow> 'z \<Rightarrow>
     ((uint32 registers \<times> frame_trust) option \<times> 'z) option" where
  "scan_when_failed F W mem frames stack_scan_allowed evaluated d z =
     (if evaluated then Some (Some (d, FRAME_TRUST_CFI), z)
      else if \<not> stack_scan_allowed then Some (None, z)
      else
        do { (found, z) \<leftarrow> ScanForReturnAddress_default F W mem (cpu_context (last frames) ESP) (length frames = 1) z;
             Some (map_option (\<lambda>(location, eip). (d(''$eip'' \<mapsto> eip, ''$esp'' \<mapsto> location + 4), FRAME_TRUST_SCAN)) found,
               z) })"

text \<open>A return address outside all modules is replaced by a better one, if the scan finds one.\<close>

definition scan_when_outside ::
  "'z frame_symbolizer \<Rightarrow> stackwalker \<Rightarrow> memory_region \<Rightarrow> x86_frame list \<Rightarrow> bool \<Rightarrow> uint32 registers \<Rightarrow> frame_trust \<Rightarrow>
     'z \<Rightarrow> ((uint32 registers \<times> frame_trust \<times> uint32) \<times> 'z) option" where
  "scan_when_outside F W mem frames stack_scan_allowed d t z =
     (if (case modules W of None \<Rightarrow> False | Some ms \<Rightarrow> GetModuleForAddress ms (ucast (subscript d ''$eip'')) = None) \<and>
        stack_scan_allowed
      then
        let location_start = subscript d ''.raSearchStart'' + 4 in
        do { (found, z) \<leftarrow> ScanForReturnAddress_default F W mem location_start (length frames = 1) z;
             Some (case found of
                 None \<Rightarrow> (d, t, 0)
               | Some (location, eip) \<Rightarrow>
                   (d(''$eip'' \<mapsto> eip, ''$esp'' \<mapsto> location + 4), FRAME_TRUST_CFI_SCAN, location - location_start), z) }
      else Some ((d, t, 0), z))"

text \<open>
  The search for a saved frame pointer goes down from \<open>location\<close> to \<open>location_end\<close>. None: it does
  not end.
\<close>

partial_function (option) find_saved_ebp ::
  "memory_region \<Rightarrow> uint32 \<Rightarrow> uint32 \<Rightarrow> uint32 option option" where
  "find_saved_ebp mem location location_end =
     (if location \<ge> location_end then
        (case read_word mem location of
           None \<Rightarrow> Some None
         | Some ebp \<Rightarrow>
             if read_word mem ebp \<noteq> None then Some (Some ebp)
             else find_saved_ebp mem (location - 4) location_end)
      else Some None)"

definition recover_frame_pointer ::
  "memory_region \<Rightarrow> x86_frame \<Rightarrow> windows_frame_info \<Rightarrow> uint32 \<Rightarrow> uint32 \<Rightarrow> uint32 registers \<Rightarrow> frame_trust \<Rightarrow> uint32 \<Rightarrow>
     uint32 registers option" where
  "recover_frame_pointer mem last_frame info callee_params start d t offset =
     (let ebp = subscript d ''$ebp''; has_skipped_frames = (t \<noteq> FRAME_TRUST_CFI \<and> ebp \<le> start + offset) in
      if has_skipped_frames \<or> read_word mem ebp = None then
        let fp_search_bytes = saved_register_size info + offset;
            location_end = cpu_context last_frame ESP + callee_params in
        map_option (\<lambda>found. case found of None \<Rightarrow> d | Some ebp \<Rightarrow> d(''$ebp'' \<mapsto> ebp))
          (find_saved_ebp mem (location_end + fp_search_bytes) location_end)
      else Some d)"

text \<open>The frame made of the dictionary; the program may have set other nonvolatile registers.\<close>

definition windows_frame :: "x86_frame \<Rightarrow> uint32 evaluator \<Rightarrow> uint32 registers \<Rightarrow> frame_trust \<Rightarrow> x86_frame" where
  "windows_frame last_frame ev d t =
     (let put = (\<lambda>name r frame.
            if was_set ev name then frame\<lparr>cpu_context := (cpu_context frame)(r := subscript d name),
              context_validity := context_validity frame OR X86_CONTEXT_VALID r\<rparr>
            else frame) in
      put ''$edi'' EDI (put ''$esi'' ESI (put ''$ebx'' EBX (StackFrameX86
        \<lparr>trust := t,
         cpu_context := (cpu_context last_frame)
           (EIP := subscript d ''$eip'', ESP := subscript d ''$esp'', EBP := subscript d ''$ebp''),
         context_validity := X86_CONTEXT_VALID EIP OR X86_CONTEXT_VALID ESP OR X86_CONTEXT_VALID EBP\<rparr>))))"

definition X86_GetCallerByWindowsFrameInfo ::
  "'z frame_symbolizer \<Rightarrow> stackwalker \<Rightarrow> memory_region \<Rightarrow> x86_frame list \<Rightarrow> windows_frame_info \<Rightarrow> bool \<Rightarrow> 'z \<Rightarrow>
     (x86_frame option \<times> 'z) option" where
  "X86_GetCallerByWindowsFrameInfo F W mem frames info stack_scan_allowed z =
     (let last_frame = last frames; callee_params = callee_parameter_size frames in
      if valid info \<noteq> VALID_ALL then Some (None, z)
      else
        do { (start, z) \<leftarrow> ra_search_start F W mem last_frame info callee_params z;
             let (program, recover_ebp) = windows_program last_frame info;
             let start = aligned_search_start last_frame program start;
             (evaluated, ev) \<leftarrow> run_windows_program mem program
               ((windows_dictionary last_frame info callee_params)(''.raSearchStart'' \<mapsto> start, ''.raSearch'' \<mapsto> start));
             (recovered, z) \<leftarrow> scan_when_failed F W mem frames stack_scan_allowed evaluated (dictionary ev) z;
             (case recovered of
                None \<Rightarrow> Some (None, z)
              | Some (d, t) \<Rightarrow>
                  if subscript d ''$eip'' \<noteq> 0 \<or> subscript d ''$ebp'' \<noteq> 0 then
                    do { (improved, z) \<leftarrow> scan_when_outside F W mem frames stack_scan_allowed d t z;
                         (case improved of (d, t, offset) \<Rightarrow>
                            do { d \<leftarrow> (if recover_ebp
                                   then recover_frame_pointer mem last_frame info callee_params start d t offset
                                   else Some d);
                                 Some (Some (windows_frame last_frame ev d t), z) }) }
                  else Some (Some (windows_frame last_frame ev d t), z)) })"

section \<open>Call frame information and frame pointers\<close>

definition x86_essentials :: uint32 where
  "x86_essentials = X86_CONTEXT_VALID EIP OR X86_CONTEXT_VALID ESP OR X86_CONTEXT_VALID EBP"

definition X86_GetCallerByCFIFrameInfo ::
  "memory_region \<Rightarrow> x86_frame list \<Rightarrow> cfi_frame_info \<Rightarrow> x86_frame option option" where
  "X86_GetCallerByCFIFrameInfo mem frames cfi_frame_info =
     (let last_frame = last frames in
      case FindCallerRegisters x86_cfi_register_map (read_word mem) cfi_frame_info
             (cpu_context last_frame) (context_validity last_frame) of
        Crash \<Rightarrow> None
      | Fail _ \<Rightarrow> Some None
      | Ok (ctx, flags) \<Rightarrow>
          if flags AND x86_essentials \<noteq> x86_essentials then Some None
          else Some (Some (StackFrameX86
            \<lparr>cpu_context := ctx, context_validity := flags, trust := FRAME_TRUST_CFI\<rparr>)))"

definition kMaxReasonableGapBetweenFrames :: uint32 where
  "kMaxReasonableGapBetweenFrames = 128 * 1024"

definition ebp_frame :: "x86_frame \<Rightarrow> frame_trust \<Rightarrow> uint32 \<Rightarrow> uint32 \<Rightarrow> uint32 \<Rightarrow> x86_frame" where
  "ebp_frame last_frame t caller_eip caller_esp caller_ebp =
     StackFrameX86
       \<lparr>trust := t,
        cpu_context := (cpu_context last_frame)(EIP := caller_eip, ESP := caller_esp, EBP := caller_ebp),
        context_validity := X86_CONTEXT_VALID EIP OR X86_CONTEXT_VALID ESP OR X86_CONTEXT_VALID EBP\<rparr>"

definition X86_GetCallerByEBPAtBase ::
  "'z frame_symbolizer \<Rightarrow> stackwalker \<Rightarrow> memory_region \<Rightarrow> x86_frame list \<Rightarrow> bool \<Rightarrow> 'z \<Rightarrow> (x86_frame option \<times> 'z) option" where
  "X86_GetCallerByEBPAtBase F W mem frames stack_scan_allowed z =
     (let last_frame = last frames; last_esp = cpu_context last_frame ESP; last_ebp = cpu_context last_frame EBP in
      case (read_word mem (last_ebp + 4), read_word mem last_ebp) of
        (Some caller_eip, Some caller_ebp) \<Rightarrow>
          Some (Some (ebp_frame last_frame FRAME_TRUST_FP caller_eip (last_ebp + 8) caller_ebp), z)
      | _ \<Rightarrow>
          if \<not> stack_scan_allowed then Some (None, z)
          else
            do { (found, z) \<leftarrow> ScanForReturnAddress_default F W mem last_esp (length frames = 1) z;
                 Some (map_option (\<lambda>(location, caller_eip).
                     let caller_esp = location + 4;
                         restored_ebp_chain = caller_esp - 8;
                         caller_ebp =
                           (case read_word mem restored_ebp_chain of
                              None \<Rightarrow> last_ebp
                            | Some ebp \<Rightarrow>
                                if ebp \<le> restored_ebp_chain \<or> ebp - restored_ebp_chain > kMaxReasonableGapBetweenFrames
                                then last_ebp else ebp) in
                     ebp_frame last_frame FRAME_TRUST_SCAN caller_eip caller_esp caller_ebp) found, z) })"

section \<open>The caller\<close>

definition X86_finish :: "x86_frame \<Rightarrow> x86_frame \<Rightarrow> x86_frame option" where
  "X86_finish last_frame frame =
     (let c = cpu_context frame in
      if c EIP = 0 then None
      else if c ESP \<le> cpu_context last_frame ESP then None
      else Some (set_instruction (ucast (c EIP - 1)) frame))"

text \<open>What the walker notes in the last frame.\<close>

definition note_windows :: "windows_frame_info option \<Rightarrow> x86_frame \<Rightarrow> x86_frame" where
  "note_windows info frame = (case info of None \<Rightarrow> frame | Some i \<Rightarrow> frame\<lparr>win_info := Some i\<rparr>)"

definition note_cfi :: "cfi_frame_info option \<Rightarrow> x86_frame \<Rightarrow> x86_frame" where
  "note_cfi info frame = (case info of None \<Rightarrow> frame | Some i \<Rightarrow> frame\<lparr>cfi_info := Some i\<rparr>)"

lemma note_kept [simp]:
  "frame_core (note_windows wi frame) = frame_core frame" "base_frame (note_windows wi frame) = base_frame frame"
  "frame_core (note_cfi ci frame) = frame_core frame" "base_frame (note_cfi ci frame) = base_frame frame"
  by (auto simp: note_windows_def note_cfi_def frame_core_def split: option.split)

definition X86_GetCallerFrame ::
  "'z frame_symbolizer \<Rightarrow> stackwalker \<Rightarrow> x86_frame list \<Rightarrow> bool \<Rightarrow> 'z \<Rightarrow> ((x86_frame \<times> x86_frame option) \<times> 'z) option" where
  "X86_GetCallerFrame F W frames stack_scan_allowed z =
     (case memory W of
        None \<Rightarrow> Some ((last frames, None), z)
      | Some mem \<Rightarrow>
          do { windows_frame_info \<leftarrow> find_windows_frame_info F (base_frame (last frames)) z;
               let last_frame = note_windows windows_frame_info (last frames);
               let frames = butlast frames @ [last_frame];
               (new_frame, z) \<leftarrow> (case windows_frame_info of
                   None \<Rightarrow> Some (None, z)
                 | Some info \<Rightarrow> X86_GetCallerByWindowsFrameInfo F W mem frames info stack_scan_allowed z);
               (case new_frame of
                  Some f \<Rightarrow> Some ((last_frame, X86_finish last_frame f), z)
                | None \<Rightarrow>
                    do { cfi_frame_info \<leftarrow> find_cfi_frame_info F (base_frame last_frame) z;
                         let last_frame = note_cfi cfi_frame_info last_frame;
                         let frames = butlast frames @ [last_frame];
                         new_frame \<leftarrow> (case cfi_frame_info of
                             None \<Rightarrow> Some None
                           | Some cfi \<Rightarrow> X86_GetCallerByCFIFrameInfo mem frames cfi);
                         (new_frame, z) \<leftarrow> (case new_frame of
                             Some f \<Rightarrow> Some (Some f, z)
                           | None \<Rightarrow> X86_GetCallerByEBPAtBase F W mem frames stack_scan_allowed z);
                         Some ((last_frame, Option.bind new_frame (X86_finish last_frame)), z) }) })"

section \<open>The search for the frame pointer ends\<close>

context bounded_memory
begin

text \<open>Below the lowest address that can be read nothing can, even when the search wraps around.\<close>

lemma search_wraps:
  assumes "mem \<in> regions" and "read_word mem location \<noteq> None" and "unat location < 4"
  shows "read_word mem (location - 4) = None"
proof (rule ccontr)
  assume "read_word mem (location - 4) \<noteq> None"
  then obtain v where "read_at mem 4 (ucast (location - 4)) = Some v" by (auto simp: GetMemoryAtAddress_def)
  then have top: "unat (location - 4) + 4 \<le> unat (GetBase mem) + unat (GetSize mem)"
    using read_bounds [OF assms(1), of 4 "ucast (location - 4)"] by (simp add: unat_ucast_le64)
  obtain w where "read_at mem 4 (ucast location) = Some w" using assms(2) by (auto simp: GetMemoryAtAddress_def)
  then have "unat (GetBase mem) \<le> unat location"
    using read_bounds [OF assms(1), of 4 "ucast location"] by (simp add: unat_ucast_le64)
  moreover have "unat (location - 4) = unat location + 2 ^ 32 - 4"
    using assms(3) by (simp add: unat_sub_if')
  moreover have "unat (GetSize mem) < 2 ^ 32" using unsigned_less [of "GetSize mem", where 'a=nat] by simp
  ultimately show False using top by simp
qed

lemma find_saved_ebp_ends: "mem \<in> regions \<Longrightarrow> find_saved_ebp mem location location_end \<noteq> None"
proof (induction "unat location" arbitrary: location rule: less_induct)
  case less
  have stop: "find_saved_ebp mem (location - 4) location_end \<noteq> None" if "read_word mem location \<noteq> None"
  proof (cases "unat location < 4")
    case True
    then have "read_word mem (location - 4) = None" using search_wraps less.prems that by blast
    then show ?thesis by (subst find_saved_ebp.simps) simp
  next
    case False
    then have "unat (location - 4) < unat location" by (simp add: unat_sub_if')
    then show ?thesis using less.hyps less.prems by blast
  qed
  then show ?case by (subst find_saved_ebp.simps) (auto split: option.split)
qed

end

section \<open>Programs without a program string\<close>

text \<open>The programs that the walker makes up are assignments of expressions.\<close>

definition made_up_program :: "x86_frame \<Rightarrow> windows_frame_info \<Rightarrow> (string \<times> uint32 expr) list" where
  "made_up_program last_frame info =
     (if allocates_base_pointer info then
        [(''$eip'', Deref (Var ''.raSearchStart'')),
         (''$ebp'', Deref (BinOp BINARY_OP_SUBTRACT (BinOp BINARY_OP_ADD (BinOp BINARY_OP_ADD (Var ''$esp'')
            (Var ''.cbCalleeParams'')) (Var ''.cbSavedRegs'')) (Lit 8))),
         (''$esp'', BinOp BINARY_OP_ADD (Var ''.raSearchStart'') (Lit 4))]
      else
        [(''$eip'', Deref (Var ''.raSearchStart'')), (''$esp'', BinOp BINARY_OP_ADD (Var ''.raSearchStart'') (Lit 4))] @
        (if context_validity last_frame AND X86_CONTEXT_VALID EBX \<noteq> 0 then [(''$ebx'', Var ''$ebx'')] else []))"

lemma made_up_program_ok: "program_ok (made_up_program last_frame info)"
  by (simp add: made_up_program_def program_ok_def identifier_name_def word_def isspace_def is_digit_def digit_value_def)

lemma digit_char_4_8: "digit_char 4 = CHR ''4''" "digit_char 8 = CHR ''8''"
  by code_simp+

lemma made_up_program_text:
  "program_string info = [] \<Longrightarrow>
     fst (windows_program last_frame info) = join '' '' (program_tokens (made_up_program last_frame info))"
  by (simp add: windows_program_def made_up_program_def print_nat.simps [of 10] digit_char_4_8)

text \<open>Windows frame information that crashes no evaluation.\<close>

definition windows_safe :: "(CodeModule \<Rightarrow> sym_module option) \<Rightarrow> bool" where
  "windows_safe symbols \<longleftrightarrow> (\<forall>frame info mem d. windows_answer symbols (frame :: module_frame) = Some info \<longrightarrow>
     program_string info \<noteq> [] \<longrightarrow> run_windows_program mem (program_string info) d \<noteq> None)"

lemma run_program_safe:
  assumes "\<forall>(x, e) \<in> set p. \<forall>d. expr_value mem d e \<noteq> Crash"
  shows "run_program mem p ev \<noteq> Crash"
  using assms
proof (induction p arbitrary: ev)
  case (Cons xe p)
  obtain x e where xe: "xe = (x, e)" by (cases xe)
  then have "expr_value mem (dictionary ev) e \<noteq> Crash" using Cons.prems by simp
  then show ?case
    using Cons xe by (cases "expr_value mem (dictionary ev) e") (auto simp: lift_fail_def)
qed simp

lemma windows_program_runs:
  assumes "windows_safe symbols" and "windows_answer symbols (frame :: module_frame) = Some info"
  shows "run_windows_program mem (fst (windows_program last_frame info)) d \<noteq> None"
proof (cases "program_string info = []")
  case True
  let ?p = "made_up_program last_frame info"
  let ?ev = "\<lparr>dictionary = d, assigned = Some Map.empty, stack = []\<rparr> :: uint32 evaluator"
  have "run_program (Some (read_word mem)) ?p ?ev \<noteq> Crash"
    by (rule run_program_safe)
      (auto simp: made_up_program_def expr_value_def resolve_def lift_fail_def split: option.splits if_splits)
  then show ?thesis
    using Evaluate_program_text [OF made_up_program_ok [of last_frame info], of ?ev "Some (read_word mem)"]
    by (auto simp: run_windows_program_def made_up_program_text [OF True] split: outcome.split)
next
  case False
  then show ?thesis
    using assms unfolding windows_safe_def by (fastforce simp: windows_program_def)
qed

section \<open>Every caller makes progress\<close>

abbreviation x86_linked :: "x86_frame \<Rightarrow> x86_frame \<Rightarrow> bool" where
  "x86_linked \<equiv> linked_by (\<lambda>c. c EIP) (\<lambda>c. c ESP) (<) 1 x86_essentials"

definition x86_recovered :: "x86_frame \<Rightarrow> bool" where
  "x86_recovered frame \<longleftrightarrow> base_frame frame = StackFrame \<and> context_validity frame AND x86_essentials = x86_essentials \<and>
     trust frame \<in> {FRAME_TRUST_CFI, FRAME_TRUST_CFI_SCAN, FRAME_TRUST_FP, FRAME_TRUST_SCAN}"

lemma windows_frame_recovered:
  "t \<in> {FRAME_TRUST_CFI, FRAME_TRUST_CFI_SCAN, FRAME_TRUST_SCAN} \<Longrightarrow> x86_recovered (windows_frame last_frame ev d t)"
  by (auto simp: windows_frame_def x86_recovered_def StackFrameX86_def Let_def x86_essentials_def)

lemma scan_when_failed_trust:
  "scan_when_failed F W mem frames allowed evaluated d z = Some (Some (d', t), z') \<Longrightarrow>
     t \<in> {FRAME_TRUST_CFI, FRAME_TRUST_SCAN}"
  by (auto simp: scan_when_failed_def bind_eq_Some_conv split: if_splits)

lemma scan_when_outside_trust:
  "scan_when_outside F W mem frames allowed d t z = Some ((d', t', offset), z') \<Longrightarrow> t' = t \<or> t' = FRAME_TRUST_CFI_SCAN"
  by (auto simp: scan_when_outside_def Let_def bind_eq_Some_conv split: if_splits option.splits)

lemma x86_recovered_windows:
  assumes "X86_GetCallerByWindowsFrameInfo F W mem frames info allowed z = Some (Some g, z')"
  shows "x86_recovered g"
proof -
  obtain program recover_ebp where p: "windows_program (last frames) info = (program, recover_ebp)" by fastforce
  obtain evaluated ev z1 recovered z2 start where failed: "scan_when_failed F W mem frames allowed evaluated (dictionary ev) z1 = Some (recovered, z2)"
    and rest: "(case recovered of
        None \<Rightarrow> Some (None, z2)
      | Some (d, t) \<Rightarrow>
          if subscript d ''$eip'' \<noteq> 0 \<or> subscript d ''$ebp'' \<noteq> 0 then
            do { (improved, z) \<leftarrow> scan_when_outside F W mem frames allowed d t z2;
                 (case improved of (d, t, offset) \<Rightarrow>
                    do { d \<leftarrow> (if recover_ebp
                           then recover_frame_pointer mem (last frames) info (callee_parameter_size frames) start d t offset
                           else Some d);
                         Some (Some (windows_frame (last frames) ev d t), z) }) }
          else Some (Some (windows_frame (last frames) ev d t), z2)) = Some (Some g, z')"
    using assms unfolding X86_GetCallerByWindowsFrameInfo_def Let_def
    by (auto simp: bind_eq_Some_conv p split: if_splits)
  obtain d t where r: "recovered = Some (d, t)" using rest by (cases recovered) auto
  have "t \<in> {FRAME_TRUST_CFI, FRAME_TRUST_SCAN}" using scan_when_failed_trust [OF failed [unfolded r]] .
  then have "\<exists>d t. g = windows_frame (last frames) ev d t \<and> t \<in> {FRAME_TRUST_CFI, FRAME_TRUST_CFI_SCAN, FRAME_TRUST_SCAN}"
    using rest by (auto simp: r bind_eq_Some_conv dest!: scan_when_outside_trust split: if_splits)
  then show ?thesis using windows_frame_recovered by blast
qed

lemma x86_recovered_cfi:
  "X86_GetCallerByCFIFrameInfo mem frames cfi = Some (Some g) \<Longrightarrow> x86_recovered g"
  by (auto simp: X86_GetCallerByCFIFrameInfo_def Let_def x86_recovered_def StackFrameX86_def
      split: outcome.splits if_splits)

lemma ebp_frame_recovered:
  "t \<in> {FRAME_TRUST_FP, FRAME_TRUST_SCAN} \<Longrightarrow> x86_recovered (ebp_frame last_frame t eip esp ebp)"
  by (auto simp: ebp_frame_def x86_recovered_def StackFrameX86_def x86_essentials_def)

lemma x86_recovered_ebp:
  "X86_GetCallerByEBPAtBase F W mem frames allowed z = Some (Some g, z') \<Longrightarrow> x86_recovered g"
  by (auto simp: X86_GetCallerByEBPAtBase_def Let_def bind_eq_Some_conv ebp_frame_recovered
      split: option.splits if_splits)

lemma X86_finish_linked:
  assumes "x86_recovered g" and "X86_finish last_frame g = Some f"
  shows "frame_module (base_frame f) = None \<and> x86_linked last_frame f"
  using assms
  by (auto simp: X86_finish_def Let_def x86_recovered_def linked_by_def set_instruction_def StackFrame_def split: if_splits)

lemma X86_GetCallerFrame_linked:
  assumes "X86_GetCallerFrame F W frames allowed z = Some ((last_frame, result), z')"
  shows "frame_core last_frame = frame_core (last frames) \<and> base_frame last_frame = base_frame (last frames)"
    and "result = Some f \<Longrightarrow> frame_module (base_frame f) = None \<and> x86_linked last_frame f"
proof -
  show "frame_core last_frame = frame_core (last frames) \<and> base_frame last_frame = base_frame (last frames)"
    using assms unfolding X86_GetCallerFrame_def Let_def
    by (auto simp: bind_eq_Some_conv split: option.splits)
  have "\<exists>g. x86_recovered g \<and> X86_finish last_frame g = Some f" if res: "result = Some f"
  proof -
    obtain mem where mem: "memory W = Some mem" using assms res by (cases "memory W") (auto simp: X86_GetCallerFrame_def)
    obtain wi nf z1 where nf: "(case wi of None \<Rightarrow> Some (None, z)
        | Some info \<Rightarrow> X86_GetCallerByWindowsFrameInfo F W mem (butlast frames @ [note_windows wi (last frames)]) info allowed z) =
          Some (nf, z1)"
      and rest: "(case nf of
          Some f \<Rightarrow> Some ((note_windows wi (last frames), X86_finish (note_windows wi (last frames)) f), z1)
        | None \<Rightarrow>
            do { ci \<leftarrow> find_cfi_frame_info F (base_frame (last frames)) z1;
                 nf \<leftarrow> (case ci of None \<Rightarrow> Some None
                   | Some cfi \<Rightarrow> X86_GetCallerByCFIFrameInfo mem (butlast frames @ [note_cfi ci (note_windows wi (last frames))]) cfi);
                 (nf, z) \<leftarrow> (case nf of Some f \<Rightarrow> Some (Some f, z1)
                   | None \<Rightarrow> X86_GetCallerByEBPAtBase F W mem (butlast frames @ [note_cfi ci (note_windows wi (last frames))]) allowed z1);
                 Some ((note_cfi ci (note_windows wi (last frames)),
                   Option.bind nf (X86_finish (note_cfi ci (note_windows wi (last frames))))), z) }) =
        Some ((last_frame, Some f), z')"
      using assms res unfolding X86_GetCallerFrame_def Let_def note_kept butlast_snoc by (auto simp: mem bind_eq_Some_conv)
    show ?thesis
    proof (cases nf)
      case (Some g)
      then show ?thesis using nf rest by (auto dest: x86_recovered_windows split: option.splits)
    next
      case None
      then obtain ci nf2 z2 where ci: "(case ci of None \<Rightarrow> Some None
          | Some cfi \<Rightarrow> X86_GetCallerByCFIFrameInfo mem (butlast frames @ [note_cfi ci (note_windows wi (last frames))]) cfi) = Some nf2"
        and rest: "Option.bind (case nf2 of Some f \<Rightarrow> Some (Some f, z1)
             | None \<Rightarrow> X86_GetCallerByEBPAtBase F W mem (butlast frames @ [note_cfi ci (note_windows wi (last frames))]) allowed z1)
           (\<lambda>(nf, z). Some ((note_cfi ci (note_windows wi (last frames)),
                   Option.bind nf (X86_finish (note_cfi ci (note_windows wi (last frames))))), z)) = Some ((last_frame, Some f), z')"
        using rest by (auto simp: bind_eq_Some_conv)
      show ?thesis
      proof (cases nf2)
        case (Some g)
        then show ?thesis using ci rest by (auto dest: x86_recovered_cfi split: option.splits)
      next
        case None
        then show ?thesis using rest by (auto simp: bind_eq_Some_conv dest: x86_recovered_ebp)
      qed
    qed
  qed
  then show "frame_module (base_frame f) = None \<and> x86_linked last_frame f" if "result = Some f"
    using X86_finish_linked that by blast
qed

section \<open>Walking\<close>

context walk_environment
begin

lemma windows_caller_alike:
  assumes mem: "mem \<in> regions" "unat (GetBase mem) + unat (GetSize mem) \<le> 2 ^ LENGTH(32)"
    and "windows_safe symbols" and "windows_answer symbols (frame :: module_frame) = Some info"
  shows "alike inv (X86_GetCallerByWindowsFrameInfo F W mem frames info allowed)
    (X86_GetCallerByWindowsFrameInfo (ideal_symbolizer symbols) W mem frames info allowed)"
proof -
  note scan = scan_default_alike [OF mem(1) _ _ mem(2)]
  have three: "alike inv (ScanForReturnAddress F W mem start 3) (ScanForReturnAddress (ideal_symbolizer symbols) W mem start 3)"
    for start :: uint32
    using scan_alike [OF mem(1) _ _ mem(2), of 3 start] by simp
  have start: "alike inv (ra_search_start F W mem last_frame info callee_params)
      (ra_search_start (ideal_symbolizer symbols) W mem last_frame info callee_params)" for last_frame callee_params
    unfolding ra_search_start_def Let_def by (intro alike_intros three)
  have failed: "alike inv (scan_when_failed F W mem frames allowed evaluated d)
      (scan_when_failed (ideal_symbolizer symbols) W mem frames allowed evaluated d)" for evaluated d
    unfolding scan_when_failed_def by (intro alike_intros scan) simp_all
  have outside: "alike inv (scan_when_outside F W mem frames allowed d t)
      (scan_when_outside (ideal_symbolizer symbols) W mem frames allowed d t)" for d t
    unfolding scan_when_outside_def Let_def by (intro alike_intros scan) simp_all
  have pointer: "recover_frame_pointer mem last_frame info callee_params start d t offset \<noteq> None"
    for last_frame callee_params start d t offset
    using find_saved_ebp_ends [OF mem(1)] by (simp add: recover_frame_pointer_def Let_def)
  have run: "run_windows_program mem program d \<noteq> None" if "windows_program last_frame info = (program, recover_ebp)"
    for last_frame program recover_ebp d
    using windows_program_runs [OF assms(3,4), of mem last_frame d] that by simp
  show ?thesis
    unfolding X86_GetCallerByWindowsFrameInfo_def Let_def
    by (intro alike_intros start failed outside run) (use pointer in auto)
qed

lemma ebp_caller_alike:
  assumes mem: "mem \<in> regions" "unat (GetBase mem) + unat (GetSize mem) \<le> 2 ^ LENGTH(32)"
  shows "alike inv (X86_GetCallerByEBPAtBase F W mem frames allowed)
    (X86_GetCallerByEBPAtBase (ideal_symbolizer symbols) W mem frames allowed)"
  unfolding X86_GetCallerByEBPAtBase_def Let_def
  by (intro alike_intros scan_default_alike [OF mem(1) _ _ mem(2)]) simp_all

end

context walk_environment
begin

lemma x86_caller:
  assumes "inv z" and known: "of_walk W (base_frame (last frames))" and asked: "answered F symbols (base_frame (last frames)) z"
    and safe: "cfi_safe TYPE(32) symbols" "windows_safe symbols"
    and region: "\<And>mem. memory W = Some mem \<Longrightarrow> mem \<in> regions \<and> unat (GetBase mem) + unat (GetSize mem) \<le> 2 ^ LENGTH(32)"
  shows "\<exists>r z'. X86_GetCallerFrame F W frames allowed z = Some (r, z') \<and> inv z' \<and>
    X86_GetCallerFrame (ideal_symbolizer symbols) W frames allowed () = Some (r, ())"
proof (cases "memory W")
  case None
  then show ?thesis using assms(1) by (simp add: X86_GetCallerFrame_def)
next
  case (Some mem)
  note mem = region [OF Some]
  let ?b = "base_frame (last frames)"
  let ?win = "windows_answer symbols ?b" and ?cfi = "cfi_answer symbols ?b"
  let ?last = "note_windows ?win (last frames)"
  let ?inv = "\<lambda>z. inv z \<and> answered F symbols ?b z"
  have env: "walk_environment regions F ?inv symbols W"
    by (intro walk_environment.intro bounded_memory_axioms remembers known)
  have find: "find_windows_frame_info F ?b z = Some ?win"
      "find_windows_frame_info (ideal_symbolizer symbols) ?b () = Some ?win"
      "find_cfi_frame_info (ideal_symbolizer symbols) ?b () = Some ?cfi"
    using asked by (auto simp: answered_def ideal_symbolizer_def)
  let ?windows = "\<lambda>F z. case ?win of
      None \<Rightarrow> Some (None, z)
    | Some info \<Rightarrow> X86_GetCallerByWindowsFrameInfo F W mem (butlast frames @ [?last]) info allowed z"
  have "alike ?inv (?windows F) (?windows (ideal_symbolizer symbols))"
  proof (cases ?win)
    case (Some info)
    have "alike ?inv (X86_GetCallerByWindowsFrameInfo F W mem (butlast frames @ [?last]) info allowed)
        (X86_GetCallerByWindowsFrameInfo (ideal_symbolizer symbols) W mem (butlast frames @ [?last]) info allowed)"
      by (rule walk_environment.windows_caller_alike [OF env _ _ safe(2) Some]) (use mem in simp_all)
    then show ?thesis by (simp add: Some)
  qed (simp add: alike_def)
  then obtain nf z1 where windows: "?windows F z = Some (nf, z1)" "?windows (ideal_symbolizer symbols) () = Some (nf, ())"
    and z1: "inv z1" "answered F symbols ?b z1"
    using assms(1) asked unfolding alike_def by blast
  show ?thesis
  proof (cases nf)
    case None
    let ?frames = "butlast frames @ [note_cfi ?cfi ?last]"
    obtain nf2 where cfi: "(case ?cfi of None \<Rightarrow> Some None | Some cfi \<Rightarrow> X86_GetCallerByCFIFrameInfo mem ?frames cfi) = Some nf2"
    proof (cases ?cfi)
      case (Some cfi)
      have "X86_GetCallerByCFIFrameInfo mem ?frames cfi \<noteq> None"
        using FindCallerRegisters_safe [OF safe(1) Some]
        by (auto simp: X86_GetCallerByCFIFrameInfo_def Let_def split: outcome.split)
      then show ?thesis using that by (auto simp: Some)
    qed (use that in simp)
    have asked1: "find_cfi_frame_info F ?b z1 = Some ?cfi" using z1(2) by (simp add: answered_def)
    show ?thesis
    proof (cases nf2)
      case none2: None
      obtain r z2 where "X86_GetCallerByEBPAtBase F W mem ?frames allowed z1 = Some (r, z2)" "inv z2"
        "X86_GetCallerByEBPAtBase (ideal_symbolizer symbols) W mem ?frames allowed () = Some (r, ())"
        using ebp_caller_alike [of mem ?frames allowed] mem z1(1) unfolding alike_def by blast
      then show ?thesis
        using Some find windows None cfi none2 asked1 by (simp add: X86_GetCallerFrame_def Let_def)
    next
      case some2: (Some g)
      then show ?thesis
        using Some find windows None cfi asked1 z1(1) by (simp add: X86_GetCallerFrame_def Let_def)
    qed
  next
    case some: (Some g)
    then show ?thesis
      using Some find windows z1(1) by (simp add: X86_GetCallerFrame_def Let_def)
  qed
qed

end

text \<open>What the made up programs compute where the return address can be read.\<close>

lemma made_up_program_result:
  assumes c: "c = cpu_context last_frame"
    and d: "d = (windows_dictionary last_frame info callee_params)(''.raSearchStart'' \<mapsto> start, ''.raSearch'' \<mapsto> start)"
    and "program_string info = []" and eip: "read_word mem start = Some eip"
    and ebp: "if allocates_base_pointer info
      then read_word mem (c ESP + callee_params + saved_register_size info - 8) = Some ebp else ebp = c EBP"
  shows "\<exists>ev. run_windows_program mem (fst (windows_program last_frame info)) d = Some (True, ev) \<and>
    subscript (dictionary ev) ''$eip'' = eip \<and> subscript (dictionary ev) ''$esp'' = start + 4 \<and>
    subscript (dictionary ev) ''$ebp'' = ebp \<and>
    (was_set ev ''$ebx'' \<longrightarrow> subscript (dictionary ev) ''$ebx'' = c EBX) \<and>
    \<not> was_set ev ''$esi'' \<and> \<not> was_set ev ''$edi''"
proof -
  let ?ev = "\<lparr>dictionary = d, assigned = Some Map.empty, stack = []\<rparr> :: uint32 evaluator"
  have run: "run_windows_program mem (fst (windows_program last_frame info)) d =
      (case run_program (Some (read_word mem)) (made_up_program last_frame info) ?ev of
         Crash \<Rightarrow> None
       | Fail ev \<Rightarrow> Some (False, ev)
       | Ok ev \<Rightarrow> Some (was_set ev ''$eip'' \<and> was_set ev ''$esp'', ev))"
    using Evaluate_program_text [OF made_up_program_ok [of last_frame info], of ?ev "Some (read_word mem)"]
    by (simp add: run_windows_program_def made_up_program_text [OF assms(3)])
  show ?thesis
    unfolding run using assms(2-)
    by (cases "allocates_base_pointer info"; cases "context_validity last_frame AND X86_CONTEXT_VALID EBX = 0")
      (simp_all add: c made_up_program_def expr_value_def resolve_def lift_fail_def windows_dictionary_def was_set_def
        subscript_def Let_def)
qed

context walk_environment
begin

lemma three_word_scan:
  assumes "mem \<in> regions" and "unat (GetBase mem) + unat (GetSize mem) \<le> 2 ^ LENGTH(32)" and "inv z"
    and "return_address symbols W mem (start :: uint32) = Some eip"
  shows "\<exists>z'. ScanForReturnAddress F W mem start 3 z = Some (Some (start, eip), z') \<and> inv z'"
proof -
  have "GetMemoryAtAddress mem (ucast start) \<noteq> (None :: uint32 option)"
    using assms(4) by (auto simp: return_address_def split: option.splits)
  then have "first_return_address symbols W mem start (Suc 3) = Some (start, eip)"
    using assms(4) by (subst first_return_address_Suc) simp
  moreover have "unat start + 12 < 2 ^ 64" using unsigned_less [of start, where 'a=nat] by simp
  ultimately show ?thesis
    using scan_finds [OF assms(1) _ _ assms(2,3), of 3 start] by simp
qed

lemma windows_frame_without_program:
  assumes mem: "mem \<in> regions" "unat (GetBase mem) + unat (GetSize mem) \<le> 2 ^ LENGTH(32)" and "inv z"
    and info: "valid info = VALID_ALL" "program_string info = []"
    and c: "c = cpu_context (last frames)"
    and start: "start = c ESP + callee_parameter_size frames + local_size info + saved_register_size info"
    and ra: "return_address symbols W mem start = Some eip" "eip \<noteq> 0"
    and not_returned: "\<not> (trust (last frames) = FRAME_TRUST_CONTEXT \<and> wfi_type info = STACK_INFO_FPO \<and> eip = c EIP)"
    and ebp: "if allocates_base_pointer info
      then read_word mem (c ESP + callee_parameter_size frames + saved_register_size info - 8) = Some ebp \<and>
        read_word mem ebp \<noteq> None
      else ebp = c EBP"
  shows "\<exists>f z'. X86_GetCallerByWindowsFrameInfo F W mem frames info allowed z = Some (Some f, z') \<and> inv z' \<and>
    trust f = FRAME_TRUST_CFI \<and> cpu_context f = c(EIP := eip, ESP := start + 4, EBP := ebp)"
proof -
  let ?params = "callee_parameter_size frames"
  obtain z1 where scan: "ScanForReturnAddress F W mem start 3 z = Some (Some (start, eip), z1)" "inv z1"
    using three_word_scan [OF mem assms(3) ra(1)] by blast
  then have search: "ra_search_start F W mem (last frames) info ?params z = Some (start, z1)"
    using not_returned by (auto simp: ra_search_start_def Let_def start c)
  obtain program recover_ebp where p: "windows_program (last frames) info = (program, recover_ebp)" by fastforce
  have no_align: "aligned_search_start (last frames) program start = start"
    using p info(2) by (auto simp: aligned_search_start_def windows_program_def split: if_splits)
  have recover: "recover_ebp \<longleftrightarrow> allocates_base_pointer info"
    using p info(2) by (auto simp: windows_program_def split: if_splits)
  have eip: "read_word mem start = Some eip" and known: "modules W = None \<or> (\<exists>ms. modules W = Some ms \<and> GetModuleForAddress ms (ucast eip) \<noteq> None)"
    using ra(1) by (auto simp: return_address_def split: option.splits if_splits)
  let ?d = "(windows_dictionary (last frames) info ?params)(''.raSearchStart'' \<mapsto> start, ''.raSearch'' \<mapsto> start)"
  have "if allocates_base_pointer info then read_word mem (c ESP + ?params + saved_register_size info - 8) = Some ebp
      else ebp = c EBP"
    using ebp by (simp split: if_splits)
  from made_up_program_result [OF c refl info(2) eip this] obtain ev where
    run: "run_windows_program mem program ?d = Some (True, ev)"
    and vals: "subscript (dictionary ev) ''$eip'' = eip" "subscript (dictionary ev) ''$esp'' = start + 4"
      "subscript (dictionary ev) ''$ebp'' = ebp" "was_set ev ''$ebx'' \<longrightarrow> subscript (dictionary ev) ''$ebx'' = c EBX"
      "\<not> was_set ev ''$esi''" "\<not> was_set ev ''$edi''"
    by (auto simp: p)
  let ?f = "windows_frame (last frames) ev (dictionary ev) FRAME_TRUST_CFI"
  have outside: "scan_when_outside F W mem frames allowed (dictionary ev) FRAME_TRUST_CFI z1 =
      Some ((dictionary ev, FRAME_TRUST_CFI, 0), z1)"
    using known by (auto simp: scan_when_outside_def vals)
  have pointer: "recover_ebp \<Longrightarrow> recover_frame_pointer mem (last frames) info ?params start (dictionary ev) FRAME_TRUST_CFI 0 =
      Some (dictionary ev)"
    using ebp recover by (auto simp: recover_frame_pointer_def Let_def vals)
  have "X86_GetCallerByWindowsFrameInfo F W mem frames info allowed z = Some (Some ?f, z1)"
    using info(1) ra(2)
    by (simp add: X86_GetCallerByWindowsFrameInfo_def Let_def search p no_align run scan_when_failed_def vals outside pointer)
  moreover have "trust ?f = FRAME_TRUST_CFI" "cpu_context ?f = c(EIP := eip, ESP := start + 4, EBP := ebp)"
    using vals by (auto simp: windows_frame_def Let_def c fun_eq_iff)
  ultimately show ?thesis using scan(2) by blast
qed

end

definition x86_ready ::
  "file_system \<Rightarrow> allocation \<Rightarrow> string list \<Rightarrow> (CodeModule \<Rightarrow> sym_module option) \<Rightarrow> stackwalker \<Rightarrow>
     (sym_module, simple_supplier) symbolizer \<times> heap \<Rightarrow> bool" where
  "x86_ready fs alloc roots symbols W z \<longleftrightarrow>
     ready basic_class basic_encodes basic_denotes fs alloc roots symbols W z \<and>
     cfi_safe TYPE(32) symbols \<and> windows_safe symbols \<and> (\<forall>mem. memory W = Some mem \<longrightarrow> mem \<in> minidump_memories)"

interpretation x86_env: walk_environment minidump_memories "real_symbolizer basic_class (simple_class fs alloc)"
  "x86_ready fs alloc roots symbols W" symbols "StackwalkerX86 W"
  for fs alloc roots symbols W
  using basic_walk.fills [where W = "StackwalkerX86 W"]
  by unfold_locales (fastforce simp: x86_ready_def StackwalkerX86_def)

interpretation x86: register_walk "real_symbolizer basic_class (simple_class fs alloc)"
  "x86_ready fs alloc roots symbols W" symbols "StackwalkerX86 W"
  "X86_GetCallerFrame (real_symbolizer basic_class (simple_class fs alloc)) (StackwalkerX86 W)"
  "X86_GetCallerFrame (ideal_symbolizer symbols) (StackwalkerX86 W)" "\<lambda>c. c EIP" "\<lambda>c. c ESP" "(<)" 1 x86_essentials
  for fs alloc roots symbols W
proof (unfold_locales, goal_cases)
  case (1 frames z allowed)
  then show ?case
    using address_space_32_fits [of W]
    by (intro x86_env.x86_caller) (auto simp: x86_ready_def StackwalkerX86_def)
next
  case (2 frames allowed last_frame frame)
  then show ?case
    using X86_GetCallerFrame_linked [OF 2(2)] by (simp add: linked_by_def frame_core_def)
qed (erule X86_GetCallerFrame_linked(1))

lemma X86_GetContextFrame_fresh: "fresh_frame (X86_GetContextFrame c)"
  by (cases c) (simp_all add: fresh_frame_def X86_GetContextFrame_def set_instruction_def StackFrameX86_def StackFrame_def)

text \<open>C39: A walk over an x86 stack ends, whichever of Windows frame information, call frame information, frame
  pointers and scanning recover the callers, with at most one frame more than the limit. The stack
  pointer grows strictly from frame to frame, every caller has a nonzero \<open>eip\<close> and valid
  \<open>eip\<close>, \<open>esp\<close> and \<open>ebp\<close>, and the result does not depend on the history of the symbolizer.\<close>

theorem X86_Walk_ends:
  assumes "x86_ready fs alloc roots symbols W z"
  shows "\<exists>stk ns' cs' z'.
    Walk (real_symbolizer basic_class (simple_class fs alloc)) (StackwalkerX86 W) L (X86_GetContextFrame c)
        (X86_GetCallerFrame (real_symbolizer basic_class (simple_class fs alloc)) (StackwalkerX86 W)) ns cs z =
      Some (True, stk, ns', cs', z') \<and>
    length stk \<le> unat (max_frames L) + 1 \<and> stack_from frame_core x86_linked (X86_GetContextFrame c) stk \<and>
    Walk (ideal_symbolizer symbols) (StackwalkerX86 W) L (X86_GetContextFrame c)
        (X86_GetCallerFrame (ideal_symbolizer symbols) (StackwalkerX86 W)) ns cs () = Some (True, stk, ns', cs', ())"
  using x86.Walk_ends [OF assms X86_GetContextFrame_fresh] by blast

lemma example_windows_safe: "windows_safe (\<lambda>_. Some example_module)"
proof -
  have "program_string info = []" if "FindWindowsFrameInfo example_module f = Some info" for f info
    using that
    by (auto simp: FindWindowsFrameInfo_def example_module_def Module_init_def crm_init_def crm_RetrieveRange.simps
        WindowsFrameInfo_init_def Let_def nth_replicate STACK_INFO_FRAME_DATA_def STACK_INFO_FPO_def STACK_INFO_LAST_def split: option.splits if_splits)
  then show ?thesis by (auto simp: windows_safe_def windows_answer_def split: option.splits)
qed

text \<open>\<open>cfi_safe\<close> does not depend on the registers of a particular CPU here: there are no rules.\<close>

lemma example_x86_ready:
  "x86_ready example_symbol_files example_alloc [''sym''] (\<lambda>_. Some example_module) example_walker example_state"
  using example_ready example_cfi_safe example_windows_safe example_stack_memory
  by (simp add: x86_ready_def example_walker_def)

definition example_x86_context :: x86_context where
  "example_x86_context = (\<lambda>_. 0)(EIP := 0x401000, ESP := 0x7000, EBP := 0x7008)"

text \<open>C6: Windows frame information without a program string recovers the caller as the comments in the
  code say, when the word above the saved registers, the locals and the pushed arguments is a
  plausible return address: it is the caller's \<open>eip\<close>, \<open>esp\<close> points above it, and \<open>ebp\<close> is unchanged or,
  if the function saved it, read from its place among the saved registers. (The context frame of a
  system call that has returned is excluded.)\<close>

theorem X86_windows_frame_correct:
  assumes "ready basic_class basic_encodes basic_denotes fs alloc roots symbols W z"
    and "mem \<in> minidump_memories" and "unat (GetBase mem) + unat (GetSize mem) \<le> 2 ^ LENGTH(32)"
    and "valid info = VALID_ALL" and "program_string info = []"
    and "c = cpu_context (last frames)"
    and "start = c ESP + callee_parameter_size frames + local_size info + saved_register_size info"
    and "return_address symbols W mem start = Some eip" and "eip \<noteq> 0"
    and "\<not> (trust (last frames) = FRAME_TRUST_CONTEXT \<and> wfi_type info = STACK_INFO_FPO \<and> eip = c EIP)"
    and "if allocates_base_pointer info
      then read_word mem (c ESP + callee_parameter_size frames + saved_register_size info - 8) = Some ebp \<and>
        read_word mem ebp \<noteq> None
      else ebp = c EBP"
  shows "\<exists>f z'. X86_GetCallerByWindowsFrameInfo (real_symbolizer basic_class (simple_class fs alloc)) W mem frames info allowed z =
      Some (Some f, z') \<and> ready basic_class basic_encodes basic_denotes fs alloc roots symbols W z' \<and>
    trust f = FRAME_TRUST_CFI \<and> cpu_context f = c(EIP := eip, ESP := start + 4, EBP := ebp)"
  using basic_scan.windows_frame_without_program [OF assms(2,3,1) assms(4-11)] .

theorem X86_Walk_ends_witness:
  "\<exists>stk ns' cs' z'.
    Walk (real_symbolizer basic_class (simple_class example_symbol_files example_alloc)) (StackwalkerX86 example_walker)
        default_limits (X86_GetContextFrame (Some example_x86_context))
        (X86_GetCallerFrame (real_symbolizer basic_class (simple_class example_symbol_files example_alloc))
          (StackwalkerX86 example_walker)) [] [] example_state =
      Some (True, stk, ns', cs', z') \<and>
    length stk \<le> unat (max_frames default_limits) + 1 \<and>
    stack_from frame_core x86_linked (X86_GetContextFrame (Some example_x86_context)) stk \<and>
    Walk (ideal_symbolizer (\<lambda>_. Some example_module)) (StackwalkerX86 example_walker) default_limits
        (X86_GetContextFrame (Some example_x86_context))
        (X86_GetCallerFrame (ideal_symbolizer (\<lambda>_. Some example_module)) (StackwalkerX86 example_walker)) [] [] () =
      Some (True, stk, ns', cs', ())"
  by (rule X86_Walk_ends [OF example_x86_ready])

definition example_x86_frame :: x86_frame where
  "example_x86_frame = StackFrameX86\<lparr>cpu_context := example_x86_context, context_validity := - 1,
     trust := FRAME_TRUST_CONTEXT\<rparr>"

definition example_windows_info :: windows_frame_info where
  "example_windows_info = WindowsFrameInfo_init\<lparr>wfi_type := STACK_INFO_FRAME_DATA, valid := VALID_ALL,
     local_size := 8\<rparr>"

lemma example_word: "GetMemoryAtAddress example_stack 0x7008 = Some (0x401004 :: uint32)"
  by (simp add: GetMemoryAtAddress_def GetMemoryAtAddressInternal_def GetMemory_def SeekRead_def Let_def
      example_dump_def example_word_bytes example_stack_defs)

lemma example_return_address:
  "return_address (\<lambda>_. Some example_module) example_walker example_stack (0x7008 :: uint32) = Some 0x401004"
  using example_word example_lookup example_module_at
  by (simp add: return_address_def plausible_def example_walker_def)

theorem X86_windows_frame_correct_witness:
  "\<exists>f z'. X86_GetCallerByWindowsFrameInfo (real_symbolizer basic_class (simple_class example_symbol_files example_alloc))
        example_walker example_stack [example_x86_frame] example_windows_info False example_state = Some (Some f, z') \<and>
    ready basic_class basic_encodes basic_denotes example_symbol_files example_alloc [''sym''] (\<lambda>_. Some example_module)
      example_walker z' \<and>
    trust f = FRAME_TRUST_CFI \<and>
    cpu_context f = example_x86_context(EIP := 0x401004, ESP := 0x7008 + 4, EBP := 0x7008)"
proof (rule X86_windows_frame_correct [OF example_ready example_stack_memory, where start = "0x7008 :: uint32" and c = example_x86_context])
  show "return_address (\<lambda>_. Some example_module) example_walker example_stack (0x7008 :: uint32) = Some 0x401004"
    by (rule example_return_address)
  show "unat (GetBase example_stack) + unat (GetSize example_stack) \<le> 2 ^ LENGTH(32)"
    by (simp add: example_stack_defs)
qed (simp_all add: example_x86_frame_def example_windows_info_def example_x86_context_def callee_parameter_size_def
  WindowsFrameInfo_init_def)

end
