(* ===== verification/Stackwalker_MIPS.thy ===== *)
theory Stackwalker_MIPS
  imports Stackwalker_PPC Stackwalker_ARM
begin

text \<open>
  The walker of processor/stackwalker_mips.cc, for 32-bit and 64-bit MIPS. The registers have 64 bits
  in the context; which of the two variants runs depends on a bit of the flags of the context that
  the walker was made with. The source has each function twice, at the two widths of an address.
\<close>

section \<open>Contexts and frames\<close>

record mips_context =
  context_flags :: uint32
  mips_iregs :: "nat \<Rightarrow> uint64"
  epc :: uint64

type_synonym mips_frame = "(mips_context, uint32) cpu_frame"

definition mips_blank :: mips_context where
  "mips_blank = \<lparr>context_flags = 0, mips_iregs = (\<lambda>_. 0), epc = 0\<rparr>"

definition MD_CONTEXT_MIPS :: uint32 where "MD_CONTEXT_MIPS = 0x40000"
definition MD_CONTEXT_MIPS64 :: uint32 where "MD_CONTEXT_MIPS64 = 0x80000"

definition MD_CONTEXT_MIPS_REG_S0 :: nat where "MD_CONTEXT_MIPS_REG_S0 = 16"
definition MD_CONTEXT_MIPS_REG_S7 :: nat where "MD_CONTEXT_MIPS_REG_S7 = 23"
definition MD_CONTEXT_MIPS_REG_GP :: nat where "MD_CONTEXT_MIPS_REG_GP = 28"
definition MD_CONTEXT_MIPS_REG_SP :: nat where "MD_CONTEXT_MIPS_REG_SP = 29"
definition MD_CONTEXT_MIPS_REG_FP :: nat where "MD_CONTEXT_MIPS_REG_FP = 30"
definition MD_CONTEXT_MIPS_REG_RA :: nat where "MD_CONTEXT_MIPS_REG_RA = 31"
definition INDEX_MIPS_REG_PC :: nat where "INDEX_MIPS_REG_PC = 34"

lemmas mips_register_numbers = MD_CONTEXT_MIPS_REG_S0_def MD_CONTEXT_MIPS_REG_S7_def MD_CONTEXT_MIPS_REG_GP_def
  MD_CONTEXT_MIPS_REG_SP_def MD_CONTEXT_MIPS_REG_FP_def MD_CONTEXT_MIPS_REG_RA_def INDEX_MIPS_REG_PC_def

definition MIPS_RegisterValidFlag :: "nat \<Rightarrow> uint32" where
  "MIPS_RegisterValidFlag n =
     (if MD_CONTEXT_MIPS_REG_S0 \<le> n \<and> n \<le> MD_CONTEXT_MIPS_REG_S7 then push_bit (n - MD_CONTEXT_MIPS_REG_S0 + 0) 1
      else if MD_CONTEXT_MIPS_REG_GP \<le> n \<and> n \<le> MD_CONTEXT_MIPS_REG_RA then push_bit (n - MD_CONTEXT_MIPS_REG_GP + 8) 1
      else if n = INDEX_MIPS_REG_PC then push_bit 12 1
      else 0)"

definition kRegisterNames :: "string list" where
  "kRegisterNames =
     [''$zero'', ''$at'', ''$v0'', ''$v1'', ''$a0'', ''$a1'', ''$a2'', ''$a3'', ''$to'', ''$t1'',
      ''$t2'', ''$t3'', ''$t4'', ''$t5'', ''$t6'', ''$t7'', ''$s0'', ''$s1'', ''$s2'', ''$s3'',
      ''$s4'', ''$s5'', ''$s6'', ''$s7'', ''$t8'', ''$t9'', ''$k0'', ''$k1'', ''$gp'', ''$sp'',
      ''$fp'', ''$ra'']"

text \<open>The constructor drops a stack that is out of range. All the arithmetic is in 64 bits, except for the size.\<close>

definition mips_address_space :: "mips_context \<Rightarrow> stackwalker \<Rightarrow> stackwalker" where
  "mips_address_space c W =
     W\<lparr>memory := (case memory W of
        None \<Rightarrow> None
      | Some mem \<Rightarrow>
          if (if context_flags c AND MD_CONTEXT_MIPS64 \<noteq> 0
              then 0xffffffffffffffff - GetBase mem < ucast (GetSize mem - 1)
              else 0xffffffff - GetBase mem < ucast (GetSize mem - 1))
          then None else Some mem)\<rparr>"

text \<open>The constructor looks at the flags before anything has checked that there is a context.\<close>

definition StackwalkerMIPS :: "mips_context option \<Rightarrow> stackwalker \<Rightarrow> stackwalker option" where
  "StackwalkerMIPS raw_context W =
     (case raw_context of
        None \<Rightarrow> if memory W = None then Some W else None
      | Some c \<Rightarrow> Some (mips_address_space c W))"

definition MIPS_GetContextFrame :: "mips_context option \<Rightarrow> mips_frame option" where
  "MIPS_GetContextFrame raw_context =
     map_option (\<lambda>c. set_instruction (epc c) ((StackFrame_cpu mips_blank)
       \<lparr>cpu_context := c, context_validity := - 1, trust := FRAME_TRUST_CONTEXT\<rparr>)) raw_context"

section \<open>Call frame information\<close>

text \<open>The registers of a frame by name, at the width of the variant.\<close>

definition mips_registers :: "mips_frame \<Rightarrow> 'w::len word registers" where
  "mips_registers frame =
     foldl (\<lambda>regs i. regs(kRegisterNames ! i \<mapsto> ucast (mips_iregs (cpu_context frame) i)))
       Map.empty [0..<length kRegisterNames]"

text \<open>The rules' answer with the stack pointer, the return address and the program counter put in.\<close>

definition mips_pseudo_registers :: "'w::len word registers \<Rightarrow> 'w word registers" where
  "mips_pseudo_registers caller_registers =
     (let caller_registers = (case caller_registers ''.cfa'' of
            None \<Rightarrow> caller_registers | Some cfa \<Rightarrow> caller_registers(''$sp'' \<mapsto> cfa)) in
      case caller_registers ''.ra'' of
        None \<Rightarrow> caller_registers(''$pc'' \<mapsto> 0)
      | Some ra \<Rightarrow> caller_registers(''$ra'' \<mapsto> ra, ''$pc'' \<mapsto> ra - word_of_nat (2 * (LENGTH('w) div 8))))"

definition mips_cfi_frame :: "(nat \<Rightarrow> bool) \<Rightarrow> mips_frame \<Rightarrow> 'w::len word registers \<Rightarrow> mips_frame" where
  "mips_cfi_frame saved last_frame caller_registers =
     (let (iregs, flags) = fill_registers MIPS_RegisterValidFlag kRegisterNames saved
            (\<lambda>name. map_option ucast (caller_registers name)) (context_validity last_frame)
            (mips_iregs (cpu_context last_frame));
          reg = (\<lambda>name. case caller_registers name of None \<Rightarrow> 0 :: uint64 | Some v \<Rightarrow> ucast v) in
      set_instruction (reg ''$pc'') ((StackFrame_cpu mips_blank)
        \<lparr>cpu_context := mips_blank\<lparr>mips_iregs := iregs(MD_CONTEXT_MIPS_REG_RA := reg ''$ra''), epc := reg ''$pc''\<rparr>,
         context_validity := flags OR MIPS_RegisterValidFlag INDEX_MIPS_REG_PC OR
           MIPS_RegisterValidFlag MD_CONTEXT_MIPS_REG_RA,
         trust := FRAME_TRUST_CFI\<rparr>))"

definition mips_by_cfi ::
  "'w::len itself \<Rightarrow> (nat \<Rightarrow> bool) \<Rightarrow> memory_region \<Rightarrow> mips_frame list \<Rightarrow> cfi_frame_info \<Rightarrow> mips_frame option option" where
  "mips_by_cfi width saved mem frames cfi_frame_info =
     (let registers = mips_registers (last frames) :: 'w word registers in
      case FindCallerRegs cfi_frame_info registers (\<lambda>a. GetMemoryAtAddress mem (ucast a)) registers of
        Crash \<Rightarrow> None
      | Fail _ \<Rightarrow> Some None
      | Ok caller_registers \<Rightarrow>
          Some (Some (mips_cfi_frame saved (last frames) (mips_pseudo_registers caller_registers))))"

definition mips_callee_saves :: "nat \<Rightarrow> bool" where
  "mips_callee_saves i \<longleftrightarrow> MD_CONTEXT_MIPS_REG_S0 \<le> i \<and> i \<le> MD_CONTEXT_MIPS_REG_S7 \<or>
     MD_CONTEXT_MIPS_REG_GP < i \<and> i < MD_CONTEXT_MIPS_REG_RA"

definition mips64_callee_saves :: "nat \<Rightarrow> bool" where
  "mips64_callee_saves i \<longleftrightarrow> MD_CONTEXT_MIPS_REG_S0 \<le> i \<and> i \<le> MD_CONTEXT_MIPS_REG_S7 \<or>
     MD_CONTEXT_MIPS_REG_GP \<le> i \<and> i < MD_CONTEXT_MIPS_REG_RA"

definition MIPS_GetCallerByCFIFrameInfo ::
  "mips_context \<Rightarrow> memory_region \<Rightarrow> mips_frame list \<Rightarrow> cfi_frame_info \<Rightarrow> mips_frame option option" where
  "MIPS_GetCallerByCFIFrameInfo c =
     (if context_flags c AND MD_CONTEXT_MIPS \<noteq> 0 then mips_by_cfi TYPE(32) mips_callee_saves
      else mips_by_cfi TYPE(64) mips64_callee_saves)"

section \<open>Scanning the stack\<close>

definition kMaxFrameStackSize :: nat where "kMaxFrameStackSize = 1024"
definition kMinArgsOnStack :: nat where "kMinArgsOnStack = 4"

text \<open>
  A return address is taken only if the word below it could be a frame pointer: it must point into
  the kilobyte above. The number of words left to scan is an \<open>int\<close>, computed in 64 bits without a
  sign.
\<close>

partial_function (option) mips_scan_loop ::
  "'z frame_symbolizer \<Rightarrow> stackwalker \<Rightarrow> memory_region \<Rightarrow> 'w::len word \<Rightarrow> int \<Rightarrow> 'z \<Rightarrow>
     (('w word \<times> 'w word \<times> 'w word \<times> int) option \<times> 'z) option" where
  "mips_scan_loop F W mem last_sp count z =
     Option.bind (ScanForReturnAddress F W mem last_sp count z) (\<lambda>(found, z).
       case found of
         None \<Rightarrow> Some (None, z)
       | Some (caller_sp, caller_pc) \<Rightarrow>
           (case GetMemoryAtAddress mem (ucast caller_sp - word_of_nat (LENGTH('w) div 8)) of
              None \<Rightarrow> Some (None, z)
            | Some caller_fp \<Rightarrow>
                let count = sint (word_of_int (count - int (unat (caller_sp - last_sp) div (LENGTH('w) div 8))) :: uint32) in
                if caller_fp - caller_sp \<ge> word_of_nat kMaxFrameStackSize \<and> count > 0
                then mips_scan_loop F W mem (caller_sp + word_of_nat (LENGTH('w) div 8)) count z
                else Some (Some (caller_sp, caller_pc, caller_fp, count), z)))"

text \<open>
  The return address register gets the program counter back with the two words added in 64 bits.
\<close>

definition mips_scanned_frame :: "mips_frame \<Rightarrow> 'w::len word \<Rightarrow> 'w word \<Rightarrow> 'w word \<Rightarrow> mips_frame" where
  "mips_scanned_frame last_frame caller_sp caller_pc caller_fp =
     (let size = LENGTH('w) div 8;
          caller_sp = caller_sp + word_of_nat size;
          caller_pc = caller_pc - word_of_nat (2 * size) in
      set_instruction (ucast caller_pc) ((StackFrame_cpu mips_blank)
        \<lparr>trust := FRAME_TRUST_SCAN,
         cpu_context := (cpu_context last_frame)
           \<lparr>epc := ucast caller_pc,
            mips_iregs := (mips_iregs (cpu_context last_frame))
              (MD_CONTEXT_MIPS_REG_SP := ucast caller_sp, MD_CONTEXT_MIPS_REG_FP := ucast caller_fp,
               MD_CONTEXT_MIPS_REG_RA := ucast caller_pc + word_of_nat (2 * size))\<rparr>,
         context_validity := MIPS_RegisterValidFlag INDEX_MIPS_REG_PC OR MIPS_RegisterValidFlag MD_CONTEXT_MIPS_REG_SP OR
           MIPS_RegisterValidFlag MD_CONTEXT_MIPS_REG_FP OR MIPS_RegisterValidFlag MD_CONTEXT_MIPS_REG_RA\<rparr>))"

definition mips_by_scan ::
  "'w::len itself \<Rightarrow> nat \<Rightarrow> 'z frame_symbolizer \<Rightarrow> stackwalker \<Rightarrow> memory_region \<Rightarrow> mips_frame \<Rightarrow> 'z \<Rightarrow>
     (mips_frame option \<times> 'z) option" where
  "mips_by_scan width skipped F W mem last_frame z =
     (let last_sp = ucast (mips_iregs (cpu_context last_frame) MD_CONTEXT_MIPS_REG_SP) :: 'w word in
      do { (found, z) \<leftarrow> mips_scan_loop F W mem (last_sp + word_of_nat (skipped * (LENGTH('w) div 8)))
             (int (kMaxFrameStackSize div (LENGTH('w) div 8)) - int skipped) z;
           Some (case found of
               None \<Rightarrow> None
             | Some (caller_sp, caller_pc, caller_fp, count) \<Rightarrow>
                 if count = 0 then None
                 else Some (mips_scanned_frame last_frame caller_sp caller_pc caller_fp), z) })"

text \<open>Only the 32-bit variant skips the words for the arguments, and not in the context frame.\<close>

definition MIPS_GetCallerByStackScan ::
  "mips_context \<Rightarrow> 'z frame_symbolizer \<Rightarrow> stackwalker \<Rightarrow> memory_region \<Rightarrow> mips_frame list \<Rightarrow> 'z \<Rightarrow>
     (mips_frame option \<times> 'z) option" where
  "MIPS_GetCallerByStackScan c F W mem frames =
     (if context_flags c AND MD_CONTEXT_MIPS \<noteq> 0
      then mips_by_scan TYPE(32) (if length frames > 1 then kMinArgsOnStack else 0) F W mem (last frames)
      else mips_by_scan TYPE(64) 0 F W mem (last frames))"

definition MIPS_finish :: "mips_frame \<Rightarrow> mips_frame \<Rightarrow> mips_frame option" where
  "MIPS_finish last_frame frame =
     (if epc (cpu_context frame) = 0 then None
      else if mips_iregs (cpu_context frame) MD_CONTEXT_MIPS_REG_SP <
        mips_iregs (cpu_context last_frame) MD_CONTEXT_MIPS_REG_SP then None
      else Some frame)"

definition MIPS_GetCallerFrame ::
  "mips_context \<Rightarrow> 'z frame_symbolizer \<Rightarrow> stackwalker \<Rightarrow> mips_frame list \<Rightarrow> bool \<Rightarrow> 'z \<Rightarrow>
     ((mips_frame \<times> mips_frame option) \<times> 'z) option" where
  "MIPS_GetCallerFrame c F W frames =
     recover_caller (\<lambda>mem. MIPS_GetCallerByCFIFrameInfo c mem frames) (\<lambda>_. None)
       (\<lambda>mem. MIPS_GetCallerByStackScan c F W mem frames) (MIPS_finish (last frames)) F W frames"

section \<open>No stack pointer falls\<close>

definition mips_essentials :: uint32 where
  "mips_essentials = MIPS_RegisterValidFlag INDEX_MIPS_REG_PC OR MIPS_RegisterValidFlag MD_CONTEXT_MIPS_REG_SP OR
     MIPS_RegisterValidFlag MD_CONTEXT_MIPS_REG_RA"

lemma bind_outcome_eq_Ok: "bind_outcome x f = Ok r \<longleftrightarrow> (\<exists>y. x = Ok y \<and> f y = Ok r)"
  by (cases x) auto

lemma FindCallerRegs_cfa:
  "FindCallerRegs fi registers mem caller = Ok caller_registers \<Longrightarrow> caller_registers ''.cfa'' \<noteq> None"
  by (auto simp: FindCallerRegs_def bind_outcome_eq_Ok Let_def split: if_splits outcome.splits)

lemma FindCallerRegs_start:
  "FindCallerRegs fi registers mem caller = Crash \<longleftrightarrow> FindCallerRegs fi registers mem Map.empty = Crash"
  by (simp add: FindCallerRegs_def)

lemma or_and_essentials: "(a AND f = f) \<Longrightarrow> (a OR p OR r) AND (p OR f OR r) = p OR f OR (r :: 'f::len word)"
  by (auto simp: bit_eq_iff bit_simps)

text \<open>What a recovered frame has: the instruction is the program counter and three registers are valid.\<close>

definition mips_recovered :: "mips_frame \<Rightarrow> bool" where
  "mips_recovered frame \<longleftrightarrow> frame_module (base_frame frame) = None \<and>
     instruction (frame_info (base_frame frame)) = epc (cpu_context frame) \<and>
     context_validity frame AND mips_essentials = mips_essentials \<and>
     trust frame \<in> {FRAME_TRUST_CFI, FRAME_TRUST_SCAN}"

lemma mips_cfi_frame_recovered:
  assumes "caller_registers ''$sp'' \<noteq> None"
  shows "mips_recovered (mips_cfi_frame saved last_frame caller_registers)"
proof -
  let ?fill = "fill_registers MIPS_RegisterValidFlag kRegisterNames saved
    (\<lambda>name. map_option ucast (caller_registers name) :: uint64 option) (context_validity last_frame)
    (mips_iregs (cpu_context last_frame))"
  have "snd ?fill AND MIPS_RegisterValidFlag MD_CONTEXT_MIPS_REG_SP = MIPS_RegisterValidFlag MD_CONTEXT_MIPS_REG_SP"
    using assms by (intro fill_registers_flags) (simp_all add: kRegisterNames_def mips_register_numbers)
  then have "context_validity (mips_cfi_frame saved last_frame caller_registers) AND mips_essentials = mips_essentials"
    unfolding mips_essentials_def
    by (simp add: mips_cfi_frame_def case_prod_beta Let_def set_instruction_def StackFrame_cpu_def or_and_essentials)
  then show ?thesis
    by (simp add: mips_recovered_def mips_cfi_frame_def case_prod_beta Let_def set_instruction_def StackFrame_cpu_def
        StackFrame_def)
qed

lemma mips_by_cfi_recovered:
  fixes width :: "'w::len itself"
  assumes "mips_by_cfi width saved mem frames cfi = Some (Some frame)"
  shows "mips_recovered frame"
proof -
  obtain caller_registers :: "'w word registers" where
    ok: "FindCallerRegs cfi (mips_registers (last frames)) (\<lambda>a. GetMemoryAtAddress mem (ucast a))
      (mips_registers (last frames)) = Ok caller_registers"
    and frame: "frame = mips_cfi_frame saved (last frames) (mips_pseudo_registers caller_registers)"
    using assms by (auto simp: mips_by_cfi_def Let_def split: outcome.splits)
  have "mips_pseudo_registers caller_registers ''$sp'' \<noteq> None"
    using FindCallerRegs_cfa [OF ok] by (auto simp: mips_pseudo_registers_def Let_def split: option.split)
  then show ?thesis by (simp add: frame mips_cfi_frame_recovered)
qed

lemma mips_scanned_frame_recovered: "mips_recovered (mips_scanned_frame last_frame caller_sp caller_pc caller_fp)"
  by (simp add: mips_recovered_def mips_scanned_frame_def Let_def set_instruction_def StackFrame_cpu_def StackFrame_def
      mips_essentials_def) (auto simp: bit_eq_iff bit_simps)

lemma mips_by_scan_recovered:
  assumes "mips_by_scan width skipped F W mem last_frame z = Some (Some frame, z')"
  shows "mips_recovered frame"
  using assms unfolding mips_by_scan_def Let_def bind_eq_Some_conv
  by (elim exE conjE) (auto simp: mips_scanned_frame_recovered split: option.splits if_splits)

abbreviation mips_linked :: "mips_frame \<Rightarrow> mips_frame \<Rightarrow> bool" where
  "mips_linked \<equiv> linked_by epc (\<lambda>c. mips_iregs c MD_CONTEXT_MIPS_REG_SP) (\<le>) 0 mips_essentials"

lemma MIPS_GetCallerFrame_linked:
  assumes "MIPS_GetCallerFrame c F W frames allowed z = Some ((last_frame, Some f), z')"
  shows "frame_module (base_frame f) = None \<and> mips_linked (last frames) f"
proof -
  obtain mem g where f: "MIPS_finish (last frames) g = Some f"
    and g: "(\<exists>cfi. MIPS_GetCallerByCFIFrameInfo c mem frames cfi = Some (Some g)) \<or> None = Some g \<or>
      (\<exists>z1 z2. MIPS_GetCallerByStackScan c F W mem frames z1 = Some (Some g, z2))"
    using assms unfolding MIPS_GetCallerFrame_def by (elim recover_caller_cases)
  have "mips_recovered g"
    using g
    by (auto simp: MIPS_GetCallerByCFIFrameInfo_def MIPS_GetCallerByStackScan_def split: if_splits
        dest: mips_by_cfi_recovered mips_by_scan_recovered)
  then show ?thesis
    using f by (auto simp: MIPS_finish_def linked_by_def mips_recovered_def split: if_splits)
qed

section \<open>The scan ends\<close>

lemma alike_bind_result:
  assumes "alike ok f g" and "\<And>r. g () = Some (r, ()) \<Longrightarrow> alike ok (h r) (k r)"
  shows "alike ok (\<lambda>z. Option.bind (f z) (\<lambda>(r, z). h r z)) (\<lambda>z. Option.bind (g z) (\<lambda>(r, z). k r z))"
  unfolding alike_def
proof (intro allI impI)
  fix z assume "ok z"
  then obtain r z1 where f: "f z = Some (r, z1)" "ok z1" "g () = Some (r, ())" using assms(1) unfolding alike_def by blast
  with assms(2) [of r] show "\<exists>r z'. Option.bind (f z) (\<lambda>(r, z). h r z) = Some (r, z') \<and> ok z' \<and>
      Option.bind (g ()) (\<lambda>(r, z). k r z) = Some (r, ())"
    unfolding alike_def by auto
qed

text \<open>A stack within the address space, or one that lies wholly above it, of which nothing can be read.\<close>

definition stack_placed :: "'w::len itself \<Rightarrow> memory_region \<Rightarrow> bool" where
  "stack_placed w mem \<longleftrightarrow>
     unat (GetBase mem) + unat (GetSize mem) \<le> 2 ^ LENGTH('w) \<or> 2 ^ LENGTH('w) \<le> unat (GetBase mem)"

context walk_environment
begin

lemma scan_unreadable_start:
  fixes start :: "'w::len word"
  assumes "(GetMemoryAtAddress mem (ucast start) :: 'w word option) = None"
  shows "ScanForReturnAddress F W mem start n z = Some (None, z)"
  unfolding ScanForReturnAddress_def by (rule scan_unreadable(1) [OF assms])

lemma outside_unreadable:
  fixes a :: "'w::len word"
  assumes "mem \<in> regions" and "LENGTH('w) \<le> 64" and "2 ^ LENGTH('w) \<le> unat (GetBase mem)"
  shows "(GetMemoryAtAddress mem (ucast a) :: 'w word option) = None"
proof (rule ccontr)
  assume "(GetMemoryAtAddress mem (ucast a) :: 'w word option) \<noteq> None"
  then obtain v where "read_at mem (LENGTH('w) div 8) (ucast a) = Some v" by (auto simp: GetMemoryAtAddress_def)
  then have "unat (GetBase mem) \<le> unat a"
    using read_bounds [OF assms(1), of "LENGTH('w) div 8" "ucast a"] unat_ucast_le64 [OF assms(2), of a] by simp
  then show False using unsigned_less [of a, where 'a=nat] assms(3) by simp
qed

end

context walk_environment
begin

lemma mips_loop_unreadable:
  fixes last_sp :: "'w::len word"
  assumes "(GetMemoryAtAddress mem (ucast last_sp) :: 'w word option) = None"
  shows "alike inv (mips_scan_loop F W mem last_sp count) (mips_scan_loop (ideal_symbolizer symbols) W mem last_sp count)"
  unfolding alike_def
  by (subst (1 2) mips_scan_loop.simps) (simp add: scan_unreadable_start [OF assms] stateless.scan_unreadable_start [OF assms])

lemma mips_loop_alike:
  fixes last_sp :: "'w::len word"
  assumes mem: "mem \<in> regions" and w: "32 \<le> LENGTH('w)" "LENGTH('w) \<le> 64"
    and fits: "unat (GetBase mem) + unat (GetSize mem) \<le> 2 ^ LENGTH('w)"
    and "0 \<le> count" and "count < 2 ^ 32"
  shows "alike inv (mips_scan_loop F W mem last_sp count) (mips_scan_loop (ideal_symbolizer symbols) W mem last_sp count)"
  using assms(5,6)
proof (induction "2 ^ LENGTH('w) - unat last_sp" arbitrary: last_sp count rule: less_induct)
  case less
  let ?s = "LENGTH('w) div 8"
  let ?ideal = "ideal_symbolizer symbols"
  obtain n where n: "count = int n" using less.prems(1) nonneg_int_cases by blast
  have "n * ?s \<le> n * 8" using w(2) by (intro mult_le_mono2) (simp add: div_le_mono [of "LENGTH('w)" 64 8, simplified])
  also have "\<dots> < 2 ^ 64" using less.prems(2) n by simp
  finally have n64: "n * ?s < 2 ^ 64" .
  have next_alike: "alike inv (mips_scan_loop F W mem (location + word_of_nat ?s) count')
      (mips_scan_loop ?ideal W mem (location + word_of_nat ?s) count')"
    if found: "ScanForReturnAddress ?ideal W mem last_sp count () = Some (Some (location, ip), ())"
      and count': "0 \<le> count'" "count' < 2 ^ 32" for location ip count'
  proof -
    have "first_return_address symbols W mem last_sp (Suc n) = Some (location, ip)"
      using stateless.scan_finds [OF mem w fits _ n64, where start = last_sp and z = "()"] found n by (simp split: if_splits)
    note above = found_above [OF mem w fits this]
    have read: "(GetMemoryAtAddress mem (ucast location) :: 'w word option) \<noteq> None" using above by simp
    from scan_wraps [OF mem w read fits] show ?thesis
    proof
      assume "unat (location + word_of_nat ?s) = unat location + ?s"
      moreover have "unat last_sp \<le> unat location" using above by (simp add: word_le_nat_alt)
      moreover have "?s > 0" using w(1) by auto
      moreover have "unat last_sp < 2 ^ LENGTH('w)" by (rule unsigned_less)
      ultimately have "2 ^ LENGTH('w) - unat (location + word_of_nat ?s) < 2 ^ LENGTH('w) - unat last_sp" by linarith
      then show ?thesis using less.hyps count' by blast
    qed (rule mips_loop_unreadable)
  qed
  have scan: "alike inv (ScanForReturnAddress F W mem last_sp count) (ScanForReturnAddress ?ideal W mem last_sp count)"
    unfolding n by (rule scan_alike [OF mem w fits n64])
  have count32: "sint (k :: uint32) < 2 ^ 32" for k
    using sint_lt [of k] by simp
  show ?case
    unfolding mips_scan_loop.simps [of F W mem last_sp count, abs_def]
      mips_scan_loop.simps [of ?ideal W mem last_sp count, abs_def] Let_def
  proof (rule alike_bind_result [OF scan], goal_cases)
    case (1 found)
    show ?case
    proof (cases found)
      case None
      then show ?thesis by (simp add: alike_def)
    next
      case (Some p)
      obtain location ip where p: "p = (location, ip)" by (rule prod.exhaust)
      let ?count = "sint (word_of_int (count - int (unat (location - last_sp) div ?s)) :: uint32)"
      have "alike inv (mips_scan_loop F W mem (location + word_of_nat ?s) ?count)
          (mips_scan_loop ?ideal W mem (location + word_of_nat ?s) ?count)" if "?count > 0"
        using next_alike [OF _ order_less_imp_le [OF that] count32] 1 Some p by blast
      then show ?thesis
        unfolding Some p option.case prod.case
        by (intro alike_option alike_if alike_return) simp_all
    qed
  qed
qed

end

context walk_environment
begin

lemma mips_by_scan_alike:
  fixes width :: "'w::len itself"
  assumes mem: "mem \<in> regions" and w: "32 \<le> LENGTH('w)" "LENGTH('w) \<le> 64" and "stack_placed width mem"
    and "skipped \<le> kMinArgsOnStack"
  shows "alike inv (mips_by_scan width skipped F W mem last_frame)
    (mips_by_scan width skipped (ideal_symbolizer symbols) W mem last_frame)"
proof -
  let ?s = "LENGTH('w) div 8"
  let ?start = "ucast (mips_iregs (cpu_context last_frame) MD_CONTEXT_MIPS_REG_SP) + word_of_nat (skipped * ?s) :: 'w word"
  let ?count = "int (kMaxFrameStackSize div ?s) - int skipped"
  have "4 \<le> ?s" "?s \<le> 8" using w div_le_mono [of 32 "LENGTH('w)" 8] div_le_mono [of "LENGTH('w)" 64 8] by simp_all
  then have "128 \<le> kMaxFrameStackSize div ?s" "kMaxFrameStackSize div ?s \<le> 256"
    using div_le_mono2 [of ?s 8 1024] div_le_mono2 [of 4 ?s 1024] by (simp_all add: kMaxFrameStackSize_def)
  then have count: "0 \<le> ?count" "?count < 2 ^ 32" using assms(5) by (simp_all add: kMinArgsOnStack_def)
  have "alike inv (mips_scan_loop F W mem ?start ?count) (mips_scan_loop (ideal_symbolizer symbols) W mem ?start ?count)"
    using assms(4) mips_loop_alike [OF mem w _ count] mips_loop_unreadable [OF outside_unreadable [OF mem w(2)]]
    unfolding stack_placed_def by blast
  then show ?thesis
    unfolding mips_by_scan_def Let_def by (intro alike_bind alike_return)
qed

lemma mips_by_cfi_safe:
  fixes width :: "'w::len itself"
  assumes "cfi_safe width symbols" and "cfi_answer symbols (frame :: module_frame) = Some cfi"
  shows "mips_by_cfi width saved mem frames cfi \<noteq> None"
proof -
  have "FindCallerRegs cfi registers m Map.empty \<noteq> Crash" for registers :: "'w word registers" and m
    using assms by (simp add: cfi_safe_def)
  then have "FindCallerRegs cfi registers m caller \<noteq> Crash" for registers caller :: "'w word registers" and m
    by (simp add: FindCallerRegs_start [of _ _ _ caller])
  then show ?thesis by (auto simp: mips_by_cfi_def Let_def split: outcome.split)
qed

lemma mips_caller:
  assumes "inv z" and "answered F symbols (base_frame (last frames)) z"
    and "if context_flags c AND MD_CONTEXT_MIPS \<noteq> 0 then cfi_safe TYPE(32) symbols else cfi_safe TYPE(64) symbols"
    and "\<And>mem. memory W = Some mem \<Longrightarrow> mem \<in> regions"
    and "\<And>mem. memory W = Some mem \<Longrightarrow> context_flags c AND MD_CONTEXT_MIPS \<noteq> 0 \<Longrightarrow> stack_placed TYPE(32) mem"
  shows "\<exists>r z'. MIPS_GetCallerFrame c F W frames allowed z = Some ((last frames, r), z') \<and> inv z' \<and>
    MIPS_GetCallerFrame c (ideal_symbolizer symbols) W frames allowed () = Some ((last frames, r), ())"
  unfolding MIPS_GetCallerFrame_def
proof (rule recover_caller_ideal [OF assms(1,2)])
  show "MIPS_GetCallerByCFIFrameInfo c mem frames cfi \<noteq> None"
    if "cfi_answer symbols (base_frame (last frames)) = Some cfi" for mem cfi
    using assms(3) by (simp add: MIPS_GetCallerByCFIFrameInfo_def mips_by_cfi_safe [OF _ that] del: not_None_eq split: if_splits)
  show "\<exists>r z'. MIPS_GetCallerByStackScan c F W mem frames z = Some (r, z') \<and> inv z' \<and>
      MIPS_GetCallerByStackScan c (ideal_symbolizer symbols) W mem frames () = Some (r, ())"
    if mem: "memory W = Some mem" and z: "inv z" for mem z
  proof (cases "context_flags c AND MD_CONTEXT_MIPS \<noteq> 0")
    case True
    have "alike inv (mips_by_scan TYPE(32) skipped F W mem (last frames))
        (mips_by_scan TYPE(32) skipped (ideal_symbolizer symbols) W mem (last frames))" if "skipped \<le> kMinArgsOnStack" for skipped
      using assms(5) [OF mem True] that by (intro mips_by_scan_alike assms(4) mem) simp_all
    with True z show ?thesis by (simp add: MIPS_GetCallerByStackScan_def alike_def)
  next
    case False
    have "stack_placed TYPE(64) mem" using region_end [OF assms(4) [OF mem]] by (simp add: stack_placed_def)
    then have "alike inv (mips_by_scan TYPE(64) 0 F W mem (last frames))
        (mips_by_scan TYPE(64) 0 (ideal_symbolizer symbols) W mem (last frames))"
      by (intro mips_by_scan_alike assms(4) mem) simp_all
    with False z show ?thesis by (simp add: MIPS_GetCallerByStackScan_def alike_def)
  qed
qed

end

section \<open>Walking\<close>

lemma mips_address_space_simps [simp]:
  "modules (mips_address_space c W) = modules W" "unloaded_modules (mips_address_space c W) = unloaded_modules W"
  "walk_modules (mips_address_space c W) = walk_modules W"
  by (simp_all add: mips_address_space_def walk_modules_def)

lemma ready_mips_address_space [simp]:
  "ready cls encodes denotes fs alloc roots symbols (mips_address_space c W) z \<longleftrightarrow>
     ready cls encodes denotes fs alloc roots symbols W z"
  by (simp add: ready_def case_prod_beta)

lemma mips_memory: "memory (mips_address_space c W) = Some mem \<Longrightarrow> memory W = Some mem"
  by (auto simp: mips_address_space_def split: option.splits if_splits)

text \<open>
  The 32-bit check does its work for a stack that begins below four gigabytes; one that begins above
  passes it, since the subtraction wraps around, but no address of 32 bits reaches it.
\<close>

lemma mips_stack_placed:
  assumes "memory (mips_address_space c W) = Some mem" and "context_flags c AND MD_CONTEXT_MIPS64 = 0"
  shows "stack_placed TYPE(32) mem"
proof (cases "2 ^ 32 \<le> unat (GetBase mem)")
  case False
  have le: "\<not> 0xffffffff - GetBase mem < ucast (GetSize mem - 1)"
    using assms by (auto simp: mips_address_space_def split: option.splits if_splits)
  have "GetBase mem \<le> 0xffffffff" using False by (simp add: word_le_nat_alt)
  then have "unat (0xffffffff - GetBase mem) = 2 ^ 32 - 1 - unat (GetBase mem)" by (simp add: unat_sub)
  then have "unat (GetSize mem - 1) \<le> 2 ^ 32 - 1 - unat (GetBase mem)"
    using le unat_ucast_le64 [of "GetSize mem - 1"] by (simp add: word_le_nat_alt not_less)
  moreover have "unat (GetSize mem) = 0 \<or> unat (GetSize mem) = Suc (unat (GetSize mem - 1))"
    by (cases "GetSize mem = 0") (simp_all add: unat_minus_one unat_gt_0)
  ultimately show ?thesis using False by (auto simp: stack_placed_def)
qed (simp add: stack_placed_def)

definition mips_ready ::
  "mips_context \<Rightarrow> file_system \<Rightarrow> allocation \<Rightarrow> string list \<Rightarrow> (CodeModule \<Rightarrow> sym_module option) \<Rightarrow> stackwalker \<Rightarrow>
     (sym_module, simple_supplier) symbolizer \<times> heap \<Rightarrow> bool" where
  "mips_ready c fs alloc roots symbols W z \<longleftrightarrow>
     ready basic_class basic_encodes basic_denotes fs alloc roots symbols W z \<and>
     (if context_flags c AND MD_CONTEXT_MIPS \<noteq> 0
      then context_flags c AND MD_CONTEXT_MIPS64 = 0 \<and> cfi_safe TYPE(32) symbols else cfi_safe TYPE(64) symbols) \<and>
     (\<forall>mem. memory W = Some mem \<longrightarrow> mem \<in> minidump_memories)"

interpretation mips_env: walk_environment minidump_memories "real_symbolizer basic_class (simple_class fs alloc)"
  "mips_ready c fs alloc roots symbols W" symbols "mips_address_space c W"
  for c fs alloc roots symbols W
  using basic_walk.fills [where W = "mips_address_space c W"]
  by unfold_locales (fastforce simp: mips_ready_def)

interpretation mips: register_walk "real_symbolizer basic_class (simple_class fs alloc)"
  "mips_ready c fs alloc roots symbols W" symbols "mips_address_space c W"
  "MIPS_GetCallerFrame c (real_symbolizer basic_class (simple_class fs alloc)) (mips_address_space c W)"
  "MIPS_GetCallerFrame c (ideal_symbolizer symbols) (mips_address_space c W)"
  epc "\<lambda>c. mips_iregs c MD_CONTEXT_MIPS_REG_SP" "(\<le>)" 0 mips_essentials
  for c fs alloc roots symbols W
proof (unfold_locales, goal_cases)
  case (1 frames z allowed)
  have "\<exists>r z'. MIPS_GetCallerFrame c (real_symbolizer basic_class (simple_class fs alloc)) (mips_address_space c W)
      frames allowed z = Some ((last frames, r), z') \<and> mips_ready c fs alloc roots symbols W z' \<and>
    MIPS_GetCallerFrame c (ideal_symbolizer symbols) (mips_address_space c W) frames allowed () = Some ((last frames, r), ())"
  proof (rule mips_env.mips_caller [OF 1(2,4)])
    show "if context_flags c AND MD_CONTEXT_MIPS \<noteq> 0 then cfi_safe TYPE(32) symbols else cfi_safe TYPE(64) symbols"
      using 1(2) by (simp add: mips_ready_def split: if_splits)
    show "mem \<in> minidump_memories" if "memory (mips_address_space c W) = Some mem" for mem
      using mips_memory [OF that] 1(2) by (simp add: mips_ready_def)
    show "stack_placed TYPE(32) mem"
      if "memory (mips_address_space c W) = Some mem" "context_flags c AND MD_CONTEXT_MIPS \<noteq> 0" for mem
      using mips_stack_placed that 1(2) by (simp add: mips_ready_def)
  qed
  then show ?case by blast
qed (erule MIPS_GetCallerFrame_linked, auto simp: MIPS_GetCallerFrame_def dest: recover_caller_last)

end
