(* ===== verification/Dump_Context.thy ===== *)
theory Dump_Context
  imports Stackwalker_AMD64 Stackwalker_PPC Stackwalker_ARM Stackwalker_X86 Stackwalker_MIPS
begin

text \<open>
  The class of processor/dump_context.cc, which carries the registers of one CPU: a union of pointers,
  with the flags that say which of them it holds. A pointer read from the wrong member of the union
  is undefined behaviour, as is following a null pointer; both are None here. The pointers own what
  they point to, so a context is modelled as the registers themselves.
\<close>

section \<open>Contexts\<close>

definition MD_CONTEXT_CPU_MASK :: uint32 where "MD_CONTEXT_CPU_MASK = 0xffffff00"
definition MD_CONTEXT_X86 :: uint32 where "MD_CONTEXT_X86 = 0x10000"
definition MD_CONTEXT_PPC :: uint32 where "MD_CONTEXT_PPC = 0x20000000"
definition MD_CONTEXT_PPC64 :: uint32 where "MD_CONTEXT_PPC64 = 0x1000000"
definition MD_CONTEXT_AMD64 :: uint32 where "MD_CONTEXT_AMD64 = 0x100000"
definition MD_CONTEXT_SPARC :: uint32 where "MD_CONTEXT_SPARC = 0x10000000"
definition MD_CONTEXT_ARM :: uint32 where "MD_CONTEXT_ARM = 0x40000000"
definition MD_CONTEXT_ARM64 :: uint32 where "MD_CONTEXT_ARM64 = 0x80000000"

lemmas cpu_codes = MD_CONTEXT_X86_def MD_CONTEXT_PPC_def MD_CONTEXT_PPC64_def MD_CONTEXT_AMD64_def MD_CONTEXT_SPARC_def
  MD_CONTEXT_ARM_def MD_CONTEXT_ARM64_def MD_CONTEXT_MIPS_def MD_CONTEXT_MIPS64_def

definition MD_CONTEXT_PPC_REG_SP :: nat where "MD_CONTEXT_PPC_REG_SP = 1"
definition MD_CONTEXT_PPC64_REG_SP :: nat where "MD_CONTEXT_PPC64_REG_SP = 1"
definition MD_CONTEXT_SPARC_REG_SP :: nat where "MD_CONTEXT_SPARC_REG_SP = 14"

datatype raw_context =
  NullContext
| ContextX86 x86_context
| ContextPPC "uint32 ppc_context"
| ContextPPC64 "uint64 ppc_context"
| ContextAMD64 amd64_context
| ContextSPARC sparc_context
| ContextARM arm_context
| ContextARM64 arm64_context
| ContextMIPS mips_context

record dump_context =
  ctx_valid :: bool
  ctx_raw :: raw_context
  ctx_flags :: uint32

definition DumpContext :: dump_context where
  "DumpContext = \<lparr>ctx_valid = False, ctx_raw = NullContext, ctx_flags = 0\<rparr>"

definition GetContextCPU :: "dump_context \<Rightarrow> uint32" where
  "GetContextCPU D = (if \<not> ctx_valid D then 0 else ctx_flags D AND MD_CONTEXT_CPU_MASK)"

definition GetContextFlags :: "dump_context \<Rightarrow> uint32" where
  "GetContextFlags D = ctx_flags D"

text \<open>The members of the union; the inner option is the pointer.\<close>

fun x86_member :: "raw_context \<Rightarrow> x86_context option option" where
  "x86_member NullContext = Some None" | "x86_member (ContextX86 c) = Some (Some c)" | "x86_member _ = None"

fun ppc_member :: "raw_context \<Rightarrow> uint32 ppc_context option option" where
  "ppc_member NullContext = Some None" | "ppc_member (ContextPPC c) = Some (Some c)" | "ppc_member _ = None"

fun ppc64_member :: "raw_context \<Rightarrow> uint64 ppc_context option option" where
  "ppc64_member NullContext = Some None" | "ppc64_member (ContextPPC64 c) = Some (Some c)" | "ppc64_member _ = None"

fun amd64_member :: "raw_context \<Rightarrow> amd64_context option option" where
  "amd64_member NullContext = Some None" | "amd64_member (ContextAMD64 c) = Some (Some c)" | "amd64_member _ = None"

fun sparc_member :: "raw_context \<Rightarrow> sparc_context option option" where
  "sparc_member NullContext = Some None" | "sparc_member (ContextSPARC c) = Some (Some c)" | "sparc_member _ = None"

fun arm_member :: "raw_context \<Rightarrow> arm_context option option" where
  "arm_member NullContext = Some None" | "arm_member (ContextARM c) = Some (Some c)" | "arm_member _ = None"

fun arm64_member :: "raw_context \<Rightarrow> arm64_context option option" where
  "arm64_member NullContext = Some None" | "arm64_member (ContextARM64 c) = Some (Some c)" | "arm64_member _ = None"

fun mips_member :: "raw_context \<Rightarrow> mips_context option option" where
  "mips_member NullContext = Some None" | "mips_member (ContextMIPS c) = Some (Some c)" | "mips_member _ = None"

text \<open>What all the accessors do: a null pointer unless the CPU is the right one.\<close>

definition context_for :: "uint32 list \<Rightarrow> (raw_context \<Rightarrow> 'c option option) \<Rightarrow> dump_context \<Rightarrow> 'c option option" where
  "context_for cpus member D = (if GetContextCPU D \<notin> set cpus then Some None else member (ctx_raw D))"

definition GetContextX86 :: "dump_context \<Rightarrow> x86_context option option" where
  "GetContextX86 = context_for [MD_CONTEXT_X86] x86_member"

definition GetContextPPC :: "dump_context \<Rightarrow> uint32 ppc_context option option" where
  "GetContextPPC = context_for [MD_CONTEXT_PPC] ppc_member"

definition GetContextPPC64 :: "dump_context \<Rightarrow> uint64 ppc_context option option" where
  "GetContextPPC64 = context_for [MD_CONTEXT_PPC64] ppc64_member"

definition GetContextAMD64 :: "dump_context \<Rightarrow> amd64_context option option" where
  "GetContextAMD64 = context_for [MD_CONTEXT_AMD64] amd64_member"

definition GetContextSPARC :: "dump_context \<Rightarrow> sparc_context option option" where
  "GetContextSPARC = context_for [MD_CONTEXT_SPARC] sparc_member"

definition GetContextARM :: "dump_context \<Rightarrow> arm_context option option" where
  "GetContextARM = context_for [MD_CONTEXT_ARM] arm_member"

definition GetContextARM64 :: "dump_context \<Rightarrow> arm64_context option option" where
  "GetContextARM64 = context_for [MD_CONTEXT_ARM64] arm64_member"

definition GetContextMIPS :: "dump_context \<Rightarrow> mips_context option option" where
  "GetContextMIPS = context_for [MD_CONTEXT_MIPS, MD_CONTEXT_MIPS64] mips_member"

text \<open>Following a pointer that may be null.\<close>

definition follow :: "'c option option \<Rightarrow> ('c \<Rightarrow> 'a) \<Rightarrow> 'a option option" where
  "follow pointer field = (case pointer of Some (Some c) \<Rightarrow> Some (Some (field c)) | _ \<Rightarrow> None)"

definition GetInstructionPointer :: "dump_context \<Rightarrow> uint64 option option" where
  "GetInstructionPointer D =
     (if \<not> ctx_valid D then Some None
      else
        let cpu = GetContextCPU D in
        if cpu = MD_CONTEXT_AMD64 then follow (GetContextAMD64 D) (\<lambda>c. c RIP)
        else if cpu = MD_CONTEXT_ARM then follow (GetContextARM D) (\<lambda>c. ucast (c MD_CONTEXT_ARM_REG_PC))
        else if cpu = MD_CONTEXT_ARM64 then follow (GetContextARM64 D) (\<lambda>c. c MD_CONTEXT_ARM64_REG_PC)
        else if cpu = MD_CONTEXT_PPC then follow (GetContextPPC D) (\<lambda>c. ucast (srr0 c))
        else if cpu = MD_CONTEXT_PPC64 then follow (GetContextPPC64 D) srr0
        else if cpu = MD_CONTEXT_SPARC then follow (GetContextSPARC D) sparc_pc
        else if cpu = MD_CONTEXT_X86 then follow (GetContextX86 D) (\<lambda>c. ucast (c EIP))
        else if cpu = MD_CONTEXT_MIPS \<or> cpu = MD_CONTEXT_MIPS64 then follow (GetContextMIPS D) epc
        else Some None)"

definition GetStackPointer :: "dump_context \<Rightarrow> uint64 option option" where
  "GetStackPointer D =
     (if \<not> ctx_valid D then Some None
      else
        let cpu = GetContextCPU D in
        if cpu = MD_CONTEXT_AMD64 then follow (GetContextAMD64 D) (\<lambda>c. c RSP)
        else if cpu = MD_CONTEXT_ARM then follow (GetContextARM D) (\<lambda>c. ucast (c MD_CONTEXT_ARM_REG_SP))
        else if cpu = MD_CONTEXT_ARM64 then follow (GetContextARM64 D) (\<lambda>c. c MD_CONTEXT_ARM64_REG_SP)
        else if cpu = MD_CONTEXT_PPC then follow (GetContextPPC D) (\<lambda>c. ucast (gpr c MD_CONTEXT_PPC_REG_SP))
        else if cpu = MD_CONTEXT_PPC64 then follow (GetContextPPC64 D) (\<lambda>c. gpr c MD_CONTEXT_PPC64_REG_SP)
        else if cpu = MD_CONTEXT_SPARC then follow (GetContextSPARC D) (\<lambda>c. g_r c MD_CONTEXT_SPARC_REG_SP)
        else if cpu = MD_CONTEXT_X86 then follow (GetContextX86 D) (\<lambda>c. ucast (c ESP))
        else if cpu = MD_CONTEXT_MIPS \<or> cpu = MD_CONTEXT_MIPS64
          then follow (GetContextMIPS D) (\<lambda>c. mips_iregs c MD_CONTEXT_MIPS_REG_SP)
        else Some None)"

definition SetContextFlags :: "uint32 \<Rightarrow> dump_context \<Rightarrow> dump_context" where
  "SetContextFlags flags D = D\<lparr>ctx_flags := flags\<rparr>"

text \<open>The setters of the members, \<open>SetContextX86\<close> and its like.\<close>

definition SetContext :: "raw_context \<Rightarrow> dump_context \<Rightarrow> dump_context" where
  "SetContext raw D = D\<lparr>ctx_raw := raw\<rparr>"

text \<open>
  The context that is deleted, if one is, and what remains; deleting through the wrong member is
  undefined.
\<close>

definition FreeContext :: "dump_context \<Rightarrow> (raw_context option \<times> dump_context) option" where
  "FreeContext D =
     (let cpu = GetContextCPU D; raw = ctx_raw D; freed = D\<lparr>ctx_flags := 0, ctx_raw := NullContext\<rparr>;
          delete = (\<lambda>member. if member then Some (if raw = NullContext then None else Some raw, freed) else None) in
      if cpu = MD_CONTEXT_X86 then delete (x86_member raw \<noteq> None)
      else if cpu = MD_CONTEXT_PPC then delete (ppc_member raw \<noteq> None)
      else if cpu = MD_CONTEXT_PPC64 then delete (ppc64_member raw \<noteq> None)
      else if cpu = MD_CONTEXT_AMD64 then delete (amd64_member raw \<noteq> None)
      else if cpu = MD_CONTEXT_SPARC then delete (sparc_member raw \<noteq> None)
      else if cpu = MD_CONTEXT_ARM then delete (arm_member raw \<noteq> None)
      else if cpu = MD_CONTEXT_ARM64 then delete (arm64_member raw \<noteq> None)
      else if cpu = MD_CONTEXT_MIPS \<or> cpu = MD_CONTEXT_MIPS64 then delete (mips_member raw \<noteq> None)
      else Some (None, freed))"

section \<open>Well-typed contexts\<close>

text \<open>The CPUs whose branch reads the member that a union holds.\<close>

fun member_cpus :: "raw_context \<Rightarrow> uint32 list" where
  "member_cpus NullContext = []"
| "member_cpus (ContextX86 c) = [MD_CONTEXT_X86]"
| "member_cpus (ContextPPC c) = [MD_CONTEXT_PPC]"
| "member_cpus (ContextPPC64 c) = [MD_CONTEXT_PPC64]"
| "member_cpus (ContextAMD64 c) = [MD_CONTEXT_AMD64]"
| "member_cpus (ContextSPARC c) = [MD_CONTEXT_SPARC]"
| "member_cpus (ContextARM c) = [MD_CONTEXT_ARM]"
| "member_cpus (ContextARM64 c) = [MD_CONTEXT_ARM64]"
| "member_cpus (ContextMIPS c) = [MD_CONTEXT_MIPS, MD_CONTEXT_MIPS64]"

definition known_cpus :: "uint32 list" where
  "known_cpus = [MD_CONTEXT_X86, MD_CONTEXT_PPC, MD_CONTEXT_PPC64, MD_CONTEXT_AMD64, MD_CONTEXT_SPARC, MD_CONTEXT_ARM,
     MD_CONTEXT_ARM64, MD_CONTEXT_MIPS, MD_CONTEXT_MIPS64]"

text \<open>The flags tell the truth; the MIPS walker looks at the flags in the registers instead.\<close>

definition well_typed :: "dump_context \<Rightarrow> bool" where
  "well_typed D \<longleftrightarrow> (GetContextCPU D \<in> set known_cpus \<longrightarrow> GetContextCPU D \<in> set (member_cpus (ctx_raw D))) \<and>
     (case ctx_raw D of ContextMIPS c \<Rightarrow> context_flags c = ctx_flags D | _ \<Rightarrow> True)"

lemma well_typed_cases:
  assumes "well_typed D" and "GetContextCPU D \<in> set known_cpus"
  obtains (X86) c where "ctx_raw D = ContextX86 c" "GetContextCPU D = MD_CONTEXT_X86"
  | (PPC) c where "ctx_raw D = ContextPPC c" "GetContextCPU D = MD_CONTEXT_PPC"
  | (PPC64) c where "ctx_raw D = ContextPPC64 c" "GetContextCPU D = MD_CONTEXT_PPC64"
  | (AMD64) c where "ctx_raw D = ContextAMD64 c" "GetContextCPU D = MD_CONTEXT_AMD64"
  | (SPARC) c where "ctx_raw D = ContextSPARC c" "GetContextCPU D = MD_CONTEXT_SPARC"
  | (ARM) c where "ctx_raw D = ContextARM c" "GetContextCPU D = MD_CONTEXT_ARM"
  | (ARM64) c where "ctx_raw D = ContextARM64 c" "GetContextCPU D = MD_CONTEXT_ARM64"
  | (MIPS) c where "ctx_raw D = ContextMIPS c" "GetContextCPU D = MD_CONTEXT_MIPS" "context_flags c = ctx_flags D"
  | (MIPS64) c where "ctx_raw D = ContextMIPS c" "GetContextCPU D = MD_CONTEXT_MIPS64" "context_flags c = ctx_flags D"
proof -
  have "GetContextCPU D \<in> set (member_cpus (ctx_raw D))" using assms by (simp add: well_typed_def)
  then show ?thesis
    using assms(1) that unfolding well_typed_def by (cases "ctx_raw D") auto
qed

lemmas context_accessors = GetContextX86_def GetContextPPC_def GetContextPPC64_def GetContextAMD64_def
  GetContextSPARC_def GetContextARM_def GetContextARM64_def GetContextMIPS_def context_for_def follow_def

lemma cpu_codes_distinct: "distinct known_cpus" "0 \<notin> set known_cpus"
  by (simp_all add: known_cpus_def cpu_codes)

text \<open>What the dispatching functions do at each code.\<close>

lemmas dispatch = GetInstructionPointer_def GetStackPointer_def FreeContext_def context_accessors

text \<open>C12: No operation of a well-typed context reads the wrong member of the union or follows a null pointer:
  every accessor answers, with the registers for the CPU of the context and a null pointer for all
  others. With a known CPU there are an instruction and a stack pointer, and freeing deletes the
  registers; otherwise both are refused and freeing deletes nothing, whatever the union holds.\<close>

theorem DumpContext_type_safe:
  assumes "well_typed D"
  shows "GetContextX86 D \<noteq> None \<and> GetContextPPC D \<noteq> None \<and> GetContextPPC64 D \<noteq> None \<and> GetContextAMD64 D \<noteq> None \<and>
    GetContextSPARC D \<noteq> None \<and> GetContextARM D \<noteq> None \<and> GetContextARM64 D \<noteq> None \<and> GetContextMIPS D \<noteq> None \<and>
    (if GetContextCPU D \<in> set known_cpus
     then (\<exists>ip. GetInstructionPointer D = Some (Some ip)) \<and> (\<exists>sp. GetStackPointer D = Some (Some sp)) \<and>
       FreeContext D = Some (Some (ctx_raw D), D\<lparr>ctx_flags := 0, ctx_raw := NullContext\<rparr>)
     else GetInstructionPointer D = Some None \<and> GetStackPointer D = Some None \<and>
       FreeContext D = Some (None, D\<lparr>ctx_flags := 0, ctx_raw := NullContext\<rparr>))"
proof (cases "GetContextCPU D \<in> set known_cpus")
  case True
  then have valid: "ctx_valid D" using cpu_codes_distinct(2) by (auto simp: GetContextCPU_def split: if_splits)
  from assms True show ?thesis
    by (cases rule: well_typed_cases) (simp_all add: dispatch Let_def valid cpu_codes known_cpus_def)
next
  case False
  then show ?thesis by (simp add: dispatch Let_def known_cpus_def)
qed

definition example_dump_context :: dump_context where
  "example_dump_context = \<lparr>ctx_valid = True, ctx_raw = ContextX86 example_x86_context, ctx_flags = 0x1007f\<rparr>"

lemma example_dump_context_cpu: "GetContextCPU example_dump_context = MD_CONTEXT_X86"
  by (simp add: example_dump_context_def GetContextCPU_def MD_CONTEXT_CPU_MASK_def MD_CONTEXT_X86_def)

lemma example_well_typed: "well_typed example_dump_context"
  using example_dump_context_cpu by (simp add: well_typed_def) (simp add: example_dump_context_def)

theorem DumpContext_type_safe_witness:
  "GetContextARM example_dump_context \<noteq> None \<and> (\<exists>ip. GetInstructionPointer example_dump_context = Some (Some ip))"
proof -
  have "GetContextCPU example_dump_context \<in> set known_cpus"
    by (simp add: example_dump_context_cpu known_cpus_def)
  with DumpContext_type_safe [OF example_well_typed] show ?thesis by simp
qed

end
