(* ===== verification/Stackwalker_For_CPU.thy ===== *)
theory Stackwalker_For_CPU
  imports Dump_Context
begin

text \<open>
  \<open>Stackwalker::StackwalkerForCPU\<close> of processor/stackwalker.cc, which picks the walker for the CPU of
  a context, and what all the walkers have in common.
\<close>

section \<open>Choosing the walker\<close>

text \<open>A walker: its registers and the part of its state that all walkers share.\<close>

datatype cpu_stackwalker =
  WalkerX86 "x86_context option" stackwalker
| WalkerPPC "uint32 ppc_context option" stackwalker
| WalkerPPC64 "uint64 ppc_context option" stackwalker
| WalkerAMD64 "amd64_context option" stackwalker
| WalkerSPARC "sparc_context option" stackwalker
| WalkerMIPS "mips_context option" stackwalker
| WalkerARM int "arm_context option" stackwalker
| WalkerARM64 "arm64_context option" stackwalker

text \<open>
  The arguments of the function are those of \<open>stackwalker\<close> and the context. The outer option is None
  where the code is undefined, the inner one is the pointer returned.
\<close>

definition StackwalkerForCPU :: "stackwalker \<Rightarrow> dump_context option \<Rightarrow> cpu_stackwalker option option" where
  "StackwalkerForCPU W dump =
     (case dump of
        None \<Rightarrow> Some None
      | Some D \<Rightarrow>
          let cpu = GetContextCPU D in
          if cpu = MD_CONTEXT_X86 then map_option (\<lambda>c. Some (WalkerX86 c (StackwalkerX86 W))) (GetContextX86 D)
          else if cpu = MD_CONTEXT_PPC then map_option (\<lambda>c. Some (WalkerPPC c (StackwalkerPPC W))) (GetContextPPC D)
          else if cpu = MD_CONTEXT_PPC64 then map_option (\<lambda>c. Some (WalkerPPC64 c W)) (GetContextPPC64 D)
          else if cpu = MD_CONTEXT_AMD64 then map_option (\<lambda>c. Some (WalkerAMD64 c W)) (GetContextAMD64 D)
          else if cpu = MD_CONTEXT_SPARC then map_option (\<lambda>c. Some (WalkerSPARC c W)) (GetContextSPARC D)
          else if cpu = MD_CONTEXT_MIPS \<or> cpu = MD_CONTEXT_MIPS64 then
            do { c \<leftarrow> GetContextMIPS D; W \<leftarrow> StackwalkerMIPS c W; Some (Some (WalkerMIPS c W)) }
          else if cpu = MD_CONTEXT_ARM then
            let fp_register = (if os_short W = ''ios'' then MD_CONTEXT_ARM_REG_IOS_FP else -1) in
            map_option (\<lambda>c. Some (WalkerARM fp_register c W)) (GetContextARM D)
          else if cpu = MD_CONTEXT_ARM64 then map_option (\<lambda>c. Some (WalkerARM64 c W)) (GetContextARM64 D)
          else Some None)"

section \<open>Walking with any of them\<close>

text \<open>The call stack is a vector of the frames' common base class.\<close>

definition call_stack :: "('c, 'z) walk_result \<Rightarrow> (unit, 'z) walk_result" where
  "call_stack result = map_option (\<lambda>(ok, stk, rest). (ok, map walk_frame.truncate stk, rest)) result"

text \<open>\<open>GetContextFrame\<close> and \<open>GetCallerFrame\<close> are virtual.\<close>

fun CPU_Walk ::
  "'z frame_symbolizer \<Rightarrow> walk_limits \<Rightarrow> cpu_stackwalker \<Rightarrow> CodeModule list \<Rightarrow> CodeModule list \<Rightarrow> 'z \<Rightarrow>
     (unit, 'z) walk_result" where
  "CPU_Walk F L (WalkerX86 c W) ns cs z =
     call_stack (Walk F W L (X86_GetContextFrame c) (X86_GetCallerFrame F W) ns cs z)"
| "CPU_Walk F L (WalkerPPC c W) ns cs z =
     call_stack (Walk F W L (PPC_GetContextFrame c) (PPC_GetCallerFrame W) ns cs z)"
| "CPU_Walk F L (WalkerPPC64 c W) ns cs z =
     call_stack (Walk F W L (PPC64_GetContextFrame c) (PPC64_GetCallerFrame W) ns cs z)"
| "CPU_Walk F L (WalkerAMD64 c W) ns cs z =
     call_stack (Walk F W L (AMD64_GetContextFrame c) (AMD64_GetCallerFrame F W) ns cs z)"
| "CPU_Walk F L (WalkerSPARC c W) ns cs z =
     call_stack (Walk F W L (SPARC_GetContextFrame c) (SPARC_GetCallerFrame W) ns cs z)"
| "CPU_Walk F L (WalkerMIPS None W) ns cs z = call_stack (Walk F W L (MIPS_GetContextFrame None) (\<lambda>_ _ _. None) ns cs z)"
| "CPU_Walk F L (WalkerMIPS (Some c) W) ns cs z =
     call_stack (Walk F W L (MIPS_GetContextFrame (Some c)) (MIPS_GetCallerFrame c F W) ns cs z)"
| "CPU_Walk F L (WalkerARM fp_register c W) ns cs z =
     call_stack (Walk F W L (ARM_GetContextFrame (- 1) c) (ARM_GetCallerFrame fp_register F W) ns cs z)"
| "CPU_Walk F L (WalkerARM64 c W) ns cs z =
     call_stack (Walk F W L (ARM64_GetContextFrame (- 1) c) (ARM64_GetCallerFrame F W) ns cs z)"

text \<open>What is asked of the surroundings: readable symbol files with safe rules, and a stack of the minidump.\<close>

definition cpu_ready ::
  "uint32 \<Rightarrow> file_system \<Rightarrow> allocation \<Rightarrow> string list \<Rightarrow> (CodeModule \<Rightarrow> sym_module option) \<Rightarrow> stackwalker \<Rightarrow>
     (sym_module, simple_supplier) symbolizer \<times> heap \<Rightarrow> bool" where
  "cpu_ready cpu fs alloc roots symbols W z \<longleftrightarrow>
     ready basic_class basic_encodes basic_denotes fs alloc roots symbols W z \<and>
     cfi_safe TYPE(32) symbols \<and> cfi_safe TYPE(64) symbols \<and> windows_safe symbols \<and>
     (\<forall>mem. memory W = Some mem \<longrightarrow> mem \<in> minidump_memories \<and>
        (cpu = MD_CONTEXT_ARM \<longrightarrow> unat (GetBase mem) + unat (GetSize mem) \<le> 2 ^ 32))"

section \<open>Every CPU's walk ends\<close>

text \<open>What the frames of a call stack tell, at the level of the common base class.\<close>

definition call_stack_ok :: "uint64 \<Rightarrow> walk_limits \<Rightarrow> walk_frame list \<Rightarrow> bool" where
  "call_stack_ok ip L stk \<longleftrightarrow> length stk \<le> unat (max_frames L) + 1 \<and>
     (\<exists>f rest. stk = f # rest \<and> trust f = FRAME_TRUST_CONTEXT \<and> instruction (frame_info (base_frame f)) = ip \<and>
        (\<forall>g \<in> set rest. FRAME_TRUST_NONE < trust g \<and> trust g < FRAME_TRUST_PREWALKED))"

lemma truncate_simps [simp]:
  "trust (walk_frame.truncate f) = trust f" "base_frame (walk_frame.truncate f) = base_frame f"
  by (simp_all add: walk_frame.truncate_def)

lemma linked_trust:
  assumes "successively linked (f # rest)" and "\<And>callee g. linked callee g \<Longrightarrow> P g"
  shows "\<forall>g \<in> set rest. P g"
  using assms(1)
proof (induction rest arbitrary: f)
  case (Cons g rest)
  then show ?case using assms(2) [of f g] by auto
qed simp

lemma trusted_between:
  "t \<notin> {FRAME_TRUST_NONE, FRAME_TRUST_PREWALKED, FRAME_TRUST_CONTEXT} \<Longrightarrow>
     FRAME_TRUST_NONE < t \<and> t < FRAME_TRUST_PREWALKED"
  by (cases t) (simp_all add: less_frame_trust_def)

lemma linked_by_trusted:
  "linked_by ip sp below behind essential callee g \<Longrightarrow> FRAME_TRUST_NONE < trust g \<and> trust g < FRAME_TRUST_PREWALKED"
  by (rule trusted_between) (simp add: linked_by_def)

lemma sparc_linked_trusted:
  "sparc_linked callee g \<Longrightarrow> FRAME_TRUST_NONE < trust g \<and> trust g < FRAME_TRUST_PREWALKED"
  by (simp add: sparc_linked_def less_frame_trust_def)

lemma call_stack_from:
  assumes "stack_from frame_core linked (Some f) stk" and "length stk \<le> unat (max_frames L) + 1"
    and "trust f = FRAME_TRUST_CONTEXT" and "instruction (frame_info (base_frame f)) = ip"
    and "\<And>callee g. linked callee g \<Longrightarrow> FRAME_TRUST_NONE < trust g \<and> trust g < FRAME_TRUST_PREWALKED"
  shows "call_stack_ok ip L (map walk_frame.truncate stk)"
proof -
  obtain g rest where stk: "stk = g # rest" using assms(1) by (cases stk) (auto simp: stack_from_def)
  have link: "successively linked (g # rest)" and start: "frame_start frame_core g = frame_start frame_core f"
    using assms(1) by (simp_all add: stack_from_def stk)
  have "\<forall>h \<in> set rest. FRAME_TRUST_NONE < trust h \<and> trust h < FRAME_TRUST_PREWALKED"
    by (rule linked_trust [OF link]) (rule assms(5))
  then show ?thesis
    using assms(2-4) start unfolding stk by (simp add: call_stack_ok_def frame_start_def frame_core_def)
qed

lemma call_stack_of_walk:
  assumes "\<exists>stk ns' cs' z'. r = Some (True, stk, ns', cs', z') \<and> P z' \<and> r' = Some (True, stk, ns', cs', ()) \<and>
      length stk \<le> unat (max_frames L) + 1 \<and> Q stk ns' cs' \<and> stack_from frame_core linked (Some f) stk"
    and "trust f = FRAME_TRUST_CONTEXT \<and> instruction (frame_info (base_frame f)) = ip"
    and "\<And>callee g. linked callee g \<Longrightarrow> FRAME_TRUST_NONE < trust g \<and> trust g < FRAME_TRUST_PREWALKED"
  shows "\<exists>stk ns' cs' z'. call_stack r = Some (True, stk, ns', cs', z') \<and> call_stack r' = Some (True, stk, ns', cs', ()) \<and>
    call_stack_ok ip L stk"
proof -
  obtain stk ns' cs' z' where "r = Some (True, stk, ns', cs', z')" "r' = Some (True, stk, ns', cs', ())"
    "length stk \<le> unat (max_frames L) + 1" "stack_from frame_core linked (Some f) stk"
    using assms(1) by blast
  with call_stack_from [OF this(4,3) _ _ assms(3)] assms(2) show ?thesis by (simp add: call_stack_def)
qed

text \<open>The context frames are trusted, lie at the instruction pointer and have not been symbolized.\<close>

lemmas context_frame_defs = X86_GetContextFrame_def PPC_GetContextFrame_def PPC64_GetContextFrame_def
  AMD64_GetContextFrame_def SPARC_GetContextFrame_def MIPS_GetContextFrame_def ARM_GetContextFrame_def
  ARM64_GetContextFrame_def set_instruction_def StackFrameX86_def StackFrame_cpu_def StackFrame_def fresh_frame_def

lemma cpu_bits:
  assumes "ctx_valid D" and "GetContextCPU D = c" and "m AND MD_CONTEXT_CPU_MASK = m"
  shows "ctx_flags D AND m = c AND m"
proof -
  have "ctx_flags D AND m = (ctx_flags D AND MD_CONTEXT_CPU_MASK) AND m"
    using assms(3) by (metis and.assoc and.commute)
  then show ?thesis using assms(1,2) by (simp add: GetContextCPU_def)
qed

lemma mips_bits:
  assumes "ctx_valid D" and "context_flags c = ctx_flags D"
  shows "GetContextCPU D = MD_CONTEXT_MIPS \<Longrightarrow>
      context_flags c AND MD_CONTEXT_MIPS \<noteq> 0 \<and> context_flags c AND MD_CONTEXT_MIPS64 = 0"
    and "GetContextCPU D = MD_CONTEXT_MIPS64 \<Longrightarrow> context_flags c AND MD_CONTEXT_MIPS = 0"
  using cpu_bits [OF assms(1)] unfolding assms(2)
  by (simp_all add: MD_CONTEXT_MIPS_def MD_CONTEXT_MIPS64_def MD_CONTEXT_CPU_MASK_def)

lemma cpu_ready_walker:
  assumes "cpu_ready cpu fs alloc roots symbols W z"
  shows "ready basic_class basic_encodes basic_denotes fs alloc roots symbols W z"
    and "x86_ready fs alloc roots symbols W z" and "basic_ready TYPE(64) fs alloc roots symbols W z"
    and "cpu = MD_CONTEXT_ARM \<Longrightarrow> basic_ready TYPE(32) fs alloc roots symbols W z"
    and "context_flags c AND MD_CONTEXT_MIPS = 0 \<or> context_flags c AND MD_CONTEXT_MIPS64 = 0 \<Longrightarrow>
      mips_ready c fs alloc roots symbols W z"
proof -
  have "unat (GetBase mem) + unat (GetSize mem) \<le> 2 ^ 64" if "mem \<in> minidump_memories" for mem
    using minidump.region_end [OF that] by simp
  then show "ready basic_class basic_encodes basic_denotes fs alloc roots symbols W z"
    "x86_ready fs alloc roots symbols W z" "basic_ready TYPE(64) fs alloc roots symbols W z"
    "cpu = MD_CONTEXT_ARM \<Longrightarrow> basic_ready TYPE(32) fs alloc roots symbols W z"
    "context_flags c AND MD_CONTEXT_MIPS = 0 \<or> context_flags c AND MD_CONTEXT_MIPS64 = 0 \<Longrightarrow>
      mips_ready c fs alloc roots symbols W z"
    using assms by (auto simp: cpu_ready_def x86_ready_def basic_ready_def stack_ok_def mips_ready_def)
qed

text \<open>A walk that ends, with the same answer for a symbolizer without a history.\<close>

definition cpu_walk_ends ::
  "file_system \<Rightarrow> allocation \<Rightarrow> (CodeModule \<Rightarrow> sym_module option) \<Rightarrow> walk_limits \<Rightarrow> CodeModule list \<Rightarrow> CodeModule list \<Rightarrow>
     (sym_module, simple_supplier) symbolizer \<times> heap \<Rightarrow> cpu_stackwalker \<Rightarrow> uint64 \<Rightarrow> bool" where
  "cpu_walk_ends fs alloc symbols L ns cs z walker ip \<longleftrightarrow> (\<exists>stk ns' cs' z'.
     CPU_Walk (real_symbolizer basic_class (simple_class fs alloc)) L walker ns cs z = Some (True, stk, ns', cs', z') \<and>
     CPU_Walk (ideal_symbolizer symbols) L walker ns cs () = Some (True, stk, ns', cs', ()) \<and>
     call_stack_ok ip L stk)"

lemma context_frames:
  "\<exists>f. X86_GetContextFrame (Some c1) = Some f \<and> fresh_frame (Some f) \<and>
     trust f = FRAME_TRUST_CONTEXT \<and> instruction (frame_info (base_frame f)) = ucast (c1 EIP)"
  "\<exists>f. PPC_GetContextFrame (Some c2) = Some f \<and> fresh_frame (Some f) \<and>
     trust f = FRAME_TRUST_CONTEXT \<and> instruction (frame_info (base_frame f)) = ucast (srr0 c2)"
  "\<exists>f. PPC64_GetContextFrame (Some c3) = Some f \<and> fresh_frame (Some f) \<and>
     trust f = FRAME_TRUST_CONTEXT \<and> instruction (frame_info (base_frame f)) = srr0 c3"
  "\<exists>f. AMD64_GetContextFrame (Some c4) = Some f \<and> fresh_frame (Some f) \<and>
     trust f = FRAME_TRUST_CONTEXT \<and> instruction (frame_info (base_frame f)) = c4 RIP"
  "\<exists>f. SPARC_GetContextFrame (Some c5) = Some f \<and> fresh_frame (Some f) \<and>
     trust f = FRAME_TRUST_CONTEXT \<and> instruction (frame_info (base_frame f)) = sparc_pc c5"
  "\<exists>f. MIPS_GetContextFrame (Some c6) = Some f \<and> fresh_frame (Some f) \<and>
     trust f = FRAME_TRUST_CONTEXT \<and> instruction (frame_info (base_frame f)) = epc c6"
  "\<exists>f. ARM_GetContextFrame v7 (Some c7) = Some f \<and> fresh_frame (Some f) \<and>
     trust f = FRAME_TRUST_CONTEXT \<and> instruction (frame_info (base_frame f)) = ucast (c7 MD_CONTEXT_ARM_REG_PC)"
  "\<exists>f. ARM64_GetContextFrame v8 (Some c8) = Some f \<and> fresh_frame (Some f) \<and>
     trust f = FRAME_TRUST_CONTEXT \<and> instruction (frame_info (base_frame f)) = c8 MD_CONTEXT_ARM64_REG_PC"
  by (simp_all add: context_frame_defs)

lemma walker_ends:
  "x86_ready fs alloc roots symbols W z \<Longrightarrow>
     cpu_walk_ends fs alloc symbols L ns cs z (WalkerX86 (Some c1) (StackwalkerX86 W)) (ucast (c1 EIP))"
  "ready basic_class basic_encodes basic_denotes fs alloc roots symbols W z \<Longrightarrow>
     cpu_walk_ends fs alloc symbols L ns cs z (WalkerPPC (Some c2) (StackwalkerPPC W)) (ucast (srr0 c2))"
  "ready basic_class basic_encodes basic_denotes fs alloc roots symbols W z \<Longrightarrow>
     cpu_walk_ends fs alloc symbols L ns cs z (WalkerPPC64 (Some c3) W) (srr0 c3)"
  "basic_ready TYPE(64) fs alloc roots symbols W z \<Longrightarrow>
     cpu_walk_ends fs alloc symbols L ns cs z (WalkerAMD64 (Some c4) W) (c4 RIP)"
  "ready basic_class basic_encodes basic_denotes fs alloc roots symbols W z \<Longrightarrow>
     cpu_walk_ends fs alloc symbols L ns cs z (WalkerSPARC (Some c5) W) (sparc_pc c5)"
  "mips_ready c6 fs alloc roots symbols W z \<Longrightarrow>
     cpu_walk_ends fs alloc symbols L ns cs z (WalkerMIPS (Some c6) (mips_address_space c6 W)) (epc c6)"
  "basic_ready TYPE(32) fs alloc roots symbols W z \<Longrightarrow>
     cpu_walk_ends fs alloc symbols L ns cs z (WalkerARM fp_register (Some c7) W) (ucast (c7 MD_CONTEXT_ARM_REG_PC))"
  "basic_ready TYPE(64) fs alloc roots symbols W z \<Longrightarrow>
     cpu_walk_ends fs alloc symbols L ns cs z (WalkerARM64 (Some c8) W) (c8 MD_CONTEXT_ARM64_REG_PC)"
proof (goal_cases)
  case 1
  obtain f where f: "X86_GetContextFrame (Some c1) = Some f" "fresh_frame (Some f)"
    "trust f = FRAME_TRUST_CONTEXT \<and> instruction (frame_info (base_frame f)) = ucast (c1 EIP)"
    using context_frames(1) by blast
  from call_stack_of_walk [OF x86.Walk_ends [OF 1 f(2)] f(3) linked_by_trusted] show ?case
    by (simp add: cpu_walk_ends_def f(1))
next
  case 2
  obtain f where f: "PPC_GetContextFrame (Some c2) = Some f" "fresh_frame (Some f)"
    "trust f = FRAME_TRUST_CONTEXT \<and> instruction (frame_info (base_frame f)) = ucast (srr0 c2)"
    using context_frames(2) by blast
  from 2 have "ready basic_class basic_encodes basic_denotes fs alloc roots symbols (StackwalkerPPC W) z"
    by (simp add: StackwalkerPPC_def)
  from call_stack_of_walk [OF ppc.Walk_ends [OF this f(2)] f(3) linked_by_trusted] show ?case
    by (simp add: cpu_walk_ends_def f(1) PPC_GetCallerFrame_def)
next
  case 3
  obtain f where f: "PPC64_GetContextFrame (Some c3) = Some f" "fresh_frame (Some f)"
    "trust f = FRAME_TRUST_CONTEXT \<and> instruction (frame_info (base_frame f)) = srr0 c3"
    using context_frames(3) by blast
  from call_stack_of_walk [OF ppc64.Walk_ends [OF 3 f(2)] f(3) linked_by_trusted] show ?case
    by (simp add: cpu_walk_ends_def f(1) PPC64_GetCallerFrame_def)
next
  case 4
  obtain f where f: "AMD64_GetContextFrame (Some c4) = Some f" "fresh_frame (Some f)"
    "trust f = FRAME_TRUST_CONTEXT \<and> instruction (frame_info (base_frame f)) = c4 RIP"
    using context_frames(4) by blast
  from call_stack_of_walk [OF amd64.Walk_ends [OF 4 f(2)] f(3) linked_by_trusted] show ?case
    by (simp add: cpu_walk_ends_def f(1))
next
  case 5
  obtain f where f: "SPARC_GetContextFrame (Some c5) = Some f" "fresh_frame (Some f)"
    "trust f = FRAME_TRUST_CONTEXT \<and> instruction (frame_info (base_frame f)) = sparc_pc c5"
    using context_frames(5) by blast
  from call_stack_of_walk [OF sparc.Walk_ends [OF 5 f(2)] f(3) sparc_linked_trusted] show ?case
    by (simp add: cpu_walk_ends_def f(1) SPARC_GetCallerFrame_def)
next
  case 6
  obtain f where f: "MIPS_GetContextFrame (Some c6) = Some f" "fresh_frame (Some f)"
    "trust f = FRAME_TRUST_CONTEXT \<and> instruction (frame_info (base_frame f)) = epc c6"
    using context_frames(6) by blast
  from call_stack_of_walk [OF mips.Walk_ends [OF 6 f(2)] f(3) linked_by_trusted] show ?case
    by (simp add: cpu_walk_ends_def f(1))
next
  case 7
  obtain f where f: "ARM_GetContextFrame (- 1) (Some c7) = Some f" "fresh_frame (Some f)"
    "trust f = FRAME_TRUST_CONTEXT \<and> instruction (frame_info (base_frame f)) = ucast (c7 MD_CONTEXT_ARM_REG_PC)"
    using context_frames(7) by blast
  from call_stack_of_walk [OF arm.Walk_ends [OF 7 f(2)] f(3) linked_by_trusted] show ?case
    by (simp add: cpu_walk_ends_def f(1))
next
  case 8
  obtain f where f: "ARM64_GetContextFrame (- 1) (Some c8) = Some f" "fresh_frame (Some f)"
    "trust f = FRAME_TRUST_CONTEXT \<and> instruction (frame_info (base_frame f)) = c8 MD_CONTEXT_ARM64_REG_PC"
    using context_frames(8) by blast
  from call_stack_of_walk [OF arm64.Walk_ends [OF 8 f(2)] f(3) linked_by_trusted] show ?case
    by (simp add: cpu_walk_ends_def f(1))
qed

text \<open>C1: For a well-typed context of any of the nine CPUs \<open>StackwalkerForCPU\<close> makes a walker, without
  undefined behaviour, and its walk ends: the call stack has at most one frame more than the limit,
  begins at the instruction pointer of the context with a frame trusted as such, and every further
  frame says how it was found. The result does not depend on the history of the symbolizer.\<close>

theorem StackwalkerForCPU_walks:
  assumes "well_typed D" and "GetContextCPU D \<in> set known_cpus"
    and "cpu_ready (GetContextCPU D) fs alloc roots symbols W z"
  shows "\<exists>walker ip stk ns' cs' z'. StackwalkerForCPU W (Some D) = Some (Some walker) \<and>
    GetInstructionPointer D = Some (Some ip) \<and>
    CPU_Walk (real_symbolizer basic_class (simple_class fs alloc)) L walker ns cs z = Some (True, stk, ns', cs', z') \<and>
    CPU_Walk (ideal_symbolizer symbols) L walker ns cs () = Some (True, stk, ns', cs', ()) \<and>
    length stk \<le> unat (max_frames L) + 1 \<and>
    (\<exists>f rest. stk = f # rest \<and> trust f = FRAME_TRUST_CONTEXT \<and> instruction (frame_info (base_frame f)) = ip \<and>
       (\<forall>g \<in> set rest. FRAME_TRUST_NONE < trust g \<and> trust g < FRAME_TRUST_PREWALKED))"
proof -
  have valid: "ctx_valid D" using assms(2) cpu_codes_distinct(2) by (auto simp: GetContextCPU_def split: if_splits)
  note choose = StackwalkerForCPU_def GetInstructionPointer_def context_accessors Let_def valid cpu_codes StackwalkerMIPS_def
  note ready = cpu_ready_walker [OF assms(3)]
  have "\<exists>walker ip. StackwalkerForCPU W (Some D) = Some (Some walker) \<and> GetInstructionPointer D = Some (Some ip) \<and>
      cpu_walk_ends fs alloc symbols L ns cs z walker ip"
    using assms(1,2)
  proof (cases rule: well_typed_cases)
    case (X86 c)
    then show ?thesis using walker_ends(1) [OF ready(2), of L ns cs c] by (simp add: choose)
  next
    case (PPC c)
    then show ?thesis using walker_ends(2) [OF ready(1), of L ns cs c] by (simp add: choose)
  next
    case (PPC64 c)
    then show ?thesis using walker_ends(3) [OF ready(1), of L ns cs c] by (simp add: choose)
  next
    case (AMD64 c)
    then show ?thesis using walker_ends(4) [OF ready(3), of L ns cs c] by (simp add: choose)
  next
    case (SPARC c)
    then show ?thesis using walker_ends(5) [OF ready(1), of L ns cs c] by (simp add: choose)
  next
    case (ARM c)
    then show ?thesis using walker_ends(7) [OF ready(4), of L ns cs _ c] by (simp add: choose)
  next
    case (ARM64 c)
    then show ?thesis using walker_ends(8) [OF ready(3), of L ns cs c] by (simp add: choose)
  next
    case (MIPS c)
    then have "mips_ready c fs alloc roots symbols W z" using mips_bits(1) [OF valid] by (intro ready(5)) blast
    from walker_ends(6) [OF this, of L ns cs] MIPS show ?thesis by (simp add: choose)
  next
    case (MIPS64 c)
    then have "mips_ready c fs alloc roots symbols W z" using mips_bits(2) [OF valid] by (intro ready(5)) blast
    from walker_ends(6) [OF this, of L ns cs] MIPS64 show ?thesis by (simp add: choose)
  qed
  then show ?thesis unfolding cpu_walk_ends_def call_stack_ok_def by blast
qed

lemma example_cpu_ready:
  "cpu_ready MD_CONTEXT_X86 example_symbol_files example_alloc [''sym''] (\<lambda>_. Some example_module) example_walker
     example_state"
  using example_ready example_windows_safe example_stack_memory
  by (simp add: cpu_ready_def example_walker_def cpu_codes example_cfi_safe)

theorem StackwalkerForCPU_walks_witness:
  "\<exists>walker stk ns' cs' z'. StackwalkerForCPU example_walker (Some example_dump_context) = Some (Some walker) \<and>
    CPU_Walk (real_symbolizer basic_class (simple_class example_symbol_files example_alloc)) default_limits walker [] []
        example_state = Some (True, stk, ns', cs', z') \<and> stk \<noteq> []"
proof -
  have "GetContextCPU example_dump_context \<in> set known_cpus" by (simp add: example_dump_context_cpu known_cpus_def)
  from StackwalkerForCPU_walks [OF example_well_typed this, unfolded example_dump_context_cpu, OF example_cpu_ready,
      of default_limits "[]" "[]"]
  show ?thesis by blast
qed

end
