(* ===== verification/Minidump_Data.thy ===== *)
theory Minidump_Data
  imports Memory
begin

text \<open>
  The routines at the head of processor/minidump.cc: the swapping of integers and structures that
  were written in the other byte order, and the conversion of UTF-16 text to UTF-8.
\<close>

section \<open>Swapping\<close>

definition Swap16 :: "uint16 \<Rightarrow> uint16" where
  "Swap16 v = drop_bit 8 v OR push_bit 8 v"

definition Swap32 :: "uint32 \<Rightarrow> uint32" where
  "Swap32 v = drop_bit 24 v OR (drop_bit 8 v AND 0x0000ff00) OR (push_bit 8 v AND 0x00ff0000) OR push_bit 24 v"

text \<open>The two halves as the host stores them, the lower one first, swapped and exchanged.\<close>

definition Swap64 :: "uint64 \<Rightarrow> uint64" where
  "Swap64 v =
     (let half0 = Swap32 (ucast v); half1 = Swap32 (ucast (drop_bit 32 v)) in
      push_bit 32 (ucast half0) OR ucast half1)"

text \<open>
  A structure is read as bytes and its fields are swapped one by one. \<open>swap_fields\<close> does that for
  a structure that is given by the widths of its fields; a field that is not swapped counts as
  fields of one byte.
\<close>

fun swap_fields :: "nat list \<Rightarrow> bytes \<Rightarrow> bytes" where
  "swap_fields [] bs = bs"
| "swap_fields (n # ns) bs = rev (take n bs) @ swap_fields ns (drop n bs)"

text \<open>The 16 bytes of a \<open>uint128_struct\<close>, the field \<open>high\<close> before the field \<open>low\<close>.\<close>

definition Normalize128 :: "bool \<Rightarrow> bytes \<Rightarrow> bytes" where
  "Normalize128 is_big_endian bs = (if \<not> is_big_endian then drop 8 bs @ take 8 bs else bs)"

text \<open>The field of a structure at an offset.\<close>

definition load_field :: "nat \<Rightarrow> bytes \<Rightarrow> 'w::len word" where
  "load_field offset bs = word_of_nat (of_le_bytes (take (LENGTH('w) div 8) (drop offset bs)))"

section \<open>Swapping reverses bytes\<close>

lemma le_bytes_map: "le_bytes n v = map (\<lambda>i. word_of_nat (v div 256 ^ i)) [0..<n]"
proof (induction n v rule: le_bytes.induct)
  case (2 n v)
  have "map (\<lambda>i. word_of_nat (v div 256 ^ i)) [0..<Suc n] =
      word_of_nat v # map (\<lambda>i. word_of_nat (v div 256 ^ Suc i) :: uint8) [0..<n]"
    by (simp only: upt_conv_Cons [of 0 "Suc n"] zero_less_Suc list.map map_Suc_upt [symmetric] map_map)
      (simp add: comp_def)
  with 2 show ?case by (simp add: div_mult2_eq)
qed simp

lemma byte_of_word:
  "(word_of_nat (unat (w :: 'a::len word) div 256 ^ i) :: uint8) = ucast (drop_bit (8 * i) w)"
proof -
  have "unat (drop_bit (8 * i) w) = drop_bit (8 * i) (unat w)" by (rule unat_drop_bit_eq)
  then have "unat (drop_bit (8 * i) w) = unat w div 256 ^ i" by (simp only: drop_bit_eq_div power_mult) simp
  then show ?thesis by (metis of_nat_unat)
qed

lemma word_bytes_map:
  "word_bytes (w :: 'a::len word) = map (\<lambda>i. ucast (drop_bit (8 * i) w)) [0..<LENGTH('a) div 8]"
  by (simp add: word_bytes_def le_bytes_map byte_of_word)

lemma bytes_upt: "[0..<2] = [0, Suc 0]" "[0..<4] = [0, Suc 0, 2, 3]" "[0..<8] = [0, Suc 0, 2, 3, 4, 5, 6, 7]"
  by (simp_all add: upt_rec)

lemma byte_masks: "0x0000ff00 = (push_bit 8 (mask 8) :: uint32)" "0x00ff0000 = (push_bit 16 (mask 8) :: uint32)"
  by (simp_all add: mask_eq_exp_minus_1 push_bit_eq_mult)

lemma bytes_Swap16: "word_bytes (Swap16 v) = rev (word_bytes v)"
  by (simp add: word_bytes_map bytes_upt Swap16_def)
    (intro conjI bit_word_eqI; auto simp: bit_simps)

lemma bytes_Swap32: "word_bytes (Swap32 v) = rev (word_bytes v)"
  unfolding Swap32_def byte_masks
  by (simp add: word_bytes_map bytes_upt del: push_bit_mask_eq)
    (intro conjI bit_word_eqI; auto simp: bit_simps)

lemma word_bytes_64: "word_bytes (v :: uint64) = word_bytes (ucast v :: uint32) @ word_bytes (ucast (drop_bit 32 v) :: uint32)"
  by (simp add: word_bytes_map bytes_upt) (intro conjI bit_word_eqI; auto simp: bit_simps add.commute)

lemma word_bytes_halves:
  "word_bytes (push_bit 32 (ucast (a :: uint32)) OR ucast (b :: uint32) :: uint64) = word_bytes b @ word_bytes a"
  by (simp add: word_bytes_map bytes_upt) (intro conjI bit_word_eqI; auto simp: bit_simps dest: bit_imp_le_length)

lemma bytes_Swap64: "word_bytes (Swap64 v) = rev (word_bytes v)"
  by (simp add: Swap64_def Let_def word_bytes_halves bytes_Swap32 word_bytes_64 [of v])

text \<open>Loading after reversing the bytes is swapping after loading.\<close>

lemma of_le_bytes_inject: "le_bytes (length bs) (of_le_bytes bs) = bs"
proof (induction bs)
  case (Cons b bs)
  have "(unat b + 256 * of_le_bytes bs) div 256 = of_le_bytes bs" using unsigned_less [of b, where 'a = nat] by simp
  moreover have "(256 :: uint8) = 0" by simp
  then have "word_of_nat (unat b + 256 * of_le_bytes bs) = b" by (simp only: of_nat_add of_nat_mult of_nat_numeral) simp
  ultimately show ?case using Cons by simp
qed simp

lemma of_le_bytes_less: "of_le_bytes bs < 256 ^ length bs"
proof (induction bs)
  case (Cons b bs)
  then show ?case using unsigned_less [of b, where 'a = nat] by simp
qed simp

lemma word_bytes_load:
  assumes "length bs = LENGTH('w) div 8" and "8 dvd LENGTH('w)"
  shows "word_bytes (word_of_nat (of_le_bytes bs) :: 'w::len word) = bs"
proof -
  have "256 ^ length bs = (2 :: nat) ^ (8 * length bs)" by (simp add: power_mult)
  also have "\<dots> = 2 ^ LENGTH('w)" using assms by simp
  finally have "256 ^ length bs = (2 :: nat) ^ LENGTH('w)" .
  then have "unat (word_of_nat (of_le_bytes bs) :: 'w word) = of_le_bytes bs"
    using of_le_bytes_less [of bs] by (simp add: unsigned_of_nat take_bit_nat_eq_self)
  then show ?thesis using assms(1) of_le_bytes_inject [of bs] by (simp add: word_bytes_def)
qed

lemma load_word_bytes:
  assumes "8 dvd LENGTH('w)"
  shows "word_of_nat (of_le_bytes (word_bytes w)) = (w :: 'w::len word)"
  using assms of_le_word_bytes [of w] by simp

lemma swap_load:
  fixes swap :: "'w::len word \<Rightarrow> 'w word"
  assumes swap: "\<And>v. word_bytes (swap v) = rev (word_bytes v)" and width: "8 dvd LENGTH('w)"
    and "length bs = LENGTH('w) div 8"
  shows "swap (word_of_nat (of_le_bytes bs)) = word_of_nat (of_le_bytes (rev bs))"
proof -
  have "word_bytes (swap (word_of_nat (of_le_bytes bs))) = rev bs"
    using swap word_bytes_load [OF assms(3) width] by simp
  then show ?thesis using load_word_bytes [OF width] by metis
qed

lemma swap_swap:
  fixes swap :: "'w::len word \<Rightarrow> 'w word"
  assumes swap: "\<And>v. word_bytes (swap v) = rev (word_bytes v)" and width: "8 dvd LENGTH('w)"
  shows "swap (swap v) = v"
  using swap load_word_bytes [OF width] by (metis rev_rev_ident)

section \<open>UTF-16\<close>

text \<open>The bytes that are appended for a code point, None where it is out of range.\<close>

definition append_utf8 :: "uint32 \<Rightarrow> string option" where
  "append_utf8 unichar =
     (if unichar < 0x80 then Some [byte_char (ucast unichar)]
      else if unichar < 0x800 then Some
        [byte_char (0xc0 OR ucast (drop_bit 6 unichar)),
         byte_char (0x80 OR ucast (unichar AND 0x3f))]
      else if unichar < 0x10000 then Some
        [byte_char (0xe0 OR ucast (drop_bit 12 unichar)),
         byte_char (0x80 OR ucast (drop_bit 6 unichar AND 0x3f)),
         byte_char (0x80 OR ucast (unichar AND 0x3f))]
      else if unichar < 0x200000 then Some
        [byte_char (0xf0 OR ucast (drop_bit 18 unichar)),
         byte_char (0x80 OR ucast (drop_bit 12 unichar AND 0x3f)),
         byte_char (0x80 OR ucast (drop_bit 6 unichar AND 0x3f)),
         byte_char (0x80 OR ucast (unichar AND 0x3f))]
      else None)"

fun UTF16ToUTF8 :: "bool \<Rightarrow> uint16 list \<Rightarrow> string option" where
  "UTF16ToUTF8 swap [] = Some []"
| "UTF16ToUTF8 swap (w # ws) =
     (let in_word = if swap then Swap16 w else w in
      if 0xdc00 \<le> in_word \<and> in_word \<le> 0xdcff then None
      else if 0xd800 \<le> in_word \<and> in_word \<le> 0xdbff then
        (case ws of
           [] \<Rightarrow> None
         | low # ws \<Rightarrow>
             if low < 0xdc00 \<or> low > 0xdcff then None
             else
               let unichar = push_bit 10 (ucast in_word - 0xd7c0) OR ucast (low AND 0x03ff) in
               case append_utf8 unichar of
                 None \<Rightarrow> None
               | Some out \<Rightarrow> map_option (\<lambda>rest. out @ rest) (UTF16ToUTF8 swap ws))
      else
        (case append_utf8 (ucast in_word) of
           None \<Rightarrow> None
         | Some out \<Rightarrow> map_option (\<lambda>rest. out @ rest) (UTF16ToUTF8 swap ws)))"

fun UTF16codeunits :: "uint16 list \<Rightarrow> nat \<Rightarrow> nat" where
  "UTF16codeunits (w # ws) (Suc maxlen) = (if w \<noteq> 0 then Suc (UTF16codeunits ws maxlen) else 0)"
| "UTF16codeunits _ _ = 0"

text \<open>The result that the caller passed stays when the text cannot be converted.\<close>

definition ConvertUTF16BufferToUTF8String :: "uint16 list \<Rightarrow> nat \<Rightarrow> string \<Rightarrow> bool \<Rightarrow> string" where
  "ConvertUTF16BufferToUTF8String utf16_data max_length_in_bytes utf8_result swap =
     (let word_length = UTF16codeunits utf16_data (max_length_in_bytes div 2) in
      if word_length > 0 then
        (case UTF16ToUTF8 swap (take word_length utf16_data) of
           None \<Rightarrow> utf8_result
         | Some temp \<Rightarrow> temp)
      else [])"

subsection \<open>The encodings\<close>

definition utf16_encode :: "nat \<Rightarrow> uint16 list" where
  "utf16_encode c =
     (if c < 0x10000 then [word_of_nat c]
      else [word_of_nat (0xd800 + (c - 0x10000) div 0x400), word_of_nat (0xdc00 + (c - 0x10000) mod 0x400)])"

definition utf8_encode :: "nat \<Rightarrow> string" where
  "utf8_encode c =
     map char_of
      (if c < 0x80 then [c]
       else if c < 0x800 then [0xc0 + c div 0x40, 0x80 + c mod 0x40]
       else if c < 0x10000 then [0xe0 + c div 0x1000, 0x80 + c div 0x40 mod 0x40, 0x80 + c mod 0x40]
       else [0xf0 + c div 0x40000, 0x80 + c div 0x1000 mod 0x40, 0x80 + c div 0x40 mod 0x40, 0x80 + c mod 0x40])"

text \<open>
  The code points that the conversion takes. A surrogate is not a code point, yet those from 0xdd00
  are taken as one; beyond 0xffff only those are taken whose low surrogate is below 0xdd00.
\<close>

definition convertible :: "nat \<Rightarrow> bool" where
  "convertible c \<longleftrightarrow> c < 0xd800 \<or> 0xdd00 \<le> c \<and> c < 0x10000 \<or> 0x10000 \<le> c \<and> c < 0x110000 \<and> c mod 0x400 < 0x100"

lemma push_bit_or:
  assumes "b < (2 :: nat) ^ k"
  shows "push_bit k a OR b = 2 ^ k * a + b"
proof -
  have "push_bit k a OR b = push_bit k a + b"
  proof (intro disjunctive_add_eq_or [symmetric] bit_eqI)
    fix n
    have "bit b n \<Longrightarrow> n < k" using assms bit_take_bit_iff [of k b n] by (simp add: take_bit_nat_eq_self)
    then show "bit (push_bit k a AND b) n = bit 0 n" by (auto simp: bit_simps)
  qed
  then show ?thesis by (simp add: push_bit_eq_mult mult.commute)
qed

lemma unat_byte: "n < 256 \<Longrightarrow> unat (word_of_nat n :: uint8) = n"
  by (simp add: unsigned_of_nat take_bit_nat_eq_self)

lemma unat_uint16: "n < 65536 \<Longrightarrow> unat (word_of_nat n :: uint16) = n"
  by (simp add: unsigned_of_nat take_bit_nat_eq_self)

lemma unat_take_bit: "unat (take_bit k (w :: 'a::len word)) = unat w mod 2 ^ k"
  by (metis take_bit_eq_mod unsigned_take_bit_eq)

lemma byte_char_or:
  assumes "b < (2 :: nat) ^ k" and "k \<le> 8" and "a < 2 ^ (8 - k)"
  shows "byte_char (push_bit k (word_of_nat a) OR word_of_nat b) = char_of (2 ^ k * a + b)"
proof -
  have k: "2 ^ k * 2 ^ (8 - k) = (256 :: nat)" using assms(2) by (simp flip: power_add)
  have "2 ^ k * (a + 1) \<le> 2 ^ k * 2 ^ (8 - k)" using assms(3) by (intro mult_le_mono2) simp
  then have less: "2 ^ k * a + b < 256" using assms(1) k by simp
  have "push_bit k (word_of_nat a) = (word_of_nat (2 ^ k * a) :: uint8)" by (simp add: push_bit_eq_mult mult.commute)
  moreover have "unat (word_of_nat (2 ^ k * a) :: uint8) = 2 ^ k * a" using less by (intro unat_byte) simp
  ultimately have "unat (push_bit k (word_of_nat a) :: uint8) = push_bit k a"
    by (simp only: push_bit_eq_mult [of k a] mult.commute)
  moreover have "unat (word_of_nat b :: uint8) = b" using less by (intro unat_byte) simp
  ultimately have "unat (push_bit k (word_of_nat a) OR word_of_nat b :: uint8) = push_bit k a OR b"
    by (simp only: unsigned_or_eq)
  then show ?thesis using assms(1) by (simp add: byte_char_def push_bit_or)
qed

lemma append_utf8_encode:
  assumes "c < 0x110000"
  shows "append_utf8 (word_of_nat c) = Some (utf8_encode c)"
proof -
  have c: "unat (word_of_nat c :: uint32) = c" using assms by (simp add: unsigned_of_nat take_bit_nat_eq_self)
  have drop: "ucast (drop_bit k (word_of_nat c :: uint32)) = (word_of_nat (c div 2 ^ k) :: uint8)" for k
    by (metis c drop_bit_eq_div of_nat_unat unat_drop_bit_eq)
  have low: "ucast (w AND 0x3f :: uint32) = (word_of_nat (unat w mod 0x40) :: uint8)" for w :: uint32
  proof -
    have "w AND 0x3f = take_bit 6 w" by (simp add: take_bit_eq_mask mask_eq_exp_minus_1)
    moreover have "unat (take_bit 6 w) = unat w mod 0x40" by (simp add: take_bit_eq_mod unat_mod_distrib)
    ultimately show ?thesis by (metis of_nat_unat)
  qed
  have less: "word_of_nat c < (n :: uint32) \<longleftrightarrow> c < unat n" for n by (simp add: word_less_nat_alt c)
  have lead: "b < 32 \<Longrightarrow> byte_char (0xc0 OR word_of_nat b) = char_of (0xc0 + b)"
    "b < 16 \<Longrightarrow> byte_char (0xe0 OR word_of_nat b) = char_of (0xe0 + b)"
    "b < 8 \<Longrightarrow> byte_char (0xf0 OR word_of_nat b) = char_of (0xf0 + b)"
    "b < 64 \<Longrightarrow> byte_char (0x80 OR word_of_nat b) = char_of (0x80 + b)" for b
    using byte_char_or [of b 5 6] byte_char_or [of b 4 14] byte_char_or [of b 3 30] byte_char_or [of b 6 2]
    by simp_all
  have last: "byte_char (0x80 OR ucast (w AND 0x3f)) = char_of (0x80 + unat w mod 0x40)" for w :: uint32
    by (simp add: low lead)
  have plain: "c < 0x80 \<Longrightarrow> byte_char (ucast (word_of_nat c :: uint32)) = char_of c"
    using drop [of 0] unat_byte [of c] by (simp add: byte_char_def)
  have parts: "unat (drop_bit k (word_of_nat c :: uint32)) = c div 2 ^ k" for k
    by (metis c drop_bit_eq_div unat_drop_bit_eq)
  have "unat (0x80 :: uint32) = 0x80" "unat (0x800 :: uint32) = 0x800" "unat (0x10000 :: uint32) = 0x10000"
    "unat (0x200000 :: uint32) = 0x200000" by simp_all
  note bounds = this
  show ?thesis
    using assms unfolding append_utf8_def utf8_encode_def less bounds
    by (simp only: last drop parts c if_split option.inject not_less)
      (auto simp: plain lead not_less div_less_iff_less_mult)
qed


lemma utf16_step:
  assumes "convertible c"
  shows "UTF16ToUTF8 False (utf16_encode c @ ws) = map_option (\<lambda>rest. utf8_encode c @ rest) (UTF16ToUTF8 False ws)"
proof (cases "c < 0x10000")
  case True
  then have w: "unat (word_of_nat c :: uint16) = c" by (simp add: unsigned_of_nat take_bit_nat_eq_self)
  have wide: "(ucast (word_of_nat c :: uint16) :: uint32) = word_of_nat c" by (metis of_nat_unat w)
  show ?thesis
    using True assms append_utf8_encode [of c] by (auto simp: utf16_encode_def convertible_def word_le_nat_alt w wide)
next
  case False
  define k j where "k = (c - 0x10000) div 0x400" and "j = (c - 0x10000) mod 0x400"
  have "(c - 0x10000) div 0x400 * 0x400 + (c - 0x10000) mod 0x400 = c - 0x10000" by (rule div_mult_mod_eq)
  with False have c: "c = 0x10000 + k * 0x400 + j" unfolding k_def j_def by linarith
  have "j < 0x400" by (simp add: j_def)
  moreover have "c = j + (0x40 + k) * 0x400" by (simp add: c)
  ultimately have "c mod 0x400 = j" by (simp only: mod_mult_self1 mod_less)
  with False assms c have k: "k < 0x400" and j: "j < 0x100" by (auto simp: convertible_def)
  have hi: "unat (word_of_nat (0xd800 + k) :: uint16) = 0xd800 + k"
    and lo: "unat (word_of_nat (0xdc00 + j) :: uint16) = 0xdc00 + j"
    using k j unat_uint16 [of "0xd800 + k"] unat_uint16 [of "0xdc00 + j"] by (simp_all del: of_nat_add)
  have "(push_bit 10 (ucast (word_of_nat (0xd800 + k) :: uint16) - 0xd7c0) OR ucast ((word_of_nat (0xdc00 + j) :: uint16) AND 0x03ff) :: uint32)
      = word_of_nat c"
  proof -
    have "(ucast (word_of_nat (0xd800 + k) :: uint16) :: uint32) = word_of_nat (0xd7c0 + (0x40 + k))"
      using arg_cong [OF hi, of word_of_nat] by (simp only: of_nat_unat) simp
    then have high: "(ucast (word_of_nat (0xd800 + k) :: uint16) :: uint32) - 0xd7c0 = word_of_nat (0x40 + k)"
      by (simp only: of_nat_add of_nat_numeral) simp
    have "(word_of_nat (0xdc00 + j) :: uint16) AND 0x03ff = take_bit 10 (word_of_nat (0xdc00 + j))"
      by (simp add: take_bit_eq_mask mask_eq_exp_minus_1)
    moreover have "0xdc00 + j = j + 0x37 * 0x400" by simp
    then have "(0xdc00 + j) mod 0x400 = j" using j by (simp only: mod_mult_self1) simp
    then have "unat (take_bit 10 (word_of_nat (0xdc00 + j) :: uint16)) = j"
      by (simp add: unat_take_bit lo del: of_nat_add take_bit_of_nat)
    ultimately have low: "(ucast ((word_of_nat (0xdc00 + j) :: uint16) AND 0x03ff) :: uint32) = word_of_nat j"
      by (metis of_nat_unat)
    have "push_bit 10 (0x40 + k) OR j = c" using j push_bit_or [of j 10 "0x40 + k"] by (simp add: c)
    then show ?thesis
      unfolding high low by (metis of_nat_push_bit of_nat_or_eq)
  qed
  then show ?thesis
    using False assms append_utf8_encode [of c] k j
    by (simp add: utf16_encode_def k_def [symmetric] j_def [symmetric] convertible_def word_le_nat_alt word_less_nat_alt hi lo
        del: of_nat_add)
qed

lemma utf16_split:
  assumes "UTF16ToUTF8 False (w # ws) \<noteq> None"
  obtains c rest where "convertible c" and "w # ws = utf16_encode c @ rest"
proof (cases "0xd800 \<le> w \<and> w \<le> 0xdbff")
  case False
  then have "convertible (unat w)" "unat w < 0x10000"
    using assms unsigned_less [of w, where 'a = nat]
    by (auto simp: convertible_def word_le_nat_alt Let_def split: if_splits)
  then show ?thesis using that [of "unat w" ws] by (simp add: utf16_encode_def)
next
  case True
  then obtain low rest where ws: "ws = low # rest" and low: "0xdc00 \<le> low" "low \<le> 0xdcff"
    using assms by (auto simp: Let_def not_less split: if_splits list.splits)
  define k j where "k = unat w - 0xd800" and "j = unat low - 0xdc00"
  with True low have k: "unat w = 0xd800 + k" "k < 0x400" and j: "unat low = 0xdc00 + j" "j < 0x100"
    by (auto simp: word_le_nat_alt)
  let ?c = "0x10000 + (k * 0x400 + j)"
  have parts: "(?c - 0x10000) div 0x400 = k" "(?c - 0x10000) mod 0x400 = j" using j(2) by simp_all
  have "?c = j + (0x40 + k) * 0x400" by simp
  then have "?c mod 0x400 = j" using j(2) by (simp only: mod_mult_self1) simp
  then have c: "convertible ?c" using k(2) j(2) by (simp add: convertible_def)
  have "w = word_of_nat (0xd800 + k)" "low = word_of_nat (0xdc00 + j)"
    by (metis k(1) of_nat_unat unsigned_ucast_eq ucast_id, metis j(1) of_nat_unat ucast_id)
  then have "utf16_encode ?c = [w, low]" unfolding utf16_encode_def parts by simp
  then show ?thesis using that [OF c, of rest] ws by simp
qed

text \<open>
  What is converted exactly: the encodings of sequences of convertible characters. A surrogate from
  0xdd00 passes for a character, and a character whose low surrogate is above 0xdcff is refused.
\<close>

lemma UTF16ToUTF8_Some_iff:
  "UTF16ToUTF8 False ws = Some s \<longleftrightarrow>
     (\<exists>cs. list_all convertible cs \<and> ws = concat (map utf16_encode cs) \<and> s = concat (map utf8_encode cs))"
proof
  show "UTF16ToUTF8 False ws = Some s \<Longrightarrow>
      \<exists>cs. list_all convertible cs \<and> ws = concat (map utf16_encode cs) \<and> s = concat (map utf8_encode cs)"
  proof (induction ws arbitrary: s rule: length_induct)
    case (1 ws)
    show ?case
    proof (cases ws)
      case Nil
      with 1 show ?thesis by (intro exI [of _ "[]"]) simp
    next
      case (Cons w us)
      with 1 obtain c rest where c: "convertible c" and ws: "ws = utf16_encode c @ rest"
        by (metis option.distinct(1) utf16_split)
      then obtain s' where s': "UTF16ToUTF8 False rest = Some s'" "s = utf8_encode c @ s'"
        using 1(2) utf16_step [OF c, of rest] by auto
      have "length rest < length ws" by (simp add: ws utf16_encode_def)
      with 1(1) s'(1) obtain cs where "list_all convertible cs" "rest = concat (map utf16_encode cs)"
          "s' = concat (map utf8_encode cs)" by blast
      then show ?thesis using c ws s'(2) by (intro exI [of _ "c # cs"]) simp
    qed
  qed
  show "\<exists>cs. list_all convertible cs \<and> ws = concat (map utf16_encode cs) \<and> s = concat (map utf8_encode cs) \<Longrightarrow>
      UTF16ToUTF8 False ws = Some s"
  proof (elim exE conjE)
    fix cs
    show "list_all convertible cs \<Longrightarrow> ws = concat (map utf16_encode cs) \<Longrightarrow> s = concat (map utf8_encode cs) \<Longrightarrow>
        UTF16ToUTF8 False ws = Some s"
      by (induction cs arbitrary: ws s) (simp_all add: utf16_step)
  qed
qed

subsection \<open>Text\<close>






lemma Swap16_Swap16 [simp]: "Swap16 (Swap16 v) = v"
  by (rule swap_swap) (simp_all add: bytes_Swap16)





end
