(* ===== verification/Minidump_File.thy ===== *)
theory Minidump_File
  imports Minidump_Data Memory_Region Dump_Context Range_Map
begin

text \<open>
  The class \<open>Minidump\<close> of processor/minidump.cc: the file with its header, its directory of streams
  and the streams that have been read, and \<open>MinidumpSystemInfo\<close>, which the reading of other streams
  asks for. A file is the bytes that the file system has under its path; the stream that reads it
  has a position and, once a read came too short, a failure that no seek clears. A null pointer is
  None. Seeking past the end of a file succeeds, as it does for \<open>ifstream\<close>.
\<close>

section \<open>Structures\<close>

record location_descriptor =
  loc_size :: uint32
  loc_rva :: uint32

record raw_header =
  signature :: uint32
  version :: uint32
  stream_count :: uint32
  stream_directory_rva :: uint32
  checksum :: uint32
  time_date_stamp :: uint32
  flags :: uint64

record raw_directory =
  stream_type :: uint32
  location :: location_descriptor

text \<open>
  \<open>cpu\<close> is the union of CPU information, 24 bytes.
\<close>

record raw_system_info =
  processor_architecture :: uint16
  processor_level :: uint16
  processor_revision :: uint16
  number_of_processors :: uint8
  product_type :: uint8
  major_version :: uint32
  minor_version :: uint32
  build_number :: uint32
  platform_id :: uint32
  csd_version_rva :: uint32
  suite_mask :: uint16
  cpu_information :: bytes

text \<open>What \<open>Swap\<close> of a field does in a file of the other byte order.\<close>

definition swap_if16 :: "bool \<Rightarrow> uint16 \<Rightarrow> uint16" where "swap_if16 sw v = (if sw then Swap16 v else v)"
definition swap_if32 :: "bool \<Rightarrow> uint32 \<Rightarrow> uint32" where "swap_if32 sw v = (if sw then Swap32 v else v)"
definition swap_if64 :: "bool \<Rightarrow> uint64 \<Rightarrow> uint64" where "swap_if64 sw v = (if sw then Swap64 v else v)"

definition raw_location :: "bool \<Rightarrow> nat \<Rightarrow> bytes \<Rightarrow> location_descriptor" where
  "raw_location sw offset bs =
     \<lparr>loc_size = swap_if32 sw (load_field offset bs), loc_rva = swap_if32 sw (load_field (offset + 4) bs)\<rparr>"

definition raw_memory_descriptor :: "bool \<Rightarrow> nat \<Rightarrow> bytes \<Rightarrow> memory_descriptor" where
  "raw_memory_descriptor sw offset bs =
     \<lparr>start_of_memory_range = swap_if64 sw (load_field offset bs),
      data_size = swap_if32 sw (load_field (offset + 8) bs), rva = swap_if32 sw (load_field (offset + 12) bs)\<rparr>"

definition read_header :: "bool \<Rightarrow> bytes \<Rightarrow> raw_header" where
  "read_header sw bs =
     \<lparr>signature = swap_if32 sw (load_field 0 bs), version = swap_if32 sw (load_field 4 bs),
      stream_count = swap_if32 sw (load_field 8 bs), stream_directory_rva = swap_if32 sw (load_field 12 bs),
      checksum = swap_if32 sw (load_field 16 bs), time_date_stamp = swap_if32 sw (load_field 20 bs),
      flags = swap_if64 sw (load_field 24 bs)\<rparr>"

definition read_directory_entry :: "bool \<Rightarrow> bytes \<Rightarrow> raw_directory" where
  "read_directory_entry sw bs =
     \<lparr>stream_type = swap_if32 sw (load_field 0 bs), location = raw_location sw 4 bs\<rparr>"

definition MD_HEADER_SIGNATURE :: uint32 where "MD_HEADER_SIGNATURE = 0x504d444d"
definition MD_HEADER_VERSION :: uint32 where "MD_HEADER_VERSION = 0x0000a793"

definition MD_THREAD_LIST_STREAM :: uint32 where "MD_THREAD_LIST_STREAM = 3"
definition MD_MODULE_LIST_STREAM :: uint32 where "MD_MODULE_LIST_STREAM = 4"
definition MD_MEMORY_LIST_STREAM :: uint32 where "MD_MEMORY_LIST_STREAM = 5"
definition MD_EXCEPTION_STREAM :: uint32 where "MD_EXCEPTION_STREAM = 6"
definition MD_SYSTEM_INFO_STREAM :: uint32 where "MD_SYSTEM_INFO_STREAM = 7"
definition MD_MISC_INFO_STREAM :: uint32 where "MD_MISC_INFO_STREAM = 15"
definition MD_BREAKPAD_INFO_STREAM :: uint32 where "MD_BREAKPAD_INFO_STREAM = 0x47670001"

section \<open>The objects of the streams\<close>

record system_info =
  sys_valid :: bool
  sys_raw :: raw_system_info
  csd_version :: "string option"
  cpu_vendor :: "string option"

text \<open>\<open>MinidumpThread\<close> and \<open>MinidumpThreadList\<close>.\<close>

record raw_thread =
  thread_id :: uint32
  suspend_count :: uint32
  priority_class :: uint32
  priority :: uint32
  teb :: uint64
  stack_descriptor :: memory_descriptor
  thread_context :: location_descriptor

record minidump_thread =
  thr_valid :: bool
  thr_raw :: raw_thread
  thr_memory :: "minidump_region option"
  thr_context :: "dump_context option"

record thread_list =
  thrl_valid :: bool
  id_to_thread_map :: "uint32 \<rightharpoonup> nat"
  thrl_threads :: "minidump_thread list"
  thread_count :: uint32

text \<open>\<open>MinidumpMemoryList\<close>.\<close>

record memory_list =
  meml_valid :: bool
  meml_range_map :: "(uint64, nat) range_map"
  meml_regions :: "minidump_region list"
  region_count :: uint32

text \<open>\<open>MinidumpException\<close>; the streams of other kinds have no object here.\<close>

record raw_exception =
  exc_thread_id :: uint32
  exception_code :: uint32
  exception_flags :: uint32
  exception_record :: uint64
  exception_address :: uint64
  number_parameters :: uint32
  exception_information :: "uint64 list"
  exc_thread_context :: location_descriptor

record minidump_exception =
  exc_valid :: bool
  exc_raw :: raw_exception
  exc_context :: "dump_context option"

datatype dump_stream =
  SystemInfoStream system_info
| ThreadListStream thread_list
| MemoryListStream memory_list
| ExceptionStream minidump_exception

section \<open>The file\<close>

record istream =
  in_bytes :: bytes
  in_pos :: nat
  in_failed :: bool

definition stream_read :: "nat \<Rightarrow> istream \<Rightarrow> bytes \<times> istream" where
  "stream_read count s =
     (if in_failed s then ([], s)
      else
        let bs = take count (drop (in_pos s) (in_bytes s)) in
        (bs, s\<lparr>in_pos := in_pos s + length bs, in_failed := length bs < count\<rparr>))"

definition stream_seek :: "int \<Rightarrow> istream \<Rightarrow> istream" where
  "stream_seek offset s =
     (if in_failed s \<or> offset < 0 then s\<lparr>in_failed := True\<rparr> else s\<lparr>in_pos := nat offset\<rparr>)"

definition stream_tell :: "istream \<Rightarrow> int" where
  "stream_tell s = (if in_failed s then - 1 else int (in_pos s))"

record stream_info =
  stream_index :: nat
  info_stream :: "dump_stream option"

record dump_file =
  header_data :: raw_header
  directory :: "raw_directory list"
  stream_map :: "uint32 \<rightharpoonup> stream_info"
  dump_path :: string
  dump_stream :: "istream option"
  swap_bytes :: bool
  dump_valid :: bool

definition max_streams :: uint32 where "max_streams = 128"
definition max_string_length :: uint32 where "max_string_length = 1024"

definition empty_header :: raw_header where
  "empty_header = \<lparr>signature = 0, version = 0, stream_count = 0, stream_directory_rva = 0, checksum = 0,
     time_date_stamp = 0, flags = 0\<rparr>"

text \<open>The two constructors.\<close>

definition Minidump :: "string \<Rightarrow> dump_file" where
  "Minidump path = \<lparr>header_data = empty_header, directory = [], stream_map = Map.empty, dump_path = path,
     dump_stream = None, swap_bytes = False, dump_valid = False\<rparr>"

definition Minidump_of_stream :: "istream \<Rightarrow> dump_file" where
  "Minidump_of_stream s = \<lparr>header_data = empty_header, directory = [], stream_map = Map.empty, dump_path = [],
     dump_stream = Some s, swap_bytes = False, dump_valid = False\<rparr>"

definition must_swap :: "dump_file \<Rightarrow> bool" where
  "must_swap M = (if dump_valid M then swap_bytes M else False)"

definition ReadBytes :: "nat \<Rightarrow> dump_file \<Rightarrow> bytes option \<times> dump_file" where
  "ReadBytes count M =
     (case dump_stream M of
        None \<Rightarrow> (None, M)
      | Some s \<Rightarrow>
          (case stream_read count s of (bs, s) \<Rightarrow>
             (if length bs \<noteq> count then None else Some bs, M\<lparr>dump_stream := Some s\<rparr>)))"

definition SeekSet :: "int \<Rightarrow> dump_file \<Rightarrow> bool \<times> dump_file" where
  "SeekSet offset M =
     (case dump_stream M of
        None \<Rightarrow> (False, M)
      | Some s \<Rightarrow> let s = stream_seek offset s in (\<not> in_failed s, M\<lparr>dump_stream := Some s\<rparr>))"

definition Tell :: "dump_file \<Rightarrow> int" where
  "Tell M = (if \<not> dump_valid M then - 1 else case dump_stream M of None \<Rightarrow> - 1 | Some s \<Rightarrow> stream_tell s)"

text \<open>A file that cannot be opened leaves a stream that has failed.\<close>

definition Open_file :: "(string \<Rightarrow> bytes option) \<Rightarrow> dump_file \<Rightarrow> bool \<times> dump_file" where
  "Open_file filesys M =
     (if dump_stream M \<noteq> None then SeekSet 0 M
      else
        (case filesys (dump_path M) of
           None \<Rightarrow> (False, M\<lparr>dump_stream := Some \<lparr>in_bytes = [], in_pos = 0, in_failed = True\<rparr>\<rparr>)
         | Some bs \<Rightarrow> (True, M\<lparr>dump_stream := Some \<lparr>in_bytes = bs, in_pos = 0, in_failed = False\<rparr>\<rparr>)))"

definition single_streams :: "uint32 list" where
  "single_streams = [MD_THREAD_LIST_STREAM, MD_MODULE_LIST_STREAM, MD_MEMORY_LIST_STREAM, MD_EXCEPTION_STREAM,
     MD_SYSTEM_INFO_STREAM, MD_MISC_INFO_STREAM, MD_BREAKPAD_INFO_STREAM]"

text \<open>The loop over the directory, which fails at the second stream of a type that must be unique.\<close>

fun index_streams :: "nat \<Rightarrow> raw_directory list \<Rightarrow> (uint32 \<rightharpoonup> stream_info) \<Rightarrow> bool \<times> (uint32 \<rightharpoonup> stream_info)" where
  "index_streams index [] m = (True, m)"
| "index_streams index (d # ds) m =
     (if stream_type d \<in> set single_streams \<and> m (stream_type d) \<noteq> None then (False, m)
      else
        index_streams (Suc index) ds
          (m(stream_type d \<mapsto>
             (case m (stream_type d) of
                None \<Rightarrow> \<lparr>stream_index = index, info_stream = None\<rparr>
              | Some info \<Rightarrow> info\<lparr>stream_index := index\<rparr>))))"

text \<open>An array of structures of \<open>n\<close> bytes each.\<close>

definition elements :: "nat \<Rightarrow> nat \<Rightarrow> bytes \<Rightarrow> bytes list" where
  "elements n count bs = map (\<lambda>i. take n (drop (i * n) bs)) [0..<count]"

definition Read_directory :: "dump_file \<Rightarrow> bool \<times> dump_file" where
  "Read_directory M =
     (let count = stream_count (header_data M) in
      if count \<noteq> 0 then
        (case ReadBytes (12 * unat count) M of
           (None, M) \<Rightarrow> (False, M)
         | (Some bs, M) \<Rightarrow>
             let entries = map (read_directory_entry (swap_bytes M)) (elements 12 (unat count) bs) in
             (case index_streams 0 entries (stream_map M) of
                (False, m) \<Rightarrow> (False, M\<lparr>stream_map := m\<rparr>)
              | (True, m) \<Rightarrow> (True, M\<lparr>stream_map := m, directory := entries, dump_valid := True\<rparr>)))
      else (True, M\<lparr>dump_valid := True\<rparr>))"

definition Read_dump :: "(string \<Rightarrow> bytes option) \<Rightarrow> dump_file \<Rightarrow> bool \<times> dump_file" where
  "Read_dump filesys M =
     (case Open_file filesys (M\<lparr>directory := [], stream_map := Map.empty, dump_valid := False\<rparr>) of
        (False, M) \<Rightarrow> (False, M)
      | (True, M) \<Rightarrow>
          (case ReadBytes 32 M of
             (None, M) \<Rightarrow> (False, M)
           | (Some bs, M) \<Rightarrow>
               let sig = signature (read_header False bs); M = M\<lparr>header_data := read_header False bs\<rparr> in
               if sig \<noteq> MD_HEADER_SIGNATURE \<and> Swap32 sig \<noteq> MD_HEADER_SIGNATURE then (False, M)
               else
                 let sw = sig \<noteq> MD_HEADER_SIGNATURE; header = read_header sw bs;
                     M = M\<lparr>swap_bytes := sw, header_data := header\<rparr> in
                 if version header AND 0x0000ffff \<noteq> MD_HEADER_VERSION then (False, M)
                 else
                   (case SeekSet (uint (stream_directory_rva header)) M of
                      (False, M) \<Rightarrow> (False, M)
                    | (True, M) \<Rightarrow>
                        if stream_count header > max_streams then (False, M)
                        else Read_directory M)))"

definition GetDirectoryEntryAtIndex :: "nat \<Rightarrow> dump_file \<Rightarrow> raw_directory option" where
  "GetDirectoryEntryAtIndex index M =
     (if \<not> dump_valid M then None
      else if index \<ge> unat (stream_count (header_data M)) then None
      else Some (directory M ! index))"

definition ReadString :: "int \<Rightarrow> dump_file \<Rightarrow> string option \<times> dump_file" where
  "ReadString offset M =
     (if \<not> dump_valid M then (None, M)
      else
        (case SeekSet offset M of
           (False, M) \<Rightarrow> (None, M)
         | (True, M) \<Rightarrow>
             (case ReadBytes 4 M of
                (None, M) \<Rightarrow> (None, M)
              | (Some bs, M) \<Rightarrow>
                  let bytes = swap_if32 (swap_bytes M) (load_field 0 bs); words = bytes div 2 in
                  if bytes mod 2 \<noteq> 0 then (None, M)
                  else if words > max_string_length then (None, M)
                  else if words \<noteq> 0 then
                    (case ReadBytes (unat bytes) M of
                       (None, M) \<Rightarrow> (None, M)
                     | (Some bs, M) \<Rightarrow>
                         (UTF16ToUTF8 (swap_bytes M) (map (load_field 0) (elements 2 (unat words) bs)), M))
                  else (UTF16ToUTF8 (swap_bytes M) [], M))))"

definition SeekToStreamType :: "uint32 \<Rightarrow> dump_file \<Rightarrow> uint32 option \<times> dump_file" where
  "SeekToStreamType t M =
     (if \<not> dump_valid M then (None, M)
      else
        (case stream_map M t of
           None \<Rightarrow> (None, M)
         | Some info \<Rightarrow>
             if stream_index info \<ge> unat (stream_count (header_data M)) then (None, M)
             else
               let entry = directory M ! stream_index info in
               (case SeekSet (uint (loc_rva (location entry))) M of
                  (False, M) \<Rightarrow> (None, M)
                | (True, M) \<Rightarrow> (Some (loc_size (location entry)), M))))"

text \<open>
  The stream of a type, from the cache or read from the file; \<open>read\<close> is the constructor and \<open>Read\<close>
  of its class.
\<close>

definition GetStream ::
  "uint32 \<Rightarrow> (uint32 \<Rightarrow> dump_file \<Rightarrow> dump_stream option \<times> dump_file) \<Rightarrow> dump_file \<Rightarrow> dump_stream option \<times> dump_file" where
  "GetStream t read M =
     (if \<not> dump_valid M then (None, M)
      else
        (case stream_map M t of
           None \<Rightarrow> (None, M)
         | Some info \<Rightarrow>
             (case info_stream info of
                Some found \<Rightarrow> (Some found, M)
              | None \<Rightarrow>
                  (case SeekToStreamType t M of
                     (None, M) \<Rightarrow> (None, M)
                   | (Some stream_length, M) \<Rightarrow>
                       (case read stream_length M of
                          (None, M) \<Rightarrow> (None, M)
                        | (Some found, M) \<Rightarrow>
                            (Some found,
                             M\<lparr>stream_map := (stream_map M)(t \<mapsto> info\<lparr>info_stream := Some found\<rparr>)\<rparr>))))))"

section \<open>The system information\<close>

definition MD_CPU_ARCHITECTURE_X86 :: uint16 where "MD_CPU_ARCHITECTURE_X86 = 0"
definition MD_CPU_ARCHITECTURE_MIPS :: uint16 where "MD_CPU_ARCHITECTURE_MIPS = 1"
definition MD_CPU_ARCHITECTURE_ALPHA :: uint16 where "MD_CPU_ARCHITECTURE_ALPHA = 2"
definition MD_CPU_ARCHITECTURE_PPC :: uint16 where "MD_CPU_ARCHITECTURE_PPC = 3"
definition MD_CPU_ARCHITECTURE_SHX :: uint16 where "MD_CPU_ARCHITECTURE_SHX = 4"
definition MD_CPU_ARCHITECTURE_ARM :: uint16 where "MD_CPU_ARCHITECTURE_ARM = 5"
definition MD_CPU_ARCHITECTURE_IA64 :: uint16 where "MD_CPU_ARCHITECTURE_IA64 = 6"
definition MD_CPU_ARCHITECTURE_AMD64 :: uint16 where "MD_CPU_ARCHITECTURE_AMD64 = 9"
definition MD_CPU_ARCHITECTURE_X86_WIN64 :: uint16 where "MD_CPU_ARCHITECTURE_X86_WIN64 = 10"
definition MD_CPU_ARCHITECTURE_SPARC :: uint16 where "MD_CPU_ARCHITECTURE_SPARC = 0x8001"
definition MD_CPU_ARCHITECTURE_PPC64 :: uint16 where "MD_CPU_ARCHITECTURE_PPC64 = 0x8002"
definition MD_CPU_ARCHITECTURE_ARM64 :: uint16 where "MD_CPU_ARCHITECTURE_ARM64 = 0x8003"
definition MD_CPU_ARCHITECTURE_MIPS64 :: uint16 where "MD_CPU_ARCHITECTURE_MIPS64 = 0x8004"

lemmas architecture_codes = MD_CPU_ARCHITECTURE_X86_def MD_CPU_ARCHITECTURE_MIPS_def MD_CPU_ARCHITECTURE_ALPHA_def
  MD_CPU_ARCHITECTURE_PPC_def MD_CPU_ARCHITECTURE_SHX_def MD_CPU_ARCHITECTURE_ARM_def MD_CPU_ARCHITECTURE_IA64_def
  MD_CPU_ARCHITECTURE_AMD64_def MD_CPU_ARCHITECTURE_X86_WIN64_def MD_CPU_ARCHITECTURE_SPARC_def
  MD_CPU_ARCHITECTURE_PPC64_def MD_CPU_ARCHITECTURE_ARM64_def MD_CPU_ARCHITECTURE_MIPS64_def

definition MD_CONTEXT_ALPHA :: uint32 where "MD_CONTEXT_ALPHA = 0x20000"
definition MD_CONTEXT_SHX :: uint32 where "MD_CONTEXT_SHX = 0xc0"
definition MD_CONTEXT_IA64 :: uint32 where "MD_CONTEXT_IA64 = 0x80000"

definition MD_OS_WIN32_WINDOWS :: uint32 where "MD_OS_WIN32_WINDOWS = 1"
definition MD_OS_WIN32_NT :: uint32 where "MD_OS_WIN32_NT = 2"
definition MD_OS_MAC_OS_X :: uint32 where "MD_OS_MAC_OS_X = 0x8101"
definition MD_OS_IOS :: uint32 where "MD_OS_IOS = 0x8102"
definition MD_OS_LINUX :: uint32 where "MD_OS_LINUX = 0x8201"
definition MD_OS_SOLARIS :: uint32 where "MD_OS_SOLARIS = 0x8202"
definition MD_OS_ANDROID :: uint32 where "MD_OS_ANDROID = 0x8203"
definition MD_OS_PS3 :: uint32 where "MD_OS_PS3 = 0x8204"
definition MD_OS_NACL :: uint32 where "MD_OS_NACL = 0x8205"

definition x86_architectures :: "uint16 list" where
  "x86_architectures = [MD_CPU_ARCHITECTURE_X86, MD_CPU_ARCHITECTURE_X86_WIN64]"

text \<open>The fields of the union of CPU information are four bytes each on x86, otherwise twice eight.\<close>

definition read_system_info :: "bool \<Rightarrow> bytes \<Rightarrow> raw_system_info" where
  "read_system_info sw bs =
     (let architecture = swap_if16 sw (load_field 0 bs); cpu = take 24 (drop 32 bs) in
      \<lparr>processor_architecture = architecture,
       processor_level = swap_if16 sw (load_field 2 bs), processor_revision = swap_if16 sw (load_field 4 bs),
       number_of_processors = load_field 6 bs, product_type = load_field 7 bs,
       major_version = swap_if32 sw (load_field 8 bs), minor_version = swap_if32 sw (load_field 12 bs),
       build_number = swap_if32 sw (load_field 16 bs), platform_id = swap_if32 sw (load_field 20 bs),
       csd_version_rva = swap_if32 sw (load_field 24 bs), suite_mask = swap_if16 sw (load_field 28 bs),
       cpu_information =
         (if \<not> sw then cpu
          else if architecture \<in> set x86_architectures then swap_fields (replicate 6 4) cpu
          else swap_fields [8, 8] cpu)\<rparr>)"

text \<open>\<open>MinidumpSystemInfo::Read\<close> on a new object.\<close>

definition Read_system_info :: "uint32 \<Rightarrow> dump_file \<Rightarrow> dump_stream option \<times> dump_file" where
  "Read_system_info expected_size M =
     (if expected_size \<noteq> 56 then (None, M)
      else
        (case ReadBytes 56 M of
           (None, M) \<Rightarrow> (None, M)
         | (Some bs, M) \<Rightarrow>
             (Some (SystemInfoStream
                \<lparr>sys_valid = True, sys_raw = read_system_info (must_swap M) bs, csd_version = None, cpu_vendor = None\<rparr>),
              M)))"

definition GetSystemInfo :: "dump_file \<Rightarrow> system_info option \<times> dump_file" where
  "GetSystemInfo M =
     (case GetStream MD_SYSTEM_INFO_STREAM Read_system_info M of
        (Some (SystemInfoStream S), M) \<Rightarrow> (Some S, M)
      | (_, M) \<Rightarrow> (None, M))"

text \<open>The accessor \<open>system_info\<close>.\<close>

definition system_info_of :: "system_info option \<Rightarrow> raw_system_info option" where
  "system_info_of S = (case S of None \<Rightarrow> None | Some S \<Rightarrow> if sys_valid S then Some (sys_raw S) else None)"

definition IsAndroid :: "dump_file \<Rightarrow> bool \<times> dump_file" where
  "IsAndroid M =
     (let saved_position = Tell M in
      if saved_position = - 1 then (False, M)
      else
        (case GetSystemInfo M of
           (S, M) \<Rightarrow>
             (case SeekSet saved_position M of
                (False, M) \<Rightarrow> (False, M)
              | (True, M) \<Rightarrow>
                  (case system_info_of S of None \<Rightarrow> False | Some raw \<Rightarrow> platform_id raw = MD_OS_ANDROID, M))))"

text \<open>The switch over the architectures.\<close>

definition architecture_flags :: "uint16 \<Rightarrow> uint32" where
  "architecture_flags a =
     (if a = MD_CPU_ARCHITECTURE_X86 then MD_CONTEXT_X86
      else if a = MD_CPU_ARCHITECTURE_MIPS then MD_CONTEXT_MIPS
      else if a = MD_CPU_ARCHITECTURE_MIPS64 then MD_CONTEXT_MIPS64
      else if a = MD_CPU_ARCHITECTURE_ALPHA then MD_CONTEXT_ALPHA
      else if a = MD_CPU_ARCHITECTURE_PPC then MD_CONTEXT_PPC
      else if a = MD_CPU_ARCHITECTURE_PPC64 then MD_CONTEXT_PPC64
      else if a = MD_CPU_ARCHITECTURE_SHX then MD_CONTEXT_SHX
      else if a = MD_CPU_ARCHITECTURE_ARM then MD_CONTEXT_ARM
      else if a = MD_CPU_ARCHITECTURE_ARM64 then MD_CONTEXT_ARM64
      else if a = MD_CPU_ARCHITECTURE_IA64 then MD_CONTEXT_IA64
      else if a = MD_CPU_ARCHITECTURE_AMD64 then MD_CONTEXT_AMD64
      else if a = MD_CPU_ARCHITECTURE_SPARC then MD_CONTEXT_SPARC
      else 0)"

text \<open>The result, the flags and the file.\<close>

definition GetContextCPUFlagsFromSystemInfo :: "dump_file \<Rightarrow> bool \<times> uint32 \<times> dump_file" where
  "GetContextCPUFlagsFromSystemInfo M =
     (let saved_position = Tell M in
      if saved_position = - 1 then (True, 0, M)
      else
        (case GetSystemInfo M of
           (S, M) \<Rightarrow>
             let cpu_flags =
               (case system_info_of S of
                  None \<Rightarrow> 0
                | Some raw \<Rightarrow> architecture_flags (processor_architecture raw)) in
             (case SeekSet saved_position M of (restored, M) \<Rightarrow> (restored, cpu_flags, M))))"

definition GetOS :: "system_info \<Rightarrow> string" where
  "GetOS S =
     (if \<not> sys_valid S then []
      else
        let p = platform_id (sys_raw S) in
        if p = MD_OS_WIN32_NT \<or> p = MD_OS_WIN32_WINDOWS then ''windows''
        else if p = MD_OS_MAC_OS_X then ''mac''
        else if p = MD_OS_IOS then ''ios''
        else if p = MD_OS_LINUX then ''linux''
        else if p = MD_OS_SOLARIS then ''solaris''
        else if p = MD_OS_ANDROID then ''android''
        else if p = MD_OS_PS3 then ''ps3''
        else if p = MD_OS_NACL then ''nacl''
        else [])"

definition GetCPU :: "system_info \<Rightarrow> string" where
  "GetCPU S =
     (if \<not> sys_valid S then []
      else
        let a = processor_architecture (sys_raw S) in
        if a \<in> set x86_architectures then ''x86''
        else if a = MD_CPU_ARCHITECTURE_AMD64 then ''x86-64''
        else if a = MD_CPU_ARCHITECTURE_PPC then ''ppc''
        else if a = MD_CPU_ARCHITECTURE_PPC64 then ''ppc64''
        else if a = MD_CPU_ARCHITECTURE_SPARC then ''sparc''
        else if a = MD_CPU_ARCHITECTURE_ARM then ''arm''
        else if a = MD_CPU_ARCHITECTURE_ARM64 then ''arm64''
        else [])"

definition GetCSDVersion :: "system_info \<Rightarrow> dump_file \<Rightarrow> string option \<times> system_info \<times> dump_file" where
  "GetCSDVersion S M =
     (if \<not> sys_valid S then (None, S, M)
      else if csd_version S \<noteq> None then (csd_version S, S, M)
      else
        (case ReadString (uint (csd_version_rva (sys_raw S))) M of
           (s, M) \<Rightarrow> (s, S\<lparr>csd_version := s\<rparr>, M)))"

text \<open>The vendor is the characters of the three words of \<open>vendor_id\<close>, printed up to a null character.\<close>

definition GetCPUVendor :: "system_info \<Rightarrow> string option \<times> system_info" where
  "GetCPUVendor S =
     (if \<not> sys_valid S then (None, S)
      else if cpu_vendor S = None \<and> processor_architecture (sys_raw S) \<in> set x86_architectures then
        let vendor = takeWhile (\<lambda>c. c \<noteq> CHR 0x00) (map byte_char (take 12 (cpu_information (sys_raw S)))) in
        (Some vendor, S\<lparr>cpu_vendor := Some vendor\<rparr>)
      else (cpu_vendor S, S))"

section \<open>Writing the structures\<close>

text \<open>The bytes of a field in a file of either byte order.\<close>

definition encode :: "bool \<Rightarrow> 'w::len word \<Rightarrow> bytes" where
  "encode sw w = (if sw then rev (word_bytes w) else word_bytes w)"

definition encode_location :: "bool \<Rightarrow> location_descriptor \<Rightarrow> bytes" where
  "encode_location sw l = encode sw (loc_size l) @ encode sw (loc_rva l)"

definition encode_header :: "bool \<Rightarrow> raw_header \<Rightarrow> bytes" where
  "encode_header sw h =
     encode sw (signature h) @ encode sw (version h) @ encode sw (stream_count h) @ encode sw (stream_directory_rva h) @
     encode sw (checksum h) @ encode sw (time_date_stamp h) @ encode sw (flags h)"

definition encode_entry :: "bool \<Rightarrow> raw_directory \<Rightarrow> bytes" where
  "encode_entry sw d = encode sw (stream_type d) @ encode_location sw (location d)"

lemma length_encode [simp]: "length (encode sw (w :: 'w::len word)) = LENGTH('w) div 8"
  by (simp add: encode_def)

lemma load_encode:
  fixes swp :: "'w::len word \<Rightarrow> 'w word"
  assumes "\<And>v. word_bytes (swp v) = rev (word_bytes v)" and "8 dvd LENGTH('w)"
  shows "(if sw then swp (word_of_nat (of_le_bytes (encode sw w))) else word_of_nat (of_le_bytes (encode sw w))) = w"
  using swap_load [of swp "rev (word_bytes w)", OF assms] load_word_bytes [OF assms(2), of w]
  by (simp add: encode_def)

lemma load_field_skip: "length xs \<le> offset \<Longrightarrow> load_field offset (xs @ ys) = load_field (offset - length xs) ys"
  by (simp add: load_field_def)

lemma load_field_front: "load_field 0 (encode sw (w :: 'w::len word) @ rest) = (word_of_nat (of_le_bytes (encode sw w)) :: 'w word)"
  by (simp add: load_field_def)

lemma swap_if_front:
  "swap_if16 sw (load_field 0 (encode sw w2 @ rest)) = w2"
  "swap_if32 sw (load_field 0 (encode sw w4 @ rest)) = w4"
  "swap_if64 sw (load_field 0 (encode sw w8 @ rest)) = w8"
  using load_encode [of Swap16 sw w2] load_encode [of Swap32 sw w4] load_encode [of Swap64 sw w8]
  by (simp_all add: swap_if16_def swap_if32_def swap_if64_def load_field_front bytes_Swap16 bytes_Swap32 bytes_Swap64)

lemmas decode_simps = load_field_skip swap_if_front swap_if_front [where rest = "[]", simplified]

lemma read_header_encode: "read_header sw (encode_header sw h) = h"
  by (simp add: read_header_def encode_header_def decode_simps)

lemma read_directory_entry_encode: "read_directory_entry sw (encode_entry sw d) = d"
  by (simp add: read_directory_entry_def encode_entry_def raw_location_def encode_location_def decode_simps)

lemma length_encode_header [simp]: "length (encode_header sw h) = 32"
  by (simp add: encode_header_def)

lemma length_encode_entry [simp]: "length (encode_entry sw d) = 12"
  by (simp add: encode_entry_def encode_location_def)

text \<open>The signature tells the byte order.\<close>

lemma read_header_sig:
  "signature (read_header False (encode_header sw h)) = (if sw then Swap32 (signature h) else signature h)"
proof (cases sw)
  case True
  have "load_field 0 (encode_header True h) = (word_of_nat (of_le_bytes (rev (word_bytes (signature h)))) :: uint32)"
    by (simp add: encode_header_def load_field_def encode_def)
  also have "\<dots> = Swap32 (signature h)"
    using swap_load [of Swap32 "word_bytes (signature h)"] load_word_bytes [of "signature h"] by (simp add: bytes_Swap32)
  finally show ?thesis using True by (simp add: read_header_def swap_if32_def)
next
  case False
  then show ?thesis using read_header_encode [of False h] by simp
qed

lemma elements_concat:
  "list_all (\<lambda>b. length b = n) bss \<Longrightarrow> elements n (length bss) (concat bss) = bss"
proof (induction bss)
  case (Cons b bss)
  have "elements n (Suc (length bss)) (b @ concat bss) = b # elements n (length bss) (concat bss)"
    using Cons by (simp add: elements_def map_upt_Suc del: upt_Suc)
  then show ?case using Cons by simp
qed (simp add: elements_def)

section \<open>Opening a dump\<close>

text \<open>The index: each type with its last stream in the directory.\<close>

definition indexed :: "raw_directory list \<Rightarrow> (uint32 \<rightharpoonup> stream_info) \<Rightarrow> bool" where
  "indexed ds m \<longleftrightarrow>
     (\<forall>t. case m t of
        None \<Rightarrow> t \<notin> stream_type ` set ds
      | Some info \<Rightarrow> info_stream info = None \<and> stream_index info < length ds \<and> stream_type (ds ! stream_index info) = t \<and>
          (\<forall>j. stream_index info < j \<and> j < length ds \<longrightarrow> stream_type (ds ! j) \<noteq> t))"

definition unique_streams :: "raw_directory list \<Rightarrow> bool" where
  "unique_streams ds \<longleftrightarrow> distinct (filter (\<lambda>t. t \<in> set single_streams) (map stream_type ds))"

lemma indexed_None: "indexed ds m \<Longrightarrow> m t = None \<longleftrightarrow> t \<notin> stream_type ` set ds"
  unfolding indexed_def by (drule spec [of _ t]) (auto split: option.splits)

lemma indexed_snoc:
  assumes "indexed ds m"
  shows "indexed (ds @ [d]) (m(stream_type d \<mapsto>
      (case m (stream_type d) of
         None \<Rightarrow> \<lparr>stream_index = length ds, info_stream = None\<rparr>
       | Some info \<Rightarrow> info\<lparr>stream_index := length ds\<rparr>)))"
  unfolding indexed_def
proof (intro allI)
  fix t
  have old: "case m t of
        None \<Rightarrow> t \<notin> stream_type ` set ds
      | Some info \<Rightarrow> info_stream info = None \<and> stream_index info < length ds \<and> stream_type (ds ! stream_index info) = t \<and>
          (\<forall>j. stream_index info < j \<and> j < length ds \<longrightarrow> stream_type (ds ! j) \<noteq> t)"
    using assms unfolding indexed_def by blast
  show "case (m(stream_type d \<mapsto> (case m (stream_type d) of
         None \<Rightarrow> \<lparr>stream_index = length ds, info_stream = None\<rparr>
       | Some info \<Rightarrow> info\<lparr>stream_index := length ds\<rparr>))) t of
        None \<Rightarrow> t \<notin> stream_type ` set (ds @ [d])
      | Some info \<Rightarrow> info_stream info = None \<and> stream_index info < length (ds @ [d]) \<and>
          stream_type ((ds @ [d]) ! stream_index info) = t \<and>
          (\<forall>j. stream_index info < j \<and> j < length (ds @ [d]) \<longrightarrow> stream_type ((ds @ [d]) ! j) \<noteq> t)"
  proof (cases "t = stream_type d")
    case True
    then show ?thesis using old by (cases "m t") auto
  next
    case False
    then show ?thesis using old by (cases "m t") (auto simp: nth_append less_Suc_eq)
  qed
qed

lemma index_streams_correct:
  "indexed pre m \<Longrightarrow> unique_streams pre \<Longrightarrow>
     (case index_streams (length pre) ds m of (ok, m') \<Rightarrow> ok = unique_streams (pre @ ds) \<and> (ok \<longrightarrow> indexed (pre @ ds) m'))"
proof (induction ds arbitrary: pre m)
  case (Cons d ds)
  let ?m = "m(stream_type d \<mapsto> (case m (stream_type d) of
         None \<Rightarrow> \<lparr>stream_index = length pre, info_stream = None\<rparr>
       | Some info \<Rightarrow> info\<lparr>stream_index := length pre\<rparr>))"
  show ?case
  proof (cases "stream_type d \<in> set single_streams \<and> m (stream_type d) \<noteq> None")
    case True
    then have "\<not> unique_streams (pre @ d # ds)"
      using indexed_None [OF Cons.prems(1), of "stream_type d"] by (auto simp: unique_streams_def)
    with True show ?thesis by simp
  next
    case False
    then have "unique_streams (pre @ [d])"
      using Cons.prems indexed_None [OF Cons.prems(1), of "stream_type d"] by (auto simp: unique_streams_def)
    then have "case index_streams (length (pre @ [d])) ds ?m of
        (ok, m') \<Rightarrow> ok = unique_streams ((pre @ [d]) @ ds) \<and> (ok \<longrightarrow> indexed ((pre @ [d]) @ ds) m')"
      using Cons.prems(1) by (intro Cons.IH indexed_snoc)
    moreover have "index_streams (length pre) (d # ds) m = index_streams (length (pre @ [d])) ds ?m" using False by auto
    ultimately show ?thesis by simp
  qed
qed simp

text \<open>A file that begins with a header and has a directory where the header says.\<close>

definition dump_image :: "bool \<Rightarrow> raw_header \<Rightarrow> raw_directory list \<Rightarrow> bytes \<Rightarrow> bool" where
  "dump_image sw h ds bs \<longleftrightarrow>
     take 32 bs = encode_header sw h \<and>
     take (12 * length ds) (drop (unat (stream_directory_rva h)) bs) = concat (map (encode_entry sw) ds) \<and>
     signature h = MD_HEADER_SIGNATURE \<and> version h AND 0x0000ffff = MD_HEADER_VERSION \<and>
     length ds = unat (stream_count h) \<and> stream_count h \<le> max_streams"

definition dump_open :: "dump_file \<Rightarrow> bool" where
  "dump_open M \<longleftrightarrow> dump_valid M \<and> length (directory M) = unat (stream_count (header_data M)) \<and>
     (\<forall>t info. stream_map M t = Some info \<longrightarrow>
        stream_index info < length (directory M) \<and> stream_type (directory M ! stream_index info) = t)"

lemma Read_directory_correct:
  assumes "dump_stream M = Some \<lparr>in_bytes = bs, in_pos = pos, in_failed = False\<rparr>"
    and "take (12 * length ds) (drop pos bs) = concat (map (encode_entry (swap_bytes M)) ds)"
    and "length ds = unat (stream_count (header_data M))" and "stream_map M = Map.empty" and "directory M = []"
  shows "case Read_directory M of (ok, M') \<Rightarrow> ok = unique_streams ds \<and> header_data M' = header_data M \<and>
      swap_bytes M' = swap_bytes M \<and> (ok \<longrightarrow> dump_valid M' \<and> directory M' = ds \<and> indexed ds (stream_map M') \<and>
        dump_stream M' = Some \<lparr>in_bytes = bs, in_pos = pos + 12 * length ds, in_failed = False\<rparr>)"
proof (cases "stream_count (header_data M) = 0")
  case True
  with assms show ?thesis by (simp add: Read_directory_def unique_streams_def indexed_def)
next
  case False
  have len: "length (concat (map (encode_entry (swap_bytes M)) ds)) = 12 * length ds"
    by (induction ds) simp_all
  then have read: "ReadBytes (12 * length ds) M =
      (Some (concat (map (encode_entry (swap_bytes M)) ds)),
       M\<lparr>dump_stream := Some \<lparr>in_bytes = bs, in_pos = pos + 12 * length ds, in_failed = False\<rparr>\<rparr>)"
    using assms(1,2) by (simp add: ReadBytes_def stream_read_def Let_def)
  have entries: "map (read_directory_entry (swap_bytes M))
      (elements 12 (length ds) (concat (map (encode_entry (swap_bytes M)) ds))) = ds"
    using elements_concat [of 12 "map (encode_entry (swap_bytes M)) ds"]
    by (simp add: list_all_iff read_directory_entry_encode comp_def)
  have "indexed [] Map.empty" "unique_streams []" by (simp_all add: indexed_def unique_streams_def)
  from index_streams_correct [OF this, of ds]
  show ?thesis
    using False assms read entries by (auto simp: Read_directory_def Let_def split: prod.splits bool.splits)
qed

lemma indexed_open:
  "dump_valid M \<Longrightarrow> indexed (directory M) (stream_map M) \<Longrightarrow> length (directory M) = unat (stream_count (header_data M)) \<Longrightarrow>
    dump_open M"
  by (auto simp: dump_open_def indexed_def split: option.splits)

lemma SeekToStreamType_indexed:
  assumes "dump_valid M" and "indexed (directory M) (stream_map M)"
    and "length (directory M) = unat (stream_count (header_data M))"
    and "dump_stream M = Some \<lparr>in_bytes = bs, in_pos = pos, in_failed = False\<rparr>"
  shows "case SeekToStreamType t M of
      (None, M') \<Rightarrow> M' = M \<and> t \<notin> stream_type ` set (directory M)
    | (Some n, M') \<Rightarrow> \<exists>i < length (directory M). stream_type (directory M ! i) = t \<and>
        n = loc_size (location (directory M ! i)) \<and>
        (\<forall>j. i < j \<and> j < length (directory M) \<longrightarrow> stream_type (directory M ! j) \<noteq> t) \<and>
        M' = M\<lparr>dump_stream := Some \<lparr>in_bytes = bs, in_pos = unat (loc_rva (location (directory M ! i))), in_failed = False\<rparr>\<rparr>"
proof (cases "stream_map M t")
  case None
  then show ?thesis using assms(1,2) indexed_None [of "directory M" "stream_map M" t] by (simp add: SeekToStreamType_def)
next
  case (Some info)
  then have "stream_index info < length (directory M)" "stream_type (directory M ! stream_index info) = t"
    "\<forall>j. stream_index info < j \<and> j < length (directory M) \<longrightarrow> stream_type (directory M ! j) \<noteq> t"
    using spec [OF assms(2) [unfolded indexed_def], of t] by simp_all
  then show ?thesis
    using Some assms(1,3,4)
    by (simp add: SeekToStreamType_def SeekSet_def stream_seek_def Let_def nat_uint_eq) blast
qed

text \<open>C18: A file that was written in either byte order opens exactly if no stream type that must be unique occurs
  twice in its directory. The dump then has the header and the directory that were written, swaps
  fields if the file was written in the other order, and seeking to a type of stream moves to the
  last stream of that type in the directory and gives its size.\<close>

theorem Read_dump_correct:
  assumes "filesys (dump_path M) = Some bs" and "dump_stream M = None" and "dump_image sw h ds bs"
  shows "case Read_dump filesys M of (ok, M') \<Rightarrow> ok = unique_streams ds \<and>
    (ok \<longrightarrow> dump_open M' \<and> header_data M' = h \<and> directory M' = ds \<and> must_swap M' = sw \<and>
       (\<forall>t. case SeekToStreamType t M' of
              (None, M'') \<Rightarrow> M'' = M' \<and> t \<notin> stream_type ` set ds
            | (Some n, M'') \<Rightarrow> \<exists>i < length ds. stream_type (ds ! i) = t \<and> n = loc_size (location (ds ! i)) \<and>
                (\<forall>j. i < j \<and> j < length ds \<longrightarrow> stream_type (ds ! j) \<noteq> t) \<and>
                M'' = M'\<lparr>dump_stream := Some \<lparr>in_bytes = bs, in_pos = unat (loc_rva (location (ds ! i))), in_failed = False\<rparr>\<rparr>))"
proof -
  let ?M = "M\<lparr>directory := [], stream_map := Map.empty, dump_valid := False, swap_bytes := sw, header_data := h,
      dump_stream := Some \<lparr>in_bytes = bs, in_pos = unat (stream_directory_rva h), in_failed = False\<rparr>\<rparr>"
  note image = assms(3) [unfolded dump_image_def]
  have bs: "bs = encode_header sw h @ drop 32 bs" using image by (metis append_take_drop_id)
  have sig: "signature (read_header False (take 32 bs)) = (if sw then Swap32 MD_HEADER_SIGNATURE else MD_HEADER_SIGNATURE)"
    using image read_header_sig [of sw h] by simp
  have swapped: "Swap32 MD_HEADER_SIGNATURE \<noteq> MD_HEADER_SIGNATURE" "Swap32 (Swap32 MD_HEADER_SIGNATURE) = MD_HEADER_SIGNATURE"
    by (simp_all add: swap_swap bytes_Swap32) (simp add: Swap32_def MD_HEADER_SIGNATURE_def)
  have "length (take 32 bs) = 32" "\<not> max_streams < stream_count h" using image by (simp_all add: not_less)
  then have "Read_dump filesys M = Read_directory ?M"
    using assms(1,2) image sig swapped read_header_encode [of sw h]
    by (cases sw) (simp_all add: Read_dump_def Open_file_def ReadBytes_def stream_read_def SeekSet_def stream_seek_def Let_def
      MD_HEADER_VERSION_def max_streams_def nat_uint_eq)
  moreover obtain ok M' where M': "Read_directory ?M = (ok, M')" by (cases "Read_directory ?M")
  ultimately have dump: "Read_dump filesys M = (ok, M')" by simp
  have "case Read_directory ?M of (ok, M') \<Rightarrow> ok = unique_streams ds \<and> header_data M' = header_data ?M \<and>
      swap_bytes M' = swap_bytes ?M \<and> (ok \<longrightarrow> dump_valid M' \<and> directory M' = ds \<and> indexed ds (stream_map M') \<and>
        dump_stream M' = Some \<lparr>in_bytes = bs, in_pos = unat (stream_directory_rva h) + 12 * length ds, in_failed = False\<rparr>)"
    using image by (intro Read_directory_correct) auto
  then have result: "ok = unique_streams ds" "header_data M' = h" "swap_bytes M' = sw"
    "ok \<Longrightarrow> dump_valid M' \<and> directory M' = ds \<and> indexed ds (stream_map M') \<and>
        dump_stream M' = Some \<lparr>in_bytes = bs, in_pos = unat (stream_directory_rva h) + 12 * length ds, in_failed = False\<rparr>"
    using M' by simp_all
  show ?thesis
  proof (cases ok)
    case True
    with result image have M: "dump_valid M'" "directory M' = ds" "indexed (directory M') (stream_map M')"
      "length (directory M') = unat (stream_count (header_data M'))"
      "dump_stream M' = Some \<lparr>in_bytes = bs, in_pos = unat (stream_directory_rva h) + 12 * length ds, in_failed = False\<rparr>"
      by simp_all
    have "dump_open M'" using M by (intro indexed_open)
    moreover note SeekToStreamType_indexed [OF M(1,3,4,5), unfolded M(2)]
    ultimately show ?thesis using dump M(1,2) result True by (simp add: must_swap_def)
  qed (use dump result in simp)
qed

definition example_header :: raw_header where
  "example_header = \<lparr>signature = MD_HEADER_SIGNATURE, version = 0x1a793, stream_count = 1, stream_directory_rva = 32,
     checksum = 0, time_date_stamp = 7, flags = 0\<rparr>"

definition example_entry :: raw_directory where
  "example_entry = \<lparr>stream_type = MD_SYSTEM_INFO_STREAM, location = \<lparr>loc_size = 56, loc_rva = 44\<rparr>\<rparr>"

text \<open>A dump with the system information of a Linux system on AMD64.\<close>

definition example_dump :: "bool \<Rightarrow> bytes" where
  "example_dump sw = encode_header sw example_header @ encode_entry sw example_entry @
     encode sw MD_CPU_ARCHITECTURE_AMD64 @ replicate 18 0 @ encode sw MD_OS_LINUX @ replicate 32 0"

lemma example_image: "dump_image sw example_header [example_entry] (example_dump sw)"
  by (simp add: dump_image_def example_dump_def) (simp add: example_header_def MD_HEADER_VERSION_def max_streams_def)

lemma example_unique: "unique_streams [example_entry]"
  by (simp add: unique_streams_def)

theorem Read_dump_correct_witness:
  "case Read_dump (\<lambda>_. Some (example_dump True)) (Minidump ''a.dmp'') of (ok, M') \<Rightarrow>
     ok \<and> header_data M' = example_header \<and> must_swap M'"
  using Read_dump_correct [of "\<lambda>_. Some (example_dump True)" "Minidump ''a.dmp''" "example_dump True" True example_header
      "[example_entry]"] example_image [of True] example_unique
  by (simp add: Minidump_def split: prod.splits)

section \<open>What reading leaves alone\<close>

definition stream_failed :: "dump_file \<Rightarrow> bool" where
  "stream_failed M \<longleftrightarrow> (case dump_stream M of None \<Rightarrow> True | Some s \<Rightarrow> in_failed s)"

definition same_entry :: "stream_info option \<Rightarrow> stream_info option \<Rightarrow> bool" where
  "same_entry a b \<longleftrightarrow>
     (case a of
        None \<Rightarrow> b = None
      | Some i \<Rightarrow> \<exists>j. b = Some j \<and> stream_index j = stream_index i \<and> (info_stream i \<noteq> None \<longrightarrow> info_stream j = info_stream i))"

text \<open>Later states of an open dump: the position moves, the cache grows, a failure stays.\<close>

definition dump_after :: "dump_file \<Rightarrow> dump_file \<Rightarrow> bool" where
  "dump_after M M' \<longleftrightarrow>
     header_data M' = header_data M \<and> directory M' = directory M \<and> dump_path M' = dump_path M \<and>
     swap_bytes M' = swap_bytes M \<and> dump_valid M' = dump_valid M \<and>
     map_option in_bytes (dump_stream M') = map_option in_bytes (dump_stream M) \<and>
     (stream_failed M \<longrightarrow> stream_failed M') \<and> (\<forall>t. same_entry (stream_map M t) (stream_map M' t))"

lemma same_entry_refl [simp]: "same_entry a a"
  by (simp add: same_entry_def split: option.split)

lemma dump_after_refl [simp]: "dump_after M M"
  by (simp add: dump_after_def)

lemma same_entry_trans: "same_entry a b \<Longrightarrow> same_entry b c \<Longrightarrow> same_entry a c"
  by (auto simp: same_entry_def split: option.splits)

lemma dump_after_trans: "dump_after M M' \<Longrightarrow> dump_after M' M'' \<Longrightarrow> dump_after M M''"
  unfolding dump_after_def using same_entry_trans by (intro conjI allI) (simp_all, metis)

lemma ReadBytes_after: "dump_after M (snd (ReadBytes n M))"
  by (simp add: ReadBytes_def dump_after_def stream_read_def stream_failed_def Let_def split: option.split prod.split)

lemma SeekSet_after: "dump_after M (snd (SeekSet n M))"
  by (simp add: SeekSet_def dump_after_def stream_seek_def stream_failed_def Let_def split: option.split)

lemma ReadBytes_fails: "stream_failed M \<Longrightarrow> n \<noteq> 0 \<Longrightarrow> fst (ReadBytes n M) = None"
  by (cases "dump_stream M") (simp_all add: ReadBytes_def stream_failed_def stream_read_def)

lemma SeekSet_fails: "stream_failed M \<Longrightarrow> \<not> fst (SeekSet n M)"
  by (cases "dump_stream M") (simp_all add: SeekSet_def stream_failed_def stream_seek_def Let_def)

lemma ReadBytes_None_failed: "ReadBytes n M = (None, M') \<Longrightarrow> stream_failed M'"
  by (auto simp: ReadBytes_def stream_failed_def stream_read_def Let_def split: option.splits if_splits prod.splits)

lemma ReadString_after: "dump_after M (snd (ReadString n M))"
proof -
  have "ReadBytes k M' = (r, M'') \<Longrightarrow> dump_after M' M''" for k M' r M'' using ReadBytes_after [of M' k] by simp
  moreover have "SeekSet k M' = (r, M'') \<Longrightarrow> dump_after M' M''" for k M' r M'' using SeekSet_after [of M' k] by simp
  ultimately show ?thesis
    by (auto simp: ReadString_def Let_def split: prod.split bool.split option.split) (blast intro: dump_after_trans)+
qed

lemma SeekToStreamType_after: "dump_after M (snd (SeekToStreamType t M))"
  using SeekSet_after [of M] by (auto simp: SeekToStreamType_def Let_def split: prod.split bool.split option.split) (metis snd_conv)+

lemma GetStream_after:
  assumes "\<And>n M. dump_after M (snd (read n M))"
  shows "dump_after M (snd (GetStream t read M))"
proof -
  have found: "dump_after M (M2\<lparr>stream_map := (stream_map M2)(t \<mapsto> info\<lparr>info_stream := Some strm\<rparr>)\<rparr>)"
    if "dump_after M M2" "stream_map M t = Some info" "info_stream info = None" for M2 info strm
    using that by (auto simp: dump_after_def same_entry_def stream_failed_def)
  have seek: "SeekToStreamType t M = (r, M1) \<Longrightarrow> dump_after M M1" for r M1 using SeekToStreamType_after [of M t] by simp
  have reads: "read n M1 = (r, M2) \<Longrightarrow> dump_after M1 M2" for n M1 r M2 using assms [of M1 n] by simp
  show ?thesis
    using seek reads found by (auto simp: GetStream_def split: option.split prod.split) (meson dump_after_trans)+
qed

lemma Read_system_info_after: "dump_after M (snd (Read_system_info n M))"
  using ReadBytes_after [of M 56] by (auto simp: Read_system_info_def split: prod.split option.split)

lemma GetSystemInfo_after: "dump_after M (snd (GetSystemInfo M))"
  using GetStream_after [of Read_system_info M MD_SYSTEM_INFO_STREAM] Read_system_info_after
  by (auto simp: GetSystemInfo_def split: prod.split option.split dump_stream.split)

lemma GetContextCPUFlagsFromSystemInfo_after:
  "dump_after M (snd (snd (GetContextCPUFlagsFromSystemInfo M)))"
proof -
  have "SeekSet n (snd (GetSystemInfo M)) = (r, M2) \<Longrightarrow> dump_after M M2" for n r M2
    using dump_after_trans [OF GetSystemInfo_after SeekSet_after, of M n] by simp
  then show ?thesis by (auto simp: GetContextCPUFlagsFromSystemInfo_def Let_def split: prod.split)
qed

lemma IsAndroid_after: "dump_after M (snd (IsAndroid M))"
proof -
  have "SeekSet n (snd (GetSystemInfo M)) = (r, M2) \<Longrightarrow> dump_after M M2" for n r M2
    using dump_after_trans [OF GetSystemInfo_after SeekSet_after, of M n] by simp
  then show ?thesis by (auto simp: IsAndroid_def Let_def split: prod.split bool.split)
qed

lemma same_entry_Some: "same_entry a (Some j) \<Longrightarrow> \<exists>i. a = Some i \<and> stream_index i = stream_index j"
  by (auto simp: same_entry_def split: option.splits)

lemma dump_open_entry: "dump_open M \<Longrightarrow> stream_map M t = Some i \<Longrightarrow>
    stream_index i < length (directory M) \<and> stream_type (directory M ! stream_index i) = t"
  unfolding dump_open_def by blast

lemma dump_after_entry: "dump_after M M' \<Longrightarrow> stream_map M' t = Some j \<Longrightarrow>
    \<exists>i. stream_map M t = Some i \<and> stream_index i = stream_index j"
  unfolding dump_after_def by (metis same_entry_Some)

lemma dump_after_open:
  assumes "dump_open M" and after: "dump_after M M'"
  shows "dump_open M'"
proof -
  have same: "directory M' = directory M" "header_data M' = header_data M" "dump_valid M' = dump_valid M"
    using after by (simp_all add: dump_after_def)
  have "stream_index info < length (directory M) \<and> stream_type (directory M ! stream_index info) = t"
    if "stream_map M' t = Some info" for t info
    using dump_after_entry [OF after that] dump_open_entry [OF assms(1), of t] by auto
  then show ?thesis using assms(1) by (simp add: dump_open_def same)
qed

text \<open>C24: A read that comes too short is final: in every later state of the dump seeking fails, so no string can be
  read, no stream can be found but those that are cached already, and the dump cannot be read again.\<close>

theorem failed_read_is_final:
  assumes "ReadBytes n M = (None, M1)" and "dump_after M1 M2"
  shows "\<not> fst (SeekSet offset M2) \<and> fst (ReadString offset M2) = None \<and> fst (SeekToStreamType t M2) = None \<and>
    (fst (GetStream t read M2) \<noteq> None \<longrightarrow> (\<exists>info. stream_map M2 t = Some info \<and> fst (GetStream t read M2) = info_stream info)) \<and>
    (dump_stream M2 \<noteq> None \<longrightarrow> \<not> fst (Read_dump filesys M2))"
proof -
  have failed: "stream_failed M2" using assms ReadBytes_None_failed by (auto simp: dump_after_def)
  then have seek: "SeekSet k M2 = (r, M3) \<Longrightarrow> \<not> r" for k r M3 using SeekSet_fails [OF failed, of k] by simp
  have string: "fst (ReadString offset M2) = None"
    using seek by (auto simp: ReadString_def split: prod.split bool.split)
  have type: "fst (SeekToStreamType t M2) = None"
    using seek by (auto simp: SeekToStreamType_def Let_def split: option.split prod.split bool.split)
  then have cached: "fst (GetStream t read M2) \<noteq> None \<Longrightarrow>
      \<exists>info. stream_map M2 t = Some info \<and> fst (GetStream t read M2) = info_stream info"
    by (auto simp: GetStream_def split: option.splits if_splits prod.splits)
  have "stream_failed (M2\<lparr>directory := [], stream_map := Map.empty, dump_valid := False\<rparr>)"
    using failed by (simp add: stream_failed_def)
  then have "\<not> fst (SeekSet 0 (M2\<lparr>directory := [], stream_map := Map.empty, dump_valid := False\<rparr>))"
    by (rule SeekSet_fails)
  then have "\<not> fst (Read_dump filesys M2)" if "dump_stream M2 \<noteq> None"
    using that by (auto simp: Read_dump_def Open_file_def split: prod.split bool.split)
  then show ?thesis using SeekSet_fails [OF failed] string type cached by blast
qed

theorem failed_read_is_final_witness:
  "\<not> fst (SeekSet 0 (snd (ReadBytes 4 (Minidump_of_stream \<lparr>in_bytes = [1, 2], in_pos = 0, in_failed = False\<rparr>))))"
proof -
  let ?M = "Minidump_of_stream \<lparr>in_bytes = [1, 2], in_pos = 0, in_failed = False\<rparr>"
  have "ReadBytes 4 ?M = (None, snd (ReadBytes 4 ?M))"
    by (simp add: ReadBytes_def Minidump_of_stream_def stream_read_def Let_def)
  from failed_read_is_final [OF this dump_after_refl, of 0] show ?thesis by simp
qed

end
