(* ===== verification/Minidump_Context.thy ===== *)
theory Minidump_Context
  imports Minidump_File
begin

text \<open>
  \<open>MinidumpContext\<close> of processor/minidump.cc: the reading of the registers of one CPU, whose kind is
  told by the size of the record and its flags, and the check against the system information. The
  record is read and swapped as a whole; of its fields a context keeps those the walkers use.
\<close>

section \<open>The records\<close>

text \<open>Sizes and, for the part after the flags, the widths of the fields as they are swapped.\<close>

definition size_X86 :: nat where "size_X86 = 716"
definition size_PPC :: nat where "size_PPC = 1004"
definition size_PPC64 :: nat where "size_PPC64 = 1160"
definition size_AMD64 :: nat where "size_AMD64 = 1232"
definition size_SPARC :: nat where "size_SPARC = 584"
definition size_ARM :: nat where "size_ARM = 368"
definition size_ARM64 :: nat where "size_ARM64 = 796"
definition size_MIPS :: nat where "size_MIPS = 600"

lemmas context_size_defs = size_X86_def size_PPC_def size_PPC64_def size_AMD64_def size_SPARC_def size_ARM_def
  size_ARM64_def size_MIPS_def

definition context_sizes :: "nat list" where
  "context_sizes = [size_X86, size_PPC, size_PPC64, size_AMD64, size_SPARC, size_ARM, size_ARM64, size_MIPS]"

definition IsContextSizeUnique :: "nat \<Rightarrow> bool" where
  "IsContextSizeUnique context_size = (length (filter (\<lambda>n. context_size = n) context_sizes) = 1)"

definition layout_X86 :: "nat list" where
  "layout_X86 = replicate 6 4 @ replicate 7 4 @ replicate 80 1 @ [4] @ replicate 16 4 @ replicate 512 1"

text \<open>The areas of floating-point and vector registers of both PowerPC records.\<close>

definition layout_PPC_save :: "nat list" where
  "layout_PPC_save = replicate 32 8 @ replicate 4 1 @ [4] @ replicate 64 8 @ [8, 8] @ replicate 16 1 @ [4] @ replicate 28 1"

definition layout_PPC :: "nat list" where
  "layout_PPC = [4, 4] @ replicate 32 4 @ replicate 6 4 @ layout_PPC_save"

definition layout_PPC64 :: "nat list" where
  "layout_PPC64 = [8, 8] @ replicate 32 8 @ replicate 5 8 @ layout_PPC_save"

text \<open>
  The whole record: the flags lie behind the six home addresses and are swapped on their own, \<open>gs\<close>
  and the area of floating-point registers are not swapped.
\<close>

definition layout_AMD64 :: "nat list" where
  "layout_AMD64 = replicate 6 8 @ replicate 4 1 @ [4] @ replicate 4 2 @ [1, 1] @ [2] @ [4] @ replicate 6 8 @ replicate 17 8 @
     replicate 512 1 @ replicate 52 8 @ replicate 6 8"

definition layout_SPARC :: "nat list" where
  "layout_SPARC = replicate 4 1 @ replicate 32 8 @ replicate 6 8 @ replicate 32 8 @ [8, 8]"

definition layout_ARM :: "nat list" where
  "layout_ARM = replicate 16 4 @ [4] @ [8] @ replicate 32 8 @ replicate 8 4"

definition layout_ARM64 :: "nat list" where
  "layout_ARM64 = replicate 33 8 @ [4] @ [4, 4] @ replicate 64 8"

definition layout_MIPS :: "nat list" where
  "layout_MIPS = replicate 4 1 @ replicate 32 8 @ [8, 8] @ replicate 6 4 @ [4] @ replicate 4 1 @ [8, 8] @ [4, 4] @
     replicate 32 8 @ [4, 4]"

text \<open>The loops over the vector registers.\<close>

definition normalize_vectors :: "nat \<Rightarrow> nat \<Rightarrow> bool \<Rightarrow> bytes \<Rightarrow> bytes" where
  "normalize_vectors offset count is_big_endian bs =
     take offset bs @ concat (map (Normalize128 is_big_endian) (elements 16 count (drop offset bs))) @
     drop (offset + 16 * count) bs"

section \<open>The registers of a record\<close>

text \<open>From the bytes after the flags; for AMD64 from all bytes.\<close>

fun x86_offset :: "x86_register \<Rightarrow> nat" where
  "x86_offset EDI = 152" | "x86_offset ESI = 156" | "x86_offset EBX = 160" | "x86_offset EDX = 164"
| "x86_offset ECX = 168" | "x86_offset EAX = 172" | "x86_offset EBP = 176" | "x86_offset EIP = 180"
| "x86_offset ESP = 192"

definition x86_record :: "bytes \<Rightarrow> x86_context" where
  "x86_record bs = (\<lambda>r. load_field (x86_offset r) bs)"

fun amd64_offset :: "amd64_register \<Rightarrow> nat" where
  "amd64_offset RAX = 120" | "amd64_offset RCX = 128" | "amd64_offset RDX = 136" | "amd64_offset RBX = 144"
| "amd64_offset RSP = 152" | "amd64_offset RBP = 160" | "amd64_offset RSI = 168" | "amd64_offset RDI = 176"
| "amd64_offset R8 = 184" | "amd64_offset R9 = 192" | "amd64_offset R10 = 200" | "amd64_offset R11 = 208"
| "amd64_offset R12 = 216" | "amd64_offset R13 = 224" | "amd64_offset R14 = 232" | "amd64_offset R15 = 240"
| "amd64_offset RIP = 248"

definition amd64_record :: "bytes \<Rightarrow> amd64_context" where
  "amd64_record bs = (\<lambda>r. load_field (amd64_offset r) bs)"

definition ppc_record :: "bytes \<Rightarrow> uint32 ppc_context" where
  "ppc_record bs = \<lparr>gpr = (\<lambda>i. load_field (8 + 4 * i) bs), srr0 = load_field 0 bs\<rparr>"

definition ppc64_record :: "bytes \<Rightarrow> uint64 ppc_context" where
  "ppc64_record bs = \<lparr>gpr = (\<lambda>i. load_field (16 + 8 * i) bs), srr0 = load_field 0 bs\<rparr>"

definition sparc_record :: "bytes \<Rightarrow> sparc_context" where
  "sparc_record bs = \<lparr>g_r = (\<lambda>i. load_field (4 + 8 * i) bs), sparc_pc = load_field 268 bs\<rparr>"

definition arm_record :: "bytes \<Rightarrow> arm_context" where
  "arm_record bs = (\<lambda>i. load_field (4 * i) bs)"

definition arm64_record :: "bytes \<Rightarrow> arm64_context" where
  "arm64_record bs = (\<lambda>i. load_field (8 * i) bs)"

definition mips_record :: "uint32 \<Rightarrow> bytes \<Rightarrow> mips_context" where
  "mips_record context_flags_read bs =
     \<lparr>context_flags = context_flags_read, mips_iregs = (\<lambda>i. load_field (4 + 8 * i) bs), epc = load_field 308 bs\<rparr>"

section \<open>Reading\<close>

definition CheckAgainstSystemInfo :: "uint32 \<Rightarrow> dump_file \<Rightarrow> bool \<times> dump_file" where
  "CheckAgainstSystemInfo context_cpu_type M =
     (case GetSystemInfo M of
        (None, M) \<Rightarrow> (True, M)
      | (Some S, M) \<Rightarrow>
          (case system_info_of (Some S) of
             None \<Rightarrow> (False, M)
           | Some raw \<Rightarrow>
               let a = processor_architecture raw in
               (if context_cpu_type = MD_CONTEXT_X86 then
                  a = MD_CPU_ARCHITECTURE_X86 \<or> a = MD_CPU_ARCHITECTURE_X86_WIN64 \<or> a = MD_CPU_ARCHITECTURE_AMD64
                else if context_cpu_type = MD_CONTEXT_PPC then a = MD_CPU_ARCHITECTURE_PPC
                else if context_cpu_type = MD_CONTEXT_PPC64 then a = MD_CPU_ARCHITECTURE_PPC64
                else if context_cpu_type = MD_CONTEXT_AMD64 then a = MD_CPU_ARCHITECTURE_AMD64
                else if context_cpu_type = MD_CONTEXT_SPARC then a = MD_CPU_ARCHITECTURE_SPARC
                else if context_cpu_type = MD_CONTEXT_ARM then a = MD_CPU_ARCHITECTURE_ARM
                else if context_cpu_type = MD_CONTEXT_ARM64 then a = MD_CPU_ARCHITECTURE_ARM64
                else if context_cpu_type = MD_CONTEXT_MIPS then a = MD_CPU_ARCHITECTURE_MIPS
                else if context_cpu_type = MD_CONTEXT_MIPS64 then a = MD_CPU_ARCHITECTURE_MIPS64
                else False, M)))"

text \<open>
  The CPU that the flags name, or else the system information: the flags, None where the position
  of the file could not be restored.
\<close>

definition context_cpu_type :: "uint32 \<Rightarrow> dump_file \<Rightarrow> uint32 option \<times> dump_file" where
  "context_cpu_type cpu_type M =
     (if cpu_type = 0 then
        (case GetContextCPUFlagsFromSystemInfo M of
           (True, cpu_flags, M) \<Rightarrow> (Some cpu_flags, M)
         | (False, cpu_flags, M) \<Rightarrow> (None, M))
      else (Some cpu_type, M))"

text \<open>The rest of the record, checked against the system information, and then swapped.\<close>

definition read_checked :: "nat \<Rightarrow> uint32 \<Rightarrow> dump_file \<Rightarrow> bytes option \<times> dump_file" where
  "read_checked n cpu_type M =
     (case ReadBytes n M of
        (None, M) \<Rightarrow> (None, M)
      | (Some bs, M) \<Rightarrow>
          (case CheckAgainstSystemInfo cpu_type M of
             (False, M) \<Rightarrow> (None, M)
           | (True, M) \<Rightarrow> (Some bs, M)))"

definition read_record :: "nat \<Rightarrow> nat list \<Rightarrow> uint32 \<Rightarrow> dump_file \<Rightarrow> bytes option \<times> dump_file" where
  "read_record n layout cpu_type M =
     (case read_checked n cpu_type M of
        (None, M) \<Rightarrow> (None, M)
      | (Some bs, M) \<Rightarrow> (Some (if must_swap M then swap_fields layout bs else bs), M))"

definition Read_AMD64 :: "dump_context \<Rightarrow> dump_file \<Rightarrow> bool \<times> dump_context \<times> dump_file" where
  "Read_AMD64 D M =
     (case ReadBytes size_AMD64 M of
        (None, M) \<Rightarrow> (False, D, M)
      | (Some bs, M) \<Rightarrow>
          let fl = swap_if32 (must_swap M) (load_field 48 bs); cpu_type = fl AND MD_CONTEXT_CPU_MASK in
          (case context_cpu_type cpu_type M of
             (None, M) \<Rightarrow> (False, D, M)
           | (Some cpu, M) \<Rightarrow>
               let fl = if cpu_type = 0 then fl OR cpu else fl in
               if cpu \<noteq> MD_CONTEXT_AMD64 then (False, D, M)
               else
                 (case CheckAgainstSystemInfo cpu M of
                    (False, M) \<Rightarrow> (False, D, M)
                  | (True, M) \<Rightarrow>
                      let bs = normalize_vectors 768 26 False bs;
                          bs = (if must_swap M then swap_fields layout_AMD64 bs else bs) in
                      (True, SetContext (ContextAMD64 (amd64_record bs)) (SetContextFlags fl D), M))))"

text \<open>
  The records with 64-bit flags. The flags that were read are stored, whatever the system
  information has added to them before.
\<close>

definition Read_PPC64 :: "dump_context \<Rightarrow> dump_file \<Rightarrow> bool \<times> dump_context \<times> dump_file" where
  "Read_PPC64 D M =
     (case ReadBytes 8 M of
        (None, M) \<Rightarrow> (False, D, M)
      | (Some bs, M) \<Rightarrow>
          let fl = swap_if64 (must_swap M) (load_field 0 bs) in
          (case context_cpu_type (ucast fl AND MD_CONTEXT_CPU_MASK) M of
             (None, M) \<Rightarrow> (False, D, M)
           | (Some cpu, M) \<Rightarrow>
               if cpu \<noteq> MD_CONTEXT_PPC64 then (False, D, M)
               else
                 (case read_record (size_PPC64 - 8) layout_PPC64 cpu M of
                    (None, M) \<Rightarrow> (False, D, M)
                  | (Some bs, M) \<Rightarrow>
                      let D = SetContextFlags (ucast fl) D in
                      if ucast (GetContextFlags D) \<noteq> fl then (False, D, M)
                      else (True, SetContext (ContextPPC64 (ppc64_record bs)) D, M))))"

definition Read_ARM64 :: "dump_context \<Rightarrow> dump_file \<Rightarrow> bool \<times> dump_context \<times> dump_file" where
  "Read_ARM64 D M =
     (case ReadBytes 8 M of
        (None, M) \<Rightarrow> (False, D, M)
      | (Some bs, M) \<Rightarrow>
          let fl = swap_if64 (must_swap M) (load_field 0 bs) in
          (case context_cpu_type (ucast fl AND MD_CONTEXT_CPU_MASK) M of
             (None, M) \<Rightarrow> (False, D, M)
           | (Some cpu, M) \<Rightarrow>
               if cpu \<noteq> MD_CONTEXT_ARM64 then (False, D, M)
               else
                 (case read_checked (size_ARM64 - 8) cpu M of
                    (None, M) \<Rightarrow> (False, D, M)
                  | (Some bs, M) \<Rightarrow>
                      let bs = (if must_swap M then swap_fields layout_ARM64 (normalize_vectors 276 32 False bs) else bs);
                          D = SetContextFlags (ucast fl) D in
                      if ucast (GetContextFlags D) \<noteq> fl then (False, D, M)
                      else (True, SetContext (ContextARM64 (arm64_record bs)) D, M))))"

definition MD_CONTEXT_ARM_OLD :: uint32 where "MD_CONTEXT_ARM_OLD = 0x40"

text \<open>A branch of the switch, with the size and the layout of its record, and the switch.\<close>

definition switch_branch ::
  "nat \<Rightarrow> nat list \<Rightarrow> (bytes \<Rightarrow> raw_context) \<Rightarrow> uint32 \<Rightarrow> nat \<Rightarrow> dump_file \<Rightarrow> raw_context option \<times> dump_file" where
  "switch_branch record_size layout mk cpu_type expected_size M =
     (if expected_size \<noteq> record_size then (None, M)
      else
        (case read_record (record_size - 4) layout cpu_type M of
           (None, M) \<Rightarrow> (None, M)
         | (Some bs, M) \<Rightarrow> (Some (mk bs), M)))"

definition Read_switch :: "uint32 \<Rightarrow> nat \<Rightarrow> uint32 \<Rightarrow> dump_file \<Rightarrow> raw_context option \<times> dump_file" where
  "Read_switch cpu_type expected_size fl M =
     (if cpu_type = MD_CONTEXT_X86 then
        switch_branch size_X86 layout_X86 (\<lambda>bs. ContextX86 (x86_record bs)) cpu_type expected_size M
      else if cpu_type = MD_CONTEXT_PPC then
        switch_branch size_PPC layout_PPC (\<lambda>bs. ContextPPC (ppc_record bs)) cpu_type expected_size M
      else if cpu_type = MD_CONTEXT_SPARC then
        switch_branch size_SPARC layout_SPARC (\<lambda>bs. ContextSPARC (sparc_record bs)) cpu_type expected_size M
      else if cpu_type = MD_CONTEXT_ARM then
        switch_branch size_ARM layout_ARM (\<lambda>bs. ContextARM (arm_record bs)) cpu_type expected_size M
      else if cpu_type = MD_CONTEXT_MIPS \<or> cpu_type = MD_CONTEXT_MIPS64 then
        switch_branch size_MIPS layout_MIPS (\<lambda>bs. ContextMIPS (mips_record fl bs)) cpu_type expected_size M
      else (None, M))"

definition Read_other :: "nat \<Rightarrow> dump_context \<Rightarrow> dump_file \<Rightarrow> bool \<times> dump_context \<times> dump_file" where
  "Read_other expected_size D M =
     (case ReadBytes 4 M of
        (None, M) \<Rightarrow> (False, D, M)
      | (Some bs, M) \<Rightarrow>
          let fl = swap_if32 (must_swap M) (load_field 0 bs); cpu_type = fl AND MD_CONTEXT_CPU_MASK;
              legacy = (cpu_type = 0 \<and> fl AND MD_CONTEXT_ARM_OLD \<noteq> 0);
              fl = (if legacy then (fl OR MD_CONTEXT_ARM) AND NOT MD_CONTEXT_ARM_OLD else fl);
              cpu_type = (if legacy then MD_CONTEXT_ARM else cpu_type) in
          (case context_cpu_type cpu_type M of
             (None, M) \<Rightarrow> (False, D, M)
           | (Some cpu, M) \<Rightarrow>
               let fl = if cpu_type = 0 then fl OR cpu else fl in
               (case Read_switch cpu expected_size fl M of
                  (None, M) \<Rightarrow> (False, D, M)
                | (Some raw, M) \<Rightarrow> (True, SetContextFlags fl (SetContext raw D), M))))"

text \<open>The size of the record chooses how it is read.\<close>

definition Read_by_size :: "nat \<Rightarrow> dump_context \<Rightarrow> dump_file \<Rightarrow> bool \<times> dump_context \<times> dump_file" where
  "Read_by_size expected_size D M =
     (if expected_size = size_AMD64 then Read_AMD64 D M
      else if expected_size = size_PPC64 then Read_PPC64 D M
      else if expected_size = size_ARM64 then Read_ARM64 D M
      else Read_other expected_size D M)"

text \<open>
  \<open>MinidumpContext::Read\<close>: the result, the object and the file; None where the old context is freed
  through the wrong member of the union.
\<close>

definition MinidumpContext_Read :: "nat \<Rightarrow> dump_context \<Rightarrow> dump_file \<Rightarrow> (bool \<times> dump_context \<times> dump_file) option" where
  "MinidumpContext_Read expected_size D M =
     (let D = D\<lparr>ctx_valid := False\<rparr> in
      if \<not> IsContextSizeUnique size_AMD64 \<or> \<not> IsContextSizeUnique size_PPC64 \<or> \<not> IsContextSizeUnique size_ARM64
      then Some (False, D, M)
      else
        (case FreeContext D of
           None \<Rightarrow> None
         | Some (_, D) \<Rightarrow>
             (case Read_by_size expected_size D M of (ok, D, M) \<Rightarrow> Some (ok, if ok then D\<lparr>ctx_valid := True\<rparr> else D, M))))"

section \<open>The context agrees with its flags\<close>

lemma sizes_unique: "IsContextSizeUnique size_AMD64" "IsContextSizeUnique size_PPC64" "IsContextSizeUnique size_ARM64"
  by (simp_all add: IsContextSizeUnique_def context_sizes_def context_size_defs)

lemma CheckAgainstSystemInfo_after: "dump_after M (snd (CheckAgainstSystemInfo cpu M))"
  using GetSystemInfo_after [of M] by (auto simp: CheckAgainstSystemInfo_def Let_def split: prod.split option.split)

lemma context_cpu_type_after: "dump_after M (snd (context_cpu_type cpu M))"
  using GetContextCPUFlagsFromSystemInfo_after [of M]
  by (auto simp: context_cpu_type_def split: prod.split bool.split)

text \<open>The same for results that are given as pairs.\<close>

lemma after_results:
  "ReadBytes n M = (r, M') \<Longrightarrow> dump_after M M'"
  "CheckAgainstSystemInfo cpu M = (b, M') \<Longrightarrow> dump_after M M'"
  "context_cpu_type cpu M = (t, M') \<Longrightarrow> dump_after M M'"
  using ReadBytes_after [of M n] CheckAgainstSystemInfo_after [of M cpu] context_cpu_type_after [of M cpu] by simp_all

lemma read_checked_after: "read_checked n cpu M = (r, M') \<Longrightarrow> dump_after M M'"
  by (auto simp: read_checked_def split: prod.splits option.splits bool.splits
    dest!: after_results intro: dump_after_trans)

lemma read_record_after: "read_record n layout cpu M = (r, M') \<Longrightarrow> dump_after M M'"
  by (auto simp: read_record_def split: prod.splits option.splits dest!: read_checked_after)

lemma switch_branch_result: "switch_branch k layout mk cpu n M = (r, M') \<Longrightarrow>
    dump_after M M' \<and> (\<forall>raw. r = Some raw \<longrightarrow> (\<exists>bs. raw = mk bs))"
  by (auto simp: switch_branch_def split: prod.splits option.splits if_splits dest!: read_record_after)

lemma Read_switch_after: "Read_switch cpu n fl M = (r, M') \<Longrightarrow> dump_after M M'"
  by (auto simp: Read_switch_def split: if_splits dest!: switch_branch_result)

lemma context_cpu_type_Some: "context_cpu_type t M = (Some cpu, M') \<Longrightarrow> t \<noteq> 0 \<Longrightarrow> cpu = t"
  by (simp add: context_cpu_type_def)

lemma or_masked: "fl AND mask_bits = 0 \<Longrightarrow> (fl OR cpu) AND mask_bits = cpu AND (mask_bits :: 'a::len word)"
  by (simp add: word_ao_dist)

lemma known_cpu_mask: "cpu \<in> set known_cpus \<Longrightarrow> cpu AND MD_CONTEXT_CPU_MASK = cpu"
  by (auto simp: known_cpus_def cpu_codes MD_CONTEXT_CPU_MASK_def)

text \<open>What the switch makes fits the CPU it was asked for.\<close>

lemma Read_switch_member:
  "Read_switch cpu n fl M = (Some raw, M') \<Longrightarrow>
    cpu \<in> set (member_cpus raw) \<and> cpu \<in> set known_cpus \<and> (case raw of ContextMIPS c \<Rightarrow> context_flags c = fl | _ \<Rightarrow> True)"
  by (auto simp: Read_switch_def known_cpus_def mips_record_def split: if_splits dest!: switch_branch_result)

lemma FreeContext_invalid: "FreeContext (D\<lparr>ctx_valid := False\<rparr>) = Some (None, DumpContext)"
  using cpu_codes_distinct(2) by (cases D) (simp add: FreeContext_def GetContextCPU_def known_cpus_def DumpContext_def)

lemma DumpContext_set:
  "(SetContextFlags fl DumpContext) = \<lparr>ctx_valid = False, ctx_raw = NullContext, ctx_flags = fl\<rparr>"
  "(SetContext raw DumpContext) = \<lparr>ctx_valid = False, ctx_raw = raw, ctx_flags = 0\<rparr>"
  by (simp_all add: SetContextFlags_def SetContext_def DumpContext_def)

definition read_ok :: "dump_file \<Rightarrow> bool \<times> dump_context \<times> dump_file \<Rightarrow> bool \<Rightarrow> bool" where
  "read_ok M result known \<longleftrightarrow>
     (case result of (ok, D', M') \<Rightarrow> dump_after M M' \<and> (\<not> ok \<longrightarrow> \<not> ctx_valid D' \<and> ctx_raw D' = NullContext) \<and>
        (ok \<longrightarrow> well_typed (D'\<lparr>ctx_valid := True\<rparr>) \<and> ctx_raw D' \<noteq> NullContext \<and>
          (known \<longrightarrow> GetContextCPU (D'\<lparr>ctx_valid := True\<rparr>) \<in> set known_cpus)))"

lemma read_ok_False: "dump_after M M' \<Longrightarrow> read_ok M (False, DumpContext, M') known"
  by (simp add: read_ok_def DumpContext_def)

lemma read_ok_lost:
  "dump_after M M' \<Longrightarrow> read_ok M (False, \<lparr>ctx_valid = False, ctx_raw = NullContext, ctx_flags = fl\<rparr>, M') known"
  by (simp add: read_ok_def)

lemma read_ok_True:
  assumes "dump_after M M'" and "well_typed \<lparr>ctx_valid = True, ctx_raw = raw, ctx_flags = fl\<rparr>" and "raw \<noteq> NullContext"
    and "known \<Longrightarrow> fl AND MD_CONTEXT_CPU_MASK \<in> set known_cpus"
  shows "read_ok M (True, \<lparr>ctx_valid = False, ctx_raw = raw, ctx_flags = fl\<rparr>, M') known"
  using assms by (simp add: read_ok_def GetContextCPU_def)

text \<open>The flags that are stored name the CPU.\<close>

lemma legacy_ARM:
  assumes "fl AND MD_CONTEXT_CPU_MASK = 0"
  shows "((fl OR MD_CONTEXT_ARM) AND NOT MD_CONTEXT_ARM_OLD) AND MD_CONTEXT_CPU_MASK = MD_CONTEXT_ARM"
proof -
  have "((fl OR MD_CONTEXT_ARM) AND NOT MD_CONTEXT_ARM_OLD) AND MD_CONTEXT_CPU_MASK =
      ((fl OR MD_CONTEXT_ARM) AND MD_CONTEXT_CPU_MASK) AND NOT MD_CONTEXT_ARM_OLD"
    by (simp add: ac_simps)
  then show ?thesis
    unfolding or_masked [OF assms] by (simp add: MD_CONTEXT_ARM_def MD_CONTEXT_CPU_MASK_def MD_CONTEXT_ARM_OLD_def)
qed

lemma stored_flags:
  assumes "fl AND MD_CONTEXT_CPU_MASK = t" and "context_cpu_type t M = (Some cpu, M')" and "cpu \<in> set known_cpus"
  shows "(if t = 0 then fl OR cpu else fl) AND MD_CONTEXT_CPU_MASK = cpu"
  using assms context_cpu_type_Some [OF assms(2)] or_masked [of fl MD_CONTEXT_CPU_MASK cpu] known_cpu_mask [OF assms(3)]
  by auto

lemma Read_other_ok: "read_ok M (Read_other n DumpContext M) True"
proof (cases "ReadBytes 4 M")
  case (Pair r M1)
  show ?thesis
  proof (cases r)
    case None
    with Pair show ?thesis by (simp add: Read_other_def read_ok_False after_results)
  next
    case (Some bs)
    define fl0 where "fl0 = swap_if32 (must_swap M1) (load_field 0 bs)"
    define legacy where "legacy = (fl0 AND MD_CONTEXT_CPU_MASK = 0 \<and> fl0 AND MD_CONTEXT_ARM_OLD \<noteq> 0)"
    define fl where "fl = (if legacy then (fl0 OR MD_CONTEXT_ARM) AND NOT MD_CONTEXT_ARM_OLD else fl0)"
    define t where "t = (if legacy then MD_CONTEXT_ARM else fl0 AND MD_CONTEXT_CPU_MASK)"
    have t: "fl AND MD_CONTEXT_CPU_MASK = t" using legacy_ARM [of fl0] by (auto simp: fl_def t_def legacy_def)
    have read: "Read_other n DumpContext M = (case context_cpu_type t M1 of
        (None, M) \<Rightarrow> (False, DumpContext, M)
      | (Some cpu, M) \<Rightarrow>
          let fl = if t = 0 then fl OR cpu else fl in
          (case Read_switch cpu n fl M of
             (None, M) \<Rightarrow> (False, DumpContext, M)
           | (Some raw, M) \<Rightarrow> (True, SetContextFlags fl (SetContext raw DumpContext), M)))"
      using Pair Some by (simp only: Read_other_def prod.case option.case Let_def fl0_def legacy_def fl_def t_def)
    obtain c M2 where c: "context_cpu_type t M1 = (c, M2)" by (cases "context_cpu_type t M1")
    have M2: "dump_after M M2" using after_results(1) [OF Pair] after_results(3) [OF c] by (rule dump_after_trans)
    show ?thesis
    proof (cases c)
      case None
      with M2 c show ?thesis by (simp add: read read_ok_False)
    next
      case (Some cpu)
      define f where "f = (if t = 0 then fl OR cpu else fl)"
      obtain r' M3 where r': "Read_switch cpu n f M2 = (r', M3)" by (cases "Read_switch cpu n f M2")
      have M3: "dump_after M M3" using M2 Read_switch_after [OF r'] by (rule dump_after_trans)
      show ?thesis
      proof (cases r')
        case None
        with M3 r' c Some show ?thesis by (simp add: read read_ok_False Let_def f_def)
      next
        case (Some raw)
        note member = Read_switch_member [OF r' [unfolded Some]]
        have f: "f AND MD_CONTEXT_CPU_MASK = cpu"
          using stored_flags [OF t c [unfolded \<open>c = Some cpu\<close>]] member by (simp add: f_def)
        with member have "well_typed \<lparr>ctx_valid = True, ctx_raw = raw, ctx_flags = f\<rparr>" "raw \<noteq> NullContext"
          by (cases raw; auto simp: well_typed_def GetContextCPU_def)+
        moreover have "Read_other n DumpContext M = (True, \<lparr>ctx_valid = False, ctx_raw = raw, ctx_flags = f\<rparr>, M3)"
          using r' c Some \<open>c = Some cpu\<close> by (simp add: read Let_def f_def DumpContext_set SetContextFlags_def)
        ultimately show ?thesis using M3 member f by (simp add: read_ok_True)
      qed
    qed
  qed
qed

lemma known_AMD64: "MD_CONTEXT_AMD64 \<in> set known_cpus" "MD_CONTEXT_PPC64 \<in> set known_cpus" "MD_CONTEXT_ARM64 \<in> set known_cpus"
  by (simp_all add: known_cpus_def)

lemma well_typed_other:
  assumes "fl AND MD_CONTEXT_CPU_MASK = 0 \<or> fl AND MD_CONTEXT_CPU_MASK \<in> set (member_cpus raw)"
    and "\<And>c. raw \<noteq> ContextMIPS c"
  shows "well_typed \<lparr>ctx_valid = True, ctx_raw = raw, ctx_flags = fl\<rparr>"
  using assms cpu_codes_distinct(2) by (cases raw) (auto simp: well_typed_def GetContextCPU_def)

text \<open>The CPU that was found, and the flags that are stored; 64-bit flags may lack it.\<close>

lemma context_cpu_type_cases: "context_cpu_type t M = (Some cpu, M') \<Longrightarrow> dump_after M M' \<and> (t = 0 \<or> t = cpu)"
  using context_cpu_type_Some after_results(3) by blast

lemma flags_AMD64: "fl AND MD_CONTEXT_CPU_MASK = 0 \<Longrightarrow> (fl OR MD_CONTEXT_AMD64) AND MD_CONTEXT_CPU_MASK = MD_CONTEXT_AMD64"
  using or_masked known_cpu_mask [OF known_AMD64(1)] by metis

lemma AMD64_nonzero: "MD_CONTEXT_AMD64 \<noteq> 0"
  by (simp add: MD_CONTEXT_AMD64_def)

lemma Read_AMD64_ok: "read_ok M (Read_AMD64 DumpContext M) True"
  by (auto simp: Read_AMD64_def Let_def DumpContext_set SetContext_def flags_AMD64 known_AMD64 AMD64_nonzero
    split: prod.split option.split bool.split
    dest!: after_results(1,2) context_cpu_type_cases dest: after_results(3) intro: dump_after_trans
    intro!: read_ok_False read_ok_True well_typed_other)

lemma Read_PPC64_ok: "read_ok M (Read_PPC64 DumpContext M) False"
  by (auto simp: Read_PPC64_def Let_def DumpContext_set SetContext_def GetContextFlags_def split: prod.split option.split
    dest!: after_results(1) read_record_after context_cpu_type_cases dest: after_results(3) intro: dump_after_trans
    intro!: read_ok_False read_ok_True read_ok_lost well_typed_other)

lemma Read_ARM64_ok: "read_ok M (Read_ARM64 DumpContext M) False"
  by (auto simp: Read_ARM64_def Let_def DumpContext_set SetContext_def GetContextFlags_def split: prod.split option.split
    dest!: after_results(1) read_checked_after context_cpu_type_cases dest: after_results(3) intro: dump_after_trans
    intro!: read_ok_False read_ok_True read_ok_lost well_typed_other)

lemma Read_by_size_ok: "read_ok M (Read_by_size n DumpContext M) (n \<noteq> size_PPC64 \<and> n \<noteq> size_ARM64)"
  using Read_AMD64_ok [of M] Read_PPC64_ok [of M] Read_ARM64_ok [of M] Read_other_ok [of M n]
  by (auto simp: Read_by_size_def read_ok_def)

lemma MinidumpContext_Read_by_size:
  "Read_by_size n DumpContext M = (ok, D', M') \<Longrightarrow>
    MinidumpContext_Read n D M = Some (ok, if ok then D'\<lparr>ctx_valid := True\<rparr> else D', M')"
  using sizes_unique by (simp add: MinidumpContext_Read_def Let_def FreeContext_invalid split: prod.split)

section \<open>The registers that are read\<close>

lemma swap_fields_at:
  "i < length layout \<Longrightarrow> sum_list (take (Suc i) layout) \<le> length bs \<Longrightarrow>
    take (layout ! i) (drop (sum_list (take i layout)) (swap_fields layout bs)) =
      rev (take (layout ! i) (drop (sum_list (take i layout)) bs))"
proof (induction layout arbitrary: i bs)
  case (Cons n ns)
  show ?case
  proof (cases i)
    case 0
    with Cons.prems show ?thesis by simp
  next
    case (Suc j)
    have "take (ns ! j) (drop (sum_list (take j ns)) (swap_fields ns (drop n bs))) =
        rev (take (ns ! j) (drop (sum_list (take j ns)) (drop n bs)))"
      using Cons.prems Suc by (intro Cons.IH) auto
    then show ?thesis using Suc Cons.prems by (simp add: add.commute)
  qed
qed simp

text \<open>A field that was written in the order of the file is read, if the record is swapped when the order differs.\<close>

lemma load_swapped_field:
  fixes v :: "'w::len word"
  assumes "take (LENGTH('w) div 8) (drop k bs) = encode sw v" and "8 dvd LENGTH('w)"
    and "i < length layout" and "layout ! i = LENGTH('w) div 8" and "sum_list (take i layout) = k"
    and "k + LENGTH('w) div 8 \<le> length bs"
  shows "load_field k (if sw then swap_fields layout bs else bs) = v"
proof (cases sw)
  case True
  have "sum_list (take (Suc i) layout) \<le> length bs" using assms by (simp add: take_Suc_conv_app_nth)
  with assms swap_fields_at [of i layout bs] True show ?thesis
    by (simp add: load_field_def encode_def load_word_bytes)
next
  case False
  with assms show ?thesis by (simp add: load_field_def encode_def load_word_bytes)
qed

lemma normalize_vectors_before:
  assumes "k + w \<le> offset" and "offset \<le> length bs"
  shows "take w (drop k (normalize_vectors offset n e bs)) = take w (drop k bs)"
  using assms by (simp add: normalize_vectors_def take_drop)

fun registers_at :: "bool \<Rightarrow> raw_context \<Rightarrow> bytes \<Rightarrow> bool" where
  "registers_at sw NullContext bs = False"
| "registers_at sw (ContextX86 c) bs = (\<forall>r. take 4 (drop (x86_offset r) bs) = encode sw (c r))"
| "registers_at sw (ContextPPC c) bs =
     (take 4 bs = encode sw (srr0 c) \<and> (\<forall>i < 32. take 4 (drop (8 + 4 * i) bs) = encode sw (gpr c i)))"
| "registers_at sw (ContextPPC64 c) bs =
     (take 8 bs = encode sw (srr0 c) \<and> (\<forall>i < 32. take 8 (drop (16 + 8 * i) bs) = encode sw (gpr c i)))"
| "registers_at sw (ContextAMD64 c) bs = (\<forall>r. take 8 (drop (amd64_offset r) bs) = encode sw (c r))"
| "registers_at sw (ContextSPARC c) bs =
     (take 8 (drop 268 bs) = encode sw (sparc_pc c) \<and> (\<forall>i < 32. take 8 (drop (4 + 8 * i) bs) = encode sw (g_r c i)))"
| "registers_at sw (ContextARM c) bs = (\<forall>i < 16. take 4 (drop (4 * i) bs) = encode sw (c i))"
| "registers_at sw (ContextARM64 c) bs = (\<forall>i < 33. take 8 (drop (8 * i) bs) = encode sw (c i))"
| "registers_at sw (ContextMIPS c) bs =
     (take 8 (drop 308 bs) = encode sw (epc c) \<and> (\<forall>i < 32. take 8 (drop (4 + 8 * i) bs) = encode sw (mips_iregs c i)))"

text \<open>Registers beyond those of the record do not count.\<close>

fun same_registers :: "raw_context \<Rightarrow> raw_context \<Rightarrow> bool" where
  "same_registers (ContextX86 c) (ContextX86 d) = (c = d)"
| "same_registers (ContextPPC c) (ContextPPC d) = (srr0 d = srr0 c \<and> (\<forall>i < 32. gpr d i = gpr c i))"
| "same_registers (ContextPPC64 c) (ContextPPC64 d) = (srr0 d = srr0 c \<and> (\<forall>i < 32. gpr d i = gpr c i))"
| "same_registers (ContextAMD64 c) (ContextAMD64 d) = (c = d)"
| "same_registers (ContextSPARC c) (ContextSPARC d) = (sparc_pc d = sparc_pc c \<and> (\<forall>i < 32. g_r d i = g_r c i))"
| "same_registers (ContextARM c) (ContextARM d) = (\<forall>i < 16. d i = c i)"
| "same_registers (ContextARM64 c) (ContextARM64 d) = (\<forall>i < 33. d i = c i)"
| "same_registers (ContextMIPS c) (ContextMIPS d) = (epc d = epc c \<and> (\<forall>i < 32. mips_iregs d i = mips_iregs c i))"
| "same_registers _ _ = False"

lemmas layout_simps = nth_append nth_Cons' take_Cons' sum_list_replicate

lemma x86_record_read:
  "registers_at sw (ContextX86 c) bs \<Longrightarrow> length bs = 712 \<Longrightarrow> x86_record (if sw then swap_fields layout_X86 bs else bs) = c"
proof
  fix r
  assume "registers_at sw (ContextX86 c) bs" "length bs = 712"
  then have at: "take 4 (drop (x86_offset r) bs) = encode sw (c r)" by simp
  have "\<exists>i < length layout_X86. layout_X86 ! i = 4 \<and> sum_list (take i layout_X86) = x86_offset r"
  proof (intro exI conjI)
    let ?i = "98 + (x86_offset r - 152) div 4"
    show "?i < length layout_X86" "layout_X86 ! ?i = 4" "sum_list (take ?i layout_X86) = x86_offset r"
      by (cases r; simp add: layout_X86_def layout_simps)+
  qed
  then obtain i where "i < length layout_X86" "layout_X86 ! i = 4" "sum_list (take i layout_X86) = x86_offset r" by blast
  moreover have "x86_offset r + 4 \<le> length bs" using \<open>length bs = 712\<close> by (cases r) simp_all
  ultimately show "x86_record (if sw then swap_fields layout_X86 bs else bs) r = c r"
    unfolding x86_record_def using at by (intro load_swapped_field) simp_all
qed

text \<open>The same for the elements of an array of fields.\<close>

lemma load_swapped_element:
  fixes v :: "'w::len word"
  assumes "take w (drop (k + w * j) bs) = encode sw v" and "layout = pre @ replicate n w @ post" and "sum_list pre = k"
    and "j < n" and "w = LENGTH('w) div 8" and "8 dvd LENGTH('w)" and "k + w * n \<le> length bs"
  shows "load_field (k + w * j) (if sw then swap_fields layout bs else bs) = v"
proof (rule load_swapped_field)
  show "length pre + j < length layout" "layout ! (length pre + j) = LENGTH('w) div 8"
    "sum_list (take (length pre + j) layout) = k + w * j"
    using assms by (simp_all add: nth_append sum_list_replicate)
  have "w * j + w \<le> w * n" using assms(4) mult_le_mono2 [of "Suc j" n w] by simp
  then show "k + w * j + LENGTH('w) div 8 \<le> length bs" using assms by simp
qed (use assms in simp_all)

lemma replicate_two: "replicate 2 x = [x, x]"
  by (simp add: numeral_2_eq_2)

lemma ppc_record_read:
  assumes "registers_at sw (ContextPPC c) bs" and "length bs = 1000"
  shows "same_registers (ContextPPC c) (ContextPPC (ppc_record (if sw then swap_fields layout_PPC bs else bs)))"
proof -
  let ?bs = "if sw then swap_fields layout_PPC bs else bs"
  have "load_field (0 + 4 * 0) ?bs = srr0 c"
    using assms by (intro load_swapped_element [of 4 0 0 bs sw _ layout_PPC "[]" 2])
      (simp_all add: layout_PPC_def replicate_two)
  moreover have "load_field (8 + 4 * i) ?bs = gpr c i" if "i < 32" for i
    using assms that by (intro load_swapped_element [of 4 8 i bs sw _ layout_PPC "[4, 4]" 32]) (simp_all add: layout_PPC_def)
  ultimately show ?thesis by (simp add: ppc_record_def)
qed

lemma ppc64_record_read:
  assumes "registers_at sw (ContextPPC64 c) bs" and "length bs = 1152"
  shows "same_registers (ContextPPC64 c) (ContextPPC64 (ppc64_record (if sw then swap_fields layout_PPC64 bs else bs)))"
proof -
  let ?bs = "if sw then swap_fields layout_PPC64 bs else bs"
  have "load_field (0 + 8 * 0) ?bs = srr0 c"
    using assms by (intro load_swapped_element [of 8 0 0 bs sw _ layout_PPC64 "[]" 2])
      (simp_all add: layout_PPC64_def replicate_two)
  moreover have "load_field (16 + 8 * i) ?bs = gpr c i" if "i < 32" for i
    using assms that by (intro load_swapped_element [of 8 16 i bs sw _ layout_PPC64 "[8, 8]" 32]) (simp_all add: layout_PPC64_def)
  ultimately show ?thesis by (simp add: ppc64_record_def)
qed

lemma sparc_record_read:
  assumes "registers_at sw (ContextSPARC c) bs" and "length bs = 580"
  shows "same_registers (ContextSPARC c) (ContextSPARC (sparc_record (if sw then swap_fields layout_SPARC bs else bs)))"
proof -
  let ?bs = "if sw then swap_fields layout_SPARC bs else bs"
  have "load_field (260 + 8 * 1) ?bs = sparc_pc c"
    using assms by (intro load_swapped_element [of 8 260 1 bs sw _ layout_SPARC "replicate 4 1 @ replicate 32 8" 6])
      (simp_all add: layout_SPARC_def sum_list_replicate)
  moreover have "load_field (4 + 8 * i) ?bs = g_r c i" if "i < 32" for i
    using assms that by (intro load_swapped_element [of 8 4 i bs sw _ layout_SPARC "replicate 4 1" 32])
      (simp_all add: layout_SPARC_def sum_list_replicate)
  ultimately show ?thesis by (simp add: sparc_record_def)
qed

lemma arm_record_read:
  assumes "registers_at sw (ContextARM c) bs" and "length bs = 364"
  shows "same_registers (ContextARM c) (ContextARM (arm_record (if sw then swap_fields layout_ARM bs else bs)))"
proof -
  have "load_field (0 + 4 * i) (if sw then swap_fields layout_ARM bs else bs) = c i" if "i < 16" for i
    using assms that by (intro load_swapped_element [of 4 0 i bs sw _ layout_ARM "[]" 16]) (simp_all add: layout_ARM_def)
  then show ?thesis by (simp add: arm_record_def)
qed

lemma arm64_record_read:
  assumes "registers_at sw (ContextARM64 c) bs" and "length bs = 788"
  shows "same_registers (ContextARM64 c) (ContextARM64 (arm64_record
      (if sw then swap_fields layout_ARM64 (normalize_vectors 276 32 False bs) else bs)))"
proof -
  let ?ns = "if sw then normalize_vectors 276 32 False bs else bs"
  have same: "take 8 (drop (8 * i) ?ns) = take 8 (drop (8 * i) bs)" if "i < 33" for i
    using that assms(2) by (simp add: normalize_vectors_before)
  have "276 \<le> length ?ns" using assms(2) by (simp add: normalize_vectors_def)
  then have "load_field (0 + 8 * i) (if sw then swap_fields layout_ARM64 ?ns else ?ns) = c i" if "i < 33" for i
    using assms that same [OF that]
    by (intro load_swapped_element [of 8 0 i ?ns sw _ layout_ARM64 "[]" 33]) (simp_all add: layout_ARM64_def)
  moreover have "(if sw then swap_fields layout_ARM64 ?ns else ?ns) =
      (if sw then swap_fields layout_ARM64 (normalize_vectors 276 32 False bs) else bs)" by simp
  ultimately show ?thesis by (simp only: arm64_record_def same_registers.simps) simp
qed

lemma mips_record_read:
  assumes "registers_at sw (ContextMIPS c) bs" and "length bs = 596"
  shows "same_registers (ContextMIPS c) (ContextMIPS (mips_record fl (if sw then swap_fields layout_MIPS bs else bs)))"
proof -
  let ?bs = "if sw then swap_fields layout_MIPS bs else bs"
  have "load_field (308 + 8 * 0) ?bs = epc c"
    using assms by (intro load_swapped_element [of 8 308 0 bs sw _ layout_MIPS
        "replicate 4 1 @ replicate 32 8 @ [8, 8] @ replicate 6 4 @ [4] @ replicate 4 1" 2])
      (simp_all add: layout_MIPS_def sum_list_replicate replicate_two)
  moreover have "load_field (4 + 8 * i) ?bs = mips_iregs c i" if "i < 32" for i
    using assms that by (intro load_swapped_element [of 8 4 i bs sw _ layout_MIPS "replicate 4 1" 32])
      (simp_all add: layout_MIPS_def sum_list_replicate)
  ultimately show ?thesis by (simp add: mips_record_def)
qed

lemma amd64_record_read:
  assumes "registers_at sw (ContextAMD64 c) bs" and "length bs = 1232"
  shows "amd64_record (let bs = normalize_vectors 768 26 False bs in if sw then swap_fields layout_AMD64 bs else bs) = c"
proof
  fix r
  let ?ns = "normalize_vectors 768 26 False bs" and ?j = "(amd64_offset r - 120) div 8"
  have j: "?j < 17" "amd64_offset r = 120 + 8 * ?j" by (cases r; simp)+
  then have "take 8 (drop (120 + 8 * ?j) ?ns) = encode sw (c r)"
    using assms normalize_vectors_before [of "amd64_offset r" 8 768 bs 26 False] by (simp add: ac_simps)
  moreover have "768 \<le> length ?ns" using assms(2) by (simp add: normalize_vectors_def)
  ultimately have "load_field (120 + 8 * ?j) (if sw then swap_fields layout_AMD64 ?ns else ?ns) = c r"
    using j by (intro load_swapped_element [of 8 120 ?j ?ns sw _ layout_AMD64 "replicate 6 8 @ replicate 4 1 @ [4] @
        replicate 4 2 @ [1, 1] @ [2] @ [4] @ replicate 6 8" 17]) (simp_all add: layout_AMD64_def sum_list_replicate)
  then show "amd64_record (let bs = ?ns in if sw then swap_fields layout_AMD64 bs else bs) r = c r"
    using j(2) by (simp add: amd64_record_def Let_def)
qed

text \<open>
  The registers of a context with their flags, as bytes in the order of the file. Only the record
  of AMD64 has its flags inside, and two records have flags of 64 bits.
\<close>

fun written_context :: "bool \<Rightarrow> uint32 \<Rightarrow> raw_context \<Rightarrow> bytes \<Rightarrow> bool" where
  "written_context sw fl (ContextAMD64 c) bs =
     (length bs = size_AMD64 \<and> take 4 (drop 48 bs) = encode sw fl \<and> registers_at sw (ContextAMD64 c) bs)"
| "written_context sw fl (ContextPPC64 c) bs =
     (length bs = size_PPC64 \<and> take 8 bs = encode sw (ucast fl :: uint64) \<and> registers_at sw (ContextPPC64 c) (drop 8 bs))"
| "written_context sw fl (ContextARM64 c) bs =
     (length bs = size_ARM64 \<and> take 8 bs = encode sw (ucast fl :: uint64) \<and> registers_at sw (ContextARM64 c) (drop 8 bs))"
| "written_context sw fl raw bs =
     (length bs = (case raw of ContextX86 _ \<Rightarrow> size_X86 | ContextPPC _ \<Rightarrow> size_PPC | ContextSPARC _ \<Rightarrow> size_SPARC
        | ContextARM _ \<Rightarrow> size_ARM | ContextMIPS _ \<Rightarrow> size_MIPS | _ \<Rightarrow> 0) \<and>
      take 4 bs = encode sw fl \<and> registers_at sw raw (drop 4 bs))"

text \<open>A dump whose file is at a position.\<close>

definition at_position :: "bytes \<Rightarrow> nat \<Rightarrow> dump_file \<Rightarrow> dump_file" where
  "at_position bs p M = M\<lparr>dump_stream := Some \<lparr>in_bytes = bs, in_pos = p, in_failed = False\<rparr>\<rparr>"

lemma at_position_at [simp]: "at_position bs q (at_position bs p M) = at_position bs q M"
  by (simp add: at_position_def)

lemma must_swap_at [simp]: "must_swap (at_position bs p M) = must_swap M"
  by (simp add: at_position_def must_swap_def)

lemma must_swap_after: "dump_after M M' \<Longrightarrow> must_swap M' = must_swap M"
  by (simp add: dump_after_def must_swap_def)

lemma ReadBytes_at:
  "p + n \<le> length bs \<Longrightarrow> ReadBytes n (at_position bs p M) = (Some (take n (drop p bs)), at_position bs (p + n) M)"
  by (simp add: ReadBytes_def at_position_def stream_read_def Let_def)

lemma known_nonzero: "cpu \<in> set known_cpus \<Longrightarrow> cpu \<noteq> 0"
  using cpu_codes_distinct(2) by auto

lemma member_known: "cpu \<in> set (member_cpus raw) \<Longrightarrow> cpu \<in> set known_cpus"
  by (cases raw) (auto simp: known_cpus_def)

lemma read_checked_at:
  assumes "p + n \<le> length bs" and "CheckAgainstSystemInfo cpu (at_position bs (p + n) M) = (True, M')"
  shows "read_checked n cpu (at_position bs p M) = (Some (take n (drop p bs)), M')"
  using assms by (simp add: read_checked_def ReadBytes_at)

lemma read_record_at:
  assumes "p + n \<le> length bs" and "CheckAgainstSystemInfo cpu (at_position bs (p + n) M) = (True, M')"
  shows "read_record n layout cpu (at_position bs p M) =
    (Some (if must_swap M then swap_fields layout (take n (drop p bs)) else take n (drop p bs)), M')"
proof -
  have "must_swap M' = must_swap M" using must_swap_after [OF after_results(2) [OF assms(2)]] by simp
  then show ?thesis using read_checked_at [OF assms] by (simp add: read_record_def)
qed

lemma context_cpu_type_flags:
  "t \<noteq> 0 \<Longrightarrow> context_cpu_type t M = (Some t, M)"
  by (simp add: context_cpu_type_def)

text \<open>Reading a context of each kind; \<open>cpu\<close> is named by the flags.\<close>

lemma Read_other_at:
  assumes "p + n \<le> length bs" and "4 \<le> n" and "take 4 (drop p bs) = encode (must_swap M) fl"
    and "fl AND MD_CONTEXT_CPU_MASK = cpu" and "cpu \<noteq> 0"
    and "Read_switch cpu n fl (at_position bs (p + 4) M) = (Some raw, M')"
  shows "Read_other n D (at_position bs p M) = (True, SetContextFlags fl (SetContext raw D), M')"
proof -
  have "swap_if32 (must_swap M) (load_field 0 (take 4 (drop p bs))) = fl"
    using assms(3) swap_if_front(2) [where rest = "[]"] by simp
  with assms show ?thesis by (simp add: Read_other_def ReadBytes_at Let_def context_cpu_type_flags)
qed

lemma Read_switch_at:
  assumes "p + n \<le> length bs" and "CheckAgainstSystemInfo cpu (at_position bs (p + n) M) = (True, M')"
    and "cpu \<in> set (member_cpus raw)" and "written_context (must_swap M) fl raw (take n (drop p bs))"
    and "n \<noteq> size_AMD64" and "n \<noteq> size_PPC64" and "n \<noteq> size_ARM64"
  shows "4 \<le> n \<and> (\<exists>raw'. Read_switch cpu n fl (at_position bs (p + 4) M) = (Some raw', M') \<and> same_registers raw raw')"
proof -
  have len: "length (take n (drop p bs)) = n" using assms(1) by simp
  have branch: "\<exists>raw'. switch_branch n layout mk cpu n (at_position bs (p + 4) M) = (Some raw', M') \<and> same_registers raw raw'"
    if "4 \<le> n" and "same_registers raw (mk (if must_swap M then swap_fields layout (drop 4 (take n (drop p bs)))
        else drop 4 (take n (drop p bs))))" for layout mk
  proof -
    have rest: "drop 4 (take n (drop p bs)) = take (n - 4) (drop (p + 4) bs)" by (simp add: drop_take ac_simps)
    have "p + 4 + (n - 4) \<le> length bs" "p + 4 + (n - 4) = p + n" using that(1) assms(1) by simp_all
    then show ?thesis
      using that(2) [unfolded rest] assms(2) read_record_at [of "p + 4" "n - 4" bs cpu M M' layout]
      by (simp add: switch_branch_def)
  qed
  let ?rest = "drop 4 (take n (drop p bs))"
  show ?thesis
  proof (cases raw)
    case (ContextX86 c)
    then have n: "n = size_X86" and cpu: "cpu = MD_CONTEXT_X86" and regs: "registers_at (must_swap M) (ContextX86 c) ?rest"
      using assms(3,4) len by simp_all
    have "length ?rest = 712" using len n by (simp add: size_X86_def)
    from x86_record_read [OF regs this] have "same_registers raw (ContextX86 (x86_record (if must_swap M then swap_fields layout_X86 ?rest else ?rest)))"
      using ContextX86 by simp
    with n have "4 \<le> n \<and> (\<exists>raw'. switch_branch n layout_X86 (\<lambda>bs. ContextX86 (x86_record bs)) cpu n
        (at_position bs (p + 4) M) = (Some raw', M') \<and> same_registers raw raw')"
      by (intro conjI branch) (simp_all add: size_X86_def)
    then show ?thesis using n cpu by (auto simp: Read_switch_def cpu_codes)
  next
    case (ContextPPC c)
    then have n: "n = size_PPC" and cpu: "cpu = MD_CONTEXT_PPC" and regs: "registers_at (must_swap M) (ContextPPC c) ?rest"
      using assms(3,4) len by simp_all
    have "length ?rest = 1000" using len n by (simp add: size_PPC_def)
    from ppc_record_read [OF regs this] have "same_registers raw (ContextPPC (ppc_record (if must_swap M then swap_fields layout_PPC ?rest else ?rest)))"
      using ContextPPC by simp
    with n have "4 \<le> n \<and> (\<exists>raw'. switch_branch n layout_PPC (\<lambda>bs. ContextPPC (ppc_record bs)) cpu n
        (at_position bs (p + 4) M) = (Some raw', M') \<and> same_registers raw raw')"
      by (intro conjI branch) (simp_all add: size_PPC_def)
    then show ?thesis using n cpu by (auto simp: Read_switch_def cpu_codes)
  next
    case (ContextSPARC c)
    then have n: "n = size_SPARC" and cpu: "cpu = MD_CONTEXT_SPARC" and regs: "registers_at (must_swap M) (ContextSPARC c) ?rest"
      using assms(3,4) len by simp_all
    have "length ?rest = 580" using len n by (simp add: size_SPARC_def)
    from sparc_record_read [OF regs this] have "same_registers raw (ContextSPARC (sparc_record (if must_swap M then swap_fields layout_SPARC ?rest else ?rest)))"
      using ContextSPARC by simp
    with n have "4 \<le> n \<and> (\<exists>raw'. switch_branch n layout_SPARC (\<lambda>bs. ContextSPARC (sparc_record bs)) cpu n
        (at_position bs (p + 4) M) = (Some raw', M') \<and> same_registers raw raw')"
      by (intro conjI branch) (simp_all add: size_SPARC_def)
    then show ?thesis using n cpu by (auto simp: Read_switch_def cpu_codes)
  next
    case (ContextARM c)
    then have n: "n = size_ARM" and cpu: "cpu = MD_CONTEXT_ARM" and regs: "registers_at (must_swap M) (ContextARM c) ?rest"
      using assms(3,4) len by simp_all
    have "length ?rest = 364" using len n by (simp add: size_ARM_def)
    from arm_record_read [OF regs this] have "same_registers raw (ContextARM (arm_record (if must_swap M then swap_fields layout_ARM ?rest else ?rest)))"
      using ContextARM by simp
    with n have "4 \<le> n \<and> (\<exists>raw'. switch_branch n layout_ARM (\<lambda>bs. ContextARM (arm_record bs)) cpu n
        (at_position bs (p + 4) M) = (Some raw', M') \<and> same_registers raw raw')"
      by (intro conjI branch) (simp_all add: size_ARM_def)
    then show ?thesis using n cpu by (auto simp: Read_switch_def cpu_codes)
  next
    case (ContextMIPS c)
    then have n: "n = size_MIPS" and cpu: "cpu = MD_CONTEXT_MIPS \<or> cpu = MD_CONTEXT_MIPS64" and regs: "registers_at (must_swap M) (ContextMIPS c) ?rest"
      using assms(3,4) len by simp_all
    have "length ?rest = 596" using len n by (simp add: size_MIPS_def)
    from mips_record_read [OF regs this, of fl] have "same_registers raw (ContextMIPS (mips_record fl (if must_swap M then swap_fields layout_MIPS ?rest else ?rest)))"
      using ContextMIPS by simp
    with n have "4 \<le> n \<and> (\<exists>raw'. switch_branch n layout_MIPS (\<lambda>bs. ContextMIPS (mips_record fl bs)) cpu n
        (at_position bs (p + 4) M) = (Some raw', M') \<and> same_registers raw raw')"
      by (intro conjI branch) (simp_all add: size_MIPS_def)
    then show ?thesis using n cpu by (auto simp: Read_switch_def cpu_codes)
  qed (use assms(3-7) len in \<open>simp_all\<close>)
qed

lemma Read_AMD64_at:
  assumes "p + size_AMD64 \<le> length bs" and "CheckAgainstSystemInfo MD_CONTEXT_AMD64 (at_position bs (p + size_AMD64) M) = (True, M')"
    and "fl AND MD_CONTEXT_CPU_MASK = MD_CONTEXT_AMD64"
    and "written_context (must_swap M) fl (ContextAMD64 c) (take size_AMD64 (drop p bs))"
  shows "Read_AMD64 D (at_position bs p M) = (True, SetContext (ContextAMD64 c) (SetContextFlags fl D), M')"
proof -
  let ?rec = "take size_AMD64 (drop p bs)"
  have "take 4 (drop 48 ?rec) = encode (must_swap M) fl" using assms(4) by simp
  then have "load_field 48 ?rec = (load_field 0 (encode (must_swap M) fl) :: uint32)" by (simp add: load_field_def)
  then have fl: "swap_if32 (must_swap M) (load_field 48 ?rec) = fl" using swap_if_front(2) [where rest = "[]"] by simp
  have "must_swap M' = must_swap M" using must_swap_after [OF after_results(2) [OF assms(2)]] by simp
  then show ?thesis
    using assms fl amd64_record_read [of "must_swap M" c ?rec] AMD64_nonzero
    by (simp add: Read_AMD64_def ReadBytes_at Let_def context_cpu_type_flags size_AMD64_def)
qed

lemma flags_back [simp]: "ucast (ucast (fl :: uint32) :: uint64) = fl"
  by (rule bit_word_eqI) (simp add: bit_simps)

lemma flags_64:
  assumes "take 8 bs = encode sw (ucast (fl :: uint32) :: uint64)"
  shows "swap_if64 sw (load_field 0 (take 8 bs)) = ucast fl"
  using assms swap_if_front(3) [where rest = "[]"] by simp

lemma Read_PPC64_at:
  assumes "p + size_PPC64 \<le> length bs" and "CheckAgainstSystemInfo MD_CONTEXT_PPC64 (at_position bs (p + size_PPC64) M) = (True, M')"
    and "fl AND MD_CONTEXT_CPU_MASK = MD_CONTEXT_PPC64"
    and "written_context (must_swap M) fl (ContextPPC64 c) (take size_PPC64 (drop p bs))"
  shows "\<exists>raw'. Read_PPC64 D (at_position bs p M) = (True, SetContext raw' (SetContextFlags fl D), M') \<and>
    same_registers (ContextPPC64 c) raw'"
proof -
  let ?rec = "take 1152 (drop (p + 8) bs)"
  have rest: "drop 8 (take size_PPC64 (drop p bs)) = ?rec" by (simp add: drop_take size_PPC64_def ac_simps)
  have fl: "swap_if64 (must_swap M) (load_field 0 (take 8 (drop p bs))) = ucast fl"
    using assms(4) flags_64 [of "drop p bs" "must_swap M" fl] by (simp add: size_PPC64_def)
  have "read_record 1152 layout_PPC64 MD_CONTEXT_PPC64 (at_position bs (p + 8) M) =
      (Some (if must_swap M then swap_fields layout_PPC64 ?rec else ?rec), M')"
    using assms(1,2) by (intro read_record_at) (simp_all add: size_PPC64_def ac_simps)
  moreover have "MD_CONTEXT_PPC64 \<noteq> 0" by (simp add: MD_CONTEXT_PPC64_def)
  ultimately have "Read_PPC64 D (at_position bs p M) = (True, SetContext
      (ContextPPC64 (ppc64_record (if must_swap M then swap_fields layout_PPC64 ?rec else ?rec))) (SetContextFlags fl D), M')"
    using assms(1,3) fl by (simp add: Read_PPC64_def ReadBytes_at Let_def context_cpu_type_flags size_PPC64_def
      GetContextFlags_def SetContextFlags_def)
  moreover have "registers_at (must_swap M) (ContextPPC64 c) ?rec" using assms(4) unfolding rest [symmetric] by simp
  then have "same_registers (ContextPPC64 c) (ContextPPC64 (ppc64_record (if must_swap M then swap_fields layout_PPC64 ?rec else ?rec)))"
    using assms(1) by (intro ppc64_record_read) (simp_all add: size_PPC64_def)
  ultimately show ?thesis by blast
qed

lemma Read_ARM64_at:
  assumes "p + size_ARM64 \<le> length bs" and "CheckAgainstSystemInfo MD_CONTEXT_ARM64 (at_position bs (p + size_ARM64) M) = (True, M')"
    and "fl AND MD_CONTEXT_CPU_MASK = MD_CONTEXT_ARM64"
    and "written_context (must_swap M) fl (ContextARM64 c) (take size_ARM64 (drop p bs))"
  shows "\<exists>raw'. Read_ARM64 D (at_position bs p M) = (True, SetContext raw' (SetContextFlags fl D), M') \<and>
    same_registers (ContextARM64 c) raw'"
proof -
  let ?rec = "take 788 (drop (p + 8) bs)"
  have rest: "drop 8 (take size_ARM64 (drop p bs)) = ?rec" by (simp add: drop_take size_ARM64_def ac_simps)
  have fl: "swap_if64 (must_swap M) (load_field 0 (take 8 (drop p bs))) = ucast fl"
    using assms(4) flags_64 [of "drop p bs" "must_swap M" fl] by (simp add: size_ARM64_def)
  have "read_checked 788 MD_CONTEXT_ARM64 (at_position bs (p + 8) M) = (Some ?rec, M')"
    using assms(1,2) by (intro read_checked_at) (simp_all add: size_ARM64_def ac_simps)
  moreover have "must_swap M' = must_swap M" using must_swap_after [OF after_results(2) [OF assms(2)]] by simp
  moreover have "MD_CONTEXT_ARM64 \<noteq> 0" by (simp add: MD_CONTEXT_ARM64_def)
  ultimately have "Read_ARM64 D (at_position bs p M) = (True, SetContext
      (ContextARM64 (arm64_record (if must_swap M then swap_fields layout_ARM64 (normalize_vectors 276 32 False ?rec) else ?rec)))
      (SetContextFlags fl D), M')"
    using assms(1,3) fl by (simp add: Read_ARM64_def ReadBytes_at Let_def context_cpu_type_flags size_ARM64_def
      GetContextFlags_def SetContextFlags_def)
  moreover have "registers_at (must_swap M) (ContextARM64 c) ?rec" using assms(4) unfolding rest [symmetric] by simp
  then have "same_registers (ContextARM64 c) (ContextARM64 (arm64_record
      (if must_swap M then swap_fields layout_ARM64 (normalize_vectors 276 32 False ?rec) else ?rec)))"
    using assms(1) by (intro arm64_record_read) (simp_all add: size_ARM64_def)
  ultimately show ?thesis by blast
qed

text \<open>A record that was written is read by the branch of its size.\<close>

lemma Read_by_size_at:
  assumes "p + n \<le> length bs" and "written_context (must_swap M) fl raw (take n (drop p bs))"
    and "fl AND MD_CONTEXT_CPU_MASK \<in> set (member_cpus raw)"
    and "CheckAgainstSystemInfo (fl AND MD_CONTEXT_CPU_MASK) (at_position bs (p + n) M) = (True, M')"
  shows "\<exists>raw'. Read_by_size n DumpContext (at_position bs p M) =
    (True, \<lparr>ctx_valid = False, ctx_raw = raw', ctx_flags = fl\<rparr>, M') \<and> same_registers raw raw'"
proof -
  let ?cpu = "fl AND MD_CONTEXT_CPU_MASK"
  have len: "length (take n (drop p bs)) = n" using assms(1) by simp
  show ?thesis
  proof (cases "n = size_AMD64 \<or> n = size_PPC64 \<or> n = size_ARM64")
    case True
    show ?thesis
    proof (cases raw)
      case (ContextAMD64 c)
      with assms len Read_AMD64_at [of p bs M M' fl c DumpContext] show ?thesis
        by (auto simp: Read_by_size_def DumpContext_def SetContext_def SetContextFlags_def)
    next
      case (ContextPPC64 c)
      with assms len Read_PPC64_at [of p bs M M' fl c DumpContext] show ?thesis
        by (auto simp: Read_by_size_def DumpContext_def SetContext_def SetContextFlags_def size_AMD64_def size_PPC64_def)
    next
      case (ContextARM64 c)
      with assms len Read_ARM64_at [of p bs M M' fl c DumpContext] show ?thesis
        by (auto simp: Read_by_size_def DumpContext_def SetContext_def SetContextFlags_def context_size_defs)
    qed (use assms(2) True len in \<open>auto simp: context_size_defs\<close>)
  next
    case False
    with Read_switch_at [OF assms(1,4,3,2)] obtain raw' where "4 \<le> n"
      "Read_switch ?cpu n fl (at_position bs (p + 4) M) = (Some raw', M')" "same_registers raw raw'" by blast
    moreover have "take 4 (drop p bs) = encode (must_swap M) fl"
      using assms(2) False len \<open>4 \<le> n\<close> by (cases raw) auto
    ultimately show ?thesis
      using False assms(1) Read_other_at [of p n bs M fl ?cpu raw' M' DumpContext] known_nonzero [OF member_known [OF assms(3)]]
      by (simp add: Read_by_size_def DumpContext_set SetContextFlags_def)
  qed
qed

section \<open>Reading a context\<close>

text \<open>A record of X86 in the other byte order; each register holds its own offset.\<close>

definition example_x86 :: x86_context where
  "example_x86 = (\<lambda>r. word_of_nat (x86_offset r))"

definition example_record :: bytes where
  "example_record = encode True MD_CONTEXT_X86 @ replicate 152 0 @
     concat (map (\<lambda>i. encode True (word_of_nat (152 + 4 * i) :: uint32)) [0..<14]) @ replicate 504 0"

definition example_file :: dump_file where
  "example_file = (Minidump_of_stream \<lparr>in_bytes = [], in_pos = 0, in_failed = False\<rparr>)\<lparr>swap_bytes := True, dump_valid := True\<rparr>"

lemma example_written: "written_context True MD_CONTEXT_X86 (ContextX86 example_x86) example_record"
proof -
  have "take 4 (drop (x86_offset r) (drop 4 example_record)) = encode True (example_x86 r)" for r
    by (cases r; simp add: example_record_def example_x86_def upt_rec)
  then show ?thesis by (simp add: size_X86_def) (simp add: example_record_def upt_rec)
qed

lemma must_swap_example: "must_swap example_file"
  by (simp add: must_swap_def example_file_def)

lemma example_system: "CheckAgainstSystemInfo cpu (at_position bs p example_file) = (True, at_position bs p example_file)"
  by (simp add: CheckAgainstSystemInfo_def GetSystemInfo_def GetStream_def example_file_def Minidump_of_stream_def
    at_position_def)

lemma X86_flags: "MD_CONTEXT_X86 AND MD_CONTEXT_CPU_MASK = MD_CONTEXT_X86"
  by (simp add: MD_CONTEXT_X86_def MD_CONTEXT_CPU_MASK_def)

lemma example_context_read:
  "\<exists>raw'. Read_by_size size_X86 DumpContext (at_position example_record 0 example_file) =
    (True, \<lparr>ctx_valid = False, ctx_raw = raw', ctx_flags = MD_CONTEXT_X86\<rparr>, at_position example_record size_X86 example_file) \<and>
    same_registers (ContextX86 example_x86) raw'"
proof (rule Read_by_size_at [of 0 _ example_record example_file, unfolded add_0])
  have "length example_record = size_X86" by (simp add: example_record_def size_X86_def upt_rec)
  then show "written_context (must_swap example_file) MD_CONTEXT_X86 (ContextX86 example_x86) (take size_X86 (drop 0 example_record))"
    and "size_X86 \<le> length example_record"
    using example_written by (simp_all add: must_swap_example)
qed (simp_all add: X86_flags example_system)

text \<open>C23: Reading a context never goes wrong in the union, whatever it held before. It yields a valid
  context exactly if it returns true; then the union holds registers of the kind the flags name, and, but for the two
  kinds with 64-bit flags, the flags name a kind at all. All else about the file stays.\<close>

theorem MinidumpContext_Read_well_typed:
  "\<exists>ok D' M'. MinidumpContext_Read n D M = Some (ok, D', M') \<and> dump_after M M' \<and> ctx_valid D' = ok \<and> well_typed D' \<and>
     (ok \<longrightarrow> ctx_raw D' \<noteq> NullContext \<and> (n \<noteq> size_PPC64 \<and> n \<noteq> size_ARM64 \<longrightarrow> GetContextCPU D' \<in> set known_cpus))"
proof -
  obtain ok D' M' where res: "Read_by_size n DumpContext M = (ok, D', M')" by (cases "Read_by_size n DumpContext M")
  have "well_typed D'" if "\<not> ctx_valid D'" "ctx_raw D' = NullContext"
    using that cpu_codes_distinct(2) by (simp add: well_typed_def GetContextCPU_def)
  then show ?thesis
    using Read_by_size_ok [of M n] unfolding MinidumpContext_Read_by_size [OF res] res read_ok_def
    by (intro exI [of _ ok] exI [of _ "if ok then D'\<lparr>ctx_valid := True\<rparr> else D'"] exI [of _ M']) auto
qed

theorem MinidumpContext_Read_well_typed_witness:
  "\<exists>D' M'. MinidumpContext_Read size_X86 DumpContext (at_position example_record 0 example_file) = Some (True, D', M') \<and>
     ctx_raw D' \<noteq> NullContext \<and> GetContextCPU D' \<in> set known_cpus"
proof -
  from example_context_read obtain raw where "MinidumpContext_Read size_X86 DumpContext (at_position example_record 0 example_file) =
      Some (True, \<lparr>ctx_valid = True, ctx_raw = raw, ctx_flags = MD_CONTEXT_X86\<rparr>, at_position example_record size_X86 example_file)"
    by (auto simp: MinidumpContext_Read_by_size)
  with MinidumpContext_Read_well_typed [of size_X86 DumpContext "at_position example_record 0 example_file"] show ?thesis
    by (auto simp: size_X86_def size_PPC64_def size_ARM64_def)
qed

text \<open>C19: A record of registers in the byte order of the file is read back: if its flags name its kind and the
  system information does not speak against it, the context is valid, has the flags and exactly the registers that
  were written, whether or not the bytes have to be swapped.\<close>

theorem MinidumpContext_Read_registers:
  assumes "p + n \<le> length bs" and "written_context (must_swap M) fl raw (take n (drop p bs))"
    and "fl AND MD_CONTEXT_CPU_MASK \<in> set (member_cpus raw)"
    and "CheckAgainstSystemInfo (fl AND MD_CONTEXT_CPU_MASK) (at_position bs (p + n) M) = (True, M')"
  shows "\<exists>D'. MinidumpContext_Read n D (at_position bs p M) = Some (True, D', M') \<and> ctx_valid D' \<and>
    GetContextFlags D' = fl \<and> same_registers raw (ctx_raw D')"
proof -
  from Read_by_size_at [OF assms] obtain raw' where
    "Read_by_size n DumpContext (at_position bs p M) = (True, \<lparr>ctx_valid = False, ctx_raw = raw', ctx_flags = fl\<rparr>, M')"
    "same_registers raw raw'" by blast
  then show ?thesis by (simp add: MinidumpContext_Read_by_size GetContextFlags_def)
qed

theorem MinidumpContext_Read_registers_witness:
  "\<exists>D'. MinidumpContext_Read size_X86 DumpContext (at_position example_record 0 example_file) =
     Some (True, D', at_position example_record size_X86 example_file) \<and> ctx_raw D' = ContextX86 example_x86"
proof -
  have "length example_record = size_X86" by (simp add: example_record_def size_X86_def upt_rec)
  then obtain D' where "MinidumpContext_Read size_X86 DumpContext (at_position example_record 0 example_file) =
      Some (True, D', at_position example_record size_X86 example_file)" "same_registers (ContextX86 example_x86) (ctx_raw D')"
    using MinidumpContext_Read_registers [of 0 size_X86 example_record example_file MD_CONTEXT_X86 "ContextX86 example_x86"
        "at_position example_record size_X86 example_file" DumpContext] example_written
    by (auto simp: must_swap_example X86_flags example_system)
  then show ?thesis by (cases "ctx_raw D'") auto
qed

end
