(* ===== verification/Minidump_Streams.thy ===== *)
theory Minidump_Streams
  imports Minidump_Context
begin

text \<open>
  The streams of threads, of memory and of the exception of processor/minidump.cc:
  \<open>MinidumpThread\<close>, \<open>MinidumpThreadList\<close>, \<open>MinidumpMemoryList\<close> and \<open>MinidumpException\<close>. A pointer
  to an element of a list is its index; the file is an argument of the operations that read it. What
  a read that failed leaves in a structure is not modelled: the object is not valid then.
\<close>

section \<open>Counted lists\<close>

text \<open>
  The count at the front of a list whose elements have \<open>size\<close> bytes, with the padding that some
  ABIs put behind it. The sums are of type \<open>size_t\<close>.
\<close>

definition read_count :: "nat \<Rightarrow> uint32 \<Rightarrow> uint32 \<Rightarrow> dump_file \<Rightarrow> uint32 option \<times> dump_file" where
  "read_count element_size limit expected_size M =
     (if unat expected_size < 4 then (None, M)
      else
        (case ReadBytes 4 M of
           (None, M) \<Rightarrow> (None, M)
         | (Some bs, M) \<Rightarrow>
             let count = swap_if32 (must_swap M) (load_field 0 bs) in
             if unat count > (2 ^ 32 - 1) div element_size then (None, M)
             else
               (case
                  (if unat expected_size \<noteq> 4 + unat count * element_size then
                     if unat expected_size = 4 + 4 + unat count * element_size then ReadBytes 4 M else (None, M)
                   else (Some [], M)) of
                  (None, M) \<Rightarrow> (None, M)
                | (Some _, M) \<Rightarrow> if count > limit then (None, M) else (Some count, M))))"

section \<open>Threads\<close>

definition read_raw_thread :: "bool \<Rightarrow> bytes \<Rightarrow> raw_thread" where
  "read_raw_thread sw bs =
     \<lparr>thread_id = swap_if32 sw (load_field 0 bs), suspend_count = swap_if32 sw (load_field 4 bs),
      priority_class = swap_if32 sw (load_field 8 bs), priority = swap_if32 sw (load_field 12 bs),
      teb = swap_if64 sw (load_field 16 bs), stack_descriptor = raw_memory_descriptor sw 24 bs,
      thread_context = raw_location sw 40 bs\<rparr>"

definition MinidumpThread :: minidump_thread where
  "MinidumpThread = \<lparr>thr_valid = False, thr_raw = read_raw_thread False (replicate 48 0), thr_memory = None, thr_context = None\<rparr>"

text \<open>The stack, if the thread has one that makes sense.\<close>

definition stack_region :: "memory_descriptor \<Rightarrow> minidump_region option" where
  "stack_region d =
     (if rva d = 0 \<or> data_size d = 0 \<or> ucast (data_size d) > (- 1 :: uint64) - start_of_memory_range d then None
      else Some (SetDescriptor (Some d) MinidumpMemoryRegion))"

definition MinidumpThread_Read :: "minidump_thread \<Rightarrow> dump_file \<Rightarrow> bool \<times> minidump_thread \<times> dump_file" where
  "MinidumpThread_Read T M =
     (let T = T\<lparr>thr_memory := None, thr_context := None, thr_valid := False\<rparr> in
      case ReadBytes 48 M of
        (None, M) \<Rightarrow> (False, T, M)
      | (Some bs, M) \<Rightarrow>
          let raw = read_raw_thread (must_swap M) bs in
          (True, T\<lparr>thr_raw := raw, thr_memory := stack_region (stack_descriptor raw), thr_valid := True\<rparr>, M))"

definition GetStartOfStackMemoryRange :: "minidump_thread \<Rightarrow> uint64" where
  "GetStartOfStackMemoryRange T = (if \<not> thr_valid T then 0 else start_of_memory_range (stack_descriptor (thr_raw T)))"

definition Thread_GetMemory :: "minidump_thread \<Rightarrow> minidump_region option" where
  "Thread_GetMemory T = (if \<not> thr_valid T then None else thr_memory T)"

definition GetThreadID :: "minidump_thread \<Rightarrow> bool \<times> uint32" where
  "GetThreadID T = (if \<not> thr_valid T then (False, 0) else (True, thread_id (thr_raw T)))"

text \<open>A context read into a new object; the outer None is the wrong member of the union.\<close>

definition read_context :: "location_descriptor \<Rightarrow> dump_file \<Rightarrow> (dump_context option \<times> dump_file) option" where
  "read_context l M =
     (case SeekSet (uint (loc_rva l)) M of
        (False, M) \<Rightarrow> Some (None, M)
      | (True, M) \<Rightarrow>
          (case MinidumpContext_Read (unat (loc_size l)) DumpContext M of
             None \<Rightarrow> None
           | Some (ok, D, M) \<Rightarrow> Some (if ok then Some D else None, M)))"

definition Thread_GetContext :: "minidump_thread \<Rightarrow> dump_file \<Rightarrow> (dump_context option \<times> minidump_thread \<times> dump_file) option" where
  "Thread_GetContext T M =
     (if \<not> thr_valid T then Some (None, T, M)
      else
        (case thr_context T of
           Some D \<Rightarrow> Some (Some D, T, M)
         | None \<Rightarrow>
             (case read_context (thread_context (thr_raw T)) M of
                None \<Rightarrow> None
              | Some (D, M) \<Rightarrow> Some (D, T\<lparr>thr_context := D\<rparr>, M))))"

section \<open>The list of threads\<close>

definition max_threads :: uint32 where "max_threads = 4096"

definition MinidumpThreadList :: thread_list where
  "MinidumpThreadList = \<lparr>thrl_valid = False, id_to_thread_map = Map.empty, thrl_threads = [], thread_count = 0\<rparr>"

text \<open>A lookup that fails enters a null pointer, which later lookups do not tell from no entry.\<close>

definition GetThreadByID :: "uint32 \<Rightarrow> thread_list \<Rightarrow> nat option" where
  "GetThreadByID t L = id_to_thread_map L t"

text \<open>The loop, from a thread on; the map keeps its entries when a thread cannot be read.\<close>

fun read_threads :: "nat \<Rightarrow> nat \<Rightarrow> thread_list \<Rightarrow> dump_file \<Rightarrow> bool \<times> minidump_thread list \<times> thread_list \<times> dump_file" where
  "read_threads thread_index 0 L M = (True, [], L, M)"
| "read_threads thread_index (Suc n) L M =
     (case MinidumpThread_Read MinidumpThread M of
        (False, T, M) \<Rightarrow> (False, [], L, M)
      | (True, T, M) \<Rightarrow>
          (case GetThreadID T of
             (False, t) \<Rightarrow> (False, [], L, M)
           | (True, t) \<Rightarrow>
               if GetThreadByID t L \<noteq> None then (False, [], L, M)
               else
                 (case read_threads (Suc thread_index) n (L\<lparr>id_to_thread_map := (id_to_thread_map L)(t \<mapsto> thread_index)\<rparr>) M of
                    (ok, Ts, L, M) \<Rightarrow> (ok, T # Ts, L, M))))"

definition ThreadList_Read :: "uint32 \<Rightarrow> thread_list \<Rightarrow> dump_file \<Rightarrow> bool \<times> thread_list \<times> dump_file" where
  "ThreadList_Read expected_size L M =
     (let L = L\<lparr>thrl_valid := False, id_to_thread_map := Map.empty, thrl_threads := [], thread_count := 0\<rparr> in
      case read_count 48 max_threads expected_size M of
        (None, M) \<Rightarrow> (False, L, M)
      | (Some count, M) \<Rightarrow>
          if count \<noteq> 0 then
            (case read_threads 0 (unat count) L M of
               (False, _, L, M) \<Rightarrow> (False, L, M)
             | (True, Ts, L, M) \<Rightarrow> (True, L\<lparr>thrl_threads := Ts, thread_count := count, thrl_valid := True\<rparr>, M))
          else (True, L\<lparr>thread_count := count, thrl_valid := True\<rparr>, M))"

definition GetThreadAtIndex :: "nat \<Rightarrow> thread_list \<Rightarrow> minidump_thread option" where
  "GetThreadAtIndex index L =
     (if \<not> thrl_valid L then None else if index \<ge> unat (thread_count L) then None else Some (thrl_threads L ! index))"

definition GetThreadList :: "dump_file \<Rightarrow> thread_list option \<times> dump_file" where
  "GetThreadList M =
     (case GetStream MD_THREAD_LIST_STREAM
             (\<lambda>n M. case ThreadList_Read n MinidumpThreadList M of (ok, L, M) \<Rightarrow> (if ok then Some (ThreadListStream L) else None, M)) M of
        (Some (ThreadListStream L), M) \<Rightarrow> (Some L, M)
      | (_, M) \<Rightarrow> (None, M))"

section \<open>The list of memory\<close>

definition max_regions :: uint32 where "max_regions = 4096"

definition MinidumpMemoryList :: memory_list where
  "MinidumpMemoryList = \<lparr>meml_valid = False, meml_range_map = RangeMap_init, meml_regions = [], region_count = 0\<rparr>"

text \<open>The loop over the descriptors, from a region on.\<close>

fun store_regions :: "nat \<Rightarrow> memory_descriptor list \<Rightarrow> (uint64, nat) range_map \<Rightarrow>
    bool \<times> minidump_region list \<times> (uint64, nat) range_map" where
  "store_regions region_index [] rm = (True, [], rm)"
| "store_regions region_index (d # ds) rm =
     (if data_size d = 0 \<or> ucast (data_size d) > (- 1 :: uint64) - start_of_memory_range d then (False, [], rm)
      else
        (case StoreRange rm (start_of_memory_range d) (ucast (data_size d)) region_index of
           (False, rm) \<Rightarrow> (False, [], rm)
         | (True, rm) \<Rightarrow>
             (case store_regions (Suc region_index) ds rm of
                (ok, Rs, rm) \<Rightarrow> (ok, SetDescriptor (Some d) MinidumpMemoryRegion # Rs, rm))))"

definition MemoryList_Read :: "uint32 \<Rightarrow> memory_list \<Rightarrow> dump_file \<Rightarrow> bool \<times> memory_list \<times> dump_file" where
  "MemoryList_Read expected_size L M =
     (let L = L\<lparr>meml_valid := False, meml_range_map := Clear (meml_range_map L), meml_regions := [], region_count := 0\<rparr> in
      case read_count 16 max_regions expected_size M of
        (None, M) \<Rightarrow> (False, L, M)
      | (Some count, M) \<Rightarrow>
          if count \<noteq> 0 then
            (case ReadBytes (16 * unat count) M of
               (None, M) \<Rightarrow> (False, L, M)
             | (Some bs, M) \<Rightarrow>
                 (case store_regions 0 (map (raw_memory_descriptor (must_swap M) 0) (elements 16 (unat count) bs))
                         (meml_range_map L) of
                    (False, _, rm) \<Rightarrow> (False, L\<lparr>meml_range_map := rm\<rparr>, M)
                  | (True, Rs, rm) \<Rightarrow>
                      (True, L\<lparr>meml_range_map := rm, meml_regions := Rs, region_count := count, meml_valid := True\<rparr>, M)))
          else (True, L\<lparr>region_count := count, meml_valid := True\<rparr>, M))"

definition GetMemoryRegionAtIndex :: "nat \<Rightarrow> memory_list \<Rightarrow> minidump_region option" where
  "GetMemoryRegionAtIndex index L =
     (if \<not> meml_valid L then None else if index \<ge> unat (region_count L) then None else Some (meml_regions L ! index))"

definition GetMemoryRegionForAddress :: "uint64 \<Rightarrow> memory_list \<Rightarrow> minidump_region option" where
  "GetMemoryRegionForAddress address L =
     (if \<not> meml_valid L then None
      else
        (case RetrieveRange (meml_range_map L) address of
           None \<Rightarrow> None
         | Some (region_index, _) \<Rightarrow> GetMemoryRegionAtIndex region_index L))"

definition GetMemoryList :: "dump_file \<Rightarrow> memory_list option \<times> dump_file" where
  "GetMemoryList M =
     (case GetStream MD_MEMORY_LIST_STREAM
             (\<lambda>n M. case MemoryList_Read n MinidumpMemoryList M of (ok, L, M) \<Rightarrow> (if ok then Some (MemoryListStream L) else None, M)) M of
        (Some (MemoryListStream L), M) \<Rightarrow> (Some L, M)
      | (_, M) \<Rightarrow> (None, M))"

section \<open>The exception\<close>

text \<open>Behind the thread and the number of parameters there are four bytes of padding.\<close>

definition read_raw_exception :: "bool \<Rightarrow> bytes \<Rightarrow> raw_exception" where
  "read_raw_exception sw bs =
     \<lparr>exc_thread_id = swap_if32 sw (load_field 0 bs), exception_code = swap_if32 sw (load_field 8 bs),
      exception_flags = swap_if32 sw (load_field 12 bs), exception_record = swap_if64 sw (load_field 16 bs),
      exception_address = swap_if64 sw (load_field 24 bs), number_parameters = swap_if32 sw (load_field 32 bs),
      exception_information = map (\<lambda>i. swap_if64 sw (load_field (40 + 8 * i) bs)) [0..<15],
      exc_thread_context = raw_location sw 160 bs\<rparr>"

definition MinidumpException :: minidump_exception where
  "MinidumpException = \<lparr>exc_valid = False, exc_raw = read_raw_exception False (replicate 168 0), exc_context = None\<rparr>"

definition Exception_Read :: "uint32 \<Rightarrow> minidump_exception \<Rightarrow> dump_file \<Rightarrow> bool \<times> minidump_exception \<times> dump_file" where
  "Exception_Read expected_size X M =
     (let X = X\<lparr>exc_context := None, exc_valid := False\<rparr> in
      if expected_size \<noteq> 168 then (False, X, M)
      else
        (case ReadBytes 168 M of
           (None, M) \<Rightarrow> (False, X, M)
         | (Some bs, M) \<Rightarrow> (True, X\<lparr>exc_raw := read_raw_exception (must_swap M) bs, exc_valid := True\<rparr>, M)))"

definition Exception_GetThreadID :: "minidump_exception \<Rightarrow> bool \<times> uint32" where
  "Exception_GetThreadID X = (if \<not> exc_valid X then (False, 0) else (True, exc_thread_id (exc_raw X)))"

definition Exception_GetContext ::
  "minidump_exception \<Rightarrow> dump_file \<Rightarrow> (dump_context option \<times> minidump_exception \<times> dump_file) option" where
  "Exception_GetContext X M =
     (if \<not> exc_valid X then Some (None, X, M)
      else
        (case exc_context X of
           Some D \<Rightarrow> Some (Some D, X, M)
         | None \<Rightarrow>
             (case read_context (exc_thread_context (exc_raw X)) M of
                None \<Rightarrow> None
              | Some (D, M) \<Rightarrow> Some (D, X\<lparr>exc_context := D\<rparr>, M))))"

definition GetException :: "dump_file \<Rightarrow> minidump_exception option \<times> dump_file" where
  "GetException M =
     (case GetStream MD_EXCEPTION_STREAM
             (\<lambda>n M. case Exception_Read n MinidumpException M of (ok, X, M) \<Rightarrow> (if ok then Some (ExceptionStream X) else None, M)) M of
        (Some (ExceptionStream X), M) \<Rightarrow> (Some X, M)
      | (_, M) \<Rightarrow> (None, M))"

section \<open>Reading memory\<close>

text \<open>
  \<open>MinidumpMemoryRegion::GetMemory\<close> over the file itself, with its position and failures, and the
  view of the file that the regions of the walkers have.
\<close>

definition Region_GetMemory :: "dump_file \<Rightarrow> minidump_region \<Rightarrow> bytes option \<times> minidump_region \<times> dump_file" where
  "Region_GetMemory M R =
     (case descriptor R of
        None \<Rightarrow> (None, R, M)
      | Some d \<Rightarrow>
          if \<not> minidump_region.valid R then (None, R, M)
          else if cached R \<noteq> None then (cached R, R, M)
          else if data_size d = 0 then (None, R, M)
          else
            (case SeekSet (uint (rva d)) M of
               (False, M) \<Rightarrow> (None, R, M)
             | (True, M) \<Rightarrow>
                 if data_size d > max_bytes then (None, R, M)
                 else
                   (case ReadBytes (unat (data_size d)) M of
                      (None, M) \<Rightarrow> (None, R, M)
                    | (Some bs, M) \<Rightarrow> (Some bs, R\<lparr>cached := Some bs\<rparr>, M))))"

definition as_minidump :: "dump_file \<Rightarrow> minidump" where
  "as_minidump M =
     \<lparr>stream = (case dump_stream M of None \<Rightarrow> None | Some s \<Rightarrow> if in_failed s then None else Some (in_bytes s)),
      swap = must_swap M\<rparr>"

lemma SeekSet_failed: "stream_failed M \<Longrightarrow> SeekSet n M = (False, M') \<Longrightarrow> as_minidump M' = as_minidump M"
  by (auto simp: SeekSet_def stream_seek_def stream_failed_def as_minidump_def Let_def must_swap_def split: option.splits)

text \<open>Reading at a place of the file is what a region relies on.\<close>

lemma Seek_Read_refines:
  assumes "SeekSet (uint offset) M = (sought, M1)"
  shows "sought \<longleftrightarrow> stream (as_minidump M) \<noteq> None" and "as_minidump M1 = as_minidump M"
    and "sought \<Longrightarrow> ReadBytes (unat count) M1 = (bs, M2) \<Longrightarrow>
      SeekRead (as_minidump M) offset count = bs \<and> (bs \<noteq> None \<longrightarrow> as_minidump M2 = as_minidump M)"
  using assms
  by (auto simp: SeekSet_def stream_seek_def as_minidump_def must_swap_def Let_def ReadBytes_def stream_read_def SeekRead_def
      nat_uint_eq split: option.splits if_splits)

lemma SeekSet_result_after: "SeekSet k M = (r, M') \<Longrightarrow> dump_after M M'"
  using SeekSet_after [of M k] by simp

text \<open>C22: Reading a region from the file is what the walkers' view of the file says: the same bytes and the same
  cache, however the position was left; a region that is found leaves the view as it is, and all
  that changes of the file is its position or a failure.\<close>

theorem Region_GetMemory_refines:
  "case Region_GetMemory M R of (bs, R', M') \<Rightarrow>
     GetMemory (as_minidump M) R = (bs, R') \<and> dump_after M M' \<and> (bs \<noteq> None \<longrightarrow> as_minidump M' = as_minidump M)"
proof (cases "descriptor R")
  case (Some d)
  obtain sought M1 where seek: "SeekSet (uint (rva d)) M = (sought, M1)" by fastforce
  obtain bs M2 where read: "ReadBytes (unat (data_size d)) M1 = (bs, M2)" by fastforce
  have "dump_after M M1" using SeekSet_result_after [OF seek] .
  moreover have "dump_after M M2" using calculation after_results(1) [OF read] dump_after_trans by blast
  moreover note Seek_Read_refines(1,2) [OF seek] Seek_Read_refines(3) [OF seek _ read]
  moreover have "SeekRead (as_minidump M) (rva d) (data_size d) = None" if "\<not> sought"
    using that calculation(3) by (simp add: SeekRead_def)
  ultimately show ?thesis
    using Some seek read by (cases sought; cases bs) (auto simp: Region_GetMemory_def GetMemory_def)
qed (simp add: Region_GetMemory_def GetMemory_def)

section \<open>Reading lists\<close>

definition encode_memory :: "bool \<Rightarrow> memory_descriptor \<Rightarrow> bytes" where
  "encode_memory sw d = encode sw (start_of_memory_range d) @ encode sw (data_size d) @ encode sw (rva d)"

definition encode_thread :: "bool \<Rightarrow> raw_thread \<Rightarrow> bytes" where
  "encode_thread sw t =
     encode sw (thread_id t) @ encode sw (suspend_count t) @ encode sw (priority_class t) @ encode sw (priority t) @
     encode sw (teb t) @ encode_memory sw (stack_descriptor t) @ encode_location sw (thread_context t)"

lemma length_encode_memory [simp]: "length (encode_memory sw d) = 16"
  by (simp add: encode_memory_def)

lemma length_encode_location [simp]: "length (encode_location sw l) = 8"
  by (simp add: encode_location_def)

lemma length_encode_thread [simp]: "length (encode_thread sw t) = 48"
  by (simp add: encode_thread_def)

lemma raw_memory_encode: "raw_memory_descriptor sw 0 (encode_memory sw d) = d"
  by (simp add: raw_memory_descriptor_def encode_memory_def decode_simps)

lemma read_raw_thread_encode: "read_raw_thread sw (encode_thread sw t) = t"
  by (simp add: read_raw_thread_def encode_thread_def raw_memory_descriptor_def encode_memory_def raw_location_def
      encode_location_def decode_simps)

lemma ReadBytes_front:
  assumes "drop p bs = xs @ rest"
  shows "ReadBytes (length xs) (at_position bs p M) = (Some xs, at_position bs (p + length xs) M)"
    and "drop (p + length xs) bs = rest"
proof -
  have "length (drop p bs) = length xs + length rest" using assms by simp
  then have "p + length xs \<le> length bs \<or> xs = []" by (cases xs) auto
  moreover have "ReadBytes 0 (at_position bs p M) = (Some [], at_position bs p M)"
    by (simp add: ReadBytes_def at_position_def stream_read_def)
  ultimately show "ReadBytes (length xs) (at_position bs p M) = (Some xs, at_position bs (p + length xs) M)"
    using ReadBytes_at [of p "length xs" bs M] assms by auto
  have "drop (p + length xs) bs = drop (length xs) (drop p bs)" by (simp add: add.commute)
  then show "drop (p + length xs) bs = rest" using assms by simp
qed

lemma read_count_at:
  assumes "drop p bs = encode (must_swap M) count @ pad @ rest" and "length pad \<in> {0, 4}"
    and "unat count * n < 2 ^ 32" and "0 < n" and "count \<le> limit"
    and "unat expected = 4 + length pad + unat count * n"
  shows "read_count n limit expected (at_position bs p M) = (Some count, at_position bs (p + 4 + length pad) M)"
proof -
  note count = ReadBytes_front(1) [OF assms(1), of M] ReadBytes_front(2) [OF assms(1)]
  note pad = ReadBytes_front(1) [OF count(2), of M]
  have "unat count * n \<le> 2 ^ 32 - 1" using assms(3) by simp
  then have "unat count \<le> (2 ^ 32 - 1) div n" using assms(4) by (simp add: less_eq_div_iff_mult_less_eq)
  then show ?thesis
    using count pad assms(2,5,6) by (auto simp: read_count_def decode_simps not_less)
qed

text \<open>A thread that has been read.\<close>

definition thread_object :: "raw_thread \<Rightarrow> minidump_thread" where
  "thread_object t = \<lparr>thr_valid = True, thr_raw = t, thr_memory = stack_region (stack_descriptor t), thr_context = None\<rparr>"

lemma MinidumpThread_Read_at:
  assumes "drop p bs = encode_thread (must_swap M) t @ rest"
  shows "MinidumpThread_Read MinidumpThread (at_position bs p M) = (True, thread_object t, at_position bs (p + 48) M)"
  using ReadBytes_front(1) [OF assms, of M]
  by (simp add: MinidumpThread_Read_def Let_def read_raw_thread_encode thread_object_def MinidumpThread_def)

lemma GetThreadID_object [simp]: "GetThreadID (thread_object t) = (True, thread_id t)"
  by (simp add: GetThreadID_def thread_object_def)

lemma read_threads_at:
  assumes "drop p bs = concat (map (encode_thread (must_swap M)) ts) @ rest"
    and "read_threads i (length ts) L (at_position bs p M) = (ok, Ts, L', M')"
  shows "(ok \<longleftrightarrow> distinct (map thread_id ts) \<and> (\<forall>t \<in> set ts. id_to_thread_map L (thread_id t) = None)) \<and>
    (ok \<longrightarrow> Ts = map thread_object ts \<and> M' = at_position bs (p + 48 * length ts) M \<and>
      (\<exists>ids. L' = L\<lparr>id_to_thread_map := ids\<rparr> \<and> (\<forall>k < length ts. ids (thread_id (ts ! k)) = Some (i + k)) \<and>
        (\<forall>t. t \<notin> thread_id ` set ts \<longrightarrow> ids t = id_to_thread_map L t)))"
  using assms
proof (induction ts arbitrary: p i L ok Ts L' M')
  case Nil
  then show ?case by (auto intro: exI [of _ "id_to_thread_map L"])
next
  case (Cons t ts)
  let ?L = "L\<lparr>id_to_thread_map := (id_to_thread_map L)(thread_id t \<mapsto> i)\<rparr>"
  have at: "drop p bs = encode_thread (must_swap M) t @ concat (map (encode_thread (must_swap M)) ts) @ rest"
    using Cons.prems(1) by simp
  have next_at: "drop (p + 48) bs = concat (map (encode_thread (must_swap M)) ts) @ rest"
    using ReadBytes_front(2) [OF at] by simp
  note run = Cons.prems(2) [simplified, unfolded MinidumpThread_Read_at [OF at], simplified, unfolded GetThreadByID_def]
  show ?case
  proof (cases "id_to_thread_map L (thread_id t) = None")
    case False
    with run show ?thesis by auto
  next
    case True
    obtain Us where rec: "read_threads (Suc i) (length ts) ?L (at_position bs (p + 48) M) = (ok, Us, L', M')"
      and Ts: "Ts = thread_object t # Us"
      using run True by (auto split: prod.splits)
    note IH = Cons.IH [OF next_at rec]
    have "ok \<longleftrightarrow> distinct (map thread_id (t # ts)) \<and> (\<forall>u \<in> set (t # ts). id_to_thread_map L (thread_id u) = None)"
      using IH True by (auto simp: image_iff)
    moreover have "Ts = map thread_object (t # ts) \<and> M' = at_position bs (p + 48 * length (t # ts)) M \<and>
      (\<exists>ids. L' = L\<lparr>id_to_thread_map := ids\<rparr> \<and> (\<forall>k < length (t # ts). ids (thread_id ((t # ts) ! k)) = Some (i + k)) \<and>
        (\<forall>u. u \<notin> thread_id ` set (t # ts) \<longrightarrow> ids u = id_to_thread_map L u))" if ok
    proof -
      from IH that obtain ids where ids: "L' = ?L\<lparr>id_to_thread_map := ids\<rparr>" "\<forall>k < length ts. ids (thread_id (ts ! k)) = Some (Suc i + k)"
        "\<forall>u. u \<notin> thread_id ` set ts \<longrightarrow> ids u = id_to_thread_map ?L u" "Us = map thread_object ts"
        "M' = at_position bs (p + 48 + 48 * length ts) M" by blast
      have new: "thread_id t \<notin> thread_id ` set ts" using calculation that by simp
      then have "\<forall>k < length (t # ts). ids (thread_id ((t # ts) ! k)) = Some (i + k)"
        using ids(2,3) by (simp add: nth_Cons split: nat.split)
      moreover have "\<forall>u. u \<notin> thread_id ` set (t # ts) \<longrightarrow> ids u = id_to_thread_map L u" using ids(3) by auto
      ultimately show ?thesis using ids Ts by (intro conjI exI [of _ ids]) (simp_all add: add.assoc)
    qed
    ultimately show ?thesis by blast
  qed
qed

text \<open>The bytes of a counted list.\<close>

definition list_image :: "bool \<Rightarrow> uint32 \<Rightarrow> bytes list \<Rightarrow> uint32 \<Rightarrow> bytes \<Rightarrow> bool" where
  "list_image sw limit elems n bs \<longleftrightarrow>
     (\<exists>count pad. unat count = length elems \<and> count \<le> limit \<and> length pad \<in> {0, 4} \<and>
        unat n = 4 + length pad + length (concat elems) \<and> bs = encode sw count @ pad @ concat elems)"

text \<open>C21: A list of threads, with or without padding, is read exactly if no two threads have the same id. The
  list then has the threads that were written, in their order, each with its stack if the
  descriptor makes sense, and the thread of an id is the one that was written with it.\<close>

theorem ThreadList_Read_correct:
  assumes "list_image (must_swap M) max_threads (map (encode_thread (must_swap M)) ts) n (take (unat n) (drop p bs))"
  shows "case ThreadList_Read n L (at_position bs p M) of (ok, L', M') \<Rightarrow>
    (ok \<longleftrightarrow> distinct (map thread_id ts)) \<and>
    (ok \<longrightarrow> M' = at_position bs (p + unat n) M \<and> unat (thread_count L') = length ts \<and>
       (\<forall>i. GetThreadAtIndex i L' = (if i < length ts then Some (thread_object (ts ! i)) else None)) \<and>
       (\<forall>i < length ts. GetThreadByID (thread_id (ts ! i)) L' = Some i) \<and>
       (\<forall>t. t \<notin> thread_id ` set ts \<longrightarrow> GetThreadByID t L' = None))"
proof -
  let ?L = "L\<lparr>thrl_valid := False, id_to_thread_map := Map.empty, thrl_threads := [], thread_count := 0\<rparr>"
  let ?bytes = "concat (map (encode_thread (must_swap M)) ts)"
  from assms obtain count pad where image: "unat count = length ts" "count \<le> max_threads" "length pad \<in> {0, 4}"
    "unat n = 4 + length pad + length ?bytes" "take (unat n) (drop p bs) = encode (must_swap M) count @ pad @ ?bytes"
    unfolding list_image_def by auto
  have len: "length ?bytes = 48 * length ts" by (induction ts) simp_all
  have at: "drop p bs = encode (must_swap M) count @ pad @ ?bytes @ drop (unat n) (drop p bs)"
    using image(5) by (metis append.assoc append_take_drop_id)
  have "unat count \<le> 4096" using image(2) by (simp add: max_threads_def word_le_nat_alt)
  then have count: "read_count 48 max_threads n (at_position bs p M) = (Some count, at_position bs (p + 4 + length pad) M)"
    using image len by (intro read_count_at [OF at]) simp_all
  have rest: "drop (p + 4 + length pad) bs = ?bytes @ drop (unat n) (drop p bs)"
    using ReadBytes_front(2) [OF ReadBytes_front(2) [OF at]] by simp
  obtain ok Ts L' M' where run: "read_threads 0 (length ts) ?L (at_position bs (p + 4 + length pad) M) = (ok, Ts, L', M')"
    by (metis prod_cases4)
  note all = read_threads_at [OF rest run]
  show ?thesis
  proof (cases "count = 0")
    case True
    then show ?thesis
      using image(1,4) count by (auto simp: ThreadList_Read_def Let_def GetThreadAtIndex_def GetThreadByID_def add.assoc)
  next
    case False
    then have read: "ThreadList_Read n L (at_position bs p M) =
        (if ok then (True, L'\<lparr>thrl_threads := Ts, thread_count := count, thrl_valid := True\<rparr>, M') else (False, L', M'))"
      using count run image(1) by (simp add: ThreadList_Read_def Let_def split: bool.split)
    show ?thesis
      using all image(1,4) len unfolding read by (auto simp: GetThreadAtIndex_def GetThreadByID_def add.assoc)
  qed
qed

text \<open>A thread on one page of stack, and a list of two such threads in the other byte order.\<close>

definition example_thread :: "uint32 \<Rightarrow> raw_thread" where
  "example_thread t =
     \<lparr>thread_id = t, suspend_count = 0, priority_class = 0, priority = 0, teb = 0,
      stack_descriptor = \<lparr>start_of_memory_range = 0x7000, data_size = 0x1000, rva = 0x200\<rparr>,
      thread_context = \<lparr>loc_size = 716, loc_rva = 0x80\<rparr>\<rparr>"

definition example_list :: bytes where
  "example_list = encode True (2 :: uint32) @ replicate 4 0 @ encode_thread True (example_thread 7) @ encode_thread True (example_thread 9)"

lemma example_list_image:
  "list_image True max_threads (map (encode_thread True) [example_thread 7, example_thread 9]) 104 (take (unat (104 :: uint32)) (drop 0 example_list))"
  unfolding list_image_def
  by (intro exI [of _ "2 :: uint32"] exI [of _ "replicate 4 0"]) (simp add: max_threads_def, simp add: example_list_def)

theorem ThreadList_Read_correct_witness:
  "case ThreadList_Read 104 MinidumpThreadList (at_position example_list 0 example_file) of (ok, L', M') \<Rightarrow>
     ok \<and> GetThreadByID 9 L' = Some 1 \<and> GetThreadAtIndex 1 L' = Some (thread_object (example_thread 9))"
proof -
  obtain ok L' M' where run: "ThreadList_Read 104 MinidumpThreadList (at_position example_list 0 example_file) = (ok, L', M')"
    by (metis prod_cases3)
  have "ok \<longleftrightarrow> distinct (map thread_id [example_thread 7, example_thread 9])"
    "ok \<Longrightarrow> GetThreadAtIndex 1 L' = Some (thread_object (example_thread 9))"
    "ok \<Longrightarrow> \<forall>i < 2. GetThreadByID (thread_id ([example_thread 7, example_thread 9] ! i)) L' = Some i"
    using ThreadList_Read_correct [of example_file "[example_thread 7, example_thread 9]" 104 0 example_list MinidumpThreadList]
      example_list_image run by (simp_all add: must_swap_example)
  moreover have "distinct (map thread_id [example_thread 7, example_thread 9])" "thread_id (example_thread 9) = 9"
    by (simp_all add: example_thread_def)
  ultimately show ?thesis using run by (auto dest: spec [of _ 1])
qed

definition example_region :: minidump_region where
  "example_region = SetDescriptor (Some \<lparr>start_of_memory_range = 0x7000, data_size = 2, rva = 1\<rparr>) MinidumpMemoryRegion"

theorem Region_GetMemory_refines_witness:
  "case Region_GetMemory (at_position [9, 1, 2] 3 example_file) example_region of (bs, R', M') \<Rightarrow>
     bs = Some [1, 2] \<and> GetMemory (as_minidump (at_position [9, 1, 2] 3 example_file)) example_region = (bs, R') \<and>
     as_minidump M' = as_minidump (at_position [9, 1, 2] 3 example_file)"
proof -
  have "fst (Region_GetMemory (at_position [9, 1, 2] 3 example_file) example_region) = Some [1, 2]"
    by (simp add: Region_GetMemory_def example_region_def SetDescriptor_def MinidumpMemoryRegion_def SeekSet_def
        stream_seek_def at_position_def Let_def ReadBytes_def stream_read_def max_bytes_def)
  with Region_GetMemory_refines [of "at_position [9, 1, 2] 3 example_file" example_region] show ?thesis
    by (auto split: prod.splits)
qed

section \<open>The list of memory\<close>

definition region_end :: "memory_descriptor \<Rightarrow> nat" where
  "region_end d = unat (start_of_memory_range d) + unat (data_size d)"

definition region_good :: "memory_descriptor \<Rightarrow> bool" where
  "region_good d \<longleftrightarrow> data_size d \<noteq> 0 \<and> region_end d < 2 ^ 64"

definition regions_apart :: "memory_descriptor \<Rightarrow> memory_descriptor \<Rightarrow> bool" where
  "regions_apart d e \<longleftrightarrow> region_end d \<le> unat (start_of_memory_range e) \<or> region_end e \<le> unat (start_of_memory_range d)"

text \<open>The entry of the range map for a region.\<close>

definition region_entry :: "memory_descriptor \<times> nat \<Rightarrow> uint64 \<times> (uint64, nat) rm_range" where
  "region_entry e =
     (start_of_memory_range (fst e) + (ucast (data_size (fst e)) - 1),
      \<lparr>rng_base = start_of_memory_range (fst e), rng_delta = 0, rng_entry = snd e\<rparr>)"

lemma regions_apart_sym: "regions_apart d e \<longleftrightarrow> regions_apart e d"
  by (auto simp: regions_apart_def)

lemma region_good_check:
  "region_good d \<longleftrightarrow> \<not> (data_size d = 0 \<or> ucast (data_size d) > (- 1 :: uint64) - start_of_memory_range d)"
proof -
  have "ucast (data_size d) > (- 1 :: uint64) - start_of_memory_range d \<longleftrightarrow>
      2 ^ 64 - 1 - unat (start_of_memory_range d) < unat (data_size d)"
    unfolding word_less_nat_alt by (simp add: max_minus_word unat_ucast_64)
  then show ?thesis
    using unsigned_less [of "start_of_memory_range d", where 'a=nat] by (auto simp: region_good_def region_end_def)
qed

lemma region_entry_end:
  assumes "region_good d"
  shows "Suc (unat (fst (region_entry (d, i)))) = region_end d"
proof -
  have "data_size d \<noteq> 0" and fits: "region_end d < 2 ^ 64" using assms by (simp_all add: region_good_def)
  then have pos: "0 < unat (data_size d)" by (simp add: unat_gt_0)
  then have one: "unat (ucast (data_size d) - 1 :: uint64) = unat (data_size d) - 1"
    using unat_sub [of 1 "ucast (data_size d) :: uint64"] unat_ucast_64 [of "data_size d"] by (simp add: word_le_nat_alt)
  have "unat (start_of_memory_range d + (ucast (data_size d) - 1)) = unat (start_of_memory_range d) + (unat (data_size d) - 1)"
    using fits pos one by (subst unat_plus_if') (simp_all add: region_end_def)
  then show ?thesis using pos by (simp add: region_entry_def region_end_def)
qed

lemma region_good_span:
  assumes "region_good d"
  shows "good_span (start_of_memory_range d) (ucast (data_size d))"
proof -
  have "ucast (data_size d) \<noteq> (0 :: uint64)" using assms unat_ucast_64 [of "data_size d"]
    by (auto simp: region_good_def simp flip: unat_eq_zero)
  moreover have "unat (start_of_memory_range d) \<le> unat (fst (region_entry (d, i)))" for i
    using region_entry_end [OF assms, of i] assms unat_gt_0 [of "data_size d"] by (simp add: region_good_def region_end_def)
  ultimately show ?thesis by (simp add: good_span_def word_le_nat_alt region_entry_def)
qed

lemma StoreRange_strict_set:
  assumes wf: "rm_wf rm" and off: "\<not> enable_shrink_down rm" and span: "good_span base sz"
    and st: "StoreRange rm base sz entry = (ok, rm')"
  shows "ok \<longleftrightarrow> (\<forall>e \<in> set (rm_map rm). fst e < base \<or> base + (sz - 1) < rng_base (snd e))"
  using st StoreRange_strict [OF wf off span, of entry]
    store_strict_Some_iff [of "rm_map rm" base "base + (sz - 1)" 0 entry] wf span
  by (auto simp: rm_wf_def good_span_def split: option.splits)

lemma region_entries_apart:
  assumes "region_good d" and "region_good e"
  shows "(fst (region_entry (e, j)) < start_of_memory_range d \<or>
      start_of_memory_range d + (ucast (data_size d) - 1) < rng_base (snd (region_entry (e, j)))) \<longleftrightarrow> regions_apart d e"
  using region_entry_end [OF assms(1), of 0] region_entry_end [OF assms(2), of j]
  by (auto simp: regions_apart_def region_entry_def word_less_nat_alt)

text \<open>The loop, with the regions that the range map has already.\<close>

lemma store_regions_correct:
  assumes "rm_wf rm" and "\<not> enable_shrink_down rm" and "set (rm_map rm) = region_entry ` set stored"
    and "\<forall>e \<in> set stored. region_good (fst e)" and "store_regions i ds rm = (ok, Rs, rm')"
  shows "(ok \<longleftrightarrow> (\<forall>d \<in> set ds. region_good d) \<and> sorted_wrt regions_apart ds \<and> (\<forall>d \<in> set ds. \<forall>e \<in> set stored. regions_apart d (fst e))) \<and>
    (ok \<longrightarrow> rm_wf rm' \<and> Rs = map (\<lambda>d. SetDescriptor (Some d) MinidumpMemoryRegion) ds \<and>
       set (rm_map rm') = region_entry ` set (stored @ zip ds [i..<i + length ds]))"
  using assms
proof (induction ds arbitrary: i rm stored ok Rs rm')
  case Nil
  then show ?case by simp
next
  case (Cons d ds)
  show ?case
  proof (cases "region_good d")
    case False
    with Cons.prems(5) region_good_check [of d] show ?thesis by auto
  next
    case True
    obtain added rm1 where st: "StoreRange rm (start_of_memory_range d) (ucast (data_size d)) i = (added, rm1)" by fastforce
    note cases = StoreRange_strict_cases [OF Cons.prems(1,2) st]
    have added: "added \<longleftrightarrow> (\<forall>e \<in> set stored. regions_apart d (fst e))"
    proof -
      have "(fst e < start_of_memory_range d \<or> start_of_memory_range d + (ucast (data_size d) - 1) < rng_base (snd e)) \<longleftrightarrow>
          regions_apart d (fst x)" if "x \<in> set stored" "e = region_entry x" for x e
        using region_entries_apart [OF True, of "fst x" "snd x"] Cons.prems(4) that by simp
      then show ?thesis
        unfolding StoreRange_strict_set [OF Cons.prems(1,2) region_good_span [OF True] st] Cons.prems(3) by blast
    qed
    show ?thesis
    proof (cases added)
      case False
      with st Cons.prems(5) \<open>region_good d\<close> region_good_check [of d] have "\<not> ok" by simp
      with False added show ?thesis by auto
    next
      case True
      let ?stored = "stored @ [(d, i)]"
      obtain Us where rec: "store_regions (Suc i) ds rm1 = (ok, Us, rm')"
        and Rs: "Rs = SetDescriptor (Some d) MinidumpMemoryRegion # Us"
        using Cons.prems(5) st True \<open>region_good d\<close> region_good_check [of d] by (auto split: prod.splits)
      have "set (rm_map rm1) = region_entry ` set ?stored"
        using cases True Cons.prems(3) by (simp add: region_entry_def)
      moreover have "\<forall>e \<in> set ?stored. region_good (fst e)" using Cons.prems(4) \<open>region_good d\<close> by simp
      ultimately have IH: "(ok \<longleftrightarrow> (\<forall>d \<in> set ds. region_good d) \<and> sorted_wrt regions_apart ds \<and>
            (\<forall>d \<in> set ds. \<forall>e \<in> set ?stored. regions_apart d (fst e))) \<and>
          (ok \<longrightarrow> rm_wf rm' \<and> Us = map (\<lambda>d. SetDescriptor (Some d) MinidumpMemoryRegion) ds \<and>
             set (rm_map rm') = region_entry ` set (?stored @ zip ds [Suc i..<Suc i + length ds]))"
        using cases by (intro Cons.IH [OF _ _ _ _ rec]) simp_all
      have "zip (d # ds) [i..<i + length (d # ds)] = (d, i) # zip ds [Suc i..<Suc i + length ds]"
        by (simp add: upt_conv_Cons del: upt_Suc)
      then show ?thesis
        using IH True added \<open>region_good d\<close> Rs regions_apart_sym by auto
    qed
  qed
qed

definition in_region :: "uint64 \<Rightarrow> memory_descriptor \<Rightarrow> bool" where
  "in_region a d \<longleftrightarrow> unat (start_of_memory_range d) \<le> unat a \<and> unat a < region_end d"

lemma covers_region_entry: "region_good d \<Longrightarrow> covers (region_entry (d, i)) a \<longleftrightarrow> in_region a d"
  using region_entry_end [of d i] by (auto simp: covers_def in_region_def region_entry_def word_le_nat_alt)

lemma retrieve_region:
  assumes wf: "rm_wf rm" and set: "set (rm_map rm) = region_entry ` set (zip ds [0..<length ds])"
    and good: "\<forall>d \<in> set ds. region_good d"
  shows "case RetrieveRange rm a of
      None \<Rightarrow> \<forall>d \<in> set ds. \<not> in_region a d
    | Some (i, _) \<Rightarrow> i < length ds \<and> in_region a (ds ! i)"
proof (cases "rm_lookup rm a")
  case None
  then have "\<not> covers (region_entry (ds ! k, k)) a" if "k < length ds" for k
  proof -
    have "(ds ! k, k) \<in> set (zip ds [0..<length ds])" using that by (auto simp: set_zip)
    then show ?thesis using \<open>rm_lookup rm a = None\<close> unfolding rm_lookup_None_iff set by blast
  qed
  then have "\<forall>d \<in> set ds. \<not> in_region a d"
    using good covers_region_entry by (metis in_set_conv_nth)
  then show ?thesis using None by (simp add: RetrieveRange_eq_lookup [OF wf])
next
  case (Some e)
  then have e: "e \<in> set (rm_map rm)" "covers e a" using rm_lookup_iff [OF wf] by blast+
  then obtain k where k: "k < length ds" "e = region_entry (ds ! k, k)" unfolding set by (auto simp: set_zip)
  then have "in_region a (ds ! k)" using e(2) good covers_region_entry by simp
  then show ?thesis using Some k by (simp add: RetrieveRange_eq_lookup [OF wf] range_result_def region_entry_def)
qed

lemma find_region:
  assumes "sorted_wrt regions_apart ds" and "i < length ds" and "in_region a (ds ! i)"
  shows "List.find (in_region a) ds = Some (ds ! i)"
proof -
  have "\<not> in_region a (ds ! j)" if "j < i" for j
    using sorted_wrt_nth_less [OF assms(1) that assms(2)] assms(3) by (auto simp: regions_apart_def in_region_def)
  then show ?thesis unfolding find_Some_iff using assms(2,3) by (intro exI [of _ i]) simp
qed

text \<open>C20: A list of memory is read exactly if its regions are not empty, end within the address space and are
  apart. Then an address is looked up to the region that contains it, and to none if no region does.\<close>

theorem MemoryList_Read_correct:
  assumes "list_image (must_swap M) max_regions (map (encode_memory (must_swap M)) ds) n (take (unat n) (drop p bs))"
  shows "case MemoryList_Read n MinidumpMemoryList (at_position bs p M) of (ok, L, M') \<Rightarrow>
    (ok \<longleftrightarrow> (\<forall>d \<in> set ds. region_good d) \<and> sorted_wrt regions_apart ds) \<and>
    (ok \<longrightarrow> M' = at_position bs (p + unat n) M \<and> unat (region_count L) = length ds \<and>
       (\<forall>a. GetMemoryRegionForAddress a L =
          map_option (\<lambda>d. SetDescriptor (Some d) MinidumpMemoryRegion) (List.find (in_region a) ds)))"
proof -
  let ?bytes = "concat (map (encode_memory (must_swap M)) ds)"
  from assms obtain count pad where image: "unat count = length ds" "count \<le> max_regions" "length pad \<in> {0, 4}"
    "unat n = 4 + length pad + length ?bytes" "take (unat n) (drop p bs) = encode (must_swap M) count @ pad @ ?bytes"
    unfolding list_image_def by auto
  have len: "length ?bytes = 16 * length ds" by (induction ds) simp_all
  have at: "drop p bs = encode (must_swap M) count @ pad @ ?bytes @ drop (unat n) (drop p bs)"
    using image(5) by (metis append.assoc append_take_drop_id)
  have "unat count \<le> 4096" using image(2) by (simp add: max_regions_def word_le_nat_alt)
  then have count: "read_count 16 max_regions n (at_position bs p M) = (Some count, at_position bs (p + 4 + length pad) M)"
    using image len by (intro read_count_at [OF at]) simp_all
  have rest: "drop (p + 4 + length pad) bs = ?bytes @ drop (unat n) (drop p bs)"
    using ReadBytes_front(2) [OF ReadBytes_front(2) [OF at]] by simp
  note read = ReadBytes_front(1) [OF rest, of M, unfolded len]
  have entries: "map (raw_memory_descriptor (must_swap M) 0) (elements 16 (length ds) ?bytes) = ds"
    using elements_concat [of 16 "map (encode_memory (must_swap M)) ds"]
    by (simp add: list_all_iff raw_memory_encode comp_def)
  obtain ok Rs rm where run: "store_regions 0 ds RangeMap_init = (ok, Rs, rm)" by (metis prod_cases3)
  have all: "(ok \<longleftrightarrow> (\<forall>d \<in> set ds. region_good d) \<and> sorted_wrt regions_apart ds) \<and>
      (ok \<longrightarrow> rm_wf rm \<and> Rs = map (\<lambda>d. SetDescriptor (Some d) MinidumpMemoryRegion) ds \<and>
         set (rm_map rm) = region_entry ` set (zip ds [0..<length ds]))"
    using store_regions_correct [of RangeMap_init "[]" 0 ds ok Rs rm] run by (simp add: RangeMap_init_def rm_wf_def)
  have lookup: "GetMemoryRegionForAddress a (MinidumpMemoryList\<lparr>meml_range_map := rm, meml_regions := Rs, region_count := count,
      meml_valid := True\<rparr>) = map_option (\<lambda>d. SetDescriptor (Some d) MinidumpMemoryRegion) (List.find (in_region a) ds)" if ok for a
  proof (cases "RetrieveRange rm a")
    case None
    then have "List.find (in_region a) ds = None" using retrieve_region [of rm ds a] all that by (simp add: find_None_iff)
    with None show ?thesis by (simp add: GetMemoryRegionForAddress_def)
  next
    case (Some r)
    obtain i x where "r = (i, x)" by (cases r)
    with Some retrieve_region [of rm ds a] all that find_region [of ds i a] image(1) show ?thesis
      by (simp add: GetMemoryRegionForAddress_def GetMemoryRegionAtIndex_def)
  qed
  have init: "MinidumpMemoryList\<lparr>meml_valid := False, meml_range_map := Clear (meml_range_map MinidumpMemoryList),
      meml_regions := [], region_count := 0\<rparr> = MinidumpMemoryList"
    by (simp add: MinidumpMemoryList_def Clear_def RangeMap_init_def)
  show ?thesis
  proof (cases "count = 0")
    case True
    then show ?thesis
      using image(1,4) count by (auto simp: MemoryList_Read_def Let_def GetMemoryRegionForAddress_def add.assoc
        MinidumpMemoryList_def Clear_def RangeMap_init_def RetrieveRange_def lower_bound_def)
  next
    case False
    then have "MemoryList_Read n MinidumpMemoryList (at_position bs p M) =
        (if ok then (True, MinidumpMemoryList\<lparr>meml_range_map := rm, meml_regions := Rs, region_count := count, meml_valid := True\<rparr>,
           at_position bs (p + 4 + length pad + 16 * length ds) M)
         else (False, MinidumpMemoryList\<lparr>meml_range_map := rm\<rparr>, at_position bs (p + 4 + length pad + 16 * length ds) M))"
      using count run image(1) read entries
      by (simp add: MemoryList_Read_def Let_def init split: bool.split) (simp add: MinidumpMemoryList_def)
    then show ?thesis
      using all lookup image(1,4) len by (simp add: add.assoc)
  qed
qed

definition example_regions :: "memory_descriptor list" where
  "example_regions = [\<lparr>start_of_memory_range = 0x7000, data_size = 0x1000, rva = 0x200\<rparr>,
     \<lparr>start_of_memory_range = 0x6fff, data_size = 1, rva = 0x1200\<rparr>]"

definition example_memory :: bytes where
  "example_memory = encode True (2 :: uint32) @ concat (map (encode_memory True) example_regions)"

theorem MemoryList_Read_correct_witness:
  "case MemoryList_Read 36 MinidumpMemoryList (at_position example_memory 0 example_file) of (ok, L, M') \<Rightarrow>
     ok \<and> GetMemoryRegionForAddress 0x6fff L = Some (SetDescriptor (Some (example_regions ! 1)) MinidumpMemoryRegion) \<and>
     GetMemoryRegionForAddress 0x8000 L = None"
proof -
  have "list_image True max_regions (map (encode_memory True) example_regions) 36 (take (unat (36 :: uint32)) (drop 0 example_memory))"
    unfolding list_image_def
    by (intro exI [of _ "2 :: uint32"] exI [of _ "[]"]) (simp add: max_regions_def example_regions_def example_memory_def)
  moreover have "\<forall>d \<in> set example_regions. region_good d" "sorted_wrt regions_apart example_regions"
    "List.find (in_region 0x6fff) example_regions = Some (example_regions ! 1)" "List.find (in_region 0x8000) example_regions = None"
    by (simp_all add: example_regions_def region_good_def region_end_def regions_apart_def in_region_def)
  ultimately show ?thesis
    using MemoryList_Read_correct [of example_file example_regions 36 0 example_memory] must_swap_example by auto
qed

section \<open>The exception and the contexts\<close>

text \<open>Every context that a thread or the exception gives is valid and well typed, and none goes wrong.\<close>

lemma read_context_safe:
  "\<exists>D M'. read_context l M = Some (D, M') \<and> dump_after M M' \<and> (\<forall>c. D = Some c \<longrightarrow> ctx_valid c \<and> well_typed c)"
proof -
  obtain sought M1 where seek: "SeekSet (uint (loc_rva l)) M = (sought, M1)" by fastforce
  obtain ok D' M2 where read: "Read_by_size (unat (loc_size l)) DumpContext M1 = (ok, D', M2)" by (metis prod_cases3)
  have "dump_after M M1" using SeekSet_result_after [OF seek] .
  moreover have "dump_after M1 M2" "ok \<Longrightarrow> well_typed (D'\<lparr>ctx_valid := True\<rparr>)"
    using Read_by_size_ok [of M1 "unat (loc_size l)"] read by (simp_all add: read_ok_def)
  ultimately show ?thesis
    using seek read dump_after_trans [of M M1 M2]
    by (cases sought) (auto simp: read_context_def MinidumpContext_Read_by_size)
qed

lemma Thread_GetContext_safe:
  assumes "\<forall>c. thr_context T = Some c \<longrightarrow> ctx_valid c \<and> well_typed c"
  shows "\<exists>D T' M'. Thread_GetContext T M = Some (D, T', M') \<and> dump_after M M' \<and> (\<forall>c. D = Some c \<longrightarrow> ctx_valid c \<and> well_typed c)"
  using assms read_context_safe [of "thread_context (thr_raw T)" M]
  by (auto simp: Thread_GetContext_def split: option.split)

lemma Exception_GetContext_safe:
  assumes "\<forall>c. exc_context X = Some c \<longrightarrow> ctx_valid c \<and> well_typed c"
  shows "\<exists>D X' M'. Exception_GetContext X M = Some (D, X', M') \<and> dump_after M M' \<and> (\<forall>c. D = Some c \<longrightarrow> ctx_valid c \<and> well_typed c)"
  using assms read_context_safe [of "exc_thread_context (exc_raw X)" M]
  by (auto simp: Exception_GetContext_def split: option.split)

definition encode_exception :: "bool \<Rightarrow> raw_exception \<Rightarrow> bytes" where
  "encode_exception sw x =
     encode sw (exc_thread_id x) @ replicate 4 0 @ encode sw (exception_code x) @ encode sw (exception_flags x) @
     encode sw (exception_record x) @ encode sw (exception_address x) @ encode sw (number_parameters x) @ replicate 4 0 @
     concat (map (encode sw) (exception_information x)) @ encode_location sw (exc_thread_context x)"

lemma length_encode_words: "length (concat (map (encode sw) (ws :: uint64 list))) = 8 * length ws"
  by (induction ws) simp_all

lemma load_encoded_word:
  "i < length ws \<Longrightarrow> swap_if64 sw (load_field (8 * i) (concat (map (encode sw) ws) @ rest)) = ws ! i"
proof (induction ws arbitrary: i)
  case (Cons w ws)
  show ?case
  proof (cases i)
    case 0
    then show ?thesis by (simp add: decode_simps)
  next
    case (Suc j)
    then have "(load_field (8 * i) (encode sw w @ concat (map (encode sw) ws) @ rest) :: uint64) =
        load_field (8 * j) (concat (map (encode sw) ws) @ rest)"
      by (subst load_field_skip) simp_all
    then show ?thesis using Cons Suc by simp
  qed
qed simp

lemma Exception_Read_at:
  assumes "length (exception_information x) = 15" and "drop p bs = encode_exception (must_swap M) x @ rest"
  shows "Exception_Read 168 X (at_position bs p M) =
    (True, X\<lparr>exc_context := None, exc_valid := True, exc_raw := x\<rparr>, at_position bs (p + 168) M)"
proof -
  let ?sw = "must_swap M" and ?e = "encode_exception (must_swap M) x"
  have len: "length ?e = 168" using assms(1) by (simp add: encode_exception_def length_encode_words)
  have "swap_if64 ?sw (load_field (40 + 8 * i) ?e) = exception_information x ! i" if "i < 15" for i
    using that assms(1) load_encoded_word [of i "exception_information x" ?sw "encode_location ?sw (exc_thread_context x)"]
    by (simp add: encode_exception_def load_field_skip)
  then have "map (\<lambda>i. swap_if64 ?sw (load_field (40 + 8 * i) ?e)) [0..<15] = exception_information x"
    using assms(1) by (intro nth_equalityI) simp_all
  moreover have "raw_location ?sw 160 ?e = exc_thread_context x"
    using assms(1) length_encode_words [of ?sw "exception_information x"]
    by (simp add: encode_exception_def raw_location_def encode_location_def decode_simps)
  ultimately have "read_raw_exception ?sw ?e = x"
    by (simp add: read_raw_exception_def) (simp add: encode_exception_def decode_simps)
  then show ?thesis
    using ReadBytes_front(1) [OF assms(2), of M] by (simp add: Exception_Read_def Let_def len)
qed

section \<open>The cache of streams\<close>

lemma ReadBytes_result_after: "ReadBytes n M = (r, M') \<Longrightarrow> dump_after M M'"
  by (rule after_results(1))

lemma read_count_after: "read_count k limit n M = (r, M') \<Longrightarrow> dump_after M M'"
  by (auto simp: read_count_def Let_def split: prod.splits option.splits if_splits
    dest!: ReadBytes_result_after intro: dump_after_trans)

lemma MinidumpThread_Read_after: "MinidumpThread_Read T M = (ok, T', M') \<Longrightarrow> dump_after M M'"
  by (auto simp: MinidumpThread_Read_def Let_def split: prod.splits option.splits dest!: ReadBytes_result_after)

lemma read_threads_after: "read_threads i n L M = (ok, Ts, L', M') \<Longrightarrow> dump_after M M'"
proof (induction n arbitrary: i L M ok Ts)
  case (Suc n)
  obtain read T M1 where T: "MinidumpThread_Read MinidumpThread M = (read, T, M1)" by (metis prod_cases3)
  show ?case
    using Suc.prems MinidumpThread_Read_after [OF T] dump_after_trans [of M M1 M']
    by (auto simp: T dest: Suc.IH split: bool.splits prod.splits if_splits)
qed simp

lemma ThreadList_Read_after: "ThreadList_Read n L M = (ok, L', M') \<Longrightarrow> dump_after M M'"
  by (auto simp: ThreadList_Read_def Let_def split: prod.splits option.splits bool.splits if_splits
    dest!: read_count_after read_threads_after intro: dump_after_trans)

lemma MemoryList_Read_after: "MemoryList_Read n L M = (ok, L', M') \<Longrightarrow> dump_after M M'"
  by (auto simp: MemoryList_Read_def Let_def split: prod.splits option.splits bool.splits if_splits
    dest!: read_count_after ReadBytes_result_after intro: dump_after_trans)

lemma Exception_Read_after: "Exception_Read n X M = (ok, X', M') \<Longrightarrow> dump_after M M'"
  by (auto simp: Exception_Read_def Let_def split: prod.splits option.splits if_splits dest!: ReadBytes_result_after)

text \<open>A stream that was found is found again, in every later state and without reading the file.\<close>

lemma GetStream_found:
  assumes "GetStream t read M = (Some found, M')"
  shows "\<exists>info. stream_map M' t = Some info \<and> info_stream info = Some found"
  using assms by (auto simp: GetStream_def split: if_splits option.splits prod.splits)

lemma GetStream_again:
  assumes "GetStream t read M = (Some found, M1)" and "dump_after M1 M2" and "\<And>n M. dump_after M (snd (read n M))"
  shows "GetStream t read M2 = (Some found, M2)"
proof -
  from GetStream_found [OF assms(1)] obtain info where "stream_map M1 t = Some info" "info_stream info = Some found" by blast
  moreover have "same_entry (stream_map M1 t) (stream_map M2 t)" using assms(2) by (simp add: dump_after_def)
  ultimately obtain info' where "stream_map M2 t = Some info'" "info_stream info' = Some found"
    by (auto simp: same_entry_def)
  moreover have "dump_valid M" using assms(1) by (auto simp: GetStream_def split: if_splits)
  then have "dump_valid M2"
    using GetStream_after [of read M t] assms by (simp add: dump_after_def)
  ultimately show ?thesis by (simp add: GetStream_def)
qed

lemma GetThreadList_again:
  assumes "GetThreadList M = (Some L, M1)" and "dump_after M1 M2"
  shows "GetThreadList M2 = (Some L, M2)"
proof -
  let ?read = "\<lambda>n M. case ThreadList_Read n MinidumpThreadList M of (ok, L, M) \<Rightarrow> (if ok then Some (ThreadListStream L) else None, M)"
  have "dump_after M (snd (?read n M))" for n M by (auto dest: ThreadList_Read_after split: prod.split)
  moreover have "GetStream MD_THREAD_LIST_STREAM ?read M = (Some (ThreadListStream L), M1)"
    using assms(1) by (auto simp: GetThreadList_def split: prod.splits option.splits dump_stream.splits)
  ultimately show ?thesis using GetStream_again [OF _ assms(2)] by (simp add: GetThreadList_def)
qed

lemma GetMemoryList_again:
  assumes "GetMemoryList M = (Some L, M1)" and "dump_after M1 M2"
  shows "GetMemoryList M2 = (Some L, M2)"
proof -
  let ?read = "\<lambda>n M. case MemoryList_Read n MinidumpMemoryList M of (ok, L, M) \<Rightarrow> (if ok then Some (MemoryListStream L) else None, M)"
  have "dump_after M (snd (?read n M))" for n M by (auto dest: MemoryList_Read_after split: prod.split)
  moreover have "GetStream MD_MEMORY_LIST_STREAM ?read M = (Some (MemoryListStream L), M1)"
    using assms(1) by (auto simp: GetMemoryList_def split: prod.splits option.splits dump_stream.splits)
  ultimately show ?thesis using GetStream_again [OF _ assms(2)] by (simp add: GetMemoryList_def)
qed

lemma GetException_again:
  assumes "GetException M = (Some X, M1)" and "dump_after M1 M2"
  shows "GetException M2 = (Some X, M2)"
proof -
  let ?read = "\<lambda>n M. case Exception_Read n MinidumpException M of (ok, X, M) \<Rightarrow> (if ok then Some (ExceptionStream X) else None, M)"
  have "dump_after M (snd (?read n M))" for n M by (auto dest: Exception_Read_after split: prod.split)
  moreover have "GetStream MD_EXCEPTION_STREAM ?read M = (Some (ExceptionStream X), M1)"
    using assms(1) by (auto simp: GetException_def split: prod.splits option.splits dump_stream.splits)
  ultimately show ?thesis using GetStream_again [OF _ assms(2)] by (simp add: GetException_def)
qed

end
