(* ===== verification/Spec2Isabelle.thy ===== *)
theory Spec2Isabelle
  imports Range_Map Contained_Range_Map Address_Map CFI_Frame_Info Symbol_Parser Basic_Resolver Loaded_Module
    Code_Modules Resolver_Conversion Stackwalker_For_CPU Minidump_Streams
begin

text \<open>
  A verification of the crash processor of Breakpad, the part of this repository that is written in
  C++ (src/app/breakpad/src; all paths below are relative to it).

  The program. The processor reads a minidump, the snapshot of a crashed process, walks the stack of
  each thread, and turns the addresses it finds into functions and source lines with the help of
  symbol files. A dump gives the bytes of the stacks, the registers of each thread and the list of
  modules. The stack walker of the CPU recovers the frames one after another. For each frame it asks
  the symbolizer, which finds the module of the address, has the symbol supplier locate its symbol
  file, loads that into a source line resolver and asks the resolver for the function, for the line
  and for the rules by which the registers of the caller are computed. A resolver keeps parsed symbol
  files, either as the trees that the parser builds (the basic resolver) or as one block of bytes
  that is searched in place (the fast resolver); the serializer turns the former into the latter.

  Maps of addresses. \<open>BP_Prelude\<close> has the types of machine integers and general lemmas, \<open>Std_Map\<close>
  the ordered map of the standard library with the locales \<open>key_search\<close> and \<open>interval_search\<close>.
  \<open>Range_Map\<close> (processor/range_map-inl.h), \<open>Contained_Range_Map\<close> (contained_range_map-inl.h) and
  \<open>Address_Map\<close> (address_map-inl.h) have one definition for each method and show which stores succeed,
  what every lookup returns afterwards, and that ranges stay disjoint or nested.

  Rules and evaluators. \<open>C_Library\<close> models the functions of the C library that the parsers call.
  \<open>Postfix_Evaluator\<close> (postfix_evaluator-inl.h) evaluates a postfix text as the expression tree it
  was printed from; undefined operations are the outcome \<open>Crash\<close>. \<open>CFI_Frame_Info\<close>
  (cfi_frame_info.cc) has the rules of call frame information, their parser and their printer, with
  the round trip, and which registers of the caller they give.

  Symbol files. \<open>Symbol_Parser\<close> (\<open>SymbolParseHelper\<close>, tokenize.cc) parses a record, \<open>Basic_Resolver\<close>
  (basic_source_line_resolver.cc) a file and answers the queries. Loading a text of records is the
  effect of its records on an abstract module; every module that loads satisfies an invariant.

  Blocks of bytes. \<open>Memory\<close> is the flat memory, little endian, with null-terminated strings.
  \<open>Static_Map\<close> and \<open>Static_Lookup\<close> (static_map-inl.h, static_range_map-inl.h and the other static
  maps) search in such a block, \<open>Serializers\<close> (simple_serializer-inl.h, map_serializers-inl.h) write
  it under the locale \<open>serializer\<close>, \<open>Module_Serializer\<close> (module_serializer.cc) writes a module.
  \<open>Fast_Resolver\<close> (fast_source_line_resolver.cc) shows that a block that holds the image of a module
  answers every query as the module does, \<open>Loaded_Module\<close> that this holds from the text on.

  Resolvers. \<open>Heap\<close> has the blocks that \<open>new\<close> hands out. \<open>Resolver_Base\<close>
  (source_line_resolver_base.cc) is the registry of modules with the buffers it owns, a step relation
  over its operations and the locale \<open>module_contract\<close>, which \<open>Resolver_Classes\<close> interprets for both
  kinds of module: in no reachable state a dead buffer is read. \<open>Resolver_Conversion\<close> converts the
  modules of a basic resolver for a fast one.

  Modules and symbols. \<open>Code_Modules\<close> (basic_code_modules.cc), \<open>Symbol_Supplier\<close>
  (simple_symbol_supplier.cc, pathname_stripper.cc) and \<open>Frame_Symbolizer\<close>
  (stack_frame_symbolizer.cc), whose answers do not depend on what was asked before.

  Walkers. \<open>Memory_Region\<close> is the stack memory as the walkers see it, with the locale
  \<open>bounded_memory\<close>. \<open>Stackwalker\<close> (stackwalker.cc, stackwalker.h) has the loop and the scan for return
  addresses; \<open>Stackwalker_AMD64\<close>, \<open>Stackwalker_X86\<close>, \<open>Stackwalker_ARM\<close> (32 and 64 bits),
  \<open>Stackwalker_PPC\<close> (with PPC64 and SPARC) and \<open>Stackwalker_MIPS\<close> have the recovery of a caller for
  each CPU. The locales \<open>frame_answers\<close>, \<open>walk_environment\<close>, \<open>cpu_walk\<close>, \<open>register_walk\<close> and
  \<open>chain_walk\<close> say what a walker must satisfy for its walk to end and to be independent of the history
  of the symbolizer. \<open>Dump_Context\<close> (dump_context.cc) is the union of the registers of all CPUs and
  \<open>Stackwalker_For_CPU\<close> the choice of the walker, with the theorem that every walk ends.

  Minidumps. \<open>Minidump_Data\<close> (the head of minidump.cc) has the swapping of bytes and the conversion of
  UTF-16, \<open>Minidump_File\<close> the classes \<open>Minidump\<close> and \<open>MinidumpSystemInfo\<close>: opening, the directory of
  streams, seeking, reading and the cache of streams. \<open>Minidump_Context\<close> reads the registers of each
  CPU, \<open>Minidump_Streams\<close> the threads, the memory and the exception. What was written in either byte
  order is read back; reading a region from the file refines what the walkers rely on; \<open>dump_after\<close> is
  what every operation leaves alone, and a read that comes too short is final.

  How the code is modelled. A class is a record, an enumeration or a union a datatype, an integer a
  word of its width; the state is passed on and returned. A pointer that may be null is an option. A
  Boolean result with an out parameter is an option, or a pair where the parameter is written in any
  case. A \<open>std::map\<close> is an association list in the order of its keys; where only the lookups matter it
  is a function. What is undefined behaviour in C++ (a division by zero, a read through a null pointer
  or the wrong member of a union, a failed assertion) is \<open>Crash\<close> or an outer None, so that its absence
  is a theorem. Modules are compared by their fields. Logging is left out.

  Loops. Recursion over data is structural. Seven loops may run forever on bad data and are partial
  functions into an option, where None is not to return: reading a string (\<open>load_string\<close>), the
  descent in a static map of nested ranges (\<open>scrm_RetrieveRange\<close>), the deltas of call frame
  information in a block (\<open>fast_apply_deltas\<close>), the scan for a return address (\<open>scan_loop\<close>,
  \<open>mips_scan_loop\<close> and \<open>find_saved_ebp\<close>) and the walk itself (\<open>walk_loop\<close>). That they return is
  proved where the code is used: on images that the serializer wrote, on memory that is bounded, and
  under the limit on the number of frames. No fuel is used.

  What is assumed. The host is little endian and \<open>size_t\<close> has 64 bits. The allocator and the file
  system are parameters; a theorem that needs an allocation to succeed or a file to stay the same says
  so. A file is the sequence of its bytes, and seeking past its end succeeds, as it does for
  \<open>ifstream\<close>.

  Not modelled. Of minidump.cc the lists of modules and their debug records and the streams that
  walking does not use; all printing. \<open>MinidumpProcessor\<close> and the process state, which call the parts
  above for each thread and translate crash reasons by tables; microdumps, the textual variant;
  exploitability, which rests on a vendored disassembler; the tables of symbolic constants. The
  readers of DWARF and stabs and the writers of symbol files under common/, the crash clients under
  client/, whose work is signals and system calls, the tools, the tests, the third party code, and the
  Android application in Java.
\<close>

end
